(* ===== verification/Prelude.thy ===== *)
theory Prelude
  imports Complex_Main "HOL-Library.Multiset"
begin

text \<open>
  Shared vocabulary of the development: the lemma collections of the components, the
  operations of the C++ standard library the sources use on vectors and strings (a
  \<open>std::string\<close> is a list of bytes, positions are \<open>nat\<close>, \<open>npos\<close> is \<open>None\<close>), and the
  generic facts on lists, options and multisets that several components share.
\<close>

section \<open>Lemma collections\<close>

named_theorems slot_simps \<open>field equations of the slot manager's operations\<close>
named_theorems eng_simps \<open>field equations of the engine's helper operations\<close>
named_theorems inv_intros \<open>preservation of the component invariants\<close>
named_theorems srv_simps \<open>equations of the protocol handlers\<close>

section \<open>Vectors\<close>

text \<open>
  \<open>std::vector::resize(n)\<close> truncates or pads with value-initialised elements;
  \<open>vec_write w xs\<close> is a buffer \<open>xs\<close> after a callee stored \<open>w\<close> at its start.
\<close>

definition vec_resize :: "'a \<Rightarrow> nat \<Rightarrow> 'a list \<Rightarrow> 'a list" where
  "vec_resize d n xs = take n xs @ replicate (n - length xs) d"

definition vec_write :: "'a list \<Rightarrow> 'a list \<Rightarrow> 'a list" where
  "vec_write w xs = take (length xs) w @ drop (length w) xs"

lemma length_vec_resize [simp]: "length (vec_resize d n xs) = n"
  by (simp add: vec_resize_def)

lemma length_vec_write [simp]: "length (vec_write w xs) = length xs"
  by (simp add: vec_write_def min_def)

lemma vec_resize_write:
  "n \<le> length w \<Longrightarrow> length w \<le> length xs \<Longrightarrow> vec_resize d n (vec_write w xs) = take n w"
  by (simp add: vec_resize_def vec_write_def)

section \<open>Strings\<close>

definition nl :: string where
  "nl = [CHR 0x0A]"

definition starts_with :: "string \<Rightarrow> string \<Rightarrow> bool" where
  "starts_with s p \<longleftrightarrow> take (length p) s = p"

fun first_match :: "string \<Rightarrow> string \<Rightarrow> nat option" where
  "first_match p [] = (if p = [] then Some 0 else None)"
| "first_match p (c # s) =
     (if starts_with (c # s) p then Some 0 else map_option Suc (first_match p s))"

fun first_pos :: "(char \<Rightarrow> bool) \<Rightarrow> string \<Rightarrow> nat option" where
  "first_pos P [] = None"
| "first_pos P (c # s) = (if P c then Some 0 else map_option Suc (first_pos P s))"

text \<open>\<open>s.find(p, pos)\<close>, \<open>s.find_first_of(cs, pos)\<close>, \<open>s.rfind(c)\<close>, \<open>s.substr(pos, n)\<close>.\<close>

definition str_find :: "string \<Rightarrow> string \<Rightarrow> nat \<Rightarrow> nat option" where
  "str_find s p pos =
     (if pos \<le> length s then map_option (\<lambda>i. pos + i) (first_match p (drop pos s)) else None)"

definition find_first_of :: "string \<Rightarrow> string \<Rightarrow> nat \<Rightarrow> nat option" where
  "find_first_of s cs pos = map_option (\<lambda>i. pos + i) (first_pos (\<lambda>c. c \<in> set cs) (drop pos s))"

definition rfind_char :: "string \<Rightarrow> char \<Rightarrow> nat option" where
  "rfind_char s c = map_option (\<lambda>i. length s - Suc i) (first_pos (\<lambda>d. d = c) (rev s))"

definition substr :: "string \<Rightarrow> nat \<Rightarrow> nat \<Rightarrow> string" where
  "substr s pos n = take n (drop pos s)"

text \<open>What \<open>s.c_str()\<close> denotes as a C string.\<close>

definition c_str :: "string \<Rightarrow> string" where
  "c_str s = takeWhile (\<lambda>c. c \<noteq> CHR 0x00) s"

lemma starts_with_append [simp]: "starts_with (p @ s) p"
  by (simp add: starts_with_def)

lemma starts_with_iff: "starts_with s p \<longleftrightarrow> (\<exists>t. s = p @ t)"
  unfolding starts_with_def by (metis append_eq_conv_conj append_take_drop_id)

lemma starts_with_Cons [simp]:
  "starts_with (a # s) (b # p) \<longleftrightarrow> a = b \<and> starts_with s p"
  by (auto simp: starts_with_def)

lemma starts_with_Nil [simp]: "starts_with s []"
  by (simp add: starts_with_def)

lemma starts_with_short [simp]: "starts_with [] (b # p) = False"
  by (simp add: starts_with_def)

lemma first_pos_None_iff: "first_pos P s = None \<longleftrightarrow> (\<forall>c \<in> set s. \<not> P c)"
  by (induction s) auto

lemma first_pos_Some:
  "first_pos P s = Some i \<Longrightarrow> i < length s \<and> P (s ! i) \<and> (\<forall>j < i. \<not> P (s ! j))"
proof (induction s arbitrary: i)
  case Nil
  then show ?case by simp
next
  case (Cons c s)
  show ?case
  proof (cases "P c")
    case True
    with Cons.prems show ?thesis by simp
  next
    case False
    with Cons.prems obtain j where j: "first_pos P s = Some j" "i = Suc j" by auto
    from Cons.IH [OF j(1)] False j(2) show ?thesis
      by (auto simp: nth_Cons split: nat.splits)
  qed
qed

lemma first_pos_append:
  "\<forall>c \<in> set s. \<not> P c \<Longrightarrow> first_pos P (s @ t) = map_option (\<lambda>i. length s + i) (first_pos P t)"
  by (induction s) (cases "first_pos P t"; auto)+

text \<open>Decimal digits of an unsigned number, as \<open>std::to_string\<close> prints them.\<close>

definition digit_char :: "nat \<Rightarrow> char" where
  "digit_char d = char_of (48 + d)"

fun to_dec :: "nat \<Rightarrow> string" where
  "to_dec n = (if n < 10 then [digit_char n] else to_dec (n div 10) @ [digit_char (n mod 10)])"

declare to_dec.simps [simp del]

text \<open>\<open>isspace\<close> in the C locale.\<close>

definition is_space_c :: "char \<Rightarrow> bool" where
  "is_space_c c \<longleftrightarrow> c \<in> {CHR '' '', CHR 0x09, CHR 0x0A, CHR 0x0B, CHR 0x0C, CHR 0x0D}"

definition is_digit_c :: "char \<Rightarrow> bool" where
  "is_digit_c c \<longleftrightarrow> 48 \<le> (of_char c :: nat) \<and> (of_char c :: nat) \<le> 57"

definition digit_val :: "char \<Rightarrow> nat" where
  "digit_val c = of_char c - 48"

definition of_dec :: "string \<Rightarrow> nat" where
  "of_dec s = foldl (\<lambda>a c. 10 * a + digit_val c) 0 s"

lemma of_char_digit_char [simp]: "d < 10 \<Longrightarrow> (of_char (digit_char d) :: nat) = 48 + d"
  by (simp add: digit_char_def)

lemma is_digit_digit_char [simp]: "d < 10 \<Longrightarrow> is_digit_c (digit_char d)"
  by (simp add: is_digit_c_def)

lemma digit_val_digit_char [simp]: "d < 10 \<Longrightarrow> digit_val (digit_char d) = d"
  by (simp add: digit_val_def)

lemma of_dec_snoc [simp]: "of_dec (s @ [c]) = 10 * of_dec s + digit_val c"
  by (simp add: of_dec_def)

lemma of_dec_single [simp]: "of_dec [c] = digit_val c"
  by (simp add: of_dec_def)

lemma to_dec_nonempty [simp]: "to_dec n \<noteq> []"
  by (subst to_dec.simps) simp

lemma to_dec_digits: "\<forall>c \<in> set (to_dec n). is_digit_c c"
proof (induction n rule: to_dec.induct)
  case (1 n)
  then show ?case by (subst to_dec.simps) auto
qed

lemma of_dec_to_dec [simp]: "of_dec (to_dec n) = n"
proof (induction n rule: to_dec.induct)
  case (1 n)
  then show ?case by (subst to_dec.simps) auto
qed

lemma to_dec_inj: "to_dec a = to_dec b \<Longrightarrow> a = b"
  by (metis of_dec_to_dec)

section \<open>Lists and multisets\<close>

lemma count_filter_update_True:
  "i < length xs \<Longrightarrow> \<not> P (xs ! i) \<Longrightarrow> P y \<Longrightarrow>
     length (filter P (xs[i := y])) = Suc (length (filter P xs))"
proof (induction xs arbitrary: i)
  case (Cons a xs)
  then show ?case by (cases i) auto
qed simp

lemma count_filter_update_False:
  "i < length xs \<Longrightarrow> P (xs ! i) \<Longrightarrow> \<not> P y \<Longrightarrow>
     Suc (length (filter P (xs[i := y]))) = length (filter P xs)"
proof (induction xs arbitrary: i)
  case (Cons a xs)
  then show ?case by (cases i) auto
qed simp

lemma count_filter_update_same:
  "i < length xs \<Longrightarrow> P (xs ! i) = P y \<Longrightarrow> length (filter P (xs[i := y])) = length (filter P xs)"
proof (induction xs arbitrary: i)
  case (Cons a xs)
  then show ?case by (cases i) auto
qed simp

text \<open>Summing a weight over the elements of a list, with one of them replaced.\<close>

definition weigh :: "('a \<Rightarrow> 'b::ab_group_add) \<Rightarrow> 'a list \<Rightarrow> 'b" where
  "weigh f xs = sum_list (map f xs)"

lemma weigh_Nil [simp]: "weigh f [] = 0"
  by (simp add: weigh_def)

lemma weigh_Cons [simp]: "weigh f (x # xs) = f x + weigh f xs"
  by (simp add: weigh_def)

lemma weigh_append [simp]: "weigh f (xs @ ys) = weigh f xs + weigh f ys"
  by (simp add: weigh_def)

lemma weigh_update:
  "i < length xs \<Longrightarrow> weigh f (xs[i := y]) = weigh f xs - f (xs ! i) + f y"
proof (induction xs arbitrary: i)
  case (Cons a xs)
  then show ?case by (cases i) (auto simp: algebra_simps)
qed simp

text \<open>The multiset of the optional labels of a list.\<close>

definition labels :: "('a \<Rightarrow> 'b option) \<Rightarrow> 'a list \<Rightarrow> 'b multiset" where
  "labels f xs = mset (List.map_filter f xs)"

lemma labels_Nil [simp]: "labels f [] = {#}"
  by (simp add: labels_def map_filter_simps)

lemma labels_Cons [simp]:
  "labels f (x # xs) = (case f x of None \<Rightarrow> {#} | Some b \<Rightarrow> {#b#}) + labels f xs"
  by (simp add: labels_def map_filter_simps split: option.splits)

lemma labels_append [simp]: "labels f (xs @ ys) = labels f xs + labels f ys"
  by (induction xs) (auto simp: add.assoc)

lemma labels_update:
  "i < length xs \<Longrightarrow>
     labels f (xs[i := y]) + (case f (xs ! i) of None \<Rightarrow> {#} | Some b \<Rightarrow> {#b#})
       = labels f xs + (case f y of None \<Rightarrow> {#} | Some b \<Rightarrow> {#b#})"
proof (induction xs arbitrary: i)
  case (Cons a xs)
  show ?case
  proof (cases i)
    case 0
    then show ?thesis by (simp add: ac_simps)
  next
    case (Suc j)
    with Cons show ?thesis by (simp add: ac_simps)
  qed
qed simp

end
