(* ===== verification/Requests.thy ===== *)
theory Requests
  imports Prelude "HOL-Library.Word"
begin

text \<open>
  The request record of \<open>include/request.h\<close> and the ids and clocks it carries.
  Times are the tick counts of \<open>std::chrono\<close>: a steady time point is a number of
  nanoseconds, a deadline a number of milliseconds. The completion callback is the
  identity of the promise it fulfils: both servers install exactly one such callback
  (\<open>None\<close> is an empty \<open>std::function\<close>).
\<close>

datatype priority = Low | Normal | High

type_synonym promise_id = nat

record request =
  req_id :: "64 word"
  tenant_id :: string
  payload :: string
  prio :: priority
  enqueue_time :: int
  deadline :: int
  max_new_tokens :: int
  on_complete :: "promise_id option"

text \<open>\<open>Request request = {}\<close>: every member value-initialised.\<close>

definition empty_request :: request where
  "empty_request =
     \<lparr>req_id = 0, tenant_id = [], payload = [], prio = Low, enqueue_time = 0, deadline = 0,
      max_new_tokens = 0, on_complete = None\<rparr>"

text \<open>
  \<open>now > req.enqueue_time + req.deadline\<close>: the sum is taken in nanoseconds, the common
  type of the two durations.
\<close>

definition expiry :: "request \<Rightarrow> int" where
  "expiry r = enqueue_time r + deadline r * 1000000"

definition expired :: "int \<Rightarrow> request \<Rightarrow> bool" where
  "expired now r \<longleftrightarrow> now > expiry r"

lemma expired_mono: "expired t r \<Longrightarrow> t \<le> t' \<Longrightarrow> expired t' r"
  by (simp add: expired_def)

text \<open>\<open>parse_priority\<close> of \<open>server.cpp\<close>: anything but \<open>high\<close> and \<open>low\<close> is normal.\<close>

definition parse_priority :: "string \<Rightarrow> priority" where
  "parse_priority s = (if s = ''high'' then High else if s = ''low'' then Low else Normal)"

text \<open>
  The steady clock and the sum are 64-bit: for the deadlines an \<open>int\<close> can hold and any
  clock below 2^62 ns (146 years of uptime) the machine sum is the mathematical one.
\<close>

lemma expiry_in_range:
  assumes "0 \<le> enqueue_time r" "enqueue_time r < 2 ^ 62" "- (2 ^ 31) \<le> deadline r" "deadline r < 2 ^ 31"
  shows "- (2 ^ 63) \<le> expiry r" "expiry r < 2 ^ 63"
  using assms by (simp_all add: expiry_def)

end
