(* ===== verification/Kv_Slots.thy ===== *)
theory Kv_Slots
  imports Requests
begin

text \<open>
  The KV slot manager (\<open>include/kv_slot_manager.h\<close>, \<open>src/kv_slot_manager.cpp\<close>): a fixed
  pool of slots, one per concurrent sequence, whose index is the sequence id the model
  library sees. The interface \<open>slot_pool\<close> is what the engine relies on; the
  interpretation \<open>kvp\<close> proves it for the manager.
\<close>

section \<open>State\<close>

record slot =
  occupied :: bool
  slot_req :: request
  kv_pos :: int
  last_token :: int

definition empty_slot :: slot where
  "empty_slot = \<lparr>occupied = False, slot_req = empty_request, kv_pos = 0, last_token = - 1\<rparr>"

record kv_mgr =
  max_slots :: int
  slots :: "slot list"
  free_count :: int

text \<open>
  The constructor. \<open>std::vector(n)\<close> with a negative \<open>int\<close> asks for a huge vector and
  throws \<open>std::length_error\<close>: \<open>None\<close>.
\<close>

definition kv_new :: "int \<Rightarrow> kv_mgr option" where
  "kv_new n =
     (if n < 0 then None
      else Some \<lparr>max_slots = n, slots = replicate (nat n) empty_slot, free_count = n\<rparr>)"

section \<open>Operations\<close>

function acquire_from :: "nat \<Rightarrow> request \<Rightarrow> kv_mgr \<Rightarrow> int \<times> kv_mgr" where
  "acquire_from i r m =
     (if int i < max_slots m then
        (if \<not> occupied (slots m ! i) then
           (int i,
            m\<lparr>slots := (slots m)[i := \<lparr>occupied = True, slot_req = r, kv_pos = 0, last_token = - 1\<rparr>],
              free_count := free_count m - 1\<rparr>)
         else acquire_from (Suc i) r m)
      else (- 1, m))"
  by pat_completeness auto
termination
  by (relation "measure (\<lambda>(i, r, m). nat (max_slots m - int i))") auto

declare acquire_from.simps [simp del]

definition acquire :: "request \<Rightarrow> kv_mgr \<Rightarrow> int \<times> kv_mgr" where
  "acquire r m = acquire_from 0 r m"

text \<open>
  \<open>release\<close> first calls the callback the manager was built with (for the engine,
  \<open>llama_kv_self_seq_rm\<close> on its context), then clears the slot.
\<close>

definition clear_slot :: "nat \<Rightarrow> kv_mgr \<Rightarrow> kv_mgr" where
  "clear_slot sid m =
     m\<lparr>slots := (slots m)[sid := empty_slot], free_count := free_count m + 1\<rparr>"

definition release :: "(int \<Rightarrow> 'c \<Rightarrow> 'c) \<Rightarrow> nat \<Rightarrow> 'c \<times> kv_mgr \<Rightarrow> 'c \<times> kv_mgr" where
  "release free_fn sid s = (free_fn (int sid) (fst s), clear_slot sid (snd s))"

section \<open>Invariant\<close>

definition n_free :: "kv_mgr \<Rightarrow> nat" where
  "n_free m = length (filter (\<lambda>s. \<not> occupied s) (slots m))"

definition kv_inv :: "kv_mgr \<Rightarrow> bool" where
  "kv_inv m \<longleftrightarrow>
     0 \<le> max_slots m \<and> length (slots m) = nat (max_slots m) \<and> free_count m = int (n_free m)"

definition busy :: "kv_mgr \<Rightarrow> nat \<Rightarrow> bool" where
  "busy m sid \<longleftrightarrow> sid < length (slots m) \<and> occupied (slots m ! sid)"

lemma kv_invD:
  assumes "kv_inv m"
  shows "0 \<le> max_slots m" "length (slots m) = nat (max_slots m)" "free_count m = int (n_free m)"
    "int (length (slots m)) = max_slots m"
  using assms by (auto simp: kv_inv_def)

lemma kv_new_inv: "kv_new n = Some m \<Longrightarrow> kv_inv m"
  by (auto simp: kv_new_def kv_inv_def n_free_def empty_slot_def split: if_splits)

lemma kv_new_free: "kv_new n = Some m \<Longrightarrow> \<not> busy m sid"
  by (auto simp: kv_new_def busy_def empty_slot_def split: if_splits)

lemma n_free_le: "n_free m \<le> length (slots m)"
  by (simp add: n_free_def)

lemma free_count_bounds:
  assumes "kv_inv m"
  shows "0 \<le> free_count m" "free_count m \<le> max_slots m"
  using kv_invD [OF assms] n_free_le [of m] by linarith+

lemma n_free_pos_iff: "0 < n_free m \<longleftrightarrow> (\<exists>i < length (slots m). \<not> occupied (slots m ! i))"
  unfolding n_free_def by (simp add: filter_empty_conv Bex_def in_set_conv_nth) blast

lemma n_free_all_iff: "n_free m = length (slots m) \<longleftrightarrow> (\<forall>i < length (slots m). \<not> occupied (slots m ! i))"
  unfolding n_free_def
  by (metis (mono_tags, lifting) filter_True in_set_conv_nth length_filter_less nat_neq_iff nth_mem)

section \<open>Behaviour of acquire\<close>

definition taken :: "request \<Rightarrow> slot" where
  "taken r = \<lparr>occupied = True, slot_req = r, kv_pos = 0, last_token = - 1\<rparr>"

lemma acquire_from_full:
  assumes "\<forall>j. i \<le> j \<longrightarrow> int j < max_slots m \<longrightarrow> occupied (slots m ! j)"
  shows "acquire_from i r m = (- 1, m)"
  using assms
proof (induction i r m rule: acquire_from.induct)
  case (1 i r m)
  then show ?case by (auto simp: acquire_from.simps [of i r m])
qed

lemma acquire_from_least:
  assumes "i \<le> k" "int k < max_slots m" "\<not> occupied (slots m ! k)"
    "\<forall>j. i \<le> j \<longrightarrow> j < k \<longrightarrow> occupied (slots m ! j)"
  shows "acquire_from i r m =
    (int k, m\<lparr>slots := (slots m)[k := taken r], free_count := free_count m - 1\<rparr>)"
  using assms
proof (induction i r m rule: acquire_from.induct)
  case (1 i r m)
  show ?case
  proof (cases "i = k")
    case True
    with "1.prems" show ?thesis by (simp add: acquire_from.simps [of k r m] taken_def)
  next
    case False
    with "1.prems" have "int i < max_slots m" "occupied (slots m ! i)" by auto
    moreover from this have "acquire_from (Suc i) r m =
      (int k, m\<lparr>slots := (slots m)[k := taken r], free_count := free_count m - 1\<rparr>)"
      using "1.prems" False by (intro "1.IH") auto
    ultimately show ?thesis by (simp add: acquire_from.simps [of i r m])
  qed
qed

text \<open>The two outcomes of \<open>acquire\<close>: the pool is full, or the lowest free slot is taken.\<close>

lemma acquire_full:
  assumes "kv_inv m" "n_free m = 0"
  shows "acquire r m = (- 1, m)"
  unfolding acquire_def
  using assms n_free_pos_iff [of m] kv_invD [OF assms(1)] by (intro acquire_from_full) auto

lemma acquire_least:
  assumes "kv_inv m" "0 < n_free m"
  obtains k where "k < length (slots m)" "\<not> occupied (slots m ! k)"
    "\<forall>j < k. occupied (slots m ! j)"
    "acquire r m = (int k, m\<lparr>slots := (slots m)[k := taken r], free_count := free_count m - 1\<rparr>)"
proof -
  define k where "k = (LEAST i. i < length (slots m) \<and> \<not> occupied (slots m ! i))"
  have ex: "\<exists>i. i < length (slots m) \<and> \<not> occupied (slots m ! i)"
    using assms(2) n_free_pos_iff by blast
  have k: "k < length (slots m) \<and> \<not> occupied (slots m ! k)"
    unfolding k_def using LeastI_ex [OF ex] .
  have least: "\<forall>j < k. occupied (slots m ! j)"
    using k not_less_Least [of _ "\<lambda>i. i < length (slots m) \<and> \<not> occupied (slots m ! i)"]
    unfolding k_def [symmetric] by (meson less_trans)
  show ?thesis
  proof (rule that)
    show "acquire r m = (int k, m\<lparr>slots := (slots m)[k := taken r], free_count := free_count m - 1\<rparr>)"
      unfolding acquire_def using k least kv_invD [OF assms(1)]
      by (intro acquire_from_least) auto
  qed (use k least in auto)
qed

lemma acquire_cases:
  assumes "kv_inv m"
  obtains (full) "n_free m = 0" "acquire r m = (- 1, m)"
  | (slot) k where "0 < n_free m" "k < length (slots m)" "\<not> occupied (slots m ! k)"
      "\<forall>j < k. occupied (slots m ! j)"
      "acquire r m = (int k, m\<lparr>slots := (slots m)[k := taken r], free_count := free_count m - 1\<rparr>)"
  using acquire_full [OF assms, of r] acquire_least [OF assms, of r] by (metis gr0I)

lemma n_free_take:
  "k < length (slots m) \<Longrightarrow> \<not> occupied (slots m ! k) \<Longrightarrow>
     Suc (n_free (m\<lparr>slots := (slots m)[k := taken r], free_count := f\<rparr>)) = n_free m"
  unfolding n_free_def by (simp add: count_filter_update_False taken_def)

lemma n_free_clear:
  "busy m sid \<Longrightarrow> n_free (clear_slot sid m) = Suc (n_free m)"
  unfolding n_free_def clear_slot_def busy_def
  by (simp add: count_filter_update_True empty_slot_def)

lemma acquire_inv [inv_intros]:
  assumes "kv_inv m"
  shows "kv_inv (snd (acquire r m))"
  using assms
proof (cases rule: acquire_cases [where r = r])
  case full
  with assms show ?thesis by simp
next
  case (slot k)
  with assms n_free_take [OF slot(2,3), where r = r and f = "free_count m - 1"] show ?thesis
    by (auto simp: kv_inv_def)
qed

lemma clear_slot_inv [inv_intros]:
  assumes "kv_inv m" "busy m sid"
  shows "kv_inv (clear_slot sid m)"
  using assms n_free_clear [OF assms(2)] by (auto simp: kv_inv_def clear_slot_def)

lemma clear_slot_max [slot_simps]:
  "max_slots (clear_slot sid m) = max_slots m"
  "length (slots (clear_slot sid m)) = length (slots m)"
  by (simp_all add: clear_slot_def)

lemma clear_slot_nth [slot_simps]:
  "sid < length (slots m) \<Longrightarrow>
     slots (clear_slot sid m) ! j = (if j = sid then empty_slot else slots m ! j)"
  by (auto simp: clear_slot_def)

lemma busy_clear [slot_simps]:
  "sid < length (slots m) \<Longrightarrow> busy (clear_slot sid m) j \<longleftrightarrow> j \<noteq> sid \<and> busy m j"
  by (auto simp: busy_def clear_slot_def empty_slot_def nth_list_update)

lemma release_simps [slot_simps]:
  "fst (release f sid (c, m)) = f (int sid) c"
  "snd (release f sid (c, m)) = clear_slot sid m"
  by (simp_all add: release_def)

section \<open>The interface of the engine\<close>

text \<open>
  What a pool of slots promises its client: a request is handed out to a free slot exactly
  when there is room, the view of the other slots is untouched, and a released slot makes
  room for one more.
\<close>

locale slot_pool =
  fixes pool_ok :: "'m \<Rightarrow> bool"
    and acq :: "'r \<Rightarrow> 'm \<Rightarrow> int \<times> 'm"
    and rel :: "nat \<Rightarrow> 'm \<Rightarrow> 'm"
    and view :: "'m \<Rightarrow> nat \<Rightarrow> 'r option"
    and room :: "'m \<Rightarrow> nat"
    and cap :: "'m \<Rightarrow> nat"
  assumes acq_room: "pool_ok m \<Longrightarrow> 0 < room m \<Longrightarrow>
      \<exists>k. fst (acq r m) = int k \<and> k < cap m \<and> view m k = None \<and>
        view (snd (acq r m)) = (view m)(k := Some r)"
    and acq_no_room: "pool_ok m \<Longrightarrow> room m = 0 \<Longrightarrow> acq r m = (- 1, m)"
    and acq_ok: "pool_ok m \<Longrightarrow> pool_ok (snd (acq r m))"
    and acq_cap: "pool_ok m \<Longrightarrow> cap (snd (acq r m)) = cap m"
    and rel_view: "pool_ok m \<Longrightarrow> view m k \<noteq> None \<Longrightarrow> view (rel k m) = (view m)(k := None)"
    and rel_ok: "pool_ok m \<Longrightarrow> view m k \<noteq> None \<Longrightarrow> pool_ok (rel k m)"
    and rel_cap: "pool_ok m \<Longrightarrow> view m k \<noteq> None \<Longrightarrow> cap (rel k m) = cap m"
    and view_dom: "pool_ok m \<Longrightarrow> view m k \<noteq> None \<Longrightarrow> k < cap m"
    and room_card: "pool_ok m \<Longrightarrow> room m + card (dom (view m)) = cap m"
begin

lemma view_finite: "pool_ok m \<Longrightarrow> finite (dom (view m))"
  by (rule finite_subset [of _ "{..<cap m}"]) (auto dest: view_dom)

lemma acq_obtain:
  assumes "pool_ok m" "0 < room m"
  obtains k where "fst (acq r m) = int k" "k < cap m" "view m k = None"
    "view (snd (acq r m)) = (view m)(k := Some r)" "Suc (room (snd (acq r m))) = room m"
proof -
  obtain k where k: "fst (acq r m) = int k" "k < cap m" "view m k = None"
    "view (snd (acq r m)) = (view m)(k := Some r)"
    using acq_room [OF assms] by blast
  have "card (dom (view (snd (acq r m)))) = Suc (card (dom (view m)))"
    using k(3) view_finite [OF assms(1)] by (simp add: k(4) domIff)
  with room_card [OF assms(1)] room_card [OF acq_ok [OF assms(1)], of r] acq_cap [OF assms(1)]
  have "Suc (room (snd (acq r m))) = room m" by simp
  with k show ?thesis by (rule that)
qed

lemma acq_result: "pool_ok m \<Longrightarrow> fst (acq r m) < 0 \<longleftrightarrow> room m = 0"
  using acq_room [of m r] acq_no_room [of m r] by (cases "room m = 0") auto

lemma rel_room:
  assumes "pool_ok m" "view m k \<noteq> None"
  shows "room (rel k m) = Suc (room m)"
proof -
  have "card (dom (view m)) = Suc (card (dom (view (rel k m))))"
    using assms(2) view_finite [OF assms(1)] card_Suc_Diff1 [of "dom (view m)" k]
    by (simp add: rel_view [OF assms] domIff)
  with room_card [OF assms(1)] room_card [OF rel_ok [OF assms]] rel_cap [OF assms]
  show ?thesis by simp
qed

text \<open>Acquire then release gives the view back, and a released slot can be acquired again.\<close>

lemma acq_rel_view:
  assumes "pool_ok m" "0 < room m"
  shows "view (rel (nat (fst (acq r m))) (snd (acq r m))) = view m"
proof -
  obtain k where k: "fst (acq r m) = int k" "view m k = None"
    "view (snd (acq r m)) = (view m)(k := Some r)"
    using acq_obtain [OF assms] by metis
  have "view (rel k (snd (acq r m))) = (view (snd (acq r m)))(k := None)"
    using k(3) by (intro rel_view acq_ok [OF assms(1)]) simp
  with k show ?thesis by auto
qed

lemma rel_acq_succeeds:
  assumes "pool_ok m" "view m k \<noteq> None"
  shows "0 \<le> fst (acq r (rel k m))"
  using acq_result [OF rel_ok [OF assms], of r] rel_room [OF assms] by simp

fun acq_all :: "'r list \<Rightarrow> 'm \<Rightarrow> int list \<times> 'm" where
  "acq_all [] m = ([], m)"
| "acq_all (r # rs) m = (let (i, m') = acq r m; (is, m'') = acq_all rs m' in (i # is, m''))"

lemma acq_all_succeed:
  "pool_ok m \<Longrightarrow> length rs \<le> room m \<Longrightarrow> \<forall>i \<in> set (fst (acq_all rs m)). 0 \<le> i"
proof (induction rs arbitrary: m)
  case Nil
  then show ?case by simp
next
  case (Cons r rs)
  then have room: "0 < room m" by simp
  obtain k where k: "fst (acq r m) = int k" "Suc (room (snd (acq r m))) = room m"
    using acq_obtain [OF Cons.prems(1) room] by metis
  have "\<forall>i \<in> set (fst (acq_all rs (snd (acq r m)))). 0 \<le> i"
    using Cons k(2) acq_ok by (intro Cons.IH) auto
  with k(1) show ?case by (cases "acq r m") (simp add: Let_def split: prod.splits)
qed

end

text \<open>The manager provides the interface.\<close>

definition slot_view :: "kv_mgr \<Rightarrow> nat \<Rightarrow> request option" where
  "slot_view m sid = (if busy m sid then Some (slot_req (slots m ! sid)) else None)"

lemma card_busy: "kv_inv m \<Longrightarrow> n_free m + card (dom (slot_view m)) = length (slots m)"
proof -
  have d: "dom (slot_view m) = {i. i < length (slots m) \<and> occupied (slots m ! i)}"
    by (auto simp: slot_view_def busy_def dom_def)
  have "card (dom (slot_view m)) = length (filter occupied (slots m))"
    unfolding d by (simp add: length_filter_conv_card)
  then show ?thesis
    using sum_length_filter_compl [of occupied "slots m"] by (simp add: n_free_def)
qed

lemma acquire_room:
  assumes "kv_inv m" "0 < n_free m"
  shows "\<exists>k. fst (acquire r m) = int k \<and> k < length (slots m) \<and> slot_view m k = None \<and>
    slot_view (snd (acquire r m)) = (slot_view m)(k := Some r)"
proof -
  obtain k where k: "k < length (slots m)" "\<not> occupied (slots m ! k)"
    "acquire r m = (int k, m\<lparr>slots := (slots m)[k := taken r], free_count := free_count m - 1\<rparr>)"
    using acquire_least [OF assms] by metis
  then show ?thesis
    by (intro exI [of _ k])
      (auto simp: slot_view_def busy_def taken_def nth_list_update fun_eq_iff)
qed

lemma acquire_shape: "length (slots (snd (acquire r m))) = length (slots m)"
proof -
  have "length (slots (snd (acquire_from i r m))) = length (slots m)" for i
    by (induction i r m rule: acquire_from.induct) (subst acquire_from.simps, simp)
  then show ?thesis by (simp add: acquire_def)
qed

interpretation kvp: slot_pool kv_inv acquire clear_slot slot_view n_free "\<lambda>m. length (slots m)"
proof unfold_locales
  fix m r
  assume "kv_inv m" "0 < n_free m"
  then show "\<exists>k. fst (acquire r m) = int k \<and> k < length (slots m) \<and> slot_view m k = None \<and>
      slot_view (snd (acquire r m)) = (slot_view m)(k := Some r)"
    by (rule acquire_room)
next
  fix m k
  assume v: "slot_view m k \<noteq> None"
  then show "slot_view (clear_slot k m) = (slot_view m)(k := None)"
    by (auto simp: slot_view_def busy_def clear_slot_def empty_slot_def nth_list_update fun_eq_iff
        split: if_splits)
  assume "kv_inv m"
  with v show "kv_inv (clear_slot k m)"
    by (auto simp: slot_view_def intro: clear_slot_inv split: if_splits)
qed (auto simp: acquire_full acquire_inv acquire_shape slot_simps card_busy slot_view_def busy_def
    split: if_splits)

end
