(* ===== verification/Fp64.thy ===== *)
theory Fp64
  imports Prelude "HOL-Library.Log_Nat"
begin

text \<open>
  The C++ \<open>double\<close> as the sources use it: finite IEEE-754 binary64 values, read as
  rationals, with every arithmetic operation rounded to nearest, ties to even. Infinities,
  NaN and overflow are outside the model (the code's rates, bursts and time spans are
  finite). Interface \<open>rounding\<close> states what the clients rely on; the interpretation
  \<open>b64\<close> proves it for the concrete rounding \<open>rnd64\<close>.
\<close>

section \<open>The interface\<close>

locale rounding =
  fixes rnd :: "rat \<Rightarrow> rat"
  assumes rnd_mono: "x \<le> y \<Longrightarrow> rnd x \<le> rnd y"
    and rnd_int: "\<bar>n\<bar> \<le> 2 ^ 53 \<Longrightarrow> rnd (of_int n) = of_int n"
begin

lemma rnd_zero: "rnd 0 = 0"
  using rnd_int [of 0] by simp

lemma rnd_one: "rnd 1 = 1"
  using rnd_int [of 1] by simp

lemma rnd_nonneg: "0 \<le> x \<Longrightarrow> 0 \<le> rnd x"
  using rnd_mono [of 0 x] by (simp add: rnd_zero)

lemma rnd_le_int: "x \<le> of_int n \<Longrightarrow> \<bar>n\<bar> \<le> 2 ^ 53 \<Longrightarrow> rnd x \<le> of_int n"
  using rnd_mono [of x "of_int n"] by (simp add: rnd_int)

lemma rnd_ge_int: "of_int n \<le> x \<Longrightarrow> \<bar>n\<bar> \<le> 2 ^ 53 \<Longrightarrow> of_int n \<le> rnd x"
  using rnd_mono [of "of_int n" x] by (simp add: rnd_int)

end

section \<open>Binary64\<close>

definition round_ne :: "rat \<Rightarrow> int" where
  "round_ne x =
     (let f = \<lfloor>x\<rfloor>; d = x - of_int f in
      if d < 1 / 2 then f else if 1 / 2 < d then f + 1 else if even f then f else f + 1)"

definition flog2 :: "rat \<Rightarrow> int" where
  "flog2 x =
     (let (p, q) = quotient_of x; k = bitlen p - bitlen q in
      if 2 powi k \<le> x then k else k - 1)"

definition fexp64 :: "rat \<Rightarrow> int" where
  "fexp64 x = max (- 1074) (flog2 \<bar>x\<bar> - 52)"

definition rnd64 :: "rat \<Rightarrow> rat" where
  "rnd64 x =
     (if x = 0 then 0
      else of_int (round_ne (x / 2 powi (fexp64 x))) * 2 powi (fexp64 x))"

subsection \<open>Rounding to the nearest integer\<close>

lemma round_ne_bounds: "of_int (round_ne x) \<le> x + 1 / 2" "x - 1 / 2 \<le> of_int (round_ne x)"
  using floor_correct [of x] unfolding round_ne_def Let_def by (auto, linarith+)

lemma round_ne_int [simp]: "round_ne (of_int n) = n"
  by (simp add: round_ne_def)

lemma round_ne_mono:
  assumes "x \<le> y"
  shows "round_ne x \<le> round_ne y"
proof (cases "\<lfloor>x\<rfloor> = \<lfloor>y\<rfloor>")
  case True
  with assms show ?thesis by (auto simp: round_ne_def Let_def)
next
  case False
  with floor_mono [OF assms] have "\<lfloor>x\<rfloor> + 1 \<le> \<lfloor>y\<rfloor>" by simp
  then show ?thesis by (auto simp: round_ne_def Let_def)
qed

lemma round_ne_minus: "round_ne (- x) = - round_ne x"
proof (cases "x \<in> \<int>")
  case True
  then obtain n where x: "x = of_int n" by (elim Ints_cases)
  have "round_ne (of_int (- n)) = - n" by (rule round_ne_int)
  with x show ?thesis by simp
next
  case False
  then have f: "\<lfloor>- x\<rfloor> = - \<lfloor>x\<rfloor> - 1"
    using ceiling_altdef [of x] floor_minus [of x] by (auto simp: Ints_def)
  show ?thesis by (auto simp: round_ne_def Let_def f field_simps)
qed

subsection \<open>The binary exponent\<close>

lemma powi2_pos [simp]: "0 < (2::rat) powi k"
  by (simp add: zero_less_power_int)

lemma powi2_mono: "i \<le> j \<Longrightarrow> (2::rat) powi i \<le> 2 powi j"
  by (rule power_int_increasing) auto

lemma powi2_add: "(2::rat) powi (i + j) = 2 powi i * 2 powi j"
  by (simp add: power_int_add)

lemma powi2_less_imp: "(2::rat) powi i < 2 powi j \<Longrightarrow> i < j"
  by (metis linorder_not_less powi2_mono)

lemma bitlen_powi:
  assumes "0 < p"
  shows "(2::rat) powi (bitlen p - 1) \<le> of_int p" "of_int p < (2::rat) powi (bitlen p)"
proof -
  have b: "1 \<le> bitlen p" using assms by (simp add: bitlen_alt_def)
  have "(of_int (2 ^ nat (bitlen p - 1)) :: rat) \<le> of_int p"
    using bitlen_bounds [OF assms] by (simp only: of_int_le_iff)
  with b show "(2::rat) powi (bitlen p - 1) \<le> of_int p" by (simp add: power_int_def)
  have "(of_int p :: rat) < of_int (2 ^ nat (bitlen p))"
    using bitlen_bounds [OF assms] by (simp only: of_int_less_iff)
  with b show "of_int p < (2::rat) powi (bitlen p)" by (simp add: power_int_def)
qed

lemma flog2_bounds:
  assumes "0 < x"
  shows "2 powi (flog2 x) \<le> x" "x < 2 powi (flog2 x + 1)"
proof -
  obtain p q where pq: "quotient_of x = (p, q)" by (cases "quotient_of x")
  have q: "0 < q" using quotient_of_denom_pos [OF pq] .
  have x: "x = of_int p / of_int q" using quotient_of_div [OF pq] .
  have p: "0 < p" using assms q by (simp add: x zero_less_divide_iff)
  let ?k = "bitlen p - bitlen q"
  have "(2::rat) powi (?k - 1) * of_int q \<le> 2 powi (?k - 1) * 2 powi (bitlen q)"
    using bitlen_powi(2) [OF q] by (intro mult_left_mono) auto
  also have "\<dots> = 2 powi (bitlen p - 1)" by (simp add: powi2_add [symmetric])
  also have "\<dots> \<le> of_int p" by (rule bitlen_powi(1) [OF p])
  finally have lo: "2 powi (?k - 1) \<le> x" using q by (simp add: x field_simps)
  have "of_int p < (2::rat) powi (bitlen p)" by (rule bitlen_powi(2) [OF p])
  also have "\<dots> = 2 powi (?k + 1) * 2 powi (bitlen q - 1)"
    by (simp add: powi2_add [symmetric])
  also have "\<dots> \<le> 2 powi (?k + 1) * of_int q"
    using bitlen_powi(1) [OF q] by (intro mult_left_mono) auto
  finally have hi: "x < 2 powi (?k + 1)" using q by (simp add: x field_simps)
  show "2 powi (flog2 x) \<le> x" "x < 2 powi (flog2 x + 1)"
    using lo hi by (auto simp: flog2_def pq Let_def)
qed

lemma flog2_mono:
  assumes "0 < x" "x \<le> y"
  shows "flog2 x \<le> flog2 y"
proof -
  have "2 powi (flog2 x) < (2::rat) powi (flog2 y + 1)"
    using flog2_bounds [of x] flog2_bounds [of y] assms by linarith
  then show ?thesis using powi2_less_imp by fastforce
qed

lemma flog2_less: "0 < x \<Longrightarrow> x < 2 powi k \<Longrightarrow> flog2 x < k"
  using flog2_bounds(1) [of x] powi2_less_imp [of "flog2 x" k] by linarith

subsection \<open>Rounding to binary64\<close>

lemma rnd64_grid:
  assumes "e = fexp64 x" "x \<noteq> 0" "x = of_int n * 2 powi e"
  shows "rnd64 x = x"
proof -
  have "x / 2 powi e = of_int n" using assms(3) by simp
  with assms show ?thesis by (simp add: rnd64_def)
qed

lemma powi2_of_int: "0 \<le> k \<Longrightarrow> (2::rat) powi k = of_int (2 ^ nat k)"
  by (simp add: power_int_def)

lemma rnd64_pow_le:
  assumes "0 < x" "x \<le> 2 powi k" "fexp64 x \<le> k"
  shows "rnd64 x \<le> 2 powi k"
proof -
  let ?e = "fexp64 x"
  have k: "(2::rat) powi k = of_int (2 ^ nat (k - ?e)) * 2 powi ?e"
    using assms(3) by (simp add: powi2_of_int [symmetric] powi2_add [symmetric] del: of_int_power)
  have "x / 2 powi ?e \<le> of_int (2 ^ nat (k - ?e))"
    using assms(2) by (simp add: k pos_divide_le_eq del: of_int_power)
  then have "round_ne (x / 2 powi ?e) \<le> 2 ^ nat (k - ?e)"
    using round_ne_mono round_ne_int by metis
  then have "(of_int (round_ne (x / 2 powi ?e)) :: rat) \<le> of_int (2 ^ nat (k - ?e))"
    by (simp only: of_int_le_iff)
  then show ?thesis
    using assms(1) by (simp add: rnd64_def k mult_right_mono del: of_int_power)
qed

lemma rnd64_pow_ge:
  assumes "2 powi k \<le> x" "fexp64 x \<le> k"
  shows "2 powi k \<le> rnd64 x"
proof -
  let ?e = "fexp64 x"
  have pos: "0 < x" using assms(1) powi2_pos [of k] by linarith
  have k: "(2::rat) powi k = of_int (2 ^ nat (k - ?e)) * 2 powi ?e"
    using assms(2) by (simp add: powi2_of_int [symmetric] powi2_add [symmetric] del: of_int_power)
  have "of_int (2 ^ nat (k - ?e)) \<le> x / 2 powi ?e"
    using assms(1) by (simp add: k pos_le_divide_eq del: of_int_power)
  then have "2 ^ nat (k - ?e) \<le> round_ne (x / 2 powi ?e)"
    using round_ne_mono round_ne_int by metis
  then have "of_int (2 ^ nat (k - ?e)) \<le> (of_int (round_ne (x / 2 powi ?e)) :: rat)"
    by (simp only: of_int_le_iff)
  then show ?thesis
    using pos by (simp add: rnd64_def k mult_right_mono del: of_int_power)
qed

lemma rnd64_nonneg: "0 \<le> x \<Longrightarrow> 0 \<le> rnd64 x"
proof (cases "x = 0")
  case False
  assume "0 \<le> x"
  then have "0 \<le> x / 2 powi (fexp64 x)" by (simp add: less_imp_le)
  then have "0 \<le> round_ne (x / 2 powi (fexp64 x))"
    using round_ne_mono [of 0] round_ne_int [of 0] by simp
  with False show ?thesis by (simp add: rnd64_def less_imp_le)
qed (simp add: rnd64_def)

lemma rnd64_minus: "rnd64 (- x) = - rnd64 x"
  by (simp add: rnd64_def fexp64_def round_ne_minus)

lemma rnd64_mono_pos:
  assumes "0 < x" "x \<le> y"
  shows "rnd64 x \<le> rnd64 y"
proof (cases "fexp64 x = fexp64 y")
  case True
  have "x / 2 powi (fexp64 y) \<le> y / 2 powi (fexp64 y)"
    using assms by (simp add: divide_right_mono less_imp_le)
  from round_ne_mono [OF this] show ?thesis
    using assms True by (simp add: rnd64_def mult_right_mono less_imp_le)
next
  case False
  have y: "0 < y" using assms by simp
  have "flog2 x \<le> flog2 y" using flog2_mono assms by blast
  with False assms y have e: "fexp64 y = flog2 y - 52" "fexp64 x < fexp64 y" "flog2 x < flog2 y"
    by (auto simp: fexp64_def)
  let ?k = "flog2 y"
  have "2 powi ?k \<le> rnd64 y"
    using flog2_bounds(1) [OF y] e(1) by (intro rnd64_pow_ge) auto
  moreover have "rnd64 x \<le> 2 powi ?k"
  proof (rule rnd64_pow_le)
    have "x < 2 powi (flog2 x + 1)" by (rule flog2_bounds(2) [OF assms(1)])
    also have "\<dots> \<le> 2 powi ?k" using e(3) by (intro powi2_mono) simp
    finally show "x \<le> 2 powi ?k" by simp
    show "fexp64 x \<le> ?k" using e by simp
  qed (rule assms(1))
  ultimately show ?thesis by simp
qed

lemma rnd64_mono: "x \<le> y \<Longrightarrow> rnd64 x \<le> rnd64 y"
proof -
  assume le: "x \<le> y"
  consider "0 < x" | "x \<le> 0" "0 \<le> y" | "y < 0" by linarith
  then show ?thesis
  proof cases
    case 1
    then show ?thesis using le by (rule rnd64_mono_pos)
  next
    case 2
    then show ?thesis
      using rnd64_nonneg [of "- x"] rnd64_nonneg [of y] by (simp add: rnd64_minus)
  next
    case 3
    then show ?thesis
      using rnd64_mono_pos [of "- y" "- x"] le by (simp add: rnd64_minus)
  qed
qed

lemma rnd64_pos_int:
  assumes "0 < n" "n \<le> 2 ^ 53"
  shows "rnd64 (of_int n) = of_int n"
proof (cases "n = 2 ^ 53")
  case True
  then have n: "of_int n = (2::rat) powi 53" by (simp add: power_int_def)
  have "fexp64 (2 powi 53) \<le> 53"
    using flog2_less [of "2 powi 53" 54] by (simp add: fexp64_def power_int_def)
  then show ?thesis
    unfolding n using rnd64_pow_le [of "2 powi 53" 53] rnd64_pow_ge [of 53 "2 powi 53"] by force
next
  case False
  with assms have "n < 2 ^ 53" by simp
  then have "(of_int n :: rat) < of_int (2 ^ 53)" by (simp only: of_int_less_iff)
  then have "(of_int n :: rat) < 2 powi 53" by (simp add: power_int_def)
  then have "flog2 (of_int n) < 53" using assms(1) by (intro flog2_less) auto
  then have e: "fexp64 (of_int n) \<le> 0" using assms(1) by (simp add: fexp64_def)
  let ?e = "fexp64 (of_int n :: rat)"
  have "(of_int n :: rat) = of_int n * (2 powi (- ?e) * 2 powi ?e)"
    by (simp add: powi2_add [symmetric])
  also have "\<dots> = of_int (n * 2 ^ nat (- ?e)) * 2 powi ?e"
    using e by (simp add: powi2_of_int [of "- ?e"])
  finally have g: "(of_int n :: rat) = of_int (n * 2 ^ nat (- ?e)) * 2 powi ?e" .
  show ?thesis using assms(1) by (intro rnd64_grid [OF refl _ g]) auto
qed

lemma rnd64_int: "\<bar>n\<bar> \<le> 2 ^ 53 \<Longrightarrow> rnd64 (of_int n) = of_int n"
  using rnd64_pos_int [of n] rnd64_pos_int [of "- n"] rnd64_minus [of "of_int n"]
  by (cases "0::int" n rule: linorder_cases) (auto simp: rnd64_def)

interpretation b64: rounding rnd64
  by unfold_locales (auto intro: rnd64_mono rnd64_int)

section \<open>The conversions of the sources\<close>

text \<open>
  \<open>std::chrono::duration<double>(d).count()\<close> for a span of \<open>ns\<close> nanoseconds: the tick
  count becomes a double and is divided by 10^9.
\<close>

definition secs_of_ns :: "(rat \<Rightarrow> rat) \<Rightarrow> int \<Rightarrow> rat" where
  "secs_of_ns rnd ns = rnd (rnd (of_int ns) / 1000000000)"

context rounding
begin

lemma secs_of_ns_nonneg: "0 \<le> ns \<Longrightarrow> 0 \<le> secs_of_ns rnd ns"
  by (simp add: secs_of_ns_def rnd_nonneg)

lemma secs_of_ns_zero: "secs_of_ns rnd 0 = 0"
  by (simp add: secs_of_ns_def rnd_zero)

lemma secs_of_ns_mono: "a \<le> b \<Longrightarrow> secs_of_ns rnd a \<le> secs_of_ns rnd b"
  unfolding secs_of_ns_def by (intro rnd_mono divide_right_mono) auto

end

end
