(* ===== verification/Metrics.thy ===== *)
theory Metrics
  imports Fp64
begin

text \<open>
  The metrics of \<open>include/metrics.h\<close> and \<open>src/metrics.cpp\<close>. The prometheus library only
  receives calls, so the state keeps the trace of those calls; what a counter or a gauge
  shows is a function of the trace. \<open>metrics_registry\<close> is the registration table.
\<close>

datatype counter = Requests_total | Requests_rate_limited | Requests_deadline_exceeded
datatype gauge = Queue_depth | Requests_inflight | Kv_slot_utilization
datatype histogram = Latency_seconds | Queue_wait_seconds | Batch_size

datatype metric = Counter counter | Gauge gauge | Histogram histogram "rat list"

record metric_spec =
  metric_kind :: metric
  metric_name :: string
  metric_help :: string

definition second_buckets :: "rat list" where
  "second_buckets = [1/1000, 5/1000, 1/100, 25/1000, 5/100, 1/10, 25/100, 5/10, 1]"

definition batch_buckets :: "rat list" where
  "batch_buckets = [1, 2, 4, 8, 16, 32, 64]"

definition metrics_registry :: "metric_spec list" where
  "metrics_registry =
     [\<lparr>metric_kind = Counter Requests_total, metric_name = ''inference_requests_total'',
       metric_help = ''Total inference requests received''\<rparr>,
      \<lparr>metric_kind = Counter Requests_rate_limited,
       metric_name = ''inference_requests_rate_limited_total'',
       metric_help = ''Requests rejected due to per-tenant rate limiting''\<rparr>,
      \<lparr>metric_kind = Counter Requests_deadline_exceeded,
       metric_name = ''inference_requests_deadline_exceeded_total'',
       metric_help = ''Requests that expired in queue before being processed''\<rparr>,
      \<lparr>metric_kind = Gauge Queue_depth, metric_name = ''inference_queue_depth'',
       metric_help = ''Current number of requests waiting in queue''\<rparr>,
      \<lparr>metric_kind = Gauge Requests_inflight, metric_name = ''inference_requests_inflight'',
       metric_help = ''Number of requests currently being processed by workers''\<rparr>,
      \<lparr>metric_kind = Gauge Kv_slot_utilization, metric_name = ''inference_kv_slot_utilization'',
       metric_help = ''Fraction of KV cache slots currently occupied (0.0'' @
         map char_of [0xE2::nat, 0x80, 0x93] @ ''1.0)''\<rparr>,
      \<lparr>metric_kind = Histogram Latency_seconds second_buckets,
       metric_name = ''inference_latency_seconds'', metric_help = ''End-to-end request latency''\<rparr>,
      \<lparr>metric_kind = Histogram Queue_wait_seconds second_buckets,
       metric_name = ''inference_queue_wait_seconds'',
       metric_help = ''Time a request spent waiting in the queue''\<rparr>,
      \<lparr>metric_kind = Histogram Batch_size batch_buckets, metric_name = ''inference_batch_size'',
       metric_help = ''Number of requests per batch dispatched to workers''\<rparr>]"

text \<open>The calls: \<open>Increment\<close>/\<open>Decrement\<close>/\<open>Set\<close>/\<open>Observe\<close>.\<close>

datatype metric_event =
    Inc counter
  | Gauge_inc gauge rat
  | Gauge_dec gauge rat
  | Gauge_set gauge rat
  | Observe histogram rat

definition counter_value :: "counter \<Rightarrow> metric_event list \<Rightarrow> nat" where
  "counter_value c evs = count_list evs (Inc c)"

fun gauge_effect :: "gauge \<Rightarrow> metric_event \<Rightarrow> rat \<Rightarrow> rat" where
  "gauge_effect g (Gauge_inc h x) v = (if g = h then v + x else v)"
| "gauge_effect g (Gauge_dec h x) v = (if g = h then v - x else v)"
| "gauge_effect g (Gauge_set h x) v = (if g = h then x else v)"
| "gauge_effect g (Inc c) v = v"
| "gauge_effect g (Observe h x) v = v"

definition gauge_value :: "gauge \<Rightarrow> metric_event list \<Rightarrow> rat" where
  "gauge_value g evs = fold (gauge_effect g) evs 0"

lemma counter_value_append [simp]:
  "counter_value c (xs @ ys) = counter_value c xs + counter_value c ys"
  by (simp add: counter_value_def)

lemma counter_value_Cons [simp]:
  "counter_value c (ev # evs) = (if ev = Inc c then 1 else 0) + counter_value c evs"
  by (simp add: counter_value_def)

lemma counter_value_Nil [simp]: "counter_value c [] = 0"
  by (simp add: counter_value_def)

lemma gauge_value_Nil [simp]: "gauge_value g [] = 0"
  by (simp add: gauge_value_def)

lemma gauge_value_snoc [simp]:
  "gauge_value g (evs @ [ev]) = gauge_effect g ev (gauge_value g evs)"
  by (simp add: gauge_value_def)

lemma gauge_value_append: "gauge_value g (xs @ ys) = fold (gauge_effect g) ys (gauge_value g xs)"
  by (simp add: gauge_value_def)

text \<open>A histogram's boundaries must be strictly increasing and the names must differ.\<close>

definition buckets_sorted :: "metric_spec \<Rightarrow> bool" where
  "buckets_sorted m = (case metric_kind m of Histogram h bs \<Rightarrow> sorted_wrt (<) bs | _ \<Rightarrow> True)"

lemma registry_wellformed:
  "distinct (map metric_name metrics_registry)" "\<forall>m \<in> set metrics_registry. buckets_sorted m"
  by (simp_all add: metrics_registry_def buckets_sorted_def second_buckets_def batch_buckets_def)

end
