(* ===== verification/Engine.thy ===== *)
theory Engine
  imports Kv_Slots Metrics "HOL-Library.Monad_Syntax"
begin

text \<open>
  The continuous batching engine (\<open>include/continuous_batch_engine.h\<close>,
  \<open>src/continuous_batch_engine.cpp\<close>): its state, and one definition per member function.
  The llama library is not part of the repository: its calls are the fields of a record
  \<open>llama\<close> that the definitions take as an argument. A null sampler that is used, or a
  write past the end of an allocated batch, is \<open>None\<close> (undefined behaviour of the C++).
\<close>

section \<open>The model library and the clock\<close>

record batch_entry =
  be_token :: int
  be_pos :: int
  be_seq :: int
  be_logits :: bool

record ('c, 's) llama =
  lm_tokenize :: "string \<Rightarrow> nat \<Rightarrow> int \<times> int list"
  lm_decode :: "'c \<Rightarrow> batch_entry list \<Rightarrow> int \<times> 'c"
  lm_sampler_new :: 's
  lm_sample :: "'s \<Rightarrow> 'c \<Rightarrow> int \<Rightarrow> int \<times> 's"
  lm_is_eog :: "int \<Rightarrow> bool"
  lm_piece :: "int \<Rightarrow> nat \<Rightarrow> int \<times> string"
  lm_seq_rm :: "'c \<Rightarrow> int \<Rightarrow> int \<Rightarrow> int \<Rightarrow> 'c"

text \<open>
  The readings of \<open>steady_clock::now()\<close> in one loop iteration: one per admitted request,
  one before the deadline check, one after the decode call.
\<close>

record ticks =
  t_admit :: "nat \<Rightarrow> int"
  t_now :: int
  t_end :: int

section \<open>State\<close>

record engine_config =
  cfg_max_slots :: int
  cfg_max_tokens :: int
  cfg_n_threads :: int
  cfg_n_gpu_layers :: int

definition default_config :: engine_config where
  "default_config =
     \<lparr>cfg_max_slots = 16, cfg_max_tokens = 128, cfg_n_threads = 4, cfg_n_gpu_layers = - 1\<rparr>"

text \<open>
  \<open>fired\<close> is the trace of the callbacks the engine invoked, \<open>e_log\<close> the trace of its
  metric calls, \<open>n_samplers\<close> the number of sampler chains initialised and not yet freed.
\<close>

record ('c, 's) engine =
  e_cfg :: engine_config
  e_kv :: kv_mgr
  e_ctx :: 'c
  samplers :: "'s option list"
  results :: "string list"
  prompt_tokens :: "int list list"
  tokens_generated :: "int list"
  in_prefill :: "bool list"
  pending :: "request list"
  running :: bool
  fired :: "(promise_id \<times> string) list"
  e_log :: "metric_event list"
  n_samplers :: int

text \<open>
  The constructor: the member initialisers, then the model and the context, each of which
  may fail to load (\<open>std::runtime_error\<close>).
\<close>

datatype engine_error = Bad_slot_count | Model_load_failed | Context_failed

definition n_ctx :: "engine_config \<Rightarrow> int" where
  "n_ctx cfg = cfg_max_slots cfg * (cfg_max_tokens cfg + 256)"

definition engine_new ::
    "engine_config \<Rightarrow> 'm option \<Rightarrow> ('m \<Rightarrow> int \<Rightarrow> int \<Rightarrow> int \<Rightarrow> int \<Rightarrow> 'c option) \<Rightarrow>
      engine_error + ('c, 's) engine" where
  "engine_new cfg model init_ctx =
     (case kv_new (cfg_max_slots cfg) of None \<Rightarrow> Inl Bad_slot_count
      | Some m \<Rightarrow>
        (case model of None \<Rightarrow> Inl Model_load_failed
         | Some md \<Rightarrow>
           (case init_ctx md (n_ctx cfg) (n_ctx cfg) (cfg_n_threads cfg) (cfg_max_slots cfg) of
              None \<Rightarrow> Inl Context_failed
            | Some c \<Rightarrow>
              (let n = nat (cfg_max_slots cfg) in
               Inr \<lparr>e_cfg = cfg, e_kv = m, e_ctx = c, samplers = replicate n None,
                    results = replicate n [], prompt_tokens = replicate n [],
                    tokens_generated = replicate n 0, in_prefill = replicate n False,
                    pending = [], running = True, fired = [], e_log = [], n_samplers = 0\<rparr>))))"

section \<open>Enqueue and shutdown\<close>

definition enqueue :: "request \<Rightarrow> ('c, 's) engine \<Rightarrow> ('c, 's) engine" where
  "enqueue r e = e\<lparr>pending := pending e @ [r]\<rparr>"

definition shutdown :: "('c, 's) engine \<Rightarrow> ('c, 's) engine" where
  "shutdown e = e\<lparr>running := False\<rparr>"

section \<open>Helpers\<close>

definition emit :: "metric_event \<Rightarrow> ('c, 's) engine \<Rightarrow> ('c, 's) engine" where
  "emit ev e = e\<lparr>e_log := e_log e @ [ev]\<rparr>"

definition fire :: "request \<Rightarrow> string \<Rightarrow> ('c, 's) engine \<Rightarrow> ('c, 's) engine" where
  "fire r s e =
     (case on_complete r of None \<Rightarrow> e | Some p \<Rightarrow> e\<lparr>fired := fired e @ [(p, s)]\<rparr>)"

definition err_tokenization :: string where
  "err_tokenization = ''{\"error\":\"tokenization_failed\"}''"

definition err_deadline :: string where
  "err_deadline = ''{\"error\":\"deadline_exceeded\"}''"

definition err_decode :: string where
  "err_decode = ''{\"error\":\"decode_failed\"}''"

definition req_at :: "('c, 's) engine \<Rightarrow> nat \<Rightarrow> request" where
  "req_at e sid = slot_req (slots (e_kv e) ! sid)"

definition is_occupied :: "('c, 's) engine \<Rightarrow> nat \<Rightarrow> bool" where
  "is_occupied e sid = occupied (slots (e_kv e) ! sid)"

definition slot_ids :: "('c, 's) engine \<Rightarrow> nat list" where
  "slot_ids e = [0..<nat (max_slots (e_kv e))]"

text \<open>The callback the manager was constructed with, and \<open>slots_.release(sid)\<close>.\<close>

definition free_seq :: "('c, 's) llama \<Rightarrow> int \<Rightarrow> 'c \<Rightarrow> 'c" where
  "free_seq L sid c = lm_seq_rm L c sid 0 (- 1)"

definition release_kv :: "('c, 's) llama \<Rightarrow> nat \<Rightarrow> ('c, 's) engine \<Rightarrow> ('c, 's) engine" where
  "release_kv L sid e =
     (let (c, m) = release (free_seq L) sid (e_ctx e, e_kv e) in e\<lparr>e_ctx := c, e_kv := m\<rparr>)"

section \<open>Retirement\<close>

definition free_sampler :: "nat \<Rightarrow> ('c, 's) engine \<Rightarrow> ('c, 's) engine" where
  "free_sampler sid e =
     (if samplers e ! sid \<noteq> None
      then e\<lparr>samplers := (samplers e)[sid := None], n_samplers := n_samplers e - 1\<rparr> else e)"

definition retire_slot :: "('c, 's) llama \<Rightarrow> nat \<Rightarrow> ('c, 's) engine \<Rightarrow> ('c, 's) engine" where
  "retire_slot L sid e =
     (let e1 = free_sampler sid e;
          e2 = e1\<lparr>results := (results e1)[sid := []],
                 prompt_tokens := (prompt_tokens e1)[sid := []],
                 tokens_generated := (tokens_generated e1)[sid := 0],
                 in_prefill := (in_prefill e1)[sid := False]\<rparr>
      in release_kv L sid e2)"

definition expire_slot :: "('c, 's) llama \<Rightarrow> int \<Rightarrow> nat \<Rightarrow> ('c, 's) engine \<Rightarrow> ('c, 's) engine" where
  "expire_slot L now sid e =
     (if \<not> is_occupied e sid then e
      else if expired now (req_at e sid) then
        retire_slot L sid
          (emit (Inc Requests_total)
            (emit (Inc Requests_deadline_exceeded) (fire (req_at e sid) err_deadline e)))
      else e)"

definition retire_expired :: "('c, 's) llama \<Rightarrow> int \<Rightarrow> ('c, 's) engine \<Rightarrow> ('c, 's) engine" where
  "retire_expired L now e = fold (expire_slot L now) (slot_ids e) e"

section \<open>Admission\<close>

fun drain :: "int \<Rightarrow> request list \<Rightarrow> request list \<Rightarrow> request list \<times> request list" where
  "drain can_admit to_admit [] = (to_admit, [])"
| "drain can_admit to_admit (r # q) =
     (if can_admit > 0 then drain (can_admit - 1) (to_admit @ [r]) q else (to_admit, r # q))"

definition drain_pending :: "('c, 's) engine \<Rightarrow> request list \<times> ('c, 's) engine" where
  "drain_pending e =
     (let (to_admit, rest) = drain (free_count (e_kv e)) [] (pending e)
      in (to_admit, e\<lparr>pending := rest\<rparr>))"

definition im_start :: string where
  "im_start = ''<|im_start|>''"

definition im_end :: string where
  "im_end = ''<|im_end|>''"

definition format_prompt :: "string \<Rightarrow> string" where
  "format_prompt p =
     (if starts_with p im_start then p
      else im_start @ ''user'' @ nl @ p @ im_end @ nl @ im_start @ ''assistant'' @ nl)"

text \<open>
  The tokenizer call with its retry: the buffer is \<open>formatted.size() + 16\<close> tokens, a
  negative count asks for a larger one. The result is the final count and buffer.
\<close>

definition tokenize_prompt :: "('c, 's) llama \<Rightarrow> string \<Rightarrow> int list \<Rightarrow> int \<times> int list" where
  "tokenize_prompt L txt toks =
     (let b0 = vec_resize 0 (length txt + 16) toks;
          (n, w) = lm_tokenize L txt (length b0);
          b1 = vec_write w b0
      in if n < 0 then
           (let b2 = vec_resize 0 (nat (- n)) b1;
                (n', w') = lm_tokenize L txt (length b2)
            in (n', vec_write w' b2))
         else (n, b1))"

definition start_slot :: "('c, 's) llama \<Rightarrow> nat \<Rightarrow> ('c, 's) engine \<Rightarrow> ('c, 's) engine" where
  "start_slot L sid e =
     (let e1 = e\<lparr>in_prefill := (in_prefill e)[sid := True], results := (results e)[sid := []],
                tokens_generated := (tokens_generated e)[sid := 0]\<rparr>;
          e2 = free_sampler sid e1
      in e2\<lparr>samplers := (samplers e2)[sid := Some (lm_sampler_new L)],
            n_samplers := n_samplers e2 + 1\<rparr>)"

definition seat :: "('c, 's) llama \<Rightarrow> nat \<Rightarrow> ('c, 's) engine \<Rightarrow> ('c, 's) engine" where
  "seat L sid e =
     (let (n, buf) = tokenize_prompt L (format_prompt (payload (req_at e sid)))
            (prompt_tokens e ! sid);
          e1 = e\<lparr>prompt_tokens := (prompt_tokens e)[sid := buf]\<rparr>
      in if n \<le> 0 then release_kv L sid (fire (req_at e1 sid) err_tokenization e1)
         else start_slot L sid
           (e1\<lparr>prompt_tokens := (prompt_tokens e1)[sid := vec_resize 0 (nat n) buf]\<rparr>))"

definition admit_one ::
    "('c, 's) llama \<Rightarrow> int \<Rightarrow> request \<Rightarrow> ('c, 's) engine \<Rightarrow> ('c, 's) engine" where
  "admit_one L now r e =
     (let e1 = emit (Observe Queue_wait_seconds (secs_of_ns rnd64 (now - enqueue_time r))) e;
          (i, m) = acquire r (e_kv e1);
          e2 = e1\<lparr>e_kv := m\<rparr>
      in if i < 0 then e2 else seat L (nat i) e2)"

fun admit_all ::
    "('c, 's) llama \<Rightarrow> (nat \<Rightarrow> int) \<Rightarrow> nat \<Rightarrow> request list \<Rightarrow> ('c, 's) engine \<Rightarrow> ('c, 's) engine" where
  "admit_all L tick k [] e = e"
| "admit_all L tick k (r # rs) e = admit_all L tick (Suc k) rs (admit_one L (tick k) r e)"

definition admit_pending ::
    "('c, 's) llama \<Rightarrow> (nat \<Rightarrow> int) \<Rightarrow> ('c, 's) engine \<Rightarrow> ('c, 's) engine" where
  "admit_pending L tick e = (let (rs, e1) = drain_pending e in admit_all L tick 0 rs e1)"

section \<open>The decode step\<close>

definition active_slots :: "('c, 's) engine \<Rightarrow> nat list" where
  "active_slots e = filter (is_occupied e) (slot_ids e)"

definition slot_tokens :: "('c, 's) engine \<Rightarrow> nat \<Rightarrow> int" where
  "slot_tokens e sid = (if in_prefill e ! sid then int (length (prompt_tokens e ! sid)) else 1)"

definition count_tokens :: "('c, 's) engine \<Rightarrow> nat list \<Rightarrow> int" where
  "count_tokens e active = sum_list (map (slot_tokens e) active)"

text \<open>
  The batch under construction: the entries written so far (the next index is their number)
  and \<open>logit_pos\<close>. \<open>cap\<close> is the size \<open>llama_batch_init\<close> allocated; a write at or past it
  is \<open>None\<close>.
\<close>

type_synonym batch_state = "batch_entry list \<times> int list"

definition put_entry :: "int \<Rightarrow> nat \<Rightarrow> batch_entry \<Rightarrow> batch_state \<Rightarrow> batch_state option" where
  "put_entry cap sid be st =
     (let (b, lp) = st; idx = length b in
      if int idx < cap
      then Some (b @ [be], if be_logits be then lp[sid := int idx] else lp)
      else None)"

fun put_prompt :: "int \<Rightarrow> nat \<Rightarrow> nat \<Rightarrow> nat \<Rightarrow> int list \<Rightarrow> batch_state \<Rightarrow> batch_state option" where
  "put_prompt cap sid n j [] st = Some st"
| "put_prompt cap sid n j (t # ts) st =
     do {
       st' \<leftarrow> put_entry cap sid
         \<lparr>be_token = t, be_pos = int j, be_seq = int sid, be_logits = (j + 1 = n)\<rparr> st;
       put_prompt cap sid n (Suc j) ts st'
     }"

definition upd_slot :: "nat \<Rightarrow> (slot \<Rightarrow> slot) \<Rightarrow> ('c, 's) engine \<Rightarrow> ('c, 's) engine" where
  "upd_slot sid f e =
     e\<lparr>e_kv := (e_kv e)\<lparr>slots := (slots (e_kv e))[sid := f (slots (e_kv e) ! sid)]\<rparr>\<rparr>"

definition batch_slot ::
    "int \<Rightarrow> nat \<Rightarrow> ('c, 's) engine \<times> batch_state \<Rightarrow> (('c, 's) engine \<times> batch_state) option" where
  "batch_slot cap sid est =
     (let (e, st) = est; s = slots (e_kv e) ! sid in
      if in_prefill e ! sid then
        (let toks = prompt_tokens e ! sid in
         do {
           st' \<leftarrow> put_prompt cap sid (length toks) 0 toks st;
           Some (upd_slot sid (\<lambda>s. s\<lparr>kv_pos := int (length toks)\<rparr>) e, st')
         })
      else
        do {
          st' \<leftarrow> put_entry cap sid
            \<lparr>be_token = last_token s, be_pos = kv_pos s, be_seq = int sid, be_logits = True\<rparr> st;
          Some (upd_slot sid (\<lambda>s. s\<lparr>kv_pos := kv_pos s + 1\<rparr>) e, st')
        })"

fun build_batch ::
    "int \<Rightarrow> nat list \<Rightarrow> ('c, 's) engine \<times> batch_state \<Rightarrow> (('c, 's) engine \<times> batch_state) option" where
  "build_batch cap [] est = Some est"
| "build_batch cap (sid # sids) est =
     do { est' \<leftarrow> batch_slot cap sid est; build_batch cap sids est' }"

text \<open>Every active sequence is retired with an error when the decode call fails.\<close>

definition fail_slot :: "('c, 's) llama \<Rightarrow> nat \<Rightarrow> ('c, 's) engine \<Rightarrow> ('c, 's) engine" where
  "fail_slot L sid e =
     (if \<not> is_occupied e sid then e
      else retire_slot L sid (emit (Inc Requests_total) (fire (req_at e sid) err_decode e)))"

text \<open>One token is sampled per active sequence; the sequence ends on EOS or at its limit.\<close>

definition token_limit :: "engine_config \<Rightarrow> request \<Rightarrow> int" where
  "token_limit cfg r = (if max_new_tokens r > 0 then max_new_tokens r else cfg_max_tokens cfg)"

definition append_token :: "('c, 's) llama \<Rightarrow> int \<Rightarrow> nat \<Rightarrow> ('c, 's) engine \<Rightarrow> ('c, 's) engine" where
  "append_token L tok sid e =
     (let (np, piece) = lm_piece L tok 256;
          e1 = (if np > 0
                then e\<lparr>results := (results e)[sid := results e ! sid @ take (nat np) piece]\<rparr> else e);
          e2 = upd_slot sid (\<lambda>s. s\<lparr>last_token := tok\<rparr>) e1
      in e2\<lparr>in_prefill := (in_prefill e2)[sid := False],
            tokens_generated := (tokens_generated e2)[sid := tokens_generated e2 ! sid + 1]\<rparr>)"

definition finish_slot :: "('c, 's) llama \<Rightarrow> int \<Rightarrow> nat \<Rightarrow> ('c, 's) engine \<Rightarrow> ('c, 's) engine" where
  "finish_slot L end_time sid e =
     (let r = req_at e sid;
          e1 = emit (Observe Latency_seconds (secs_of_ns rnd64 (end_time - enqueue_time r))) e;
          e2 = emit (Inc Requests_total) e1;
          e3 = fire r (results e2 ! sid) e2
      in retire_slot L sid e3)"

definition sample_slot ::
    "('c, 's) llama \<Rightarrow> int \<Rightarrow> int list \<Rightarrow> nat \<Rightarrow> ('c, 's) engine \<Rightarrow> ('c, 's) engine option" where
  "sample_slot L end_time lp sid e =
     (if \<not> is_occupied e sid then Some e
      else case samplers e ! sid of
        None \<Rightarrow> None
      | Some smp \<Rightarrow>
          (let (tok, smp') = lm_sample L smp (e_ctx e) (lp ! sid);
               e1 = e\<lparr>samplers := (samplers e)[sid := Some smp']\<rparr>;
               eos = lm_is_eog L tok;
               e2 = (if eos then e1 else append_token L tok sid e1);
               max_hit = tokens_generated e2 ! sid \<ge> token_limit (e_cfg e2) (req_at e2 sid)
           in Some (if eos \<or> max_hit then finish_slot L end_time sid e2 else e2)))"

fun sample_all ::
    "('c, 's) llama \<Rightarrow> int \<Rightarrow> int list \<Rightarrow> nat list \<Rightarrow> ('c, 's) engine \<Rightarrow> ('c, 's) engine option" where
  "sample_all L end_time lp [] e = Some e"
| "sample_all L end_time lp (sid # sids) e =
     do { e' \<leftarrow> sample_slot L end_time lp sid e; sample_all L end_time lp sids e' }"

definition after_decode ::
    "('c, 's) llama \<Rightarrow> ticks \<Rightarrow> nat list \<Rightarrow> ('c, 's) engine \<Rightarrow> batch_state \<Rightarrow> ('c, 's) engine option" where
  "after_decode L tk active e st =
     (let (rc, c) = lm_decode L (e_ctx e) (fst st);
          e1 = e\<lparr>e_ctx := c\<rparr>;
          n = of_int (int (length active))
      in if rc \<noteq> 0 then
           Some (emit (Gauge_dec Requests_inflight n) (fold (fail_slot L) active e1))
         else
           do {
             e2 \<leftarrow> sample_all L (t_end tk) (snd st) active e1;
             Some (emit (Observe Batch_size n) (emit (Gauge_dec Requests_inflight n) e2))
           })"

definition decode_active ::
    "('c, 's) llama \<Rightarrow> ticks \<Rightarrow> nat list \<Rightarrow> ('c, 's) engine \<Rightarrow> ('c, 's) engine option" where
  "decode_active L tk active e =
     (let util = rnd64 (of_int (int (length active)) / of_int (max_slots (e_kv e)));
          e1 = emit (Gauge_set Kv_slot_utilization util) e;
          n_tokens = count_tokens e1 active
      in if n_tokens = 0 then Some e1
         else
           do {
             (e2, st) \<leftarrow> build_batch n_tokens active
               (e1, ([], replicate (nat (max_slots (e_kv e1))) (- 1)));
             after_decode L tk active
               (emit (Gauge_inc Requests_inflight (of_int (int (length active)))) e2) st
           })"

definition decode_step :: "('c, 's) llama \<Rightarrow> ticks \<Rightarrow> ('c, 's) engine \<Rightarrow> ('c, 's) engine option" where
  "decode_step L tk e =
     (let e1 = retire_expired L (t_now tk) e; active = active_slots e1 in
      if active = [] then Some e1 else decode_active L tk active e1)"

text \<open>One pass through the body of the loop, once the engine is past its wait.\<close>

definition loop_body :: "('c, 's) llama \<Rightarrow> ticks \<Rightarrow> ('c, 's) engine \<Rightarrow> ('c, 's) engine option" where
  "loop_body L tk e = decode_step L tk (admit_pending L (t_admit tk) e)"

definition idle :: "('c, 's) engine \<Rightarrow> bool" where
  "idle e \<longleftrightarrow> free_count (e_kv e) = max_slots (e_kv e)"

end
