(* ===== verification/Engine_Cells.thy ===== *)
theory Engine_Cells
  imports Engine
begin

text \<open>
  The engine keeps parallel arrays indexed by slot id. A \<open>cell\<close> is what they hold for one
  slot; the lemmas here say what each helper of the engine does to the cell it is called
  for, that it leaves the other cells and the queue alone, and that it keeps the arrays in
  shape. Everything about the engine's loop is proved over cells.
\<close>

section \<open>Cells and shape\<close>

record 's cell =
  c_slot :: slot
  c_sampler :: "'s option"
  c_result :: string
  c_prompt :: "int list"
  c_gen :: int
  c_prefill :: bool

definition cell :: "('c, 's) engine \<Rightarrow> nat \<Rightarrow> 's cell" where
  "cell e sid =
     \<lparr>c_slot = slots (e_kv e) ! sid, c_sampler = samplers e ! sid, c_result = results e ! sid,
      c_prompt = prompt_tokens e ! sid, c_gen = tokens_generated e ! sid,
      c_prefill = in_prefill e ! sid\<rparr>"

definition n_slots :: "('c, 's) engine \<Rightarrow> nat" where
  "n_slots e = nat (max_slots (e_kv e))"

definition shaped :: "('c, 's) engine \<Rightarrow> bool" where
  "shaped e \<longleftrightarrow>
     kv_inv (e_kv e) \<and> length (samplers e) = n_slots e \<and> length (results e) = n_slots e \<and>
     length (prompt_tokens e) = n_slots e \<and> length (tokens_generated e) = n_slots e \<and>
     length (in_prefill e) = n_slots e \<and>
     n_samplers e = int (length (filter (\<lambda>x. x \<noteq> None) (samplers e)))"

definition blank :: "'s cell" where
  "blank = \<lparr>c_slot = empty_slot, c_sampler = None, c_result = [], c_prompt = [], c_gen = 0,
            c_prefill = False\<rparr>"

lemma cell_sel [simp]:
  "c_slot (cell e sid) = slots (e_kv e) ! sid" "c_sampler (cell e sid) = samplers e ! sid"
  "c_result (cell e sid) = results e ! sid" "c_prompt (cell e sid) = prompt_tokens e ! sid"
  "c_gen (cell e sid) = tokens_generated e ! sid" "c_prefill (cell e sid) = in_prefill e ! sid"
  by (simp_all add: cell_def)

lemma is_occupied_cell: "is_occupied e sid = occupied (c_slot (cell e sid))"
  by (simp add: is_occupied_def)

lemma req_at_cell: "req_at e sid = slot_req (c_slot (cell e sid))"
  by (simp add: req_at_def)

lemma shapedD:
  assumes "shaped e"
  shows "kv_inv (e_kv e)" "length (slots (e_kv e)) = n_slots e" "length (samplers e) = n_slots e"
    "length (results e) = n_slots e" "length (prompt_tokens e) = n_slots e"
    "length (tokens_generated e) = n_slots e" "length (in_prefill e) = n_slots e"
    "int (n_slots e) = max_slots (e_kv e)"
  using assms kv_invD [of "e_kv e"] by (auto simp: shaped_def n_slots_def)

lemma busy_occupied: "shaped e \<Longrightarrow> busy (e_kv e) sid \<longleftrightarrow> sid < n_slots e \<and> is_occupied e sid"
  by (auto simp: busy_def is_occupied_def dest: shapedD)

lemma slot_ids_upto: "slot_ids e = [0..<n_slots e]"
  by (simp add: slot_ids_def n_slots_def)

section \<open>What each helper does\<close>

subsection \<open>Traces\<close>

definition reply :: "request \<Rightarrow> string \<Rightarrow> (promise_id \<times> string) list" where
  "reply r s = (case on_complete r of None \<Rightarrow> [] | Some p \<Rightarrow> [(p, s)])"

lemma fire_simps [eng_simps]:
  "e_cfg (fire r s e) = e_cfg e" "e_kv (fire r s e) = e_kv e" "e_ctx (fire r s e) = e_ctx e"
  "samplers (fire r s e) = samplers e" "results (fire r s e) = results e"
  "prompt_tokens (fire r s e) = prompt_tokens e"
  "tokens_generated (fire r s e) = tokens_generated e" "in_prefill (fire r s e) = in_prefill e"
  "pending (fire r s e) = pending e" "running (fire r s e) = running e"
  "fired (fire r s e) = fired e @ reply r s" "e_log (fire r s e) = e_log e"
  "n_samplers (fire r s e) = n_samplers e" "cell (fire r s e) j = cell e j"
  by (simp_all add: fire_def reply_def cell_def split: option.splits)

lemma emit_simps [eng_simps]:
  "e_cfg (emit ev e) = e_cfg e" "e_kv (emit ev e) = e_kv e" "e_ctx (emit ev e) = e_ctx e"
  "samplers (emit ev e) = samplers e" "results (emit ev e) = results e"
  "prompt_tokens (emit ev e) = prompt_tokens e"
  "tokens_generated (emit ev e) = tokens_generated e" "in_prefill (emit ev e) = in_prefill e"
  "pending (emit ev e) = pending e" "running (emit ev e) = running e"
  "fired (emit ev e) = fired e" "e_log (emit ev e) = e_log e @ [ev]"
  "n_samplers (emit ev e) = n_samplers e" "cell (emit ev e) j = cell e j"
  by (simp_all add: emit_def cell_def)

lemma shaped_trace [eng_simps]:
  "shaped (fire r s e) = shaped e" "n_slots (fire r s e) = n_slots e"
  "shaped (emit ev e) = shaped e" "n_slots (emit ev e) = n_slots e"
  "is_occupied (fire r s e) j = is_occupied e j" "is_occupied (emit ev e) j = is_occupied e j"
  "req_at (fire r s e) j = req_at e j" "req_at (emit ev e) j = req_at e j"
  by (simp_all add: shaped_def n_slots_def eng_simps is_occupied_def req_at_def)

subsection \<open>Samplers, release, retirement\<close>

lemma free_sampler_simps [eng_simps]:
  "e_cfg (free_sampler sid e) = e_cfg e" "e_kv (free_sampler sid e) = e_kv e"
  "e_ctx (free_sampler sid e) = e_ctx e" "results (free_sampler sid e) = results e"
  "prompt_tokens (free_sampler sid e) = prompt_tokens e"
  "tokens_generated (free_sampler sid e) = tokens_generated e"
  "in_prefill (free_sampler sid e) = in_prefill e" "pending (free_sampler sid e) = pending e"
  "running (free_sampler sid e) = running e" "fired (free_sampler sid e) = fired e"
  "e_log (free_sampler sid e) = e_log e" "n_slots (free_sampler sid e) = n_slots e"
  "samplers (free_sampler sid e) = (samplers e)[sid := None]"
  by (auto simp: free_sampler_def n_slots_def list_update_id [symmetric] simp del: list_update_id)
    (metis list_update_id)+

lemma shaped_free_sampler:
  assumes "shaped e" "sid < n_slots e"
  shows "shaped (free_sampler sid e)"
proof (cases "samplers e ! sid = None")
  case True
  with assms show ?thesis by (simp add: free_sampler_def)
next
  case False
  then have "Suc (length (filter (\<lambda>x. x \<noteq> None) ((samplers e)[sid := None]))) =
      length (filter (\<lambda>x. x \<noteq> None) (samplers e))"
    using assms shapedD(3) [OF assms(1)] by (intro count_filter_update_False) auto
  with assms False show ?thesis
    by (auto simp: shaped_def n_slots_def free_sampler_def)
qed

lemma release_kv_simps [eng_simps]:
  "e_cfg (release_kv L sid e) = e_cfg e" "e_kv (release_kv L sid e) = clear_slot sid (e_kv e)"
  "samplers (release_kv L sid e) = samplers e" "results (release_kv L sid e) = results e"
  "prompt_tokens (release_kv L sid e) = prompt_tokens e"
  "tokens_generated (release_kv L sid e) = tokens_generated e"
  "in_prefill (release_kv L sid e) = in_prefill e" "pending (release_kv L sid e) = pending e"
  "running (release_kv L sid e) = running e" "fired (release_kv L sid e) = fired e"
  "e_log (release_kv L sid e) = e_log e" "n_samplers (release_kv L sid e) = n_samplers e"
  "n_slots (release_kv L sid e) = n_slots e"
  "e_ctx (release_kv L sid e) = lm_seq_rm L (e_ctx e) (int sid) 0 (- 1)"
  by (simp_all add: release_kv_def release_def n_slots_def slot_simps free_seq_def)

lemma shaped_release_kv:
  "shaped e \<Longrightarrow> sid < n_slots e \<Longrightarrow> is_occupied e sid \<Longrightarrow> shaped (release_kv L sid e)"
  using clear_slot_inv [of "e_kv e" sid] busy_occupied [of e sid]
  by (auto simp: shaped_def eng_simps)

lemma cell_release_kv:
  "shaped e \<Longrightarrow> sid < n_slots e \<Longrightarrow>
     cell (release_kv L sid e) j = (if j = sid then (cell e sid)\<lparr>c_slot := empty_slot\<rparr> else cell e j)"
  by (auto simp: cell_def eng_simps clear_slot_def nth_list_update dest: shapedD)

lemma retire_slot_simps [eng_simps]:
  "e_cfg (retire_slot L sid e) = e_cfg e" "e_kv (retire_slot L sid e) = clear_slot sid (e_kv e)"
  "pending (retire_slot L sid e) = pending e" "running (retire_slot L sid e) = running e"
  "fired (retire_slot L sid e) = fired e" "e_log (retire_slot L sid e) = e_log e"
  "n_slots (retire_slot L sid e) = n_slots e"
  by (simp_all add: retire_slot_def Let_def eng_simps n_slots_def slot_simps)

lemma shaped_upd_arrays:
  "shaped e \<Longrightarrow> length rs = n_slots e \<Longrightarrow> length ps = n_slots e \<Longrightarrow> length gs = n_slots e \<Longrightarrow>
     length fs = n_slots e \<Longrightarrow>
     shaped (e\<lparr>results := rs, prompt_tokens := ps, tokens_generated := gs, in_prefill := fs\<rparr>)"
  by (simp add: shaped_def n_slots_def)

lemma shaped_retire_slot [inv_intros]:
  assumes "shaped e" "sid < n_slots e" "is_occupied e sid"
  shows "shaped (retire_slot L sid e)"
  unfolding retire_slot_def Let_def
proof (intro shaped_release_kv shaped_upd_arrays shaped_free_sampler)
qed (use assms shapedD [OF assms(1)] in
    \<open>simp_all add: eng_simps n_slots_def is_occupied_def\<close>)

lemma cell_retire_slot [eng_simps]:
  assumes "shaped e" "sid < n_slots e"
  shows "cell (retire_slot L sid e) j = (if j = sid then blank else cell e j)"
  using shapedD [OF assms(1)] assms(2)
  by (auto simp: cell_def retire_slot_def Let_def eng_simps clear_slot_def blank_def nth_list_update)

subsection \<open>Starting and stepping a slot\<close>

lemma start_slot_simps [eng_simps]:
  "e_cfg (start_slot L sid e) = e_cfg e" "e_kv (start_slot L sid e) = e_kv e"
  "pending (start_slot L sid e) = pending e" "running (start_slot L sid e) = running e"
  "fired (start_slot L sid e) = fired e" "e_log (start_slot L sid e) = e_log e"
  "n_slots (start_slot L sid e) = n_slots e"
  by (simp_all add: start_slot_def Let_def eng_simps n_slots_def)

lemma cell_start_slot:
  assumes "shaped e" "sid < n_slots e"
  shows "cell (start_slot L sid e) j =
    (if j = sid then (cell e sid)\<lparr>c_prefill := True, c_result := [], c_gen := 0,
       c_sampler := Some (lm_sampler_new L)\<rparr> else cell e j)"
  using shapedD [OF assms(1)] assms(2)
  by (auto simp: cell_def start_slot_def Let_def eng_simps nth_list_update)

lemma shaped_start_slot [inv_intros]:
  assumes "shaped e" "sid < n_slots e"
  shows "shaped (start_slot L sid e)"
proof -
  let ?e1 = "e\<lparr>in_prefill := (in_prefill e)[sid := True], results := (results e)[sid := []],
                tokens_generated := (tokens_generated e)[sid := 0]\<rparr>"
  have "shaped ?e1" using assms(1) by (simp add: shaped_def n_slots_def)
  then have s: "shaped (free_sampler sid ?e1)"
    using assms(2) by (intro shaped_free_sampler) (simp_all add: n_slots_def)
  have none: "samplers (free_sampler sid ?e1) ! sid = None"
    using assms shapedD(3) [OF assms(1)] by (simp add: eng_simps)
  have "length (filter (\<lambda>x. x \<noteq> None) ((samplers (free_sampler sid ?e1))[sid := Some (lm_sampler_new L)]))
      = Suc (length (filter (\<lambda>x. x \<noteq> None) (samplers (free_sampler sid ?e1))))"
    using assms shapedD(3) [OF s] none
    by (intro count_filter_update_True) (simp_all add: eng_simps n_slots_def)
  with s show ?thesis
    unfolding start_slot_def Let_def by (auto simp: shaped_def n_slots_def)
qed

lemma upd_slot_simps [eng_simps]:
  "e_cfg (upd_slot sid f e) = e_cfg e" "e_ctx (upd_slot sid f e) = e_ctx e"
  "samplers (upd_slot sid f e) = samplers e" "results (upd_slot sid f e) = results e"
  "prompt_tokens (upd_slot sid f e) = prompt_tokens e"
  "tokens_generated (upd_slot sid f e) = tokens_generated e"
  "in_prefill (upd_slot sid f e) = in_prefill e" "pending (upd_slot sid f e) = pending e"
  "running (upd_slot sid f e) = running e" "fired (upd_slot sid f e) = fired e"
  "e_log (upd_slot sid f e) = e_log e" "n_samplers (upd_slot sid f e) = n_samplers e"
  "n_slots (upd_slot sid f e) = n_slots e" "max_slots (e_kv (upd_slot sid f e)) = max_slots (e_kv e)"
  "slots (e_kv (upd_slot sid f e)) = (slots (e_kv e))[sid := f (slots (e_kv e) ! sid)]"
  by (simp_all add: upd_slot_def n_slots_def)

lemma cell_upd_slot:
  "shaped e \<Longrightarrow> sid < n_slots e \<Longrightarrow> cell (upd_slot sid f e) j =
     (if j = sid then (cell e sid)\<lparr>c_slot := f (slots (e_kv e) ! sid)\<rparr> else cell e j)"
  by (auto simp: cell_def eng_simps nth_list_update dest: shapedD)

lemma shaped_upd_slot [inv_intros]:
  assumes "shaped e" "sid < n_slots e" "\<And>s. occupied (f s) = occupied s"
  shows "shaped (upd_slot sid f e)"
proof -
  have "length (filter (\<lambda>s. \<not> occupied s) ((slots (e_kv e))[sid := f (slots (e_kv e) ! sid)])) =
      length (filter (\<lambda>s. \<not> occupied s) (slots (e_kv e)))"
    using assms shapedD(2) [OF assms(1)] by (intro count_filter_update_same) auto
  with assms(1) show ?thesis
    by (auto simp: shaped_def upd_slot_def kv_inv_def n_free_def n_slots_def)
qed

lemma append_token_simps [eng_simps]:
  "e_cfg (append_token L tok sid e) = e_cfg e" "e_ctx (append_token L tok sid e) = e_ctx e"
  "samplers (append_token L tok sid e) = samplers e"
  "prompt_tokens (append_token L tok sid e) = prompt_tokens e"
  "pending (append_token L tok sid e) = pending e" "running (append_token L tok sid e) = running e"
  "fired (append_token L tok sid e) = fired e" "e_log (append_token L tok sid e) = e_log e"
  "n_samplers (append_token L tok sid e) = n_samplers e"
  "n_slots (append_token L tok sid e) = n_slots e"
  by (simp_all add: append_token_def Let_def eng_simps n_slots_def split: prod.splits)

definition token_text :: "('c, 's) llama \<Rightarrow> int \<Rightarrow> string" where
  "token_text L tok =
     (let (np, piece) = lm_piece L tok 256 in if np > 0 then take (nat np) piece else [])"

lemma cell_append_token:
  assumes "shaped e" "sid < n_slots e"
  shows "cell (append_token L tok sid e) j =
    (if j = sid then (cell e sid)\<lparr>c_slot := (slots (e_kv e) ! sid)\<lparr>last_token := tok\<rparr>,
       c_result := results e ! sid @ token_text L tok, c_gen := tokens_generated e ! sid + 1,
       c_prefill := False\<rparr> else cell e j)"
  using shapedD [OF assms(1)] assms(2)
  by (auto simp: cell_def append_token_def token_text_def Let_def upd_slot_def nth_list_update
      split: prod.splits)

lemma shaped_append_token [inv_intros]:
  assumes "shaped e" "sid < n_slots e"
  shows "shaped (append_token L tok sid e)"
proof -
  have s: "shaped (upd_slot sid (\<lambda>s. s\<lparr>last_token := tok\<rparr>) (e\<lparr>results := rs\<rparr>))"
    if "length rs = length (results e)" for rs
    using assms that by (intro shaped_upd_slot) (auto simp: shaped_def n_slots_def)
  have "shaped (upd_slot sid (\<lambda>s. s\<lparr>last_token := tok\<rparr>) e)"
    using assms by (intro shaped_upd_slot) auto
  with s show ?thesis
    unfolding append_token_def Let_def
    by (auto simp: shaped_def eng_simps n_slots_def split: prod.splits)
qed

end
