(* ===== verification/Engine_Batch.thy ===== *)
theory Engine_Batch
  imports Engine_Cells
begin

text \<open>
  The batch handed to \<open>llama_decode\<close>: the index arithmetic of the decode step computes the
  concatenation of every active slot's entries, never writes past the allocation, and
  records for each slot the index of its own logits.
\<close>

section \<open>What a slot contributes\<close>

definition prompt_entries :: "nat \<Rightarrow> int list \<Rightarrow> batch_entry list" where
  "prompt_entries sid toks =
     map (\<lambda>j. \<lparr>be_token = toks ! j, be_pos = int j, be_seq = int sid,
              be_logits = (j + 1 = length toks)\<rparr>) [0..<length toks]"

definition cell_entries :: "nat \<Rightarrow> 's cell \<Rightarrow> batch_entry list" where
  "cell_entries sid c =
     (if c_prefill c then prompt_entries sid (c_prompt c)
      else [\<lparr>be_token = last_token (c_slot c), be_pos = kv_pos (c_slot c), be_seq = int sid,
             be_logits = True\<rparr>])"

definition slot_entries :: "('c, 's) engine \<Rightarrow> nat \<Rightarrow> batch_entry list" where
  "slot_entries e sid = cell_entries sid (cell e sid)"

definition fed :: "'s cell \<Rightarrow> 's cell" where
  "fed c = c\<lparr>c_slot := (c_slot c)\<lparr>kv_pos :=
     (if c_prefill c then int (length (c_prompt c)) else kv_pos (c_slot c) + 1)\<rparr>\<rparr>"

lemma length_slot_entries: "int (length (slot_entries e sid)) = slot_tokens e sid"
  by (simp add: slot_entries_def cell_entries_def slot_tokens_def prompt_entries_def)

lemma slot_entries_seq: "\<forall>be \<in> set (slot_entries e sid). be_seq be = int sid"
  by (auto simp: slot_entries_def cell_entries_def prompt_entries_def)

lemma slot_entries_last_logits:
  "slot_entries e sid \<noteq> [] \<Longrightarrow> be_logits (last (slot_entries e sid))"
  by (auto simp: slot_entries_def cell_entries_def prompt_entries_def last_map)

section \<open>Writing a prompt\<close>

lemma put_prompt_eq:
  assumes "j + length ts = n" "int (length b + length ts) \<le> cap"
  shows "put_prompt cap sid n j ts (b, lp) =
    Some (b @ map (\<lambda>i. \<lparr>be_token = ts ! i, be_pos = int (j + i), be_seq = int sid,
                       be_logits = (j + i + 1 = n)\<rparr>) [0..<length ts],
          if ts = [] then lp else lp[sid := int (length b + length ts - 1)])"
  using assms
proof (induction ts arbitrary: j b lp)
  case Nil
  then show ?case by simp
next
  case (Cons t ts)
  let ?be = "\<lparr>be_token = t, be_pos = int j, be_seq = int sid, be_logits = (j + 1 = n)\<rparr>"
  have put: "put_entry cap sid ?be (b, lp) =
      Some (b @ [?be], if ts = [] then lp[sid := int (length b)] else lp)"
    using Cons.prems by (auto simp: put_entry_def)
  have upt: "[0..<length (t # ts)] = 0 # map Suc [0..<length ts]"
    by (simp add: map_Suc_upt upt_conv_Cons del: upt_Suc)
  have "put_prompt cap sid n (Suc j) ts
      (b @ [?be], if ts = [] then lp[sid := int (length b)] else lp) =
    Some ((b @ [?be]) @ map (\<lambda>i. \<lparr>be_token = ts ! i, be_pos = int (Suc j + i), be_seq = int sid,
                       be_logits = (Suc j + i + 1 = n)\<rparr>) [0..<length ts],
          if ts = [] then (if ts = [] then lp[sid := int (length b)] else lp)
          else (if ts = [] then lp[sid := int (length b)] else lp)
            [sid := int (length (b @ [?be]) + length ts - 1)])"
    using Cons.prems by (intro Cons.IH) auto
  then show ?case
    unfolding upt put_prompt.simps put by (simp add: comp_def)
qed

lemma batch_slot_eq:
  assumes "shaped e" "sid < n_slots e" "int (length b) + slot_tokens e sid \<le> cap"
  shows "\<exists>f. batch_slot cap sid (e, (b, lp)) =
      Some (upd_slot sid f e,
            (b @ slot_entries e sid,
             if slot_entries e sid = [] then lp
             else lp[sid := int (length b + length (slot_entries e sid) - 1)])) \<and>
    c_slot (fed (cell e sid)) = f (slots (e_kv e) ! sid) \<and> (\<forall>s. occupied (f s) = occupied s)"
proof (cases "in_prefill e ! sid")
  case True
  let ?toks = "prompt_tokens e ! sid"
  have "put_prompt cap sid (length ?toks) 0 ?toks (b, lp) =
    Some (b @ slot_entries e sid, if slot_entries e sid = [] then lp
             else lp[sid := int (length b + length (slot_entries e sid) - 1)])"
    using assms(3) True put_prompt_eq [of 0 ?toks "length ?toks" b cap sid lp]
    by (simp add: slot_entries_def cell_entries_def prompt_entries_def slot_tokens_def)
  with True show ?thesis
    by (intro exI [of _ "\<lambda>s. s\<lparr>kv_pos := int (length ?toks)\<rparr>"])
      (simp add: batch_slot_def Let_def fed_def)
next
  case False
  with assms(3) show ?thesis
    by (intro exI [of _ "\<lambda>s. s\<lparr>kv_pos := kv_pos s + 1\<rparr>"])
      (simp add: batch_slot_def Let_def fed_def put_entry_def slot_entries_def cell_entries_def
        slot_tokens_def)
qed

section \<open>The whole batch\<close>

text \<open>Everything but the slots' positions is the same in two engines.\<close>

definition same_but_slots :: "('c, 's) engine \<Rightarrow> ('c, 's) engine \<Rightarrow> bool" where
  "same_but_slots e e' \<longleftrightarrow> (\<exists>m. e' = e\<lparr>e_kv := m\<rparr> \<and> max_slots m = max_slots (e_kv e))"

lemma same_but_slots_refl: "same_but_slots e e"
  by (auto simp: same_but_slots_def intro: exI [of _ "e_kv e"])

lemma same_but_slots_upd: "same_but_slots e (upd_slot sid f e)"
  by (auto simp: same_but_slots_def upd_slot_def)

lemma same_but_slots_trans: "same_but_slots a b \<Longrightarrow> same_but_slots b c \<Longrightarrow> same_but_slots a c"
  by (auto simp: same_but_slots_def)

lemma same_but_slotsD:
  assumes "same_but_slots e e'"
  shows "e_cfg e' = e_cfg e" "e_ctx e' = e_ctx e" "samplers e' = samplers e"
    "results e' = results e" "prompt_tokens e' = prompt_tokens e"
    "tokens_generated e' = tokens_generated e" "in_prefill e' = in_prefill e"
    "pending e' = pending e" "running e' = running e" "fired e' = fired e" "e_log e' = e_log e"
    "n_samplers e' = n_samplers e" "n_slots e' = n_slots e"
  using assms by (auto simp: same_but_slots_def n_slots_def)

definition own_logits :: "batch_entry list \<Rightarrow> int list \<Rightarrow> nat \<Rightarrow> bool" where
  "own_logits b lp sid \<longleftrightarrow>
     (\<exists>i < length b. lp ! sid = int i \<and> be_seq (b ! i) = int sid \<and> be_logits (b ! i))"

lemma own_logits_append: "own_logits b lp sid \<Longrightarrow> own_logits (b @ c) lp sid"
  by (fastforce simp: own_logits_def nth_append)

lemma own_logits_frame: "own_logits b lp sid \<Longrightarrow> j \<noteq> sid \<Longrightarrow> own_logits b (lp[j := x]) sid"
  by (auto simp: own_logits_def)

lemma own_logits_new:
  assumes "slot_entries e sid \<noteq> []" "sid < length lp"
  shows "own_logits (b @ slot_entries e sid)
    (lp[sid := int (length b + length (slot_entries e sid) - 1)]) sid"
proof -
  let ?i = "length b + length (slot_entries e sid) - 1"
  have at: "(b @ slot_entries e sid) ! ?i = last (slot_entries e sid)"
    using assms(1) by (cases "slot_entries e sid" rule: rev_cases) (auto simp: nth_append)
  have "last (slot_entries e sid) \<in> set (slot_entries e sid)" using assms(1) by simp
  then show ?thesis
    unfolding own_logits_def using assms at slot_entries_seq [of e sid]
      slot_entries_last_logits [of e sid]
    by (intro exI [of _ ?i]) (cases "slot_entries e sid", auto)
qed

theorem build_batch_eq:
  assumes "shaped e" "\<forall>sid \<in> set active. sid < n_slots e" "distinct active"
    "int (length b) + count_tokens e active \<le> cap" "length lp = n_slots e"
    "\<forall>sid \<in> set active. slot_entries e sid \<noteq> []"
  shows "\<exists>e' lp'.
    build_batch cap active (e, (b, lp)) = Some (e', (b @ concat (map (slot_entries e) active), lp')) \<and>
    shaped e' \<and> same_but_slots e e' \<and>
    (\<forall>j. cell e' j = (if j \<in> set active then fed (cell e j) else cell e j)) \<and>
    (\<forall>j. is_occupied e' j = is_occupied e j) \<and>
    (\<forall>sid \<in> set active. own_logits (b @ concat (map (slot_entries e) active)) lp' sid) \<and>
    (\<forall>j. j \<notin> set active \<longrightarrow> lp' ! j = lp ! j) \<and> length lp' = length lp"
  using assms
proof (induction active arbitrary: e b lp)
  case Nil
  then show ?case by (simp add: same_but_slots_refl)
next
  case (Cons sid active)
  have sid: "sid < n_slots e" "sid \<notin> set active" "slot_entries e sid \<noteq> []"
    using Cons.prems by auto
  have nonneg: "0 \<le> count_tokens e active"
    unfolding count_tokens_def by (intro sum_list_nonneg) (auto simp: slot_tokens_def)
  have "int (length b) + slot_tokens e sid \<le> cap"
    using Cons.prems(4) nonneg by (simp add: count_tokens_def)
  from batch_slot_eq [OF Cons.prems(1) sid(1) this] obtain f where f:
    "batch_slot cap sid (e, (b, lp)) = Some (upd_slot sid f e,
       (b @ slot_entries e sid, lp[sid := int (length b + length (slot_entries e sid) - 1)]))"
    "c_slot (fed (cell e sid)) = f (slots (e_kv e) ! sid)" "\<And>s. occupied (f s) = occupied s"
    using sid(3) by auto
  let ?e1 = "upd_slot sid f e" and ?b1 = "b @ slot_entries e sid"
  let ?lp1 = "lp[sid := int (length b + length (slot_entries e sid) - 1)]"
  have cells: "cell ?e1 j = (if j = sid then fed (cell e sid) else cell e j)" for j
    using cell_upd_slot [OF Cons.prems(1) sid(1), of f j] f(2)
    by (auto simp: fed_def)
  have entries: "slot_entries ?e1 j = slot_entries e j" if "j \<in> set active" for j
    using that sid(2) cells [of j] by (auto simp: slot_entries_def)
  then have ents: "map (slot_entries ?e1) active = map (slot_entries e) active" by simp
  have "slot_tokens ?e1 = slot_tokens e"
    by (rule ext) (simp add: slot_tokens_def eng_simps)
  then have cnt: "count_tokens ?e1 active = count_tokens e active"
    by (simp add: count_tokens_def)
  have prems: "shaped ?e1" "\<forall>j \<in> set active. j < n_slots ?e1" "distinct active"
    "int (length ?b1) + count_tokens ?e1 active \<le> cap" "length ?lp1 = n_slots ?e1"
    "\<forall>j \<in> set active. slot_entries ?e1 j \<noteq> []"
    using Cons.prems f(3) sid entries cnt length_slot_entries [of e sid]
    by (auto simp: eng_simps count_tokens_def intro!: shaped_upd_slot)
  from Cons.IH [OF prems] obtain e' lp' where IH:
    "build_batch cap active (?e1, (?b1, ?lp1)) =
       Some (e', (?b1 @ concat (map (slot_entries e) active), lp'))"
    "shaped e'" "same_but_slots ?e1 e'"
    "\<And>j. cell e' j = (if j \<in> set active then fed (cell ?e1 j) else cell ?e1 j)"
    "\<And>j. is_occupied e' j = is_occupied ?e1 j"
    "\<forall>j \<in> set active. own_logits (?b1 @ concat (map (slot_entries e) active)) lp' j"
    "\<forall>j. j \<notin> set active \<longrightarrow> lp' ! j = ?lp1 ! j" "length lp' = length ?lp1"
    unfolding ents by blast
  have occ: "is_occupied ?e1 j = is_occupied e j" for j
    using shapedD(2) [OF Cons.prems(1)] sid(1) f(3)
    by (cases "j = sid") (simp_all add: is_occupied_def eng_simps)
  have "own_logits ?b1 ?lp1 sid"
    using sid Cons.prems(5) by (intro own_logits_new) auto
  then have "own_logits (?b1 @ concat (map (slot_entries e) active)) ?lp1 sid"
    by (rule own_logits_append)
  then have own: "own_logits (?b1 @ concat (map (slot_entries e) active)) lp' sid"
    using IH(7) [rule_format, OF sid(2)] unfolding own_logits_def by (simp only:)
  have "build_batch cap (sid # active) (e, (b, lp)) =
      Some (e', (b @ concat (map (slot_entries e) (sid # active)), lp'))"
    using f(1) IH(1) by simp
  moreover have "same_but_slots e e'"
    using same_but_slots_upd IH(3) by (rule same_but_slots_trans)
  moreover have "\<forall>j. cell e' j = (if j \<in> set (sid # active) then fed (cell e j) else cell e j)"
    using IH(4) cells sid(2) by auto
  moreover have "\<forall>j. is_occupied e' j = is_occupied e j" using IH(5) occ by simp
  moreover have "\<forall>j \<in> set (sid # active).
      own_logits (b @ concat (map (slot_entries e) (sid # active))) lp' j"
    using IH(6) own by simp
  moreover have "\<forall>j. j \<notin> set (sid # active) \<longrightarrow> lp' ! j = lp ! j"
    using IH(7) by simp
  moreover have "length lp' = length lp" using IH(8) by simp
  ultimately show ?case using IH(2) by blast
qed

end
