(* ===== verification/Engine_Inv.thy ===== *)
theory Engine_Inv
  imports Engine_Batch
begin

text \<open>
  The engine's invariant and what one pass through the loop body does: no undefined
  behaviour, the invariant is kept, every callback is accounted for, and the remaining work
  (the \<open>load\<close>) shrinks.
\<close>

section \<open>Invariant, accounting and load\<close>

definition quota :: "engine_config \<Rightarrow> request \<Rightarrow> int" where
  "quota cfg r = max 1 (token_limit cfg r)"

definition cell_ok :: "engine_config \<Rightarrow> 's cell \<Rightarrow> bool" where
  "cell_ok cfg c \<longleftrightarrow>
     (if occupied (c_slot c) then
        c_sampler c \<noteq> None \<and> c_prompt c \<noteq> [] \<and> 0 \<le> c_gen c \<and>
        c_gen c < quota cfg (slot_req (c_slot c)) \<and>
        (if c_prefill c then c_gen c = 0 \<and> c_result c = []
         else 0 < c_gen c \<and> kv_pos (c_slot c) = int (length (c_prompt c)) + c_gen c - 1)
      else c_sampler c = None)"

definition fed_ok :: "engine_config \<Rightarrow> 's cell \<Rightarrow> bool" where
  "fed_ok cfg c \<longleftrightarrow>
     occupied (c_slot c) \<and> c_sampler c \<noteq> None \<and> c_prompt c \<noteq> [] \<and> 0 \<le> c_gen c \<and>
     c_gen c < quota cfg (slot_req (c_slot c)) \<and>
     kv_pos (c_slot c) = int (length (c_prompt c)) + c_gen c"

definition eng_ok :: "('c, 's) engine \<Rightarrow> bool" where
  "eng_ok e \<longleftrightarrow> shaped e \<and> (\<forall>sid < n_slots e. cell_ok (e_cfg e) (cell e sid))"

text \<open>The callbacks the engine still owes: those of the occupied slots.\<close>

definition slot_cb :: "slot \<Rightarrow> promise_id option" where
  "slot_cb s = (if occupied s then on_complete (slot_req s) else None)"

definition lab :: "request \<Rightarrow> promise_id multiset" where
  "lab r = (case on_complete r of None \<Rightarrow> {#} | Some p \<Rightarrow> {#p#})"

definition held :: "('c, 's) engine \<Rightarrow> promise_id multiset" where
  "held e = labels slot_cb (slots (e_kv e))"

definition answered :: "('c, 's) engine \<Rightarrow> promise_id multiset" where
  "answered e = mset (map fst (fired e))"

definition accounted :: "('c, 's) engine \<Rightarrow> promise_id multiset" where
  "accounted e = labels on_complete (pending e) + held e + answered e"

definition slot_load :: "engine_config \<Rightarrow> 's cell \<Rightarrow> int" where
  "slot_load cfg c = (if occupied (c_slot c) then quota cfg (slot_req (c_slot c)) - c_gen c else 0)"

definition slots_load :: "('c, 's) engine \<Rightarrow> int" where
  "slots_load e = (\<Sum>sid < n_slots e. slot_load (e_cfg e) (cell e sid))"

definition load :: "('c, 's) engine \<Rightarrow> int" where
  "load e = weigh (quota (e_cfg e)) (pending e) + slots_load e"

lemma quota_pos: "1 \<le> quota cfg r"
  by (simp add: quota_def)

lemma answered_reply: "mset (map fst (reply r s)) = lab r"
  by (simp add: reply_def lab_def split: option.splits)

lemma labels_lab: "labels on_complete (r # rs) = lab r + labels on_complete rs"
  by (simp add: lab_def)

lemma answered_trace [eng_simps]:
  "answered (fire r s e) = answered e + lab r" "answered (emit ev e) = answered e"
  "answered (retire_slot L sid e) = answered e" "answered (release_kv L sid e) = answered e"
  "answered (start_slot L sid e) = answered e" "answered (append_token L tok sid e) = answered e"
  "answered (upd_slot sid f e) = answered e"
  using answered_reply [of r s] by (simp_all add: answered_def eng_simps)

lemma eng_okD: "eng_ok e \<Longrightarrow> shaped e" "eng_ok e \<Longrightarrow> sid < n_slots e \<Longrightarrow> cell_ok (e_cfg e) (cell e sid)"
  by (auto simp: eng_ok_def)

lemma cell_ok_blank: "cell_ok cfg blank" "slot_load cfg blank = 0"
  by (simp_all add: cell_ok_def slot_load_def blank_def empty_slot_def)

lemma slot_load_pos: "cell_ok cfg c \<Longrightarrow> occupied (c_slot c) \<Longrightarrow> 1 \<le> slot_load cfg c"
  by (auto simp: cell_ok_def slot_load_def split: if_splits)

lemma slot_load_nonneg: "cell_ok cfg c \<Longrightarrow> 0 \<le> slot_load cfg c"
  using slot_load_pos [of cfg c] by (cases "occupied (c_slot c)") (auto simp: slot_load_def)

lemma slots_load_nonneg: "eng_ok e \<Longrightarrow> 0 \<le> slots_load e"
  unfolding slots_load_def by (intro sum_nonneg slot_load_nonneg) (auto dest: eng_okD)

lemma weigh_quota_ge: "int (length rs) \<le> weigh (quota cfg) rs"
proof (induction rs)
  case (Cons r rs)
  then show ?case using quota_pos [of cfg r] by simp
qed simp

lemma load_nonneg: "eng_ok e \<Longrightarrow> 0 \<le> load e"
  using slots_load_nonneg [of e] weigh_quota_ge [of "pending e" "e_cfg e"] by (simp add: load_def)

lemma slots_load_change:
  assumes "sid < n_slots e" "n_slots e' = n_slots e" "e_cfg e' = e_cfg e"
    "\<And>j. j < n_slots e \<Longrightarrow> j \<noteq> sid \<Longrightarrow> cell e' j = cell e j"
  shows "slots_load e' = slots_load e - slot_load (e_cfg e) (cell e sid)
    + slot_load (e_cfg e) (cell e' sid)"
proof -
  have "(\<Sum>j \<in> {..<n_slots e} - {sid}. slot_load (e_cfg e) (cell e' j)) =
      (\<Sum>j \<in> {..<n_slots e} - {sid}. slot_load (e_cfg e) (cell e j))"
    using assms(4) by (intro sum.cong) auto
  then show ?thesis
    unfolding slots_load_def assms(2,3) using assms(1) by (simp add: sum.remove)
qed

section \<open>Retiring a slot\<close>

lemma held_eq:
  "slots (e_kv e) = slots (e_kv e') \<Longrightarrow> held e = held e'"
  by (simp add: held_def)

lemma held_trace [eng_simps]: "held (fire r s e) = held e" "held (emit ev e) = held e"
  by (simp_all add: held_def eng_simps)

lemma held_retire_slot:
  assumes "shaped e" "sid < n_slots e" "is_occupied e sid"
  shows "held (retire_slot L sid e) + lab (req_at e sid) = held e"
  using labels_update [of sid "slots (e_kv e)" slot_cb empty_slot] assms shapedD(2) [OF assms(1)]
  by (simp add: held_def eng_simps clear_slot_def slot_cb_def lab_def req_at_def is_occupied_def
      empty_slot_def)

lemma held_upd_slot:
  assumes "shaped e" "sid < n_slots e" "\<And>s. occupied (f s) = occupied s"
    "\<And>s. slot_req (f s) = slot_req s"
  shows "held (upd_slot sid f e) = held e"
proof -
  have "slot_cb (f s) = slot_cb s" for s using assms(3,4) by (auto simp: slot_cb_def)
  then show ?thesis
    using labels_update [of sid "slots (e_kv e)" slot_cb "f (slots (e_kv e) ! sid)"]
      shapedD(2) [OF assms(1)] assms(2)
    by (simp add: held_def eng_simps)
qed

text \<open>
  Retiring an occupied slot after its request was answered: the three ways the engine does
  it (deadline, failed decode, end of sequence) share this lemma.
\<close>

lemma retire_ok:
  assumes "eng_ok e" "sid < n_slots e" "is_occupied e sid"
  shows "eng_ok (retire_slot L sid e)"
  using assms eng_okD [OF assms(1)]
  by (auto simp: eng_ok_def eng_simps cell_ok_blank intro: shaped_retire_slot)

lemma retire_load:
  assumes "shaped e" "sid < n_slots e"
  shows "slots_load (retire_slot L sid e) = slots_load e - slot_load (e_cfg e) (cell e sid)"
  using slots_load_change [OF assms(2), of "retire_slot L sid e"] assms
  by (simp add: eng_simps cell_ok_blank)

lemma eng_ok_trace [eng_simps]:
  "eng_ok (fire r s e) = eng_ok e" "eng_ok (emit ev e) = eng_ok e"
  "slots_load (fire r s e) = slots_load e" "slots_load (emit ev e) = slots_load e"
  by (simp_all add: eng_ok_def eng_simps slots_load_def)

definition unchanged :: "('c, 's) engine \<Rightarrow> ('c, 's) engine \<Rightarrow> bool" where
  "unchanged e e' \<longleftrightarrow>
     e_cfg e' = e_cfg e \<and> n_slots e' = n_slots e \<and> pending e' = pending e \<and> running e' = running e"

lemma unchanged_refl [simp]: "unchanged e e"
  by (simp add: unchanged_def)

lemma unchanged_trans [trans]: "unchanged a b \<Longrightarrow> unchanged b c \<Longrightarrow> unchanged a c"
  by (simp add: unchanged_def)

text \<open>
  A pass over slot ids that may retire each of them keeps the invariant and the accounts
  and never adds load. The deadline check and the failed-decode loop are such passes.
\<close>

definition retiring :: "(nat \<Rightarrow> ('c, 's) engine \<Rightarrow> ('c, 's) engine) \<Rightarrow> bool" where
  "retiring f \<longleftrightarrow> (\<forall>e sid. eng_ok e \<longrightarrow> sid < n_slots e \<longrightarrow>
     eng_ok (f sid e) \<and> unchanged e (f sid e) \<and>
     held (f sid e) + answered (f sid e) = held e + answered e \<and>
     (\<forall>j. j \<noteq> sid \<longrightarrow> cell (f sid e) j = cell e j) \<and>
     (cell (f sid e) sid = cell e sid \<or> cell (f sid e) sid = blank) \<and>
     slots_load (f sid e) \<le> slots_load e \<and>
     (cell (f sid e) sid \<noteq> cell e sid \<longrightarrow> slots_load (f sid e) < slots_load e))"

lemma answer_and_retire_shaped:
  assumes "shaped e" "sid < n_slots e" "is_occupied e sid"
    "cell e1 = cell e" "shaped e1 = shaped e" "n_slots e1 = n_slots e" "e_cfg e1 = e_cfg e"
    "pending e1 = pending e" "running e1 = running e" "e_kv e1 = e_kv e"
    "answered e1 = answered e + lab (req_at e sid)"
  shows "shaped (retire_slot L sid e1)" "unchanged e (retire_slot L sid e1)"
    "held (retire_slot L sid e1) + answered (retire_slot L sid e1) = held e + answered e"
    "\<And>j. cell (retire_slot L sid e1) j = (if j = sid then blank else cell e j)"
    "slots_load (retire_slot L sid e1) = slots_load e - slot_load (e_cfg e) (cell e sid)"
proof -
  have occ: "is_occupied e1 sid" "req_at e1 sid = req_at e sid"
    using assms by (auto simp: is_occupied_def req_at_def)
  show "shaped (retire_slot L sid e1)" using assms occ by (intro shaped_retire_slot) auto
  show "unchanged e (retire_slot L sid e1)" using assms by (simp add: unchanged_def eng_simps)
  show "held (retire_slot L sid e1) + answered (retire_slot L sid e1) = held e + answered e"
    using held_retire_slot [of e1 sid L] assms occ held_eq [of e e1]
    by (simp add: eng_simps union_assoc union_commute union_lcomm)
  show "\<And>j. cell (retire_slot L sid e1) j = (if j = sid then blank else cell e j)"
    using cell_retire_slot [of e1 sid L] assms by simp
  have l1: "slots_load e1 = slots_load e" using assms by (simp add: slots_load_def)
  show "slots_load (retire_slot L sid e1) = slots_load e - slot_load (e_cfg e) (cell e sid)"
    using retire_load [of e1 sid L] assms l1 by simp
qed

lemma answer_and_retire:
  assumes "eng_ok e" "sid < n_slots e" "is_occupied e sid"
    "cell e1 = cell e" "shaped e1 = shaped e" "n_slots e1 = n_slots e" "e_cfg e1 = e_cfg e"
    "pending e1 = pending e" "running e1 = running e" "e_kv e1 = e_kv e"
    "answered e1 = answered e + lab (req_at e sid)"
  shows "eng_ok (retire_slot L sid e1)" "unchanged e (retire_slot L sid e1)"
    "held (retire_slot L sid e1) + answered (retire_slot L sid e1) = held e + answered e"
    "\<And>j. cell (retire_slot L sid e1) j = (if j = sid then blank else cell e j)"
    "slots_load (retire_slot L sid e1) < slots_load e"
proof -
  note r = answer_and_retire_shaped [OF eng_okD(1) [OF assms(1)] assms(2-), of L]
  show "unchanged e (retire_slot L sid e1)"
    "held (retire_slot L sid e1) + answered (retire_slot L sid e1) = held e + answered e"
    "\<And>j. cell (retire_slot L sid e1) j = (if j = sid then blank else cell e j)"
    by (rule r)+
  show "eng_ok (retire_slot L sid e1)"
    using r(1,2,4) assms(1) by (auto simp: eng_ok_def unchanged_def cell_ok_blank)
  have "1 \<le> slot_load (e_cfg e) (cell e sid)"
    using assms(1-3) by (intro slot_load_pos) (auto dest: eng_okD simp: is_occupied_def)
  with r(5) show "slots_load (retire_slot L sid e1) < slots_load e" by simp
qed

lemma retiring_expire: "retiring (expire_slot L now)"
  unfolding retiring_def
proof (intro allI impI)
  fix e :: "('a, 'b) engine" and sid
  assume ok: "eng_ok e" "sid < n_slots e"
  show "eng_ok (expire_slot L now sid e) \<and> unchanged e (expire_slot L now sid e) \<and>
     held (expire_slot L now sid e) + answered (expire_slot L now sid e) = held e + answered e \<and>
     (\<forall>j. j \<noteq> sid \<longrightarrow> cell (expire_slot L now sid e) j = cell e j) \<and>
     (cell (expire_slot L now sid e) sid = cell e sid \<or> cell (expire_slot L now sid e) sid = blank) \<and>
     slots_load (expire_slot L now sid e) \<le> slots_load e \<and>
     (cell (expire_slot L now sid e) sid \<noteq> cell e sid \<longrightarrow>
        slots_load (expire_slot L now sid e) < slots_load e)"
  proof (cases "is_occupied e sid \<and> expired now (req_at e sid)")
    case True
    let ?e1 = "emit (Inc Requests_total) (emit (Inc Requests_deadline_exceeded)
      (fire (req_at e sid) err_deadline e))"
    have "expire_slot L now sid e = retire_slot L sid ?e1" using True by (simp add: expire_slot_def)
    moreover note answer_and_retire [OF ok, of ?e1 L]
    ultimately show ?thesis using True by (simp add: eng_simps fun_eq_iff)
  next
    case False
    then have "expire_slot L now sid e = e" by (auto simp: expire_slot_def)
    with ok show ?thesis by simp
  qed
qed

lemma retiring_fail: "retiring (fail_slot L)"
  unfolding retiring_def
proof (intro allI impI)
  fix e :: "('a, 'b) engine" and sid
  assume ok: "eng_ok e" "sid < n_slots e"
  show "eng_ok (fail_slot L sid e) \<and> unchanged e (fail_slot L sid e) \<and>
     held (fail_slot L sid e) + answered (fail_slot L sid e) = held e + answered e \<and>
     (\<forall>j. j \<noteq> sid \<longrightarrow> cell (fail_slot L sid e) j = cell e j) \<and>
     (cell (fail_slot L sid e) sid = cell e sid \<or> cell (fail_slot L sid e) sid = blank) \<and>
     slots_load (fail_slot L sid e) \<le> slots_load e \<and>
     (cell (fail_slot L sid e) sid \<noteq> cell e sid \<longrightarrow>
        slots_load (fail_slot L sid e) < slots_load e)"
  proof (cases "is_occupied e sid")
    case True
    let ?e1 = "emit (Inc Requests_total) (fire (req_at e sid) err_decode e)"
    have "fail_slot L sid e = retire_slot L sid ?e1" using True by (simp add: fail_slot_def)
    moreover note answer_and_retire [OF ok, of ?e1 L]
    ultimately show ?thesis using True by (simp add: eng_simps fun_eq_iff)
  next
    case False
    then have "fail_slot L sid e = e" by (simp add: fail_slot_def)
    with ok show ?thesis by simp
  qed
qed

lemma retiring_fold:
  assumes f: "retiring f" and "eng_ok e" "\<forall>sid \<in> set sids. sid < n_slots e"
  shows "eng_ok (fold f sids e) \<and> unchanged e (fold f sids e) \<and>
     held (fold f sids e) + answered (fold f sids e) = held e + answered e \<and>
     (\<forall>j. cell (fold f sids e) j = cell e j \<or> cell (fold f sids e) j = blank) \<and>
     slots_load (fold f sids e) \<le> slots_load e \<and>
     ((\<exists>j < n_slots e. cell (fold f sids e) j \<noteq> cell e j) \<longrightarrow>
        slots_load (fold f sids e) < slots_load e)"
  using assms(2,3)
proof (induction sids arbitrary: e)
  case Nil
  then show ?case by simp
next
  case (Cons sid sids)
  note step = f [unfolded retiring_def, rule_format, OF Cons.prems(1), of sid]
  have s: "eng_ok (f sid e)" "unchanged e (f sid e)"
    "held (f sid e) + answered (f sid e) = held e + answered e"
    "\<And>j. j \<noteq> sid \<Longrightarrow> cell (f sid e) j = cell e j"
    "cell (f sid e) sid = cell e sid \<or> cell (f sid e) sid = blank"
    "slots_load (f sid e) \<le> slots_load e"
    "cell (f sid e) sid \<noteq> cell e sid \<Longrightarrow> slots_load (f sid e) < slots_load e"
    using step Cons.prems(2) by auto
  have n: "n_slots (f sid e) = n_slots e" using s(2) by (simp add: unchanged_def)
  have IH: "eng_ok (fold f sids (f sid e)) \<and> unchanged (f sid e) (fold f sids (f sid e)) \<and>
     held (fold f sids (f sid e)) + answered (fold f sids (f sid e)) =
       held (f sid e) + answered (f sid e) \<and>
     (\<forall>j. cell (fold f sids (f sid e)) j = cell (f sid e) j \<or>
          cell (fold f sids (f sid e)) j = blank) \<and>
     slots_load (fold f sids (f sid e)) \<le> slots_load (f sid e) \<and>
     ((\<exists>j < n_slots (f sid e). cell (fold f sids (f sid e)) j \<noteq> cell (f sid e) j) \<longrightarrow>
        slots_load (fold f sids (f sid e)) < slots_load (f sid e))"
    using s(1) Cons.prems(2) n by (intro Cons.IH) auto
  have c: "cell (fold f sids (f sid e)) j = cell e j \<or> cell (fold f sids (f sid e)) j = blank" for j
    using IH s(4,5) by metis
  have "slots_load (fold f sids (f sid e)) < slots_load e"
    if "j < n_slots e" "cell (fold f sids (f sid e)) j \<noteq> cell e j" for j
  proof (cases "cell (f sid e) j = cell e j")
    case True
    with that IH n s(6) show ?thesis by fastforce
  next
    case False
    with s(4,7) IH show ?thesis by fastforce
  qed
  with IH s c show ?case using unchanged_trans [OF s(2)] by auto
qed

end
