(* ===== verification/Engine_Loop.thy ===== *)
theory Engine_Loop
  imports Engine_Inv
begin

text \<open>
  The loop body: admission, deadline check, decode and sampling, put together. The main
  result \<open>loop_body_ok\<close> says that a pass never hits undefined behaviour, keeps the
  invariant, accounts for every callback and reduces the load whenever there is work.
\<close>

section \<open>Sampling\<close>

definition mid_ok :: "nat set \<Rightarrow> ('c, 's) engine \<Rightarrow> bool" where
  "mid_ok S e \<longleftrightarrow> shaped e \<and>
     (\<forall>j < n_slots e. if j \<in> S then fed_ok (e_cfg e) (cell e j) else cell_ok (e_cfg e) (cell e j))"

lemma mid_ok_empty: "mid_ok {} e = eng_ok e"
  by (simp add: mid_ok_def eng_ok_def)

lemma finish_slot_spec:
  assumes "shaped e" "sid < n_slots e" "is_occupied e sid"
  shows "shaped (finish_slot L t sid e)" "unchanged e (finish_slot L t sid e)"
    "held (finish_slot L t sid e) + answered (finish_slot L t sid e) = held e + answered e"
    "\<And>j. cell (finish_slot L t sid e) j = (if j = sid then blank else cell e j)"
    "slots_load (finish_slot L t sid e) = slots_load e - slot_load (e_cfg e) (cell e sid)"
    "fired (finish_slot L t sid e) = fired e @ reply (req_at e sid) (results e ! sid)"
proof -
  let ?e2 = "emit (Inc Requests_total)
    (emit (Observe Latency_seconds (secs_of_ns rnd64 (t - enqueue_time (req_at e sid)))) e)"
  let ?e1 = "fire (req_at e sid) (results ?e2 ! sid) ?e2"
  have f: "finish_slot L t sid e = retire_slot L sid ?e1" by (simp add: finish_slot_def Let_def)
  note r = answer_and_retire_shaped [OF assms, of ?e1 L]
  show "shaped (finish_slot L t sid e)" "unchanged e (finish_slot L t sid e)"
    "held (finish_slot L t sid e) + answered (finish_slot L t sid e) = held e + answered e"
    "\<And>j. cell (finish_slot L t sid e) j = (if j = sid then blank else cell e j)"
    "slots_load (finish_slot L t sid e) = slots_load e - slot_load (e_cfg e) (cell e sid)"
    unfolding f by (rule r; simp add: eng_simps fun_eq_iff)+
  show "fired (finish_slot L t sid e) = fired e @ reply (req_at e sid) (results e ! sid)"
    unfolding f by (simp add: eng_simps)
qed

lemma shaped_set_sampler:
  assumes "shaped e" "sid < n_slots e" "samplers e ! sid \<noteq> None"
  shows "shaped (e\<lparr>samplers := (samplers e)[sid := Some s]\<rparr>)"
  using count_filter_update_same [of sid "samplers e" "\<lambda>x. x \<noteq> None" "Some s"] assms
    shapedD(3) [OF assms(1)]
  by (simp add: shaped_def n_slots_def)

text \<open>The engine after the token was sampled and, unless it ends the sequence, appended.\<close>

definition stepped ::
    "('c, 's) llama \<Rightarrow> int list \<Rightarrow> nat \<Rightarrow> 's \<Rightarrow> ('c, 's) engine \<Rightarrow> bool \<times> ('c, 's) engine" where
  "stepped L lp sid smp e =
     (let (tok, smp') = lm_sample L smp (e_ctx e) (lp ! sid);
          e1 = e\<lparr>samplers := (samplers e)[sid := Some smp']\<rparr>
      in (lm_is_eog L tok, if lm_is_eog L tok then e1 else append_token L tok sid e1))"

lemma sample_slot_stepped:
  assumes "is_occupied e sid" "samplers e ! sid = Some smp" "stepped L lp sid smp e = (eos, e2)"
  shows "sample_slot L t lp sid e = Some
    (if eos \<or> tokens_generated e2 ! sid \<ge> token_limit (e_cfg e2) (req_at e2 sid)
     then finish_slot L t sid e2 else e2)"
  using assms by (auto simp: sample_slot_def stepped_def Let_def split: prod.splits)

lemma stepped_spec:
  assumes "shaped e" "sid < n_slots e" "samplers e ! sid = Some smp"
    "lm_sample L smp (e_ctx e) (lp ! sid) = (tok, smp')" "stepped L lp sid smp e = (eos, e2)"
  shows "eos = lm_is_eog L tok" "shaped e2" "unchanged e e2" "held e2 = held e"
    "answered e2 = answered e" "fired e2 = fired e" "e_ctx e2 = e_ctx e"
    "\<And>j. cell e2 j = (if j \<noteq> sid then cell e j
       else if eos then (cell e sid)\<lparr>c_sampler := Some smp'\<rparr>
       else (cell e sid)\<lparr>c_sampler := Some smp', c_slot := (slots (e_kv e) ! sid)\<lparr>last_token := tok\<rparr>,
         c_result := results e ! sid @ token_text L tok, c_gen := tokens_generated e ! sid + 1,
         c_prefill := False\<rparr>)"
proof -
  let ?e1 = "e\<lparr>samplers := (samplers e)[sid := Some smp']\<rparr>"
  have s1: "shaped ?e1" using assms by (intro shaped_set_sampler) auto
  have n1: "n_slots ?e1 = n_slots e" by (simp add: n_slots_def)
  have c1: "cell ?e1 j = (if j \<noteq> sid then cell e j else (cell e sid)\<lparr>c_sampler := Some smp'\<rparr>)" for j
    using assms shapedD(3) [OF assms(1)] by (simp add: cell_def)
  have h1: "held ?e1 = held e" by (simp add: held_def)
  have e2: "eos = lm_is_eog L tok" "e2 = (if eos then ?e1 else append_token L tok sid ?e1)"
    using assms(4,5) by (auto simp: stepped_def Let_def)
  have ha: "held (append_token L tok sid ?e1) = held ?e1"
  proof -
    have "slots (e_kv (append_token L tok sid ?e1)) =
        slots (e_kv (upd_slot sid (\<lambda>s. s\<lparr>last_token := tok\<rparr>) ?e1))"
      by (simp add: append_token_def Let_def upd_slot_def split: prod.splits)
    then have "held (append_token L tok sid ?e1) =
        held (upd_slot sid (\<lambda>s. s\<lparr>last_token := tok\<rparr>) ?e1)" by (rule held_eq)
    also have "\<dots> = held ?e1" using s1 n1 assms(2) by (intro held_upd_slot) auto
    finally show ?thesis .
  qed
  have ca: "cell (append_token L tok sid ?e1) j = (if j \<noteq> sid then cell e j
      else (cell e sid)\<lparr>c_sampler := Some smp', c_slot := (slots (e_kv e) ! sid)\<lparr>last_token := tok\<rparr>,
         c_result := results e ! sid @ token_text L tok, c_gen := tokens_generated e ! sid + 1,
         c_prefill := False\<rparr>)" for j
    using cell_append_token [OF s1, of sid L tok j] assms(2) n1 c1 [of j] c1 [of sid] by auto
  have sa: "shaped (append_token L tok sid ?e1)"
    using s1 n1 assms(2) by (intro shaped_append_token) auto
  show "eos = lm_is_eog L tok" by (rule e2(1))
  show "shaped e2" "held e2 = held e" "unchanged e e2"
    unfolding e2(2) using s1 sa h1 ha n1 by (auto simp: unchanged_def eng_simps)
  show "answered e2 = answered e" "fired e2 = fired e" "e_ctx e2 = e_ctx e"
    unfolding e2(2) by (auto simp: eng_simps answered_def)
  show "cell e2 j = (if j \<noteq> sid then cell e j
       else if eos then (cell e sid)\<lparr>c_sampler := Some smp'\<rparr>
       else (cell e sid)\<lparr>c_sampler := Some smp', c_slot := (slots (e_kv e) ! sid)\<lparr>last_token := tok\<rparr>,
         c_result := results e ! sid @ token_text L tok, c_gen := tokens_generated e ! sid + 1,
         c_prefill := False\<rparr>)" for j
    unfolding e2(2) using c1 [of j] ca [of j] by (simp split: if_splits)
qed

lemma sample_slot_ok:
  assumes mid: "mid_ok (insert sid S) e" and sid: "sid < n_slots e" "sid \<notin> S"
  shows "\<exists>e'. sample_slot L t lp sid e = Some e' \<and> mid_ok S e' \<and> unchanged e e' \<and>
    held e' + answered e' = held e + answered e \<and> slots_load e' < slots_load e"
proof -
  have sh: "shaped e" and fo: "fed_ok (e_cfg e) (cell e sid)"
    using mid sid(1) by (auto simp: mid_ok_def)
  have others: "if j \<in> S then fed_ok (e_cfg e) (cell e j) else cell_ok (e_cfg e) (cell e j)"
    if "j < n_slots e" "j \<noteq> sid" for j
    using mid that by (fastforce simp: mid_ok_def)
  from fo have occ: "is_occupied e sid" and smp: "samplers e ! sid \<noteq> None"
    and gen: "0 \<le> tokens_generated e ! sid"
      "tokens_generated e ! sid < quota (e_cfg e) (req_at e sid)"
    by (simp_all add: fed_ok_def is_occupied_def req_at_def)
  from smp obtain s where s: "samplers e ! sid = Some s" by blast
  obtain tok s' where tok: "lm_sample L s (e_ctx e) (lp ! sid) = (tok, s')" by fastforce
  obtain eos e2 where e2: "stepped L lp sid s e = (eos, e2)" by fastforce
  note st = stepped_spec [OF sh sid(1) s tok e2]
  have u: "e_cfg e2 = e_cfg e" "n_slots e2 = n_slots e" using st(3) by (auto simp: unchanged_def)
  have occ2: "is_occupied e2 sid" and req2: "req_at e2 sid = req_at e sid"
    using st(8) [of sid] occ by (auto simp: is_occupied_cell req_at_cell is_occupied_def)
  have load2: "slots_load e2 = slots_load e - slot_load (e_cfg e) (cell e sid)
      + slot_load (e_cfg e) (cell e2 sid)"
    using u sid(1) st(8) by (intro slots_load_change) auto
  let ?fin = "eos \<or> tokens_generated e2 ! sid \<ge> token_limit (e_cfg e2) (req_at e2 sid)"
  have res: "sample_slot L t lp sid e = Some (if ?fin then finish_slot L t sid e2 else e2)"
    by (rule sample_slot_stepped [OF occ s e2])
  show ?thesis
  proof (cases ?fin)
    case True
    note fi = finish_slot_spec [OF st(2) sid(1) [folded u(2)] occ2, of L t]
    have "mid_ok S (finish_slot L t sid e2)"
      unfolding mid_ok_def
      using fi(1,2,4) u others st(8) sid(2) by (auto simp: unchanged_def cell_ok_blank)
    moreover have "1 \<le> slot_load (e_cfg e) (cell e sid)"
      using gen occ by (simp add: slot_load_def is_occupied_def req_at_def)
    ultimately show ?thesis
      using res True fi(2,3,5) st(3,4,5) load2 u unchanged_trans by fastforce
  next
    case False
    then have ne: "\<not> eos" and lim: "tokens_generated e2 ! sid < token_limit (e_cfg e) (req_at e sid)"
      using u req2 by auto
    have c2: "cell e2 sid = (cell e sid)\<lparr>c_sampler := Some s',
         c_slot := (slots (e_kv e) ! sid)\<lparr>last_token := tok\<rparr>,
         c_result := results e ! sid @ token_text L tok, c_gen := tokens_generated e ! sid + 1,
         c_prefill := False\<rparr>"
      using st(8) [of sid] ne by simp
    have g2: "tokens_generated e2 ! sid = tokens_generated e ! sid + 1"
      using arg_cong [OF c2, of c_gen] by simp
    have ok2: "cell_ok (e_cfg e) (cell e2 sid)"
      unfolding c2 using fo lim g2 by (auto simp: cell_ok_def fed_ok_def quota_def req_at_def)
    have "mid_ok S e2"
      unfolding mid_ok_def using st(2) u others st(8) ok2 sid(2) by auto
    moreover have "slots_load e2 < slots_load e"
      using load2 occ unfolding c2 by (simp add: slot_load_def is_occupied_def)
    ultimately show ?thesis using res False st(3,4,5) by auto
  qed
qed

lemma sample_all_ok:
  assumes "mid_ok (set active) e" "\<forall>sid \<in> set active. sid < n_slots e" "distinct active"
  shows "\<exists>e'. sample_all L t lp active e = Some e' \<and> eng_ok e' \<and> unchanged e e' \<and>
    held e' + answered e' = held e + answered e \<and>
    slots_load e' \<le> slots_load e \<and> (active \<noteq> [] \<longrightarrow> slots_load e' < slots_load e)"
  using assms
proof (induction active arbitrary: e)
  case Nil
  then show ?case by (simp add: mid_ok_empty)
next
  case (Cons sid active)
  have "mid_ok (insert sid (set active)) e" "sid < n_slots e" "sid \<notin> set active"
    using Cons.prems by auto
  from sample_slot_ok [OF this, of L t lp] obtain e1 where e1:
    "sample_slot L t lp sid e = Some e1" "mid_ok (set active) e1" "unchanged e e1"
    "held e1 + answered e1 = held e + answered e" "slots_load e1 < slots_load e" by blast
  have "\<forall>j \<in> set active. j < n_slots e1" using Cons.prems(2) e1(3) by (simp add: unchanged_def)
  from Cons.IH [OF e1(2) this] Cons.prems(3) obtain e' where e':
    "sample_all L t lp active e1 = Some e'" "eng_ok e'" "unchanged e1 e'"
    "held e' + answered e' = held e1 + answered e1" "slots_load e' \<le> slots_load e1" by auto
  then show ?case using e1 unchanged_trans [OF e1(3) e'(3)] by auto
qed

section \<open>The decode step\<close>

lemma labels_cong:
  "length xs = length ys \<Longrightarrow> (\<And>i. i < length xs \<Longrightarrow> f (xs ! i) = f (ys ! i)) \<Longrightarrow>
     labels f xs = labels f ys"
proof (induction xs ys rule: list_induct2)
  case (Cons x xs y ys)
  have "f x = f y" using Cons.prems [of 0] by simp
  moreover have "labels f xs = labels f ys" using Cons.prems [of "Suc i" for i] by (intro Cons.IH) auto
  ultimately show ?case by simp
qed simp

lemma active_slots_set:
  "set (active_slots e) = {sid. sid < n_slots e \<and> is_occupied e sid}" "distinct (active_slots e)"
  by (auto simp: active_slots_def slot_ids_upto)

lemma cell_ok_fed:
  assumes "cell_ok cfg c" "occupied (c_slot c)"
  shows "fed_ok cfg (fed c)" "slot_load cfg (fed c) = slot_load cfg c" "slot_cb (c_slot (fed c)) = slot_cb (c_slot c)"
  using assms by (auto simp: cell_ok_def fed_ok_def fed_def slot_load_def slot_cb_def split: if_splits)

lemma entries_nonempty:
  "cell_ok cfg (cell e sid) \<Longrightarrow> is_occupied e sid \<Longrightarrow> slot_entries e sid \<noteq> []"
  by (auto simp: slot_entries_def cell_entries_def prompt_entries_def cell_ok_def is_occupied_def)

text \<open>
  The batch the decode step builds: all entries of all active slots, in slot order, within
  the allocation; afterwards every active slot is fed and knows its own logits.
\<close>

lemma build_active:
  assumes ok: "eng_ok e" and act: "active = active_slots e"
  shows "\<exists>e' lp. build_batch (count_tokens e active) active
      (e, ([], replicate (nat (max_slots (e_kv e))) (- 1))) =
        Some (e', (concat (map (slot_entries e) active), lp)) \<and>
    mid_ok (set active) e' \<and> same_but_slots e e' \<and> held e' = held e \<and>
    slots_load e' = slots_load e \<and>
    (\<forall>sid \<in> set active. own_logits (concat (map (slot_entries e) active)) lp sid) \<and>
    (\<forall>j. cell e' j = (if j \<in> set active then fed (cell e j) else cell e j))"
proof -
  have sh: "shaped e" using ok by (rule eng_okD)
  have actD: "\<forall>sid \<in> set active. sid < n_slots e" "distinct active"
    "\<And>j. j \<in> set active \<longleftrightarrow> j < n_slots e \<and> is_occupied e j"
    unfolding act using active_slots_set [of e] by auto
  have ne: "\<forall>sid \<in> set active. slot_entries e sid \<noteq> []"
    using actD(3) eng_okD(2) [OF ok] entries_nonempty by blast
  have pre: "int (length ([] :: batch_entry list)) + count_tokens e active \<le> count_tokens e active"
    "length (replicate (nat (max_slots (e_kv e))) (- 1 :: int)) = n_slots e"
    by (simp_all add: n_slots_def)
  from build_batch_eq [OF sh actD(1,2) pre ne] obtain e' lp where b:
    "build_batch (count_tokens e active) active (e, ([], replicate (nat (max_slots (e_kv e))) (- 1))) =
       Some (e', (concat (map (slot_entries e) active), lp))"
    "shaped e'" "same_but_slots e e'"
    "\<And>j. cell e' j = (if j \<in> set active then fed (cell e j) else cell e j)"
    "\<And>j. is_occupied e' j = is_occupied e j"
    "\<forall>sid \<in> set active. own_logits (concat (map (slot_entries e) active)) lp sid"
    by auto
  note same = same_but_slotsD [OF b(3)]
  have fedc: "fed_ok (e_cfg e) (fed (cell e j))" "slot_load (e_cfg e) (fed (cell e j)) = slot_load (e_cfg e) (cell e j)"
    "slot_cb (c_slot (fed (cell e j))) = slot_cb (c_slot (cell e j))" if "j \<in> set active" for j
    using that actD(3) [of j] eng_okD(2) [OF ok, of j] cell_ok_fed [of "e_cfg e" "cell e j"]
    unfolding is_occupied_cell by blast+
  have "mid_ok (set active) e'"
    unfolding mid_ok_def using b(2,4) same fedc eng_okD(2) [OF ok] by auto
  moreover have "slots_load e' = slots_load e"
    unfolding slots_load_def using same b(4) fedc(2) by (intro sum.cong) auto
  moreover have "held e' = held e"
    unfolding held_def
  proof (rule labels_cong)
    show "length (slots (e_kv e')) = length (slots (e_kv e))"
      using shapedD(2) [OF b(2)] shapedD(2) [OF sh] same by simp
    fix i
    have "slot_cb (c_slot (cell e' i)) = slot_cb (c_slot (cell e i))"
      using b(4) [of i] fedc(3) [of i] by simp
    then show "slot_cb (slots (e_kv e') ! i) = slot_cb (slots (e_kv e) ! i)" by simp
  qed
  ultimately show ?thesis using b by blast
qed

lemma mid_ok_trace [eng_simps]:
  "mid_ok S (fire r s e) = mid_ok S e" "mid_ok S (emit ev e) = mid_ok S e"
  by (simp_all add: mid_ok_def eng_simps)

lemma unchanged_trace [eng_simps]:
  "unchanged a (emit ev e) = unchanged a e" "unchanged (emit ev e) a = unchanged e a"
  by (simp_all add: unchanged_def eng_simps)

lemma set_ctx_simps [eng_simps]:
  "mid_ok S (e\<lparr>e_ctx := c\<rparr>) = mid_ok S e" "n_slots (e\<lparr>e_ctx := c\<rparr>) = n_slots e"
  "held (e\<lparr>e_ctx := c\<rparr>) = held e" "answered (e\<lparr>e_ctx := c\<rparr>) = answered e"
  "slots_load (e\<lparr>e_ctx := c\<rparr>) = slots_load e" "unchanged (e\<lparr>e_ctx := c\<rparr>) a = unchanged e a"
  "shaped (e\<lparr>e_ctx := c\<rparr>) = shaped e" "cell (e\<lparr>e_ctx := c\<rparr>) = cell e"
  "is_occupied (e\<lparr>e_ctx := c\<rparr>) = is_occupied e"
  by (auto simp: mid_ok_def n_slots_def held_def answered_def slots_load_def unchanged_def
      shaped_def cell_def is_occupied_def fun_eq_iff)

text \<open>
  Failing a decode retires every active slot. The slots are fed but not sampled here, so
  the pass is over \<open>mid_ok\<close> engines.
\<close>

lemma fail_all_mid:
  assumes "mid_ok (set active) e" "\<forall>sid \<in> set active. sid < n_slots e" "distinct active"
  shows "eng_ok (fold (fail_slot L) active e) \<and> unchanged e (fold (fail_slot L) active e) \<and>
    held (fold (fail_slot L) active e) + answered (fold (fail_slot L) active e) = held e + answered e \<and>
    slots_load (fold (fail_slot L) active e) \<le> slots_load e \<and>
    (active \<noteq> [] \<longrightarrow> slots_load (fold (fail_slot L) active e) < slots_load e) \<and>
    (\<forall>j. cell (fold (fail_slot L) active e) j = (if j \<in> set active then blank else cell e j))"
  using assms
proof (induction active arbitrary: e)
  case Nil
  then show ?case by (simp add: mid_ok_empty)
next
  case (Cons sid active)
  have sh: "shaped e" and sid: "sid < n_slots e" "sid \<notin> set active"
    and fo: "fed_ok (e_cfg e) (cell e sid)"
    using Cons.prems by (auto simp: mid_ok_def)
  have occ: "is_occupied e sid" using fo by (simp add: fed_ok_def is_occupied_def)
  let ?e1 = "emit (Inc Requests_total) (fire (req_at e sid) err_decode e)"
  have f: "fail_slot L sid e = retire_slot L sid ?e1" using occ by (simp add: fail_slot_def)
  have r: "shaped (fail_slot L sid e)" "unchanged e (fail_slot L sid e)"
    "held (fail_slot L sid e) + answered (fail_slot L sid e) = held e + answered e"
    "\<And>j. cell (fail_slot L sid e) j = (if j = sid then blank else cell e j)"
    "slots_load (fail_slot L sid e) = slots_load e - slot_load (e_cfg e) (cell e sid)"
    unfolding f
    by (rule answer_and_retire_shaped [OF sh sid(1) occ]; simp add: eng_simps fun_eq_iff)+
  have "1 \<le> slot_load (e_cfg e) (cell e sid)"
    using fo by (auto simp: slot_load_def fed_ok_def)
  then have less: "slots_load (fail_slot L sid e) < slots_load e" using r(5) by simp
  have mid: "mid_ok (set active) (fail_slot L sid e)"
    unfolding mid_ok_def using r(1,2,4) Cons.prems(1) sid(2)
    by (auto simp: mid_ok_def unchanged_def cell_ok_blank)
  have "\<forall>j \<in> set active. j < n_slots (fail_slot L sid e)"
    using Cons.prems(2) r(2) by (simp add: unchanged_def)
  from Cons.IH [OF mid this] Cons.prems(3) have IH:
    "eng_ok (fold (fail_slot L) active (fail_slot L sid e))"
    "unchanged (fail_slot L sid e) (fold (fail_slot L) active (fail_slot L sid e))"
    "held (fold (fail_slot L) active (fail_slot L sid e)) +
       answered (fold (fail_slot L) active (fail_slot L sid e)) =
     held (fail_slot L sid e) + answered (fail_slot L sid e)"
    "slots_load (fold (fail_slot L) active (fail_slot L sid e)) \<le> slots_load (fail_slot L sid e)"
    "\<And>j. cell (fold (fail_slot L) active (fail_slot L sid e)) j =
       (if j \<in> set active then blank else cell (fail_slot L sid e) j)"
    by auto
  show ?case
    using IH r(2,3,4) less unchanged_trans [OF r(2) IH(2)] by auto
qed

lemma count_tokens_pos:
  assumes "\<forall>sid \<in> set active. slot_entries e sid \<noteq> []" "active \<noteq> []"
  shows "0 < count_tokens e active"
proof -
  have "int (length active) \<le> count_tokens e active"
    using assms(1)
  proof (induction active)
    case (Cons a as)
    then have "1 \<le> slot_tokens e a" unfolding length_slot_entries [symmetric]
      by (cases "slot_entries e a") auto
    with Cons show ?case by (simp add: count_tokens_def)
  qed (simp add: count_tokens_def)
  with assms(2) show ?thesis by (cases active) auto
qed

lemma after_decode_ok:
  assumes "mid_ok (set active) e" "\<forall>sid \<in> set active. sid < n_slots e" "distinct active" "active \<noteq> []"
  shows "\<exists>e'. after_decode L tk active e st = Some e' \<and> eng_ok e' \<and> unchanged e e' \<and>
    held e' + answered e' = held e + answered e \<and> slots_load e' < slots_load e"
proof -
  obtain rc c where d: "lm_decode L (e_ctx e) (fst st) = (rc, c)" by fastforce
  have pre: "mid_ok (set active) (e\<lparr>e_ctx := c\<rparr>)" "\<forall>sid \<in> set active. sid < n_slots (e\<lparr>e_ctx := c\<rparr>)"
    using assms by (simp_all add: eng_simps)
  show ?thesis
  proof (cases "rc = 0")
    case True
    from sample_all_ok [OF pre assms(3), of L "t_end tk" "snd st"] assms(4) obtain e' where e':
      "sample_all L (t_end tk) (snd st) active (e\<lparr>e_ctx := c\<rparr>) = Some e'" "eng_ok e'"
      "unchanged (e\<lparr>e_ctx := c\<rparr>) e'"
      "held e' + answered e' = held (e\<lparr>e_ctx := c\<rparr>) + answered (e\<lparr>e_ctx := c\<rparr>)"
      "slots_load e' < slots_load (e\<lparr>e_ctx := c\<rparr>)" by auto
    with d True show ?thesis by (simp add: after_decode_def Let_def eng_simps)
  next
    case False
    with fail_all_mid [OF pre assms(3), of L] assms(4) d show ?thesis
      by (simp add: after_decode_def Let_def eng_simps)
  qed
qed

theorem decode_active_ok:
  assumes ok: "eng_ok e" and act: "active = active_slots e" and ne: "active \<noteq> []"
  shows "\<exists>e'. decode_active L tk active e = Some e' \<and> eng_ok e' \<and> unchanged e e' \<and>
    held e' + answered e' = held e + answered e \<and> slots_load e' < slots_load e"
proof -
  let ?u = "emit (Gauge_set Kv_slot_utilization
      (rnd64 (of_int (int (length active)) / of_int (max_slots (e_kv e))))) e"
  let ?g = "Gauge_inc Requests_inflight (of_int (int (length active)))"
  have ok1: "eng_ok ?u" using ok by (simp add: eng_simps)
  have act1: "active = active_slots ?u"
    unfolding act by (simp add: active_slots_def slot_ids_def eng_simps is_occupied_def [abs_def])
  have entries: "\<forall>sid \<in> set active. slot_entries ?u sid \<noteq> []"
  proof
    fix sid
    assume "sid \<in> set active"
    then have "sid < n_slots e" "is_occupied e sid"
      unfolding act active_slots_set(1) by auto
    with eng_okD(2) [OF ok1, of sid] show "slot_entries ?u sid \<noteq> []"
      by (intro entries_nonempty [of "e_cfg e"]) (simp_all only: emit_simps shaped_trace)
  qed
  have cnt: "count_tokens ?u active \<noteq> 0" using count_tokens_pos [OF entries ne] by simp
  from build_active [OF ok1 act1] obtain e1 lp where b:
    "build_batch (count_tokens ?u active) active
      (?u, ([], replicate (nat (max_slots (e_kv ?u))) (- 1))) =
        Some (e1, (concat (map (slot_entries ?u) active), lp))"
    "mid_ok (set active) e1" "same_but_slots ?u e1" "held e1 = held ?u" "slots_load e1 = slots_load ?u"
    by blast
  note same = same_but_slotsD [OF b(3)]
  have un: "unchanged e (emit ?g e1)"
    using same by (simp add: unchanged_def eng_simps)
  have n1: "n_slots e1 = n_slots e" using same(13) by (simp only: shaped_trace)
  have pre: "mid_ok (set active) (emit ?g e1)" "\<forall>sid \<in> set active. sid < n_slots (emit ?g e1)"
    "distinct active"
    using b(2) active_slots_set [of e] unfolding act mid_ok_trace shaped_trace n1 by blast+
  from after_decode_ok [OF pre ne, of L tk "(concat (map (slot_entries ?u) active), lp)"]
  obtain e' where e': "after_decode L tk active (emit ?g e1)
      (concat (map (slot_entries ?u) active), lp) = Some e'" "eng_ok e'" "unchanged (emit ?g e1) e'"
    "held e' + answered e' = held (emit ?g e1) + answered (emit ?g e1)"
    "slots_load e' < slots_load (emit ?g e1)" by blast
  have "decode_active L tk active e = Some e'"
    using b(1) e'(1) cnt by (simp add: decode_active_def Let_def)
  moreover have "held e' + answered e' = held e + answered e" "slots_load e' < slots_load e"
    using e'(4,5) b(4,5) same by (simp_all add: eng_simps answered_def)
  ultimately show ?thesis using e'(2) unchanged_trans [OF un e'(3)] by blast
qed

lemma retire_expired_ok:
  assumes "eng_ok e"
  shows "eng_ok (retire_expired L now e)" "unchanged e (retire_expired L now e)"
    "held (retire_expired L now e) + answered (retire_expired L now e) = held e + answered e"
    "\<And>j. cell (retire_expired L now e) j = cell e j \<or> cell (retire_expired L now e) j = blank"
    "slots_load (retire_expired L now e) \<le> slots_load e"
    "j < n_slots e \<Longrightarrow> cell (retire_expired L now e) j \<noteq> cell e j \<Longrightarrow>
       slots_load (retire_expired L now e) < slots_load e"
  using retiring_fold [OF retiring_expire assms, of "slot_ids e" L now]
  by (auto simp: retire_expired_def slot_ids_upto)

theorem decode_step_ok:
  assumes ok: "eng_ok e"
  shows "\<exists>e'. decode_step L tk e = Some e' \<and> eng_ok e' \<and> unchanged e e' \<and>
    held e' + answered e' = held e + answered e \<and> slots_load e' \<le> slots_load e \<and>
    ((\<exists>j < n_slots e. is_occupied e j) \<longrightarrow> slots_load e' < slots_load e)"
proof -
  let ?r = "retire_expired L (t_now tk) e"
  note r = retire_expired_ok [OF ok, where L = L and now = "t_now tk"]
  show ?thesis
  proof (cases "active_slots ?r = []")
    case True
    then have free: "\<not> is_occupied ?r j" if "j < n_slots e" for j
      using that r(2) active_slots_set(1) [of ?r] by (auto simp: unchanged_def)
    have "slots_load ?r < slots_load e" if "j < n_slots e" "is_occupied e j" for j
    proof (rule r(6) [OF that(1)])
      show "cell ?r j \<noteq> cell e j"
        using free [OF that(1)] that(2) by (metis is_occupied_cell)
    qed
    with True r show ?thesis by (auto simp: decode_step_def Let_def)
  next
    case False
    from decode_active_ok [OF r(1) refl False] obtain e' where e':
      "decode_active L tk (active_slots ?r) ?r = Some e'" "eng_ok e'" "unchanged ?r e'"
      "held e' + answered e' = held ?r + answered ?r" "slots_load e' < slots_load ?r" by blast
    with False r unchanged_trans [OF r(2) e'(3)] show ?thesis by (auto simp: decode_step_def Let_def)
  qed
qed

section \<open>Admission\<close>

text \<open>The engine after a free slot was handed to the request, before tokenization.\<close>

lemma placed_spec:
  assumes ok: "eng_ok e" and k: "k < n_slots e" "\<not> is_occupied e k"
    and m: "acquire r (e_kv e) = (int k, m)"
      "m = (e_kv e)\<lparr>slots := (slots (e_kv e))[k := taken r], free_count := f\<rparr>"
  shows "shaped (e\<lparr>e_kv := m\<rparr>)" "n_slots (e\<lparr>e_kv := m\<rparr>) = n_slots e"
    "\<And>j. cell (e\<lparr>e_kv := m\<rparr>) j = (if j = k then (cell e k)\<lparr>c_slot := taken r\<rparr> else cell e j)"
    "held (e\<lparr>e_kv := m\<rparr>) = held e + lab r" "req_at (e\<lparr>e_kv := m\<rparr>) k = r"
    "is_occupied (e\<lparr>e_kv := m\<rparr>) k"
proof -
  have sh: "shaped e" using ok by (rule eng_okD)
  have len: "length (slots (e_kv e)) = n_slots e" by (rule shapedD(2) [OF sh])
  have "kv_inv m" using acquire_inv [of "e_kv e" r] m(1) shapedD(1) [OF sh] by simp
  then show "shaped (e\<lparr>e_kv := m\<rparr>)" using sh by (simp add: shaped_def n_slots_def m(2))
  show "n_slots (e\<lparr>e_kv := m\<rparr>) = n_slots e" by (simp add: n_slots_def m(2))
  show "cell (e\<lparr>e_kv := m\<rparr>) j = (if j = k then (cell e k)\<lparr>c_slot := taken r\<rparr> else cell e j)" for j
    using k(1) len by (simp add: cell_def m(2))
  show "req_at (e\<lparr>e_kv := m\<rparr>) k = r" "is_occupied (e\<lparr>e_kv := m\<rparr>) k"
    using k(1) len by (simp_all add: req_at_def is_occupied_def m(2) taken_def)
  show "held (e\<lparr>e_kv := m\<rparr>) = held e + lab r"
    using labels_update [of k "slots (e_kv e)" slot_cb "taken r"] k len
    by (simp add: held_def m(2) slot_cb_def taken_def lab_def is_occupied_def)
qed

lemma set_prompt_simps:
  "n_slots (e\<lparr>prompt_tokens := ps\<rparr>) = n_slots e" "held (e\<lparr>prompt_tokens := ps\<rparr>) = held e"
  "answered (e\<lparr>prompt_tokens := ps\<rparr>) = answered e" "req_at (e\<lparr>prompt_tokens := ps\<rparr>) = req_at e"
  "is_occupied (e\<lparr>prompt_tokens := ps\<rparr>) = is_occupied e"
  "length ps = n_slots e \<Longrightarrow> shaped e \<Longrightarrow> shaped (e\<lparr>prompt_tokens := ps\<rparr>)"
  "cell (e\<lparr>prompt_tokens := ps\<rparr>) j = (cell e j)\<lparr>c_prompt := ps ! j\<rparr>"
  by (auto simp: n_slots_def held_def answered_def req_at_def is_occupied_def shaped_def cell_def
      fun_eq_iff)

lemma cell_prompt_id: "(cell e j)\<lparr>c_prompt := prompt_tokens e ! j\<rparr> = cell e j"
  by (simp add: cell_def)

lemma eng_ok_change:
  assumes "eng_ok e" "shaped e'" "unchanged e e'"
    "\<And>j. cell e' j = (if j = k then c else cell e j)" "cell_ok (e_cfg e) c"
  shows "eng_ok e'"
  using assms by (simp add: eng_ok_def unchanged_def)

lemma held_release_kv:
  assumes "shaped e" "sid < n_slots e" "is_occupied e sid"
  shows "held (release_kv L sid e) + lab (req_at e sid) = held e"
  using labels_update [of sid "slots (e_kv e)" slot_cb empty_slot] assms shapedD(2) [OF assms(1)]
  by (simp add: held_def eng_simps clear_slot_def slot_cb_def lab_def req_at_def is_occupied_def
      empty_slot_def)

lemma held_start_slot: "held (start_slot L sid e) = held e"
  by (simp add: held_def eng_simps)

lemma e_ctx_start_slot: "e_ctx (start_slot L sid e) = e_ctx e"
  by (simp add: start_slot_def Let_def eng_simps)

text \<open>The tokenizer's verdict on a request placed in slot \<open>k\<close>.\<close>

definition prompt_of :: "('c, 's) llama \<Rightarrow> request \<Rightarrow> ('c, 's) engine \<Rightarrow> nat \<Rightarrow> int \<times> int list" where
  "prompt_of L r e k = tokenize_prompt L (format_prompt (payload r)) (prompt_tokens e ! k)"

lemma admit_one_spec:
  assumes ok: "eng_ok e" and room: "0 < n_free (e_kv e)"
  obtains k where "k < n_slots e" "\<not> is_occupied e k" "\<forall>j < k. is_occupied e j"
    "eng_ok (admit_one L now r e)" "unchanged e (admit_one L now r e)"
    "held (admit_one L now r e) + answered (admit_one L now r e) = held e + answered e + lab r"
    "\<forall>j. j \<noteq> k \<longrightarrow> cell (admit_one L now r e) j = cell e j"
    "is_occupied (admit_one L now r e) k \<longleftrightarrow> 0 < fst (prompt_of L r e k)"
    "0 < fst (prompt_of L r e k) \<longrightarrow> req_at (admit_one L now r e) k = r"
    "slot_load (e_cfg e) (cell (admit_one L now r e) k) =
       (if 0 < fst (prompt_of L r e k) then quota (e_cfg e) r else 0)"
    "0 < fst (prompt_of L r e k) \<longrightarrow> c_prefill (cell (admit_one L now r e) k) \<and>
       c_prompt (cell (admit_one L now r e) k) =
         vec_resize 0 (nat (fst (prompt_of L r e k))) (snd (prompt_of L r e k)) \<and>
       c_result (cell (admit_one L now r e) k) = []"
    "fired (admit_one L now r e) =
       fired e @ (if 0 < fst (prompt_of L r e k) then [] else reply r err_tokenization)"
    "e_ctx (admit_one L now r e) =
       (if 0 < fst (prompt_of L r e k) then e_ctx e else lm_seq_rm L (e_ctx e) (int k) 0 (- 1))"
proof -
  have sh: "shaped e" using ok by (rule eng_okD)
  obtain k where k: "k < length (slots (e_kv e))" "\<not> occupied (slots (e_kv e) ! k)"
    "\<forall>j < k. occupied (slots (e_kv e) ! j)"
    and acq: "acquire r (e_kv e) = (int k, (e_kv e)\<lparr>slots := (slots (e_kv e))[k := taken r],
      free_count := free_count (e_kv e) - 1\<rparr>)"
    using acquire_least [OF shapedD(1) [OF sh] room] by metis
  have kn: "k < n_slots e" "\<not> is_occupied e k" using k shapedD(2) [OF sh] by (auto simp: is_occupied_def)
  let ?o = "Observe Queue_wait_seconds (secs_of_ns rnd64 (now - enqueue_time r))"
  let ?e1 = "emit ?o e"
  define m where "m = (e_kv e)\<lparr>slots := (slots (e_kv e))[k := taken r],
      free_count := free_count (e_kv e) - 1\<rparr>"
  define e2 where "e2 = ?e1\<lparr>e_kv := m\<rparr>"
  have pl: "shaped e2" "n_slots e2 = n_slots e"
    "\<And>j. cell e2 j = (if j = k then (cell e k)\<lparr>c_slot := taken r\<rparr> else cell e j)"
    "held e2 = held e + lab r" "req_at e2 k = r" "is_occupied e2 k"
    using placed_spec [of ?e1 k r m "free_count (e_kv e) - 1"] ok kn acq
    unfolding e2_def by (auto simp: eng_simps m_def)
  have e2: "prompt_tokens e2 = prompt_tokens e" "answered e2 = answered e" "e_cfg e2 = e_cfg e"
    "pending e2 = pending e" "running e2 = running e"
    by (simp_all add: e2_def eng_simps answered_def)
  have smp: "samplers e ! k = None" using eng_okD(2) [OF ok kn(1)] kn(2)
    by (simp add: cell_ok_def is_occupied_def)
  obtain n buf where tok: "prompt_of L r e k = (n, buf)" by fastforce
  let ?e3 = "e2\<lparr>prompt_tokens := (prompt_tokens e2)[k := buf]\<rparr>"
  have len: "length (prompt_tokens e2) = n_slots e2" using shapedD(5) [OF pl(1)] .
  have adm: "admit_one L now r e =
      (if n \<le> 0 then release_kv L k (fire r err_tokenization ?e3)
       else start_slot L k (?e3\<lparr>prompt_tokens := (prompt_tokens ?e3)[k := vec_resize 0 (nat n) buf]\<rparr>))"
  proof -
    have "admit_one L now r e = seat L k e2"
      using acq by (simp add: admit_one_def Let_def e2_def m_def eng_simps)
    also have "seat L k e2 =
      (if n \<le> 0 then release_kv L k (fire (req_at ?e3 k) err_tokenization ?e3)
       else start_slot L k (?e3\<lparr>prompt_tokens := (prompt_tokens ?e3)[k := vec_resize 0 (nat n) buf]\<rparr>))"
      using tok pl(5) e2(1) by (simp add: seat_def prompt_of_def Let_def)
    finally show ?thesis using pl(5) by (simp add: set_prompt_simps)
  qed
  show ?thesis
  proof (cases "0 < n")
    case False
    define f where "f = fire r err_tokenization ?e3"
    have f: "shaped f" "n_slots f = n_slots e" "is_occupied f k" "req_at f k = r"
      "held f = held e + lab r" "answered f = answered e + lab r"
      "\<And>j. cell f j = (if j = k then (cell e k)\<lparr>c_slot := taken r, c_prompt := buf\<rparr> else cell e j)"
      using pl len kn(1) e2
      by (auto simp: f_def eng_simps set_prompt_simps nth_list_update cell_prompt_id)
    have fu: "unchanged e f" using e2 pl(2) by (simp add: f_def unchanged_def eng_simps set_prompt_simps)
    have A: "admit_one L now r e = release_kv L k f" using adm False by (simp add: f_def)
    have c: "cell (admit_one L now r e) j =
        (if j = k then (cell e k)\<lparr>c_slot := empty_slot, c_prompt := buf\<rparr> else cell e j)" for j
      unfolding A using cell_release_kv [OF f(1), of k L j] f(2,7) kn(1) by auto
    have sha: "shaped (admit_one L now r e)"
      unfolding A using f kn(1) by (intro shaped_release_kv) auto
    have u: "unchanged e (admit_one L now r e)"
      unfolding A using fu by (simp add: unchanged_def eng_simps)
    show ?thesis
    proof (rule that [OF kn])
      show "\<forall>j < k. is_occupied e j" using k(3) by (simp add: is_occupied_def)
      show "eng_ok (admit_one L now r e)"
        by (rule eng_ok_change [OF ok sha u c]) (simp add: cell_ok_def empty_slot_def smp)
      show "held (admit_one L now r e) + answered (admit_one L now r e) = held e + answered e + lab r"
        using held_release_kv [OF f(1), of k L] f(2-6) kn(1)
        unfolding A by (simp add: eng_simps union_assoc)
      show "fired (admit_one L now r e) =
          fired e @ (if 0 < fst (prompt_of L r e k) then [] else reply r err_tokenization)"
        "e_ctx (admit_one L now r e) =
          (if 0 < fst (prompt_of L r e k) then e_ctx e else lm_seq_rm L (e_ctx e) (int k) 0 (- 1))"
        using False tok unfolding A by (simp_all add: f_def e2_def eng_simps)
    qed (use c u tok False in \<open>auto simp: is_occupied_cell empty_slot_def slot_load_def simp del: cell_sel\<close>)
  next
    case True
    define g where "g = ?e3\<lparr>prompt_tokens := (prompt_tokens ?e3)[k := vec_resize 0 (nat n) buf]\<rparr>"
    have g: "shaped g" "n_slots g = n_slots e" "held g = held e + lab r" "answered g = answered e"
      "\<And>j. cell g j = (if j = k then (cell e k)\<lparr>c_slot := taken r, c_prompt := vec_resize 0 (nat n) buf\<rparr>
          else cell e j)"
      using pl len kn(1) e2
      by (auto simp: g_def set_prompt_simps nth_list_update cell_prompt_id)
    have gu: "unchanged e g" using e2 pl(2) by (simp add: g_def unchanged_def set_prompt_simps)
    have A: "admit_one L now r e = start_slot L k g" using adm True by (simp add: g_def)
    have c: "cell (admit_one L now r e) j = (if j = k then (cell e k)\<lparr>c_slot := taken r,
        c_prompt := vec_resize 0 (nat n) buf, c_prefill := True, c_result := [], c_gen := 0,
        c_sampler := Some (lm_sampler_new L)\<rparr> else cell e j)" for j
      unfolding A using cell_start_slot [OF g(1), of k L j] g(2,5) kn(1) by auto
    have sha: "shaped (admit_one L now r e)"
      unfolding A using g kn(1) by (intro shaped_start_slot) auto
    have u: "unchanged e (admit_one L now r e)"
      unfolding A using gu by (simp add: unchanged_def eng_simps)
    have ne: "vec_resize 0 (nat n) buf \<noteq> []" using True by (metis length_vec_resize list.size(3) zero_less_nat_eq less_irrefl)
    show ?thesis
    proof (rule that [OF kn])
      show "\<forall>j < k. is_occupied e j" using k(3) by (simp add: is_occupied_def)
      show "eng_ok (admit_one L now r e)"
        using ne quota_pos [of "e_cfg e" r]
        by (intro eng_ok_change [OF ok sha u c]) (simp add: cell_ok_def taken_def)
      show "held (admit_one L now r e) + answered (admit_one L now r e) = held e + answered e + lab r"
        unfolding A using g(3,4) by (simp add: eng_simps held_start_slot union_assoc union_commute)
      show "fired (admit_one L now r e) =
          fired e @ (if 0 < fst (prompt_of L r e k) then [] else reply r err_tokenization)"
        "e_ctx (admit_one L now r e) =
          (if 0 < fst (prompt_of L r e k) then e_ctx e else lm_seq_rm L (e_ctx e) (int k) 0 (- 1))"
        using True tok unfolding A by (simp_all add: g_def e2_def eng_simps e_ctx_start_slot)
    qed (use c u tok True in \<open>auto simp: is_occupied_cell req_at_cell taken_def slot_load_def
        simp del: cell_sel\<close>)
  qed
qed

lemma admit_one_room:
  assumes "eng_ok e" "eng_ok e'" "n_slots e' = n_slots e" "k < n_slots e"
    "\<And>j. j \<noteq> k \<Longrightarrow> cell e' j = cell e j"
  shows "n_free (e_kv e) \<le> Suc (n_free (e_kv e'))"
proof -
  note sh = eng_okD(1) [OF assms(1)] and sh' = eng_okD(1) [OF assms(2)]
  have "j \<in> insert k (dom (slot_view (e_kv e)))" if "j \<in> dom (slot_view (e_kv e'))" for j
  proof (cases "j = k")
    case False
    from that have "j < n_slots e'" "is_occupied e' j"
      by (auto simp: slot_view_def busy_occupied [OF sh'] dom_def split: if_splits)
    moreover have "is_occupied e' j = is_occupied e j"
      using assms(5) [OF False] by (metis is_occupied_cell)
    ultimately show ?thesis
      using assms(3) by (simp add: slot_view_def busy_occupied [OF sh] dom_def)
  qed simp
  then have sub: "dom (slot_view (e_kv e')) \<subseteq> insert k (dom (slot_view (e_kv e)))" by blast
  have fin: "finite (dom (slot_view (e_kv e)))" by (rule kvp.view_finite [OF shapedD(1) [OF sh]])
  have "card (dom (slot_view (e_kv e'))) \<le> card (insert k (dom (slot_view (e_kv e))))"
    using fin sub by (intro card_mono) auto
  also have "\<dots> \<le> Suc (card (dom (slot_view (e_kv e))))" by (rule card_insert_le_m1) auto
  finally have "card (dom (slot_view (e_kv e'))) \<le> Suc (card (dom (slot_view (e_kv e))))" .
  then show ?thesis
    using kvp.room_card [OF shapedD(1) [OF sh]] kvp.room_card [OF shapedD(1) [OF sh']]
      shapedD(2) [OF sh] shapedD(2) [OF sh'] assms(3) by simp
qed

lemma admit_one_ok:
  assumes ok: "eng_ok e" and room: "0 < n_free (e_kv e)"
  shows "eng_ok (admit_one L now r e)" "unchanged e (admit_one L now r e)"
    "held (admit_one L now r e) + answered (admit_one L now r e) = held e + answered e + lab r"
    "n_free (e_kv e) \<le> Suc (n_free (e_kv (admit_one L now r e)))"
    "is_occupied e j \<Longrightarrow> is_occupied (admit_one L now r e) j"
    "slots_load (admit_one L now r e) \<le> slots_load e + quota (e_cfg e) r"
    "\<forall>j < n_slots e. \<not> is_occupied (admit_one L now r e) j \<Longrightarrow>
       slots_load (admit_one L now r e) < slots_load e + quota (e_cfg e) r"
proof -
  obtain k where k: "k < n_slots e" "\<not> is_occupied e k" "\<forall>j < k. is_occupied e j"
    "eng_ok (admit_one L now r e)" "unchanged e (admit_one L now r e)"
    "held (admit_one L now r e) + answered (admit_one L now r e) = held e + answered e + lab r"
    "\<forall>j. j \<noteq> k \<longrightarrow> cell (admit_one L now r e) j = cell e j"
    "is_occupied (admit_one L now r e) k \<longleftrightarrow> 0 < fst (prompt_of L r e k)"
    "0 < fst (prompt_of L r e k) \<longrightarrow> req_at (admit_one L now r e) k = r"
    "slot_load (e_cfg e) (cell (admit_one L now r e) k) =
       (if 0 < fst (prompt_of L r e k) then quota (e_cfg e) r else 0)"
    by (rule admit_one_spec [OF ok room, of L now r])
  have n: "n_slots (admit_one L now r e) = n_slots e" "e_cfg (admit_one L now r e) = e_cfg e"
    using k(5) by (auto simp: unchanged_def)
  have load: "slots_load (admit_one L now r e) = slots_load e
      + (if 0 < fst (prompt_of L r e k) then quota (e_cfg e) r else 0)"
  proof -
    have "slot_load (e_cfg e) (cell e k) = 0" using k(2) by (simp add: slot_load_def is_occupied_def)
    with slots_load_change [OF k(1) n k(7) [rule_format]] k(10) show ?thesis by simp
  qed
  show "eng_ok (admit_one L now r e)" "unchanged e (admit_one L now r e)"
    "held (admit_one L now r e) + answered (admit_one L now r e) = held e + answered e + lab r"
    by (rule k)+
  show "n_free (e_kv e) \<le> Suc (n_free (e_kv (admit_one L now r e)))"
    by (rule admit_one_room [OF ok k(4) n(1) k(1) k(7) [rule_format]])
  show "is_occupied (admit_one L now r e) j" if "is_occupied e j"
  proof -
    have "j \<noteq> k" using that k(2) by auto
    from k(7) [rule_format, OF this] that show ?thesis by (metis is_occupied_cell)
  qed
  show "slots_load (admit_one L now r e) \<le> slots_load e + quota (e_cfg e) r"
    "\<forall>j < n_slots e. \<not> is_occupied (admit_one L now r e) j \<Longrightarrow>
       slots_load (admit_one L now r e) < slots_load e + quota (e_cfg e) r"
    using load k(1,8) quota_pos [of "e_cfg e" r] by auto
qed

lemma admit_all_ok:
  assumes "eng_ok e" "length rs \<le> n_free (e_kv e)"
  shows "eng_ok (admit_all L tick i rs e) \<and> unchanged e (admit_all L tick i rs e) \<and>
    held (admit_all L tick i rs e) + answered (admit_all L tick i rs e) =
      held e + answered e + labels on_complete rs \<and>
    (\<forall>j. is_occupied e j \<longrightarrow> is_occupied (admit_all L tick i rs e) j) \<and>
    slots_load (admit_all L tick i rs e) \<le> slots_load e + weigh (quota (e_cfg e)) rs \<and>
    (rs \<noteq> [] \<longrightarrow> (\<forall>j < n_slots e. \<not> is_occupied (admit_all L tick i rs e) j) \<longrightarrow>
       slots_load (admit_all L tick i rs e) < slots_load e + weigh (quota (e_cfg e)) rs)"
  using assms
proof (induction rs arbitrary: i e)
  case Nil
  then show ?case by simp
next
  case (Cons r rs)
  then have room: "0 < n_free (e_kv e)" by simp
  note a = admit_one_ok [OF Cons.prems(1) room, where L = L and now = "tick i" and r = r]
  let ?e1 = "admit_one L (tick i) r e"
  have n: "n_slots ?e1 = n_slots e" "e_cfg ?e1 = e_cfg e" using a(2) by (auto simp: unchanged_def)
  have "length rs \<le> n_free (e_kv ?e1)" using Cons.prems(2) a(4) by simp
  note IH = Cons.IH [OF a(1) this, of "Suc i", unfolded n]
  have occ: "is_occupied (admit_all L tick (Suc i) rs ?e1) j" if "is_occupied e j" for j
    using IH a(5) [OF that] by blast
  have acc: "held (admit_all L tick (Suc i) rs ?e1) + answered (admit_all L tick (Suc i) rs ?e1) =
      held e + answered e + labels on_complete (r # rs)"
    using IH a(3) by (simp only: labels_lab ac_simps)
  have strict: "slots_load (admit_all L tick (Suc i) rs ?e1) <
      slots_load e + weigh (quota (e_cfg e)) (r # rs)"
    if free: "\<forall>j < n_slots e. \<not> is_occupied (admit_all L tick (Suc i) rs ?e1) j"
  proof (cases "rs = []")
    case True
    with a(7) free show ?thesis by simp
  next
    case False
    with IH a(6) free show ?thesis by fastforce
  qed
  show ?case
    using IH a(6) occ acc strict unchanged_trans [OF a(2)] by auto
qed

lemma drain_eq: "drain n acc q = (acc @ take (nat n) q, drop (nat n) q)"
proof (induction n acc q rule: drain.induct)
  case (2 n acc r q)
  show ?case
  proof (cases "n > 0")
    case True
    then obtain m where "nat n = Suc m" "nat (n - 1) = m" by (cases "nat n") auto
    with True 2 show ?thesis by simp
  qed simp
qed simp

text \<open>The queue is served in arrival order: the drained requests are its longest prefix that fits.\<close>

lemma drain_pending_eq:
  "drain_pending e =
     (take (nat (free_count (e_kv e))) (pending e),
      e\<lparr>pending := drop (nat (free_count (e_kv e))) (pending e)\<rparr>)"
  by (simp add: drain_pending_def drain_eq)

lemma set_pending_simps:
  "eng_ok (e\<lparr>pending := q\<rparr>) = eng_ok e" "held (e\<lparr>pending := q\<rparr>) = held e"
  "answered (e\<lparr>pending := q\<rparr>) = answered e" "slots_load (e\<lparr>pending := q\<rparr>) = slots_load e"
  "n_slots (e\<lparr>pending := q\<rparr>) = n_slots e" "is_occupied (e\<lparr>pending := q\<rparr>) = is_occupied e"
  "cell (e\<lparr>pending := q\<rparr>) = cell e"
proof -
  show c: "cell (e\<lparr>pending := q\<rparr>) = cell e" by (simp add: cell_def fun_eq_iff)
  show "eng_ok (e\<lparr>pending := q\<rparr>) = eng_ok e" "slots_load (e\<lparr>pending := q\<rparr>) = slots_load e"
    unfolding eng_ok_def slots_load_def c by (simp_all add: shaped_def n_slots_def)
qed (simp_all add: held_def answered_def n_slots_def is_occupied_def fun_eq_iff)

theorem admit_pending_ok:
  assumes ok: "eng_ok e"
  shows "eng_ok (admit_pending L tick e)" "e_cfg (admit_pending L tick e) = e_cfg e"
    "n_slots (admit_pending L tick e) = n_slots e" "running (admit_pending L tick e) = running e"
    "pending (admit_pending L tick e) = drop (nat (free_count (e_kv e))) (pending e)"
    "accounted (admit_pending L tick e) = accounted e"
    "load (admit_pending L tick e) \<le> load e"
    "0 < load e \<Longrightarrow> 0 < n_slots e \<Longrightarrow> load (admit_pending L tick e) < load e \<or>
       (\<exists>j < n_slots e. is_occupied (admit_pending L tick e) j)"
proof -
  let ?n = "nat (free_count (e_kv e))"
  let ?q = "e\<lparr>pending := drop ?n (pending e)\<rparr>"
  let ?rs = "take ?n (pending e)"
  have free: "?n = n_free (e_kv e)" using kv_invD(3) [OF shapedD(1) [OF eng_okD(1) [OF ok]]] by simp
  have adm: "admit_pending L tick e = admit_all L tick 0 ?rs ?q"
    by (simp add: admit_pending_def drain_pending_eq)
  have "eng_ok ?q" "length ?rs \<le> n_free (e_kv ?q)"
    using ok free by (simp_all add: set_pending_simps)
  note A = admit_all_ok [OF this, of L tick 0, folded adm]
  show "eng_ok (admit_pending L tick e)" "e_cfg (admit_pending L tick e) = e_cfg e"
    "n_slots (admit_pending L tick e) = n_slots e" "running (admit_pending L tick e) = running e"
    and pend: "pending (admit_pending L tick e) = drop ?n (pending e)"
    using A by (simp_all add: unchanged_def set_pending_simps)
  have split: "labels on_complete (pending e) = labels on_complete ?rs + labels on_complete (drop ?n (pending e))"
    by (metis append_take_drop_id labels_append)
  show "accounted (admit_pending L tick e) = accounted e"
    using A split pend by (simp add: accounted_def set_pending_simps ac_simps)
  have w: "weigh (quota (e_cfg e)) (pending e) =
      weigh (quota (e_cfg e)) ?rs + weigh (quota (e_cfg e)) (drop ?n (pending e))"
    by (metis append_take_drop_id weigh_append)
  have le: "slots_load (admit_pending L tick e) \<le> slots_load e + weigh (quota (e_cfg e)) ?rs"
    using A by (simp add: set_pending_simps)
  have cfg: "e_cfg (admit_pending L tick e) = e_cfg e" using A by (simp add: unchanged_def)
  show "load (admit_pending L tick e) \<le> load e"
    using le w pend cfg by (simp add: load_def)
  assume pos: "0 < load e" "0 < n_slots e"
  show "load (admit_pending L tick e) < load e \<or>
      (\<exists>j < n_slots e. is_occupied (admit_pending L tick e) j)"
  proof (cases "?rs = []")
    case False
    with A w pend cfg show ?thesis by (auto simp: load_def set_pending_simps)
  next
    case True
    have "\<exists>j < n_slots e. is_occupied e j"
    proof (cases "?n = 0")
      case True
      then have "n_free (e_kv e) \<noteq> n_slots e" using free pos(2) by simp
      then show ?thesis
        using n_free_all_iff [of "e_kv e"] shapedD(2) [OF eng_okD(1) [OF ok]]
        by (auto simp: is_occupied_def)
    next
      case False
      with True have "pending e = []" by simp
      then have "0 < slots_load e" using pos(1) by (simp add: load_def)
      then have "\<exists>j \<in> {..<n_slots e}. slot_load (e_cfg e) (cell e j) \<noteq> 0"
        unfolding slots_load_def by (metis less_irrefl sum.neutral)
      then show ?thesis by (auto simp: slot_load_def is_occupied_def split: if_splits)
    qed
    with A show ?thesis by (auto simp: set_pending_simps)
  qed
qed

section \<open>The loop body\<close>

theorem loop_body_ok:
  assumes ok: "eng_ok e"
  shows "\<exists>e'. loop_body L tk e = Some e' \<and> eng_ok e' \<and> e_cfg e' = e_cfg e \<and>
    n_slots e' = n_slots e \<and> running e' = running e \<and>
    pending e' = drop (nat (free_count (e_kv e))) (pending e) \<and>
    accounted e' = accounted e \<and> load e' \<le> load e \<and>
    (0 < load e \<longrightarrow> 0 < n_slots e \<longrightarrow> load e' < load e)"
proof -
  let ?a = "admit_pending L (t_admit tk) e"
  note a = admit_pending_ok [OF ok, of L "t_admit tk"]
  from decode_step_ok [OF a(1), of L tk] obtain e' where e': "decode_step L tk ?a = Some e'" "eng_ok e'"
    "unchanged ?a e'" "held e' + answered e' = held ?a + answered ?a" "slots_load e' \<le> slots_load ?a"
    "(\<exists>j < n_slots ?a. is_occupied ?a j) \<longrightarrow> slots_load e' < slots_load ?a" by blast
  have l: "load e' \<le> load ?a" "slots_load e' < slots_load ?a \<Longrightarrow> load e' < load ?a"
    using e'(3,5) by (simp_all add: load_def unchanged_def)
  have "load e' < load e" if "0 < load e" "0 < n_slots e"
    using a(8) [OF that] a(3,7) e'(6) l by fastforce
  moreover have "accounted e' = accounted e"
    using a(6) e'(3,4) by (simp add: accounted_def unchanged_def add.assoc)
  ultimately show ?thesis
    using e' a l(1) by (intro exI [of _ e']) (auto simp: loop_body_def unchanged_def)
qed

lemma loop_body_obtain:
  assumes "eng_ok e"
  obtains e' where "loop_body L tk e = Some e'" "eng_ok e'" "n_slots e' = n_slots e"
    "accounted e' = accounted e" "load e' \<le> load e"
    "0 < load e \<longrightarrow> 0 < n_slots e \<longrightarrow> load e' < load e"
  by (rule exE [OF loop_body_ok [OF assms, of L tk]], elim conjE) (rule that)

text \<open>A new engine satisfies the invariant and owes nothing.\<close>

lemma engine_new_ok:
  assumes "engine_new cfg model init = Inr e"
  shows "eng_ok e" "accounted e = {#}" "e_cfg e = cfg" "running e" "pending e = []" "fired e = []"
    "n_slots e = nat (cfg_max_slots cfg)" "load e = 0"
proof -
  from assms obtain m where kv: "kv_new (cfg_max_slots cfg) = Some m"
    and e: "e_kv e = m" "e_cfg e = cfg" "running e" "pending e = []" "fired e = []"
      "samplers e = replicate (nat (cfg_max_slots cfg)) None"
      "results e = replicate (nat (cfg_max_slots cfg)) []"
      "prompt_tokens e = replicate (nat (cfg_max_slots cfg)) []"
      "tokens_generated e = replicate (nat (cfg_max_slots cfg)) 0"
      "in_prefill e = replicate (nat (cfg_max_slots cfg)) False" "n_samplers e = 0"
    by (auto simp: engine_new_def Let_def split: option.splits)
  have m: "m = \<lparr>max_slots = cfg_max_slots cfg, slots = replicate (nat (cfg_max_slots cfg)) empty_slot,
      free_count = cfg_max_slots cfg\<rparr>" using kv by (auto simp: kv_new_def split: if_splits)
  show n: "n_slots e = nat (cfg_max_slots cfg)" by (simp add: n_slots_def e m)
  have sh: "shaped e" using kv_new_inv [OF kv] by (simp add: shaped_def e n)
  have free: "cell_ok cfg (cell e j) \<and> slot_load cfg (cell e j) = 0" if "j < n_slots e" for j
    using that n by (simp add: cell_ok_def slot_load_def e m empty_slot_def)
  show "eng_ok e" using sh free by (simp add: eng_ok_def e)
  show "load e = 0" using free by (simp add: load_def slots_load_def e)
  have "held e = {#}"
    by (simp add: held_def e m slot_cb_def empty_slot_def labels_def map_filter_def)
  then show "accounted e = {#}" by (simp add: accounted_def answered_def e)
  show "e_cfg e = cfg" "running e" "pending e = []" "fired e = []" by (rule e)+
qed

lemma engine_new_idle: "engine_new cfg model init = Inr e \<Longrightarrow> idle e"
  by (auto simp: engine_new_def idle_def kv_new_def Let_def split: option.splits if_splits)

end
