(* ===== verification/Engine_Run.thy ===== *)
theory Engine_Run
  imports Engine_Loop
begin

text \<open>
  The engine thread among the threads that enqueue requests and the one that shuts it down.
  The steps follow \<open>engine_loop\<close>, \<open>enqueue\<close> and \<open>shutdown\<close> down to the points where
  another thread can come in between: the test of the wait predicate and the blocking are
  separate (the mutex is held in between), and so are a push or the clearing of
  \<open>running_\<close> and the notification that follows it.
\<close>

section \<open>Running the loop body repeatedly\<close>

fun loop_n :: "('c, 's) llama \<Rightarrow> (nat \<Rightarrow> ticks) \<Rightarrow> nat \<Rightarrow> ('c, 's) engine \<Rightarrow> ('c, 's) engine option" where
  "loop_n L tk 0 e = Some e"
| "loop_n L tk (Suc n) e = do { e' \<leftarrow> loop_body L (tk n) e; loop_n L tk n e' }"

lemma loop_n_ok:
  "eng_ok e \<Longrightarrow> 0 < n_slots e \<Longrightarrow>
     \<exists>e'. loop_n L tk n e = Some e' \<and> eng_ok e' \<and> accounted e' = accounted e \<and>
       n_slots e' = n_slots e \<and> load e' \<le> max 0 (load e - int n)"
proof (induction n arbitrary: e)
  case 0
  then show ?case using load_nonneg [of e] by simp
next
  case (Suc n)
  obtain e1 where e1: "loop_body L (tk n) e = Some e1" "eng_ok e1" "n_slots e1 = n_slots e"
    "accounted e1 = accounted e" "load e1 \<le> load e" "0 < load e \<longrightarrow> 0 < n_slots e \<longrightarrow> load e1 < load e"
    by (rule loop_body_obtain [OF Suc.prems(1), of L "tk n"])
  from e1(3) Suc.prems(2) have "0 < n_slots e1" by simp
  from Suc.IH [OF e1(2) this] obtain e' where e':
    "loop_n L tk n e1 = Some e'" "eng_ok e'" "accounted e' = accounted e1" "n_slots e' = n_slots e1"
    "load e' \<le> max 0 (load e1 - int n)" by blast
  have "load e1 \<le> max 0 (load e - 1)" using e1(5,6) Suc.prems(2) by linarith
  then have l: "load e' \<le> max 0 (load e - int (Suc n))" using e'(5) by linarith
  have "loop_n L tk (Suc n) e = Some e'" using e1(1) e'(1) by simp
  moreover have "accounted e' = accounted e" "n_slots e' = n_slots e"
    using e'(3,4) e1(3,4) by simp_all
  ultimately show ?case using e'(2) l by blast
qed

lemma load_zero:
  assumes "eng_ok e" "load e \<le> 0"
  shows "pending e = []" "sid < n_slots e \<Longrightarrow> \<not> is_occupied e sid" "accounted e = answered e"
proof -
  have s: "slots_load e = 0" and w: "weigh (quota (e_cfg e)) (pending e) = 0"
    using assms slots_load_nonneg [OF assms(1)] weigh_quota_ge [of "pending e" "e_cfg e"]
    by (simp_all add: load_def)
  show p: "pending e = []" using weigh_quota_ge [of "pending e" "e_cfg e"] w by simp
  have "slot_load (e_cfg e) (cell e j) = 0" if "j < n_slots e" for j
    using s that sum_nonneg_eq_0_iff [of "{..<n_slots e}" "\<lambda>j. slot_load (e_cfg e) (cell e j)"]
      slot_load_nonneg eng_okD(2) [OF assms(1)]
    by (auto simp: slots_load_def)
  then have free: "\<not> is_occupied e j" if "j < n_slots e" for j
    using slot_load_pos [OF eng_okD(2) [OF assms(1) that]] that by (force simp: is_occupied_def)
  then show "sid < n_slots e \<Longrightarrow> \<not> is_occupied e sid" by blast
  have "labels slot_cb (slots (e_kv e)) = labels slot_cb (replicate (length (slots (e_kv e))) empty_slot)"
    using free shapedD(2) [OF eng_okD(1) [OF assms(1)]]
    by (intro labels_cong) (auto simp: slot_cb_def empty_slot_def is_occupied_def)
  also have "\<dots> = {#}" by (simp add: labels_def map_filter_def slot_cb_def empty_slot_def)
  finally show "accounted e = answered e" by (simp add: accounted_def held_def p)
qed

section \<open>The threads\<close>

datatype phase =
    Head
  | Wait_test
  | Wait_park
  | Asleep
  | Draining
  | Working "request list"
  | Stopped

record ('c, 's) sys =
  ph :: phase
  eng :: "('c, 's) engine"
  owed :: nat
  sd_owed :: bool
  pushed :: "request list"
  drained :: "request list"

text \<open>The engine thread holds \<open>pending_mutex_\<close> from the test to the blocking.\<close>

definition locked :: "phase \<Rightarrow> bool" where
  "locked p \<longleftrightarrow> p = Wait_test \<or> p = Wait_park"

definition wake :: "('c, 's) sys \<Rightarrow> ('c, 's) sys" where
  "wake s = (if ph s = Asleep then s\<lparr>ph := Wait_test\<rparr> else s)"

inductive sys_step :: "('c, 's) llama \<Rightarrow> ('c, 's) sys \<Rightarrow> ('c, 's) sys \<Rightarrow> bool" for L where
  head_stop: "ph s = Head \<Longrightarrow> \<not> running (eng s) \<Longrightarrow> sys_step L s (s\<lparr>ph := Stopped\<rparr>)"
| head_idle: "ph s = Head \<Longrightarrow> running (eng s) \<Longrightarrow> idle (eng s) \<Longrightarrow> sys_step L s (s\<lparr>ph := Wait_test\<rparr>)"
| head_busy: "ph s = Head \<Longrightarrow> running (eng s) \<Longrightarrow> \<not> idle (eng s) \<Longrightarrow> sys_step L s (s\<lparr>ph := Draining\<rparr>)"
| test_stop: "ph s = Wait_test \<Longrightarrow> \<not> running (eng s) \<Longrightarrow> sys_step L s (s\<lparr>ph := Stopped\<rparr>)"
| test_go: "ph s = Wait_test \<Longrightarrow> running (eng s) \<Longrightarrow> pending (eng s) \<noteq> [] \<Longrightarrow>
    sys_step L s (s\<lparr>ph := Draining\<rparr>)"
| test_fail: "ph s = Wait_test \<Longrightarrow> running (eng s) \<Longrightarrow> pending (eng s) = [] \<Longrightarrow>
    sys_step L s (s\<lparr>ph := Wait_park\<rparr>)"
| park: "ph s = Wait_park \<Longrightarrow> sys_step L s (s\<lparr>ph := Asleep\<rparr>)"
| spurious: "ph s = Asleep \<Longrightarrow> sys_step L s (s\<lparr>ph := Wait_test\<rparr>)"
| drain: "ph s = Draining \<Longrightarrow> drain_pending (eng s) = (rs, e') \<Longrightarrow>
    sys_step L s (s\<lparr>ph := Working rs, eng := e', drained := drained s @ rs\<rparr>)"
| work: "ph s = Working rs \<Longrightarrow>
    decode_step L tk (admit_all L (t_admit tk) 0 rs (eng s)) = Some e' \<Longrightarrow>
    sys_step L s (s\<lparr>ph := Head, eng := e'\<rparr>)"
| push: "\<not> locked (ph s) \<Longrightarrow>
    sys_step L s (s\<lparr>eng := enqueue r (eng s), owed := owed s + 1, pushed := pushed s @ [r]\<rparr>)"
| push_notify: "0 < owed s \<Longrightarrow> sys_step L s (wake (s\<lparr>owed := owed s - 1\<rparr>))"
| sd_flag: "sys_step L s (s\<lparr>eng := shutdown (eng s), sd_owed := True\<rparr>)"
| sd_notify: "sd_owed s \<Longrightarrow> sys_step L s (wake (s\<lparr>sd_owed := False\<rparr>))"

inductive_cases sys_stepE: "sys_step L s s'"

definition sys_init :: "('c, 's) engine \<Rightarrow> ('c, 's) sys" where
  "sys_init e = \<lparr>ph = Head, eng = e, owed = 0, sd_owed = False, pushed = [], drained = []\<rparr>"

inductive reach :: "('c, 's) llama \<Rightarrow> ('c, 's) sys \<Rightarrow> ('c, 's) sys \<Rightarrow> bool" for L s0 where
  start: "reach L s0 s0"
| step: "reach L s0 s \<Longrightarrow> sys_step L s s' \<Longrightarrow> reach L s0 s'"

section \<open>Invariant\<close>

definition in_hand :: "phase \<Rightarrow> request list" where
  "in_hand p = (case p of Working rs \<Rightarrow> rs | _ \<Rightarrow> [])"

definition sys_inv :: "('c, 's) sys \<Rightarrow> bool" where
  "sys_inv s \<longleftrightarrow>
     eng_ok (eng s) \<and> length (in_hand (ph s)) \<le> n_free (e_kv (eng s)) \<and>
     pushed s = drained s @ pending (eng s) \<and>
     labels on_complete (pushed s) = accounted (eng s) + labels on_complete (in_hand (ph s)) \<and>
     (ph s = Wait_park \<longrightarrow> pending (eng s) = []) \<and>
     (ph s = Asleep \<longrightarrow> pending (eng s) \<noteq> [] \<longrightarrow> 0 < owed s)"

lemma sys_invD:
  assumes "sys_inv s"
  shows "eng_ok (eng s)" "pushed s = drained s @ pending (eng s)"
    "labels on_complete (pushed s) = accounted (eng s) + labels on_complete (in_hand (ph s))"
    "length (in_hand (ph s)) \<le> n_free (e_kv (eng s))"
    "ph s = Asleep \<Longrightarrow> pending (eng s) \<noteq> [] \<Longrightarrow> 0 < owed s"
  using assms unfolding sys_inv_def by blast+

lemma enqueue_simps:
  "eng_ok (enqueue r e) = eng_ok e" "accounted (enqueue r e) = accounted e + lab r"
  "e_kv (enqueue r e) = e_kv e" "pending (enqueue r e) = pending e @ [r]" "n_slots (enqueue r e) = n_slots e"
  by (simp_all add: enqueue_def set_pending_simps accounted_def lab_def)

lemma shutdown_simps:
  "eng_ok (shutdown e) = eng_ok e" "accounted (shutdown e) = accounted e"
  "e_kv (shutdown e) = e_kv e" "pending (shutdown e) = pending e" "n_slots (shutdown e) = n_slots e"
proof -
  have c: "cell (shutdown e) = cell e" by (simp add: shutdown_def cell_def fun_eq_iff)
  show "eng_ok (shutdown e) = eng_ok e"
    unfolding eng_ok_def c by (simp add: shutdown_def shaped_def n_slots_def)
qed (simp_all add: shutdown_def accounted_def held_def answered_def n_slots_def)

lemma drain_step_inv:
  assumes "eng_ok e" "drain_pending e = (rs, e')"
  shows "eng_ok e'" "length rs \<le> n_free (e_kv e')" "pending e = rs @ pending e'"
    "accounted e' + labels on_complete rs = accounted e" "n_slots e' = n_slots e"
proof -
  let ?n = "nat (free_count (e_kv e))"
  have rs: "rs = take ?n (pending e)" "e' = e\<lparr>pending := drop ?n (pending e)\<rparr>"
    using assms(2) by (simp_all add: drain_pending_eq)
  show "eng_ok e'" "n_slots e' = n_slots e" using assms(1) by (simp_all add: rs(2) set_pending_simps)
  show "length rs \<le> n_free (e_kv e')"
    using kv_invD(3) [OF shapedD(1) [OF eng_okD(1) [OF assms(1)]]] by (simp add: rs)
  show p: "pending e = rs @ pending e'" by (simp add: rs)
  show "accounted e' + labels on_complete rs = accounted e"
    using arg_cong [OF p, of "labels on_complete"]
    by (simp add: accounted_def rs(2) set_pending_simps ac_simps del: append_take_drop_id)
qed

lemma work_step_inv:
  assumes "eng_ok e" "length rs \<le> n_free (e_kv e)"
  obtains e' where "decode_step L tk (admit_all L (t_admit tk) 0 rs e) = Some e'" "eng_ok e'"
    "accounted e' = accounted e + labels on_complete rs" "pending e' = pending e" "n_slots e' = n_slots e"
proof -
  let ?a = "admit_all L (t_admit tk) 0 rs e"
  note A = admit_all_ok [OF assms, of L "t_admit tk" 0]
  then have ok: "eng_ok ?a" by blast
  from decode_step_ok [OF ok, of L tk] obtain e' where e': "decode_step L tk ?a = Some e'" "eng_ok e'"
    "unchanged ?a e'" "held e' + answered e' = held ?a + answered ?a" by blast
  show ?thesis
  proof (rule that [OF e'(1,2)])
    show "accounted e' = accounted e + labels on_complete rs"
      using A e'(3,4) by (simp add: accounted_def unchanged_def add.assoc)
  qed (use A e'(3) in \<open>auto simp: unchanged_def\<close>)
qed

lemma wake_simps [simp]:
  "eng (wake s) = eng s" "owed (wake s) = owed s" "sd_owed (wake s) = sd_owed s"
  "pushed (wake s) = pushed s" "drained (wake s) = drained s"
  "ph (wake s) = (if ph s = Asleep then Wait_test else ph s)"
  by (simp_all add: wake_def)

lemma in_hand_simps [simp]:
  "in_hand Head = []" "in_hand Wait_test = []" "in_hand Wait_park = []" "in_hand Asleep = []"
  "in_hand Draining = []" "in_hand (Working rs) = rs" "in_hand Stopped = []"
  by (simp_all add: in_hand_def)

lemma sys_step_inv: "sys_step L s s' \<Longrightarrow> sys_inv s \<Longrightarrow> sys_inv s'"
proof (induction rule: sys_step.induct)
  case (drain s rs e')
  then show ?case
    using drain_step_inv [of "eng s" rs e'] by (auto simp: sys_inv_def ac_simps)
next
  case (work s rs tk e')
  then have "eng_ok (eng s)" "length rs \<le> n_free (e_kv (eng s))" by (auto simp: sys_inv_def)
  from work_step_inv [OF this, of L tk] work(2) obtain "eng_ok e'"
    "accounted e' = accounted (eng s) + labels on_complete rs" "pending e' = pending (eng s)"
    by (metis option.inject)
  with work show ?case by (auto simp: sys_inv_def)
next
  case (push s r)
  then have "labels on_complete (pushed s) = accounted (eng s) + labels on_complete (in_hand (ph s))"
    unfolding sys_inv_def by blast
  then have "labels on_complete (pushed s @ [r]) =
      accounted (enqueue r (eng s)) + labels on_complete (in_hand (ph s))"
    by (simp add: enqueue_simps lab_def ac_simps)
  with push show ?case by (auto simp: sys_inv_def enqueue_simps locked_def simp del: labels_append)
next
  case (sd_flag s)
  then show ?case by (auto simp: sys_inv_def shutdown_simps simp del: labels_append)
qed (auto simp: sys_inv_def simp del: labels_append)

lemma sys_init_inv:
  assumes "engine_new cfg model init = Inr e"
  shows "sys_inv (sys_init e)"
  using engine_new_ok [OF assms] by (simp add: sys_inv_def sys_init_def)

lemma reach_inv: "reach L s0 s \<Longrightarrow> sys_inv s0 \<Longrightarrow> sys_inv s"
  by (induction rule: reach.induct) (auto intro: sys_step_inv)

lemma step_n_slots: "sys_step L s s' \<Longrightarrow> sys_inv s \<Longrightarrow> n_slots (eng s') = n_slots (eng s)"
proof (induction rule: sys_step.induct)
  case (drain s rs e')
  then show ?case using drain_step_inv(5) [of "eng s" rs e'] by (simp add: sys_inv_def)
next
  case (work s rs tk e')
  then have "eng_ok (eng s)" "length rs \<le> n_free (e_kv (eng s))" by (auto simp: sys_inv_def)
  then obtain e'' where "decode_step L tk (admit_all L (t_admit tk) 0 rs (eng s)) = Some e''"
    "n_slots e'' = n_slots (eng s)"
    by (rule work_step_inv [where L = L and tk = tk])
  with work(2) show ?case by simp
qed (simp_all add: enqueue_simps shutdown_simps)

lemma reach_n_slots:
  "reach L s0 s \<Longrightarrow> sys_inv s0 \<Longrightarrow> n_slots (eng s) = n_slots (eng s0)"
proof (induction rule: reach.induct)
  case (step s s')
  then show ?case using step_n_slots [OF step.hyps(2) reach_inv [OF step.hyps(1) step.prems]] by simp
qed simp

text \<open>An engine whose slots are all free has freed every sampler chain.\<close>

lemma samplers_occupied:
  assumes "eng_ok e" "sid < n_slots e"
  shows "samplers e ! sid \<noteq> None \<longleftrightarrow> is_occupied e sid"
  using eng_okD(2) [OF assms] by (auto simp: cell_ok_def is_occupied_def split: if_splits)

lemma no_samplers:
  assumes "eng_ok e" "\<And>sid. sid < n_slots e \<Longrightarrow> \<not> is_occupied e sid"
  shows "n_samplers e = 0"
proof -
  have l: "length (samplers e) = n_slots e" by (rule shapedD(3) [OF eng_okD(1) [OF assms(1)]])
  have "\<forall>x \<in> set (samplers e). x = None"
    using assms samplers_occupied [OF assms(1)] l by (metis in_set_conv_nth)
  then have "filter (\<lambda>x. x \<noteq> None) (samplers e) = []" by (simp add: filter_empty_conv)
  with eng_okD(1) [OF assms(1)] show ?thesis unfolding shaped_def by simp
qed

lemma reach_trans: "reach L b c \<Longrightarrow> reach L a b \<Longrightarrow> reach L a c"
  by (induction rule: reach.induct) (auto intro: reach.step)

end
