(* ===== verification/Engine_Props.thy ===== *)
theory Engine_Props
  imports Engine_Run
begin

text \<open>
  What the engine promises to the servers, over every interleaving of its thread with the
  threads that enqueue and the one that shuts it down.
\<close>

section \<open>A concrete model library, for the witnesses\<close>

text \<open>
  The context counts the tokens decoded, the sampler counts the tokens it has sampled and
  ends the sequence at the third; the tokenizer maps bytes to their codes.
\<close>

definition demo_llama :: "(int, int) llama" where
  "demo_llama =
     \<lparr>lm_tokenize = (\<lambda>txt n. if length txt \<le> n then (int (length txt), map of_char txt)
                          else (- int (length txt), [])),
      lm_decode = (\<lambda>c b. (0, c + int (length b))),
      lm_sampler_new = 0,
      lm_sample = (\<lambda>s c i. (s, s + 1)),
      lm_is_eog = (\<lambda>t. 2 \<le> t),
      lm_piece = (\<lambda>t n. (1, ''x'')),
      lm_seq_rm = (\<lambda>c s a b. c)\<rparr>"

definition demo_cfg :: engine_config where
  "demo_cfg = \<lparr>cfg_max_slots = 2, cfg_max_tokens = 8, cfg_n_threads = 1, cfg_n_gpu_layers = 0\<rparr>"

definition demo_engine :: "(int, int) engine" where
  "demo_engine =
     \<lparr>e_cfg = demo_cfg,
      e_kv = \<lparr>max_slots = 2, slots = [empty_slot, empty_slot], free_count = 2\<rparr>, e_ctx = 0,
      samplers = [None, None], results = [[], []], prompt_tokens = [[], []],
      tokens_generated = [0, 0], in_prefill = [False, False],
      pending = [], running = True, fired = [], e_log = [], n_samplers = 0\<rparr>"

definition demo_request :: "nat \<Rightarrow> request" where
  "demo_request p =
     empty_request\<lparr>payload := ''hi'', deadline := 5000, on_complete := Some p\<rparr>"

lemma demo_engine_new: "engine_new demo_cfg (Some ()) (\<lambda>_ _ _ _ _. Some 0) = Inr demo_engine"
  by (simp add: engine_new_def demo_cfg_def demo_engine_def kv_new_def Let_def numeral_2_eq_2)

text \<open>One request was pushed, its notification is still owed.\<close>

lemma demo_reach_push:
  "reach demo_llama (sys_init demo_engine)
     ((sys_init demo_engine)\<lparr>eng := enqueue (demo_request 7) demo_engine, owed := 1,
        pushed := [demo_request 7]\<rparr>)"
proof -
  have "sys_step demo_llama (sys_init demo_engine)
      ((sys_init demo_engine)\<lparr>eng := enqueue (demo_request 7) (eng (sys_init demo_engine)),
         owed := owed (sys_init demo_engine) + 1,
         pushed := pushed (sys_init demo_engine) @ [demo_request 7]\<rparr>)"
    by (rule sys_step.push) (simp add: sys_init_def locked_def)
  then have "reach demo_llama (sys_init demo_engine)
      ((sys_init demo_engine)\<lparr>eng := enqueue (demo_request 7) (eng (sys_init demo_engine)),
         owed := owed (sys_init demo_engine) + 1,
         pushed := pushed (sys_init demo_engine) @ [demo_request 7]\<rparr>)"
    using reach.start reach.step by metis
  then show ?thesis by (simp add: sys_init_def)
qed

section \<open>Safety\<close>

lemma distinct_sub_mset:
  assumes "mset xs \<subseteq># mset ys" "distinct ys"
  shows "distinct xs"
proof -
  obtain zs where "mset ys = mset (xs @ zs)"
    using assms(1) by (metis ex_mset mset_append subset_mset.le_iff_add)
  with assms(2) have "distinct (xs @ zs)" by (metis mset_eq_imp_distinct_iff)
  then show ?thesis by simp
qed

lemma reach_ok:
  assumes "engine_new cfg model init = Inr e0" "reach L (sys_init e0) s"
  shows "sys_inv s"
  by (rule reach_inv [OF assms(2) sys_init_inv [OF assms(1)]])


lemma demo_reach_working:
  "reach demo_llama (sys_init demo_engine)
     \<lparr>ph = Working [demo_request 7], eng = demo_engine, owed = 1, sd_owed = False,
      pushed = [demo_request 7], drained = [demo_request 7]\<rparr>"
proof -
  let ?p = "(sys_init demo_engine)\<lparr>eng := enqueue (demo_request 7) demo_engine, owed := 1,
        pushed := [demo_request 7]\<rparr>"
  have i: "idle (eng ?p)" "running (eng ?p)" "pending (eng ?p) \<noteq> []"
    by (simp_all add: idle_def enqueue_def demo_engine_def)
  have "ph ?p = Head" by (simp add: sys_init_def)
  from reach.step [OF demo_reach_push sys_step.head_idle [OF this i(2,1)]]
  have w: "reach demo_llama (sys_init demo_engine) (?p\<lparr>ph := Wait_test\<rparr>)" .
  have "ph (?p\<lparr>ph := Wait_test\<rparr>) = Wait_test" "running (eng (?p\<lparr>ph := Wait_test\<rparr>))"
    "pending (eng (?p\<lparr>ph := Wait_test\<rparr>)) \<noteq> []" using i by simp_all
  from reach.step [OF w sys_step.test_go [OF this]]
  have d: "reach demo_llama (sys_init demo_engine) (?p\<lparr>ph := Draining\<rparr>)" by simp
  have "ph (?p\<lparr>ph := Draining\<rparr>) = Draining"
    "drain_pending (eng (?p\<lparr>ph := Draining\<rparr>)) = ([demo_request 7], demo_engine)"
    by (simp_all add: drain_pending_eq enqueue_def demo_engine_def)
  from reach.step [OF d sys_step.drain [OF this]] show ?thesis by (simp add: sys_init_def)
qed


text \<open>
  C3: no callback is invoked twice and none is invented. If the requests ever enqueued carry
  distinct callbacks, the callbacks the engine has invoked are distinct and among them.
\<close>

theorem callbacks_at_most_once:
  assumes "engine_new cfg model init = Inr e0" "reach L (sys_init e0) s"
    and "distinct (List.map_filter on_complete (pushed s))"
  shows "distinct (map fst (fired (eng s))) \<and>
    set (map fst (fired (eng s))) \<subseteq> set (List.map_filter on_complete (pushed s))"
proof -
  have sub: "mset (map fst (fired (eng s))) \<subseteq># mset (List.map_filter on_complete (pushed s))"
    unfolding labels_def [symmetric] sys_invD(3) [OF reach_ok [OF assms(1,2)]] accounted_def answered_def
    by (metis (no_types, lifting) add.assoc add.commute mset_subset_eq_add_right)
  have "distinct (map fst (fired (eng s)))" by (rule distinct_sub_mset [OF sub assms(3)])
  with set_mset_mono [OF sub] show ?thesis by simp
qed

theorem callbacks_at_most_once_witness:
  "distinct (List.map_filter on_complete [demo_request 7]) \<and>
   distinct (map fst (fired demo_engine))"
  using callbacks_at_most_once [OF demo_engine_new demo_reach_working]
  by (simp add: demo_request_def map_filter_simps)

text \<open>
  C4: every enqueued callback is still in the queue, in the hands of the engine thread, held
  by a slot, or was invoked; nothing is lost in any interleaving.
\<close>

theorem callbacks_conserved:
  assumes "engine_new cfg model init = Inr e0" "reach L (sys_init e0) s"
  shows "labels on_complete (pushed s) =
    labels on_complete (pending (eng s)) + labels on_complete (in_hand (ph s)) +
    labels slot_cb (slots (e_kv (eng s))) + mset (map fst (fired (eng s)))"
  unfolding sys_invD(3) [OF reach_ok [OF assms]] accounted_def answered_def held_def
  by (simp only: ac_simps)

theorem callbacks_conserved_witness:
  "labels on_complete [demo_request 7] =
    labels on_complete (pending demo_engine) + labels on_complete [demo_request 7] +
    labels slot_cb (slots (e_kv demo_engine)) + mset (map fst (fired demo_engine))"
  using callbacks_conserved [OF demo_engine_new demo_reach_working] by simp

text \<open>
  C6: requests are taken from the queue in the order they were enqueued, whatever their
  priority and deadline: what was taken is a prefix of what was enqueued.
\<close>

theorem served_in_arrival_order:
  assumes "engine_new cfg model init = Inr e0" "reach L (sys_init e0) s"
  shows "pushed s = drained s @ pending (eng s)"
  by (rule sys_invD(2) [OF reach_ok [OF assms]])

theorem served_in_arrival_order_witness:
  "[demo_request 7] = [demo_request 7] @ pending demo_engine"
  using served_in_arrival_order [OF demo_engine_new demo_reach_working] by simp

section \<open>Liveness\<close>

text \<open>
  C5: as many passes of the loop body as there are tokens left to generate (one more at most
  for each request) empty the engine: every request accepted so far has been answered, every
  slot is free and every sampler chain was freed, whatever the model does.
\<close>

theorem engine_drains:
  assumes "engine_new cfg model init = Inr e0" "reach L (sys_init e0) s" "ph s = Head"
    and "0 < cfg_max_slots cfg" "load (eng s) \<le> int n"
  shows "\<exists>e'. loop_n L tk n (eng s) = Some e' \<and> pending e' = [] \<and> n_samplers e' = 0 \<and>
    (\<forall>sid < n_slots e'. \<not> is_occupied e' sid) \<and>
    mset (map fst (fired e')) = labels on_complete (pushed s)"
proof -
  have inv: "sys_inv s" by (rule reach_ok [OF assms(1,2)])
  then have ok: "eng_ok (eng s)" by (simp add: sys_inv_def)
  have n0: "0 < n_slots (eng s)"
    using reach_n_slots [OF assms(2) sys_init_inv [OF assms(1)]] engine_new_ok(7) [OF assms(1)] assms(4) by (simp add: sys_init_def)
  obtain e' where e': "loop_n L tk n (eng s) = Some e'" "eng_ok e'"
    "accounted e' = accounted (eng s)" "load e' \<le> max 0 (load (eng s) - int n)"
    using loop_n_ok [OF ok n0, of L tk n] by blast
  have "load e' \<le> 0" using e'(4) assms(5) by linarith
  note z = load_zero [OF e'(2) this]
  have "accounted (eng s) = labels on_complete (pushed s)"
    using sys_invD(3) [OF inv] assms(3) by simp
  then have "answered e' = labels on_complete (pushed s)" using z(3) e'(3) by simp
  moreover have "n_samplers e' = 0" using no_samplers [OF e'(2)] z(2) by blast
  ultimately show ?thesis using e'(1) z(1,2) by (auto simp: answered_def)
qed

theorem engine_drains_witness:
  "\<exists>e'. loop_n demo_llama (\<lambda>_. \<lparr>t_admit = (\<lambda>_. 0), t_now = 0, t_end = 0\<rparr>) 8
      (enqueue (demo_request 7) demo_engine) = Some e' \<and> mset (map fst (fired e')) = {#7#}"
proof -
  let ?tk = "\<lambda>_::nat. \<lparr>t_admit = (\<lambda>_. 0), t_now = 0, t_end = 0\<rparr>"
  define e where "e = enqueue (demo_request 7) demo_engine"
  have c: "e_cfg e = demo_cfg" "pending e = [demo_request 7]" "cell e = cell demo_engine" "n_slots e = 2"
    by (simp_all add: e_def enqueue_def demo_engine_def n_slots_def cell_def fun_eq_iff)
  have q: "quota demo_cfg (demo_request 7) = 8"
    by (simp add: quota_def token_limit_def demo_cfg_def demo_request_def empty_request_def)
  have "slot_load demo_cfg (cell demo_engine j) = 0" if "j < 2" for j
    using that by (cases j) (auto simp: slot_load_def demo_engine_def empty_slot_def nth_Cons')
  then have "slots_load e = 0" unfolding slots_load_def c by (intro sum.neutral) simp
  then have "load (enqueue (demo_request 7) demo_engine) = 8"
    unfolding e_def [symmetric] load_def c by (simp add: q)
  then show ?thesis
    using engine_drains [OF demo_engine_new demo_reach_push, of 8 ?tk]
    by (auto simp: sys_init_def demo_cfg_def demo_request_def map_filter_simps)
qed

end
