(* ===== verification/Engine_Shutdown.thy ===== *)
theory Engine_Shutdown
  imports Engine_Props
begin

text \<open>
  The wait of the engine thread: what enqueueing guarantees, what shutting down does not.
\<close>

section \<open>Enqueueing wakes the engine\<close>

text \<open>
  C7: a request is never left behind by a sleeping engine. When the engine thread is blocked
  on its condition variable while a request is queued, the notification of that request is
  still to come, and it takes the engine back to the test of its predicate.
\<close>

theorem enqueue_wakes_engine:
  assumes "engine_new cfg model init = Inr e0" "reach L (sys_init e0) s"
    and "ph s = Asleep" "pending (eng s) \<noteq> []"
  shows "0 < owed s \<and> (\<exists>s'. sys_step L s s' \<and> ph s' = Wait_test \<and> eng s' = eng s)"
proof -
  have o: "0 < owed s" by (rule sys_invD(5) [OF reach_ok [OF assms(1,2)] assms(3,4)])
  have "ph (wake (s\<lparr>owed := owed s - 1\<rparr>)) = Wait_test" "eng (wake (s\<lparr>owed := owed s - 1\<rparr>)) = eng s"
    using assms(3) by simp_all
  with o sys_step.push_notify [OF o, of L] show ?thesis by metis
qed

text \<open>Blocking with an empty queue, then one request, its notification still owed.\<close>

lemma demo_reach_asleep:
  "reach demo_llama (sys_init demo_engine) ((sys_init demo_engine)\<lparr>ph := Asleep\<rparr>)"
proof -
  let ?s = "sys_init demo_engine"
  have i: "ph ?s = Head" "running (eng ?s)" "idle (eng ?s)" "pending (eng ?s) = []"
    by (simp_all add: sys_init_def idle_def demo_engine_def)
  have w: "reach demo_llama ?s (?s\<lparr>ph := Wait_test\<rparr>)"
    by (rule reach.step [OF reach.start sys_step.head_idle [OF i(1-3)]])
  have "ph (?s\<lparr>ph := Wait_test\<rparr>) = Wait_test" "running (eng (?s\<lparr>ph := Wait_test\<rparr>))"
    "pending (eng (?s\<lparr>ph := Wait_test\<rparr>)) = []" using i by simp_all
  from reach.step [OF w sys_step.test_fail [OF this]]
  have p: "reach demo_llama ?s (?s\<lparr>ph := Wait_park\<rparr>)" by simp
  have "ph (?s\<lparr>ph := Wait_park\<rparr>) = Wait_park" by simp
  from reach.step [OF p sys_step.park [OF this]] show ?thesis by simp
qed

theorem enqueue_wakes_engine_witness:
  "\<exists>s'. sys_step demo_llama
     ((sys_init demo_engine)\<lparr>ph := Asleep, eng := enqueue (demo_request 7) demo_engine, owed := 1,
        pushed := [demo_request 7]\<rparr>) s' \<and> ph s' = Wait_test"
proof -
  let ?a = "(sys_init demo_engine)\<lparr>ph := Asleep\<rparr>"
  have "\<not> locked (ph ?a)" by (simp add: locked_def)
  from reach.step [OF demo_reach_asleep sys_step.push [OF this, where r = "demo_request 7"]]
  have r: "reach demo_llama (sys_init demo_engine)
     ((sys_init demo_engine)\<lparr>ph := Asleep, eng := enqueue (demo_request 7) demo_engine, owed := 1,
        pushed := [demo_request 7]\<rparr>)" by (simp add: sys_init_def)
  show ?thesis
    using enqueue_wakes_engine [OF demo_engine_new r] by (auto simp: enqueue_def)
qed

section \<open>Shutting down may not\<close>

text \<open>
  C7: the shutdown can be lost. \<open>running_\<close> is cleared without the mutex, so the clearing and
  the notification can both fall between the engine's test of its predicate and its blocking.
  The engine is then asleep with \<open>running_\<close> false and no notification to come: short of a
  spurious wakeup, a new request or a second shutdown, no step of the system is possible, and
  the \<open>join\<close> in \<open>shutdown\<close> does not return.
\<close>

theorem shutdown_can_be_lost:
  assumes "engine_new cfg model init = Inr e0"
  shows "\<exists>s. reach L (sys_init e0) s \<and> ph s = Asleep \<and> \<not> running (eng s) \<and>
    (\<forall>s'. sys_step L s s' \<longrightarrow>
       s' = s\<lparr>ph := Wait_test\<rparr> \<or> (\<exists>r. pushed s' = pushed s @ [r]) \<or> sd_owed s')"
proof -
  let ?s = "sys_init e0"
  let ?t = "?s\<lparr>ph := Asleep, eng := shutdown e0\<rparr>"
  have i: "ph ?s = Head" "running (eng ?s)" "idle (eng ?s)" "pending (eng ?s) = []"
    using engine_new_ok(4,5) [OF assms] engine_new_idle [OF assms] by (simp_all add: sys_init_def)
  have w: "reach L ?s (?s\<lparr>ph := Wait_test\<rparr>)"
    by (rule reach.step [OF reach.start sys_step.head_idle [OF i(1-3)]])
  have "ph (?s\<lparr>ph := Wait_test\<rparr>) = Wait_test" "running (eng (?s\<lparr>ph := Wait_test\<rparr>))"
    "pending (eng (?s\<lparr>ph := Wait_test\<rparr>)) = []" using i by simp_all
  from reach.step [OF w sys_step.test_fail [OF this]]
  have p: "reach L ?s (?s\<lparr>ph := Wait_park\<rparr>)" by simp
  from reach.step [OF p sys_step.sd_flag]
  have f: "reach L ?s (?s\<lparr>ph := Wait_park, eng := shutdown e0, sd_owed := True\<rparr>)"
    by (simp add: sys_init_def)
  from reach.step [OF f sys_step.sd_notify]
  have n: "reach L ?s (?s\<lparr>ph := Wait_park, eng := shutdown e0\<rparr>)"
    by (simp add: sys_init_def wake_def)
  from reach.step [OF n sys_step.park] have r: "reach L ?s ?t" by (simp add: sys_init_def)
  have "s' = ?t\<lparr>ph := Wait_test\<rparr> \<or> (\<exists>r. pushed s' = pushed ?t @ [r]) \<or> sd_owed s'"
    if "sys_step L ?t s'" for s'
    using that by (cases rule: sys_step.cases) (auto simp: sys_init_def)
  with r show ?thesis by (intro exI [of _ ?t]) (auto simp: shutdown_def)
qed

theorem shutdown_can_be_lost_witness:
  "\<exists>s. reach demo_llama (sys_init demo_engine) s \<and> ph s = Asleep \<and> \<not> running (eng s)"
  using shutdown_can_be_lost [OF demo_engine_new, of demo_llama] by blast

text \<open>
  Once the engine thread has left its loop nothing is answered any more: whatever else
  happens, the callbacks invoked, the slots and their requests stay as they are. A request
  that was queued or seated then keeps its caller waiting for ever.
\<close>

theorem stopped_engine_answers_nothing:
  assumes "reach L s s'" "ph s = Stopped"
  shows "ph s' = Stopped \<and> fired (eng s') = fired (eng s) \<and> e_kv (eng s') = e_kv (eng s) \<and>
    (\<exists>rs. pending (eng s') = pending (eng s) @ rs)"
  using assms
proof (induction rule: reach.induct)
  case start
  then show ?case by simp
next
  case (step a b)
  then have a: "ph a = Stopped" "fired (eng a) = fired (eng s)" "e_kv (eng a) = e_kv (eng s)"
    "\<exists>rs. pending (eng a) = pending (eng s) @ rs" by blast+
  from step.hyps(2) have "ph b = Stopped \<and> fired (eng b) = fired (eng a) \<and> e_kv (eng b) = e_kv (eng a) \<and>
      (\<exists>rs. pending (eng b) = pending (eng a) @ rs)"
    using a(1) by (cases rule: sys_step.cases) (auto simp: enqueue_def shutdown_def)
  with a show ?case by fastforce
qed

text \<open>
  A stop with a request in the queue: the shutdown is served at the head of the loop, before
  the request is looked at.
\<close>

lemma demo_reach_stopped:
  "reach demo_llama
     ((sys_init demo_engine)\<lparr>ph := Stopped, eng := enqueue (demo_request 7) demo_engine\<rparr>)
     ((sys_init demo_engine)\<lparr>ph := Stopped, sd_owed := True,
        eng := shutdown (enqueue (demo_request 7) demo_engine)\<rparr>)"
  using reach.step [OF reach.start sys_step.sd_flag [where L = demo_llama and
      s = "(sys_init demo_engine)\<lparr>ph := Stopped, eng := enqueue (demo_request 7) demo_engine\<rparr>"]]
  by (simp add: sys_init_def)

theorem stopped_engine_answers_nothing_witness:
  "fired (shutdown (enqueue (demo_request 7) demo_engine)) = fired (enqueue (demo_request 7) demo_engine)"
  using stopped_engine_answers_nothing [OF demo_reach_stopped] by simp

text \<open>
  A clean-looking shutdown abandons accepted requests. From a fresh engine there is a run
  in which a request is enqueued and its notification delivered, the shutdown completes, and
  the engine has stopped with the request still queued and its callback never invoked.
\<close>

theorem shutdown_abandons_requests:
  assumes "engine_new cfg model init = Inr e0"
  shows "\<exists>s. reach L (sys_init e0) s \<and> ph s = Stopped \<and> owed s = 0 \<and> \<not> sd_owed s \<and>
    pending (eng s) = [r] \<and> fired (eng s) = []"
proof -
  let ?s = "sys_init e0"
  have i: "ph ?s = Head" "pending e0 = []" "fired e0 = []"
    using engine_new_ok(5,6) [OF assms] by (simp_all add: sys_init_def)
  have "\<not> locked (ph ?s)" by (simp add: i locked_def)
  from reach.step [OF reach.start sys_step.push [OF this, where r = r]]
  have a: "reach L ?s (?s\<lparr>eng := enqueue r e0, owed := 1, pushed := [r]\<rparr>)"
    by (simp add: sys_init_def)
  from reach.step [OF a sys_step.push_notify]
  have b: "reach L ?s (?s\<lparr>eng := enqueue r e0, pushed := [r]\<rparr>)"
    by (simp add: sys_init_def wake_def)
  from reach.step [OF b sys_step.sd_flag]
  have c: "reach L ?s (?s\<lparr>eng := shutdown (enqueue r e0), pushed := [r], sd_owed := True\<rparr>)"
    by (simp add: sys_init_def)
  from reach.step [OF c sys_step.sd_notify]
  have d: "reach L ?s (?s\<lparr>eng := shutdown (enqueue r e0), pushed := [r]\<rparr>)"
    by (simp add: sys_init_def wake_def)
  from reach.step [OF d sys_step.head_stop]
  have "reach L ?s (?s\<lparr>ph := Stopped, eng := shutdown (enqueue r e0), pushed := [r]\<rparr>)"
    by (simp add: sys_init_def shutdown_def)
  with i show ?thesis
    by (intro exI [of _ "?s\<lparr>ph := Stopped, eng := shutdown (enqueue r e0), pushed := [r]\<rparr>"])
      (simp add: sys_init_def shutdown_def enqueue_def)
qed

theorem shutdown_abandons_requests_witness:
  "\<exists>s. reach demo_llama (sys_init demo_engine) s \<and> ph s = Stopped \<and>
     pending (eng s) = [demo_request 7] \<and> fired (eng s) = []"
  using shutdown_abandons_requests [OF demo_engine_new, of demo_llama "demo_request 7"] by blast

end
