(* ===== verification/Engine_Steps.thy ===== *)
theory Engine_Steps
  imports Engine_Props
begin

text \<open>
  The functional behaviour of the engine's operations: admission, the deadline check, a
  failed decode, a sampled token, the batch, and the gauges.
\<close>

section \<open>An engine with a request in its first slot, for the witnesses\<close>

definition demo_seated :: "(int, int) engine" where
  "demo_seated = demo_engine
     \<lparr>e_kv := \<lparr>max_slots = 2, slots = [taken (demo_request 7), empty_slot], free_count = 1\<rparr>,
      samplers := [Some 2, None], results := [[], []], prompt_tokens := [[104, 105], []],
      in_prefill := [True, False], n_samplers := 1\<rparr>"

lemma demo_seated_simps:
  "e_cfg demo_seated = demo_cfg" "n_slots demo_seated = 2" "e_ctx demo_seated = 0"
  "fired demo_seated = []" "e_log demo_seated = []" "results demo_seated = [[], []]"
  "samplers demo_seated = [Some 2, None]" "tokens_generated demo_seated = [0, 0]"
  "prompt_tokens demo_seated = [[104, 105], []]" "in_prefill demo_seated = [True, False]"
  "is_occupied demo_seated 0" "\<not> is_occupied demo_seated 1" "req_at demo_seated 0 = demo_request 7"
  by (simp_all add: demo_seated_def demo_engine_def n_slots_def is_occupied_def req_at_def taken_def
      empty_slot_def)

lemma demo_seated_ok: "eng_ok demo_seated"
proof -
  have k: "kv_inv (e_kv demo_seated)"
    by (simp add: demo_seated_def kv_inv_def n_free_def taken_def empty_slot_def)
  have sh: "shaped demo_seated" using k by (simp add: shaped_def demo_seated_simps) (simp add: demo_seated_def)
  have "cell_ok demo_cfg (cell demo_seated j)" if "j < 2" for j
  proof (cases "j = 0")
    case True
    with demo_seated_simps show ?thesis
      by (simp add: cell_ok_def is_occupied_def req_at_def quota_def)
  next
    case False
    with that have "j = 1" by simp
    with demo_seated_simps show ?thesis by (simp add: cell_ok_def is_occupied_def)
  qed
  with sh show ?thesis by (simp add: eng_ok_def demo_seated_simps)
qed

lemma demo_active: "active_slots demo_seated = [0]"
proof -
  have "[0..<2] = [0, Suc 0]" by (simp add: numeral_2_eq_2)
  then show ?thesis using demo_seated_simps(11,12) by (simp add: active_slots_def slot_ids_upto demo_seated_simps)
qed

section \<open>The deadline check\<close>

definition due :: "int \<Rightarrow> ('c, 's) engine \<Rightarrow> nat \<Rightarrow> bool" where
  "due now e sid \<longleftrightarrow> is_occupied e sid \<and> expired now (req_at e sid)"

lemma due_cell: "cell e' sid = cell e sid \<Longrightarrow> due now e' sid = due now e sid"
  by (simp add: due_def is_occupied_cell req_at_cell del: cell_sel)

lemma req_at_cong: "cell e' sid = cell e sid \<Longrightarrow> req_at e' sid = req_at e sid"
  by (simp add: req_at_cell del: cell_sel)

lemma expire_slot_spec:
  assumes "eng_ok e" "sid < n_slots e"
  shows "eng_ok (expire_slot L now sid e)" "n_slots (expire_slot L now sid e) = n_slots e"
    "cell (expire_slot L now sid e) j = (if j = sid \<and> due now e sid then blank else cell e j)"
    "fired (expire_slot L now sid e) =
       fired e @ (if due now e sid then reply (req_at e sid) err_deadline else [])"
    "e_log (expire_slot L now sid e) =
       e_log e @ (if due now e sid then [Inc Requests_deadline_exceeded, Inc Requests_total] else [])"
  using retiring_expire [unfolded retiring_def, rule_format, OF assms, of L now] eng_okD(1) [OF assms(1)] assms(2)
  by (auto simp: expire_slot_def due_def eng_simps unchanged_def)

lemma expire_fold:
  assumes "eng_ok e" "\<forall>sid \<in> set sids. sid < n_slots e" "distinct sids"
  shows "(\<forall>j. cell (fold (expire_slot L now) sids e) j =
      (if j \<in> set sids \<and> due now e j then blank else cell e j)) \<and>
    fired (fold (expire_slot L now) sids e) = fired e @
      concat (map (\<lambda>sid. reply (req_at e sid) err_deadline) (filter (due now e) sids)) \<and>
    e_log (fold (expire_slot L now) sids e) = e_log e @
      concat (map (\<lambda>sid. [Inc Requests_deadline_exceeded, Inc Requests_total]) (filter (due now e) sids))"
  using assms
proof (induction sids arbitrary: e)
  case Nil
  then show ?case by simp
next
  case (Cons sid sids)
  let ?e = "expire_slot L now sid e"
  have sid: "sid < n_slots e" using Cons.prems(2) by simp
  note s = expire_slot_spec [OF Cons.prems(1) sid, where L = L and now = now]
  have same: "cell ?e j = cell e j" if "j \<in> set sids" for j
    using that Cons.prems(3) s(3) [of j] by auto
  have d: "filter (due now ?e) sids = filter (due now e) sids"
    using due_cell [OF same] by (intro filter_cong) auto
  have r: "map (\<lambda>sid. reply (req_at ?e sid) err_deadline) (filter (due now e) sids) =
      map (\<lambda>sid. reply (req_at e sid) err_deadline) (filter (due now e) sids)"
    using req_at_cong [OF same] by (intro map_cong) auto
  have "\<forall>sid \<in> set sids. sid < n_slots ?e" "distinct sids"
    using Cons.prems(2,3) s(2) by auto
  from Cons.IH [OF s(1) this] s(3-5) same due_cell [OF same] Cons.prems(3) d r show ?case
    by auto
qed

text \<open>
  C10: the deadline check retires exactly the occupied slots whose deadline has passed, in
  slot order; each of their requests is answered with the deadline error and counted once as
  expired and once as a request, and every other slot is left as it is.
\<close>

theorem retire_expired_exact:
  assumes "eng_ok e"
  shows "(\<forall>j < n_slots e. cell (retire_expired L now e) j = (if due now e j then blank else cell e j)) \<and>
    fired (retire_expired L now e) = fired e @
      concat (map (\<lambda>sid. reply (req_at e sid) err_deadline) (filter (due now e) [0..<n_slots e])) \<and>
    counter_value Requests_deadline_exceeded (e_log (retire_expired L now e)) =
      counter_value Requests_deadline_exceeded (e_log e) + length (filter (due now e) [0..<n_slots e]) \<and>
    counter_value Requests_total (e_log (retire_expired L now e)) =
      counter_value Requests_total (e_log e) + length (filter (due now e) [0..<n_slots e])"
proof -
  have count: "counter_value c (concat (map (\<lambda>sid. [Inc Requests_deadline_exceeded, Inc Requests_total]) xs)) =
      length xs" if "c = Requests_deadline_exceeded \<or> c = Requests_total" for c and xs :: "nat list"
    using that by (induction xs) auto
  show ?thesis
    using expire_fold [OF assms, of "[0..<n_slots e]" L now]
    by (simp add: retire_expired_def slot_ids_upto count)
qed

theorem retire_expired_exact_witness:
  "fired (retire_expired demo_llama 5000000001 demo_seated) = [(7, err_deadline)] \<and>
   fired (retire_expired demo_llama 5000000000 demo_seated) = []"
proof -
  have d: "due t demo_seated 0 \<longleftrightarrow> 5000000000 < t" "\<not> due t demo_seated (Suc 0)" for t
    using demo_seated_simps(11-13)
    by (simp_all add: due_def expired_def expiry_def demo_request_def empty_request_def)
  have "[0..<2] = [0, Suc 0]" by (simp add: numeral_2_eq_2)
  then show ?thesis
    using retire_expired_exact [OF demo_seated_ok, of demo_llama 5000000001]
      retire_expired_exact [OF demo_seated_ok, of demo_llama 5000000000]
    by (simp add: demo_seated_simps d reply_def) (simp add: demo_request_def)
qed

section \<open>A failed decode\<close>

lemma fail_slot_spec:
  assumes "shaped e" "sid < n_slots e" "is_occupied e sid"
  shows "shaped (fail_slot L sid e)" "n_slots (fail_slot L sid e) = n_slots e"
    "cell (fail_slot L sid e) j = (if j = sid then blank else cell e j)"
    "fired (fail_slot L sid e) = fired e @ reply (req_at e sid) err_decode"
proof -
  let ?e1 = "emit (Inc Requests_total) (fire (req_at e sid) err_decode e)"
  have f: "fail_slot L sid e = retire_slot L sid ?e1" using assms(3) by (simp add: fail_slot_def)
  note r = answer_and_retire_shaped [OF assms, of ?e1 L]
  show "shaped (fail_slot L sid e)" "cell (fail_slot L sid e) j = (if j = sid then blank else cell e j)"
    unfolding f by (rule r; simp add: eng_simps fun_eq_iff)+
  show "n_slots (fail_slot L sid e) = n_slots e"
    "fired (fail_slot L sid e) = fired e @ reply (req_at e sid) err_decode"
    unfolding f by (simp_all add: eng_simps)
qed

lemma fail_fold:
  assumes "shaped e" "\<forall>sid \<in> set sids. sid < n_slots e \<and> is_occupied e sid" "distinct sids"
  shows "(\<forall>j. cell (fold (fail_slot L) sids e) j = (if j \<in> set sids then blank else cell e j)) \<and>
    fired (fold (fail_slot L) sids e) =
      fired e @ concat (map (\<lambda>sid. reply (req_at e sid) err_decode) sids)"
  using assms
proof (induction sids arbitrary: e)
  case Nil
  then show ?case by simp
next
  case (Cons sid sids)
  let ?e = "fail_slot L sid e"
  have sid: "sid < n_slots e" "is_occupied e sid" using Cons.prems(2) by auto
  note s = fail_slot_spec [OF Cons.prems(1) sid, where L = L]
  have same: "cell ?e j = cell e j" if "j \<in> set sids" for j
    using that Cons.prems(3) s(3) [of j] by auto
  have occ: "\<forall>sid \<in> set sids. sid < n_slots ?e \<and> is_occupied ?e sid"
    using Cons.prems(2) s(2) same by (simp add: is_occupied_cell del: cell_sel)
  have r: "map (\<lambda>sid. reply (req_at ?e sid) err_decode) sids =
      map (\<lambda>sid. reply (req_at e sid) err_decode) sids"
    using req_at_cong [OF same] by (intro map_cong) auto
  from Cons.IH [OF s(1) occ] Cons.prems(3) s(3,4) r show ?case by simp
qed

text \<open>
  C11: when the decode call fails, every sequence of the batch, and not only the one at fault,
  is answered with the decode error, in slot order, and its slot is blank afterwards.
\<close>

theorem decode_failure_retires_batch:
  assumes "eng_ok e" "lm_decode L (e_ctx e) (fst st) = (rc, c)" "rc \<noteq> 0"
  shows "\<exists>e'. after_decode L tk (active_slots e) e st = Some e' \<and>
    (\<forall>sid < n_slots e. is_occupied e sid \<longrightarrow> cell e' sid = blank) \<and>
    fired e' = fired e @ concat (map (\<lambda>sid. reply (req_at e sid) err_decode) (active_slots e))"
proof -
  let ?e = "e\<lparr>e_ctx := c\<rparr>"
  have sh: "shaped ?e" using eng_okD(1) [OF assms(1)] by (simp add: eng_simps)
  have "\<forall>sid \<in> set (active_slots e). sid < n_slots ?e \<and> is_occupied ?e sid"
    by (simp add: active_slots_set eng_simps)
  note f = fail_fold [OF sh this active_slots_set(2), of L]
  have "req_at ?e = req_at e" by (simp add: req_at_def fun_eq_iff)
  with f assms(2,3) show ?thesis
    by (auto simp: after_decode_def eng_simps active_slots_set)
qed

theorem decode_failure_retires_batch_witness:
  "\<exists>e'. after_decode (demo_llama\<lparr>lm_decode := \<lambda>c b. (1, c)\<rparr>)
       \<lparr>t_admit = (\<lambda>_. 0), t_now = 0, t_end = 0\<rparr> [0] demo_seated ([], []) = Some e' \<and>
     fired e' = [(7, err_decode)]"
  using decode_failure_retires_batch [OF demo_seated_ok,
      of "demo_llama\<lparr>lm_decode := \<lambda>c b. (1, c)\<rparr>" "([], [])" 1 0
      "\<lparr>t_admit = (\<lambda>_. 0), t_now = 0, t_end = 0\<rparr>"]
  by (auto simp: demo_active demo_seated_simps reply_def) (simp add: demo_request_def)

section \<open>A sampled token\<close>

definition sampled_text :: "('c, 's) llama \<Rightarrow> ('c, 's) engine \<Rightarrow> nat \<Rightarrow> int \<Rightarrow> string" where
  "sampled_text L e sid tok = results e ! sid @ (if lm_is_eog L tok then [] else token_text L tok)"

definition sampled_count :: "('c, 's) llama \<Rightarrow> ('c, 's) engine \<Rightarrow> nat \<Rightarrow> int \<Rightarrow> int" where
  "sampled_count L e sid tok = tokens_generated e ! sid + (if lm_is_eog L tok then 0 else 1)"

text \<open>
  What sampling one sequence does. The text so far grows by the piece of the sampled token
  unless that token ends the sequence. The request is answered with the text, and its slot
  blanked, exactly when the token ends the sequence or the number of tokens reaches the
  request's limit; otherwise the slot goes on with one more token. No other slot is touched.
\<close>

theorem sample_slot_outcome:
  assumes "shaped e" "sid < n_slots e" "is_occupied e sid" "samplers e ! sid = Some smp"
    "lm_sample L smp (e_ctx e) (lp ! sid) = (tok, smp')"
  shows "\<exists>e'. sample_slot L t lp sid e = Some e' \<and> (\<forall>j. j \<noteq> sid \<longrightarrow> cell e' j = cell e j) \<and>
    (if lm_is_eog L tok \<or> token_limit (e_cfg e) (req_at e sid) \<le> sampled_count L e sid tok
     then cell e' sid = blank \<and> fired e' = fired e @ reply (req_at e sid) (sampled_text L e sid tok)
     else is_occupied e' sid \<and> req_at e' sid = req_at e sid \<and> fired e' = fired e \<and>
       results e' ! sid = sampled_text L e sid tok \<and> samplers e' ! sid = Some smp' \<and>
       tokens_generated e' ! sid = sampled_count L e sid tok \<and>
       last_token (slots (e_kv e') ! sid) = tok)"
proof -
  obtain eos e2 where e2: "stepped L lp sid smp e = (eos, e2)" by fastforce
  note st = stepped_spec [OF assms(1,2,4,5) e2]
  have u: "e_cfg e2 = e_cfg e" "n_slots e2 = n_slots e" using st(3) by (auto simp: unchanged_def)
  have c2: "is_occupied e2 sid" "req_at e2 sid = req_at e sid" "samplers e2 ! sid = Some smp'"
    "results e2 ! sid = sampled_text L e sid tok" "tokens_generated e2 ! sid = sampled_count L e sid tok"
    using assms(3) st(1) arg_cong [OF st(8) [of sid], of c_slot] arg_cong [OF st(8) [of sid], of c_result]
      arg_cong [OF st(8) [of sid], of c_gen] arg_cong [OF st(8) [of sid], of c_sampler]
    by (auto simp: is_occupied_def req_at_def sampled_text_def sampled_count_def split: if_splits)
  have last: "last_token (slots (e_kv e2) ! sid) = tok" if "\<not> eos"
    using that arg_cong [OF st(8) [of sid], of c_slot] by simp
  let ?fin = "lm_is_eog L tok \<or> token_limit (e_cfg e) (req_at e sid) \<le> sampled_count L e sid tok"
  have res: "sample_slot L t lp sid e = Some (if ?fin then finish_slot L t sid e2 else e2)"
    using sample_slot_stepped [OF assms(3,4) e2] st(1) u c2 by simp
  show ?thesis
  proof (cases ?fin)
    case True
    note fi = finish_slot_spec [OF st(2) _ c2(1), unfolded u(2), OF assms(2), of L t]
    show ?thesis
      using res True fi(4,6) st(6,8) c2(2,4) by simp
  next
    case False
    with res st(1,6,8) c2 last show ?thesis by auto
  qed
qed

theorem sample_slot_outcome_witness:
  "\<exists>e'. sample_slot demo_llama 0 [1, - 1] 0 demo_seated = Some e' \<and> fired e' = [(7, [])]"
proof -
  have l: "lm_sample demo_llama 2 0 1 = (2, 3)" "lm_is_eog demo_llama 2" by (simp_all add: demo_llama_def)
  have "on_complete (demo_request 7) = Some 7" by (simp add: demo_request_def)
  then show ?thesis
    using sample_slot_outcome [OF eng_okD(1) [OF demo_seated_ok], of 0 2 demo_llama "[1, - 1]" 2 3 0] l
    by (auto simp: demo_seated_simps sampled_text_def reply_def)
qed

section \<open>The batch\<close>

text \<open>
  C9: the batch holds, for every occupied slot in slot order, its whole prompt (on the first
  pass) or its last token, tagged with the slot's own sequence id; it fits the allocation
  exactly; and the logits index each slot will sample from is that of an entry of its own
  sequence for which logits were requested.
\<close>

theorem batch_is_exact:
  assumes "eng_ok e"
  shows "\<exists>e' lp. build_batch (count_tokens e (active_slots e)) (active_slots e)
      (e, ([], replicate (nat (max_slots (e_kv e))) (- 1))) =
        Some (e', (concat (map (slot_entries e) (active_slots e)), lp)) \<and>
    int (length (concat (map (slot_entries e) (active_slots e)))) = count_tokens e (active_slots e) \<and>
    (\<forall>sid \<in> set (active_slots e). own_logits (concat (map (slot_entries e) (active_slots e))) lp sid)"
proof -
  have len: "int (length (concat (map (slot_entries e) xs))) = count_tokens e xs" for xs
    by (induction xs) (simp_all add: count_tokens_def length_slot_entries [symmetric])
  show ?thesis using build_active [OF assms refl] len by blast
qed

theorem batch_is_exact_witness:
  "\<exists>e' lp. build_batch 2 [0] (demo_seated, ([], replicate 2 (- 1))) = Some (e',
     ([\<lparr>be_token = 104, be_pos = 0, be_seq = 0, be_logits = False\<rparr>,
       \<lparr>be_token = 105, be_pos = 1, be_seq = 0, be_logits = True\<rparr>], lp))"
proof -
  have c: "count_tokens demo_seated [0] = 2"
    by (simp add: count_tokens_def slot_tokens_def demo_seated_simps)
  have "slot_entries demo_seated 0 =
      [\<lparr>be_token = 104, be_pos = 0, be_seq = 0, be_logits = False\<rparr>,
       \<lparr>be_token = 105, be_pos = 1, be_seq = 0, be_logits = True\<rparr>]"
    by (simp add: slot_entries_def cell_entries_def prompt_entries_def demo_seated_simps numeral_2_eq_2)
  moreover have "nat (max_slots (e_kv demo_seated)) = 2" by (simp add: demo_seated_def)
  ultimately show ?thesis
    using batch_is_exact [OF demo_seated_ok] by (auto simp: demo_active c)
qed

section \<open>Admission\<close>

text \<open>
  C14: admitting a request while a slot is free always succeeds (the error branch of
  \<open>admit_pending\<close> is unreachable). It takes the lowest free slot; the request stays there
  when the tokenizer returns at least one token, otherwise it is answered with the
  tokenization error at once and the slot is free again. The other slots are untouched.
\<close>

theorem admit_takes_lowest_free:
  assumes "eng_ok e" "0 < n_free (e_kv e)"
  shows "\<exists>k < n_slots e. \<not> is_occupied e k \<and> (\<forall>j < k. is_occupied e j) \<and>
    (\<forall>j. j \<noteq> k \<longrightarrow> cell (admit_one L now r e) j = cell e j) \<and>
    (if 0 < fst (prompt_of L r e k)
     then is_occupied (admit_one L now r e) k \<and> req_at (admit_one L now r e) k = r
     else \<not> is_occupied (admit_one L now r e) k \<and>
       held (admit_one L now r e) + answered (admit_one L now r e) = held e + answered e + lab r)"
proof -
  obtain k where "k < n_slots e" "\<not> is_occupied e k" "\<forall>j < k. is_occupied e j"
    "held (admit_one L now r e) + answered (admit_one L now r e) = held e + answered e + lab r"
    "\<forall>j. j \<noteq> k \<longrightarrow> cell (admit_one L now r e) j = cell e j"
    "is_occupied (admit_one L now r e) k \<longleftrightarrow> 0 < fst (prompt_of L r e k)"
    "0 < fst (prompt_of L r e k) \<longrightarrow> req_at (admit_one L now r e) k = r"
    by (rule admit_one_spec [OF assms, of L now r])
  then show ?thesis by (intro exI [of _ k]) simp
qed

theorem admit_takes_lowest_free_witness:
  "\<exists>k < n_slots demo_seated. \<not> is_occupied demo_seated k \<and>
     is_occupied (admit_one demo_llama 0 (demo_request 8) demo_seated) k"
proof -
  have "0 < n_free (e_kv demo_seated)" by (simp add: demo_seated_def n_free_def empty_slot_def taken_def)
  moreover have "0 < fst (prompt_of demo_llama (demo_request 8) demo_seated k)" for k
    by (simp add: prompt_of_def tokenize_prompt_def demo_llama_def Let_def format_prompt_def
        demo_request_def im_start_def)
  ultimately show ?thesis
    using admit_takes_lowest_free [OF demo_seated_ok, of demo_llama 0 "demo_request 8"] by auto
qed

section \<open>The gauges\<close>

text \<open>Only \<open>decode_active\<close> and \<open>after_decode\<close> touch a gauge; everything below them is quiet.\<close>

definition no_gauge :: "metric_event \<Rightarrow> bool" where
  "no_gauge ev \<longleftrightarrow> (\<forall>g x. ev \<noteq> Gauge_inc g x \<and> ev \<noteq> Gauge_dec g x \<and> ev \<noteq> Gauge_set g x)"

definition quiet :: "('c, 's) engine \<Rightarrow> ('c, 's) engine \<Rightarrow> bool" where
  "quiet e e' \<longleftrightarrow> (\<exists>evs. e_log e' = e_log e @ evs \<and> (\<forall>ev \<in> set evs. no_gauge ev)) \<and>
     max_slots (e_kv e') = max_slots (e_kv e)"

lemma no_gauge_simps [simp]: "no_gauge (Inc c)" "no_gauge (Observe h x)"
  by (simp_all add: no_gauge_def)

lemma quiet_refl [simp]: "quiet e e"
  by (simp add: quiet_def)

lemma quiet_trans: "quiet a b \<Longrightarrow> quiet b c \<Longrightarrow> quiet a c"
  unfolding quiet_def by (metis UnE append_assoc set_append)

lemma quiet_same: "e_log e' = e_log e \<Longrightarrow> max_slots (e_kv e') = max_slots (e_kv e) \<Longrightarrow> quiet e e'"
  by (simp add: quiet_def)

lemma quiet_emit: "no_gauge ev \<Longrightarrow> quiet e e' \<Longrightarrow> quiet e (emit ev e')"
  by (auto simp: quiet_def eng_simps)

lemma quiet_fire: "quiet e e' \<Longrightarrow> quiet e (fire r s e')"
  by (auto simp: quiet_def eng_simps)

lemma quiet_retire: "quiet e e' \<Longrightarrow> quiet e (retire_slot L sid e')"
  by (auto simp: quiet_def eng_simps clear_slot_def)

lemma quiet_gauge:
  assumes "quiet e e'"
  shows "gauge_value g (e_log e') = gauge_value g (e_log e)"
proof -
  have "fold (gauge_effect g) evs v = v" if "\<forall>ev \<in> set evs. no_gauge ev" for evs v
    using that
  proof (induction evs arbitrary: v)
    case (Cons ev evs)
    then show ?case by (cases ev) (auto simp: no_gauge_def)
  qed simp
  with assms show ?thesis by (auto simp: quiet_def gauge_value_def)
qed

lemma quiet_fold:
  "(\<And>x e. quiet e (f x e)) \<Longrightarrow> quiet e (fold f xs e)"
  by (induction xs arbitrary: e) (auto intro: quiet_trans)

lemma quiet_expire: "quiet e (expire_slot L now sid e)"
  by (simp add: expire_slot_def quiet_retire quiet_emit quiet_fire)

lemma quiet_fail: "quiet e (fail_slot L sid e)"
  by (simp add: fail_slot_def quiet_retire quiet_emit quiet_fire)

lemma quiet_append: "quiet e e' \<Longrightarrow> quiet e (append_token L tok sid e')"
  by (auto simp: quiet_def eng_simps append_token_def Let_def split: prod.splits)

lemma quiet_finish: "quiet e e' \<Longrightarrow> quiet e (finish_slot L t sid e')"
  unfolding finish_slot_def Let_def by (intro quiet_retire quiet_fire quiet_emit) simp_all

lemma quiet_sample:
  assumes "sample_slot L t lp sid e = Some e'"
  shows "quiet e e'"
proof (cases "is_occupied e sid")
  case True
  with assms obtain smp where "samplers e ! sid = Some smp"
    by (auto simp: sample_slot_def split: option.splits)
  moreover obtain tok smp' where t: "lm_sample L smp (e_ctx e) (lp ! sid) = (tok, smp')" by fastforce
  moreover have "quiet e (e\<lparr>samplers := (samplers e)[sid := Some smp']\<rparr>)" by (rule quiet_same) simp_all
  ultimately show ?thesis
    using assms True
    by (auto simp: sample_slot_def Let_def intro: quiet_append quiet_finish split: if_splits)
next
  case False
  with assms show ?thesis by (simp add: sample_slot_def)
qed

lemma quiet_sample_all: "sample_all L t lp sids e = Some e' \<Longrightarrow> quiet e e'"
proof (induction sids arbitrary: e)
  case (Cons sid sids)
  then obtain e1 where "sample_slot L t lp sid e = Some e1" "sample_all L t lp sids e1 = Some e'"
    by (auto split: Option.bind_splits)
  with Cons.IH [of e1] quiet_sample show ?case by (metis quiet_trans)
qed simp

lemma gauges_after_decode:
  assumes "after_decode L tk active e st = Some e'"
  shows "gauge_value g (e_log e') = (if g = Requests_inflight
    then gauge_value g (e_log e) - of_int (int (length active)) else gauge_value g (e_log e))"
proof -
  obtain rc c where d: "lm_decode L (e_ctx e) (fst st) = (rc, c)" by fastforce
  have q0: "quiet e (e\<lparr>e_ctx := c\<rparr>)" by (rule quiet_same) simp_all
  show ?thesis
  proof (cases "rc = 0")
    case True
    with assms d obtain e2 where e2: "sample_all L (t_end tk) (snd st) active (e\<lparr>e_ctx := c\<rparr>) = Some e2"
      "e' = emit (Observe Batch_size (of_int (int (length active))))
        (emit (Gauge_dec Requests_inflight (of_int (int (length active)))) e2)"
      by (auto simp: after_decode_def Let_def split: Option.bind_splits)
    show ?thesis
      using quiet_gauge [OF quiet_trans [OF q0 quiet_sample_all [OF e2(1)]], of g]
      by (simp add: e2(2) eng_simps gauge_value_append)
  next
    case False
    have q: "quiet e (fold (fail_slot L) active (e\<lparr>e_ctx := c\<rparr>))"
      by (rule quiet_trans [OF q0]) (rule quiet_fold, rule quiet_fail)
    show ?thesis using assms d False quiet_gauge [OF q, of g] by (auto simp: after_decode_def eng_simps)
  qed
qed

lemma gauges_decode_active:
  assumes "eng_ok e" "active = active_slots e" "active \<noteq> []" "decode_active L tk active e = Some e'"
  shows "gauge_value Requests_inflight (e_log e') = gauge_value Requests_inflight (e_log e) \<and>
    gauge_value Kv_slot_utilization (e_log e') =
      rnd64 (of_int (int (length active)) / of_int (max_slots (e_kv e)))"
proof -
  let ?u = "emit (Gauge_set Kv_slot_utilization
      (rnd64 (of_int (int (length active)) / of_int (max_slots (e_kv e))))) e"
  have u: "eng_ok ?u" "active_slots ?u = active" "e_kv ?u = e_kv e"
    using assms(1) by (simp_all add: eng_simps active_slots_def slot_ids_def assms(2) cong: filter_cong)
  have "\<forall>sid \<in> set active. slot_entries ?u sid \<noteq> []"
    using entries_nonempty eng_okD(2) [OF u(1)] active_slots_set(1) [of ?u] u(2) by fastforce
  then have pos: "0 < count_tokens ?u active" by (rule count_tokens_pos [OF _ assms(3)])
  obtain e2 lp where b: "build_batch (count_tokens ?u active) active
      (?u, ([], replicate (nat (max_slots (e_kv ?u))) (- 1))) =
        Some (e2, (concat (map (slot_entries ?u) active), lp))" and s: "same_but_slots ?u e2"
    using build_active [OF u(1), of active] u(2) by auto
  let ?g = "emit (Gauge_inc Requests_inflight (of_int (int (length active)))) e2"
  have a: "after_decode L tk active ?g (concat (map (slot_entries ?u) active), lp) = Some e'"
    using assms(4) pos b by (simp add: decode_active_def Let_def)
  show ?thesis
    using gauges_after_decode [OF a, of Requests_inflight] gauges_after_decode [OF a, of Kv_slot_utilization]
      same_but_slotsD(11) [OF s]
    by (simp add: eng_simps gauge_value_append)
qed

text \<open>
  The gauges after one pass. The in-flight gauge is back where it was before the pass, on
  the failing branch too. The utilization gauge shows the occupancy of the last pass that had an
  active sequence: a pass without one leaves it as it is, so that it does not go back to zero
  when the engine runs empty.
\<close>

theorem gauges_after_pass:
  assumes "eng_ok e" "decode_step L tk e = Some e'" "active = active_slots (retire_expired L (t_now tk) e)"
  shows "gauge_value Requests_inflight (e_log e') = gauge_value Requests_inflight (e_log e) \<and>
    gauge_value Kv_slot_utilization (e_log e') =
      (if active = [] then gauge_value Kv_slot_utilization (e_log e)
       else rnd64 (of_int (int (length active)) / of_int (max_slots (e_kv e))))"
proof -
  let ?r = "retire_expired L (t_now tk) e"
  have q: "quiet e ?r" unfolding retire_expired_def by (rule quiet_fold, rule quiet_expire)
  have g: "gauge_value g (e_log ?r) = gauge_value g (e_log e)" for g by (rule quiet_gauge [OF q])
  have m: "max_slots (e_kv ?r) = max_slots (e_kv e)" using q by (simp add: quiet_def)
  show ?thesis
  proof (cases "active = []")
    case True
    with assms(2,3) g show ?thesis by (simp add: decode_step_def Let_def)
  next
    case False
    with assms(2,3) have "decode_active L tk active ?r = Some e'" by (simp add: decode_step_def Let_def)
    from gauges_decode_active [OF retire_expired_ok(1) [OF assms(1)] assms(3) False this] False g m
    show ?thesis by simp
  qed
qed

lemma demo_not_expired: "retire_expired demo_llama 0 demo_seated = demo_seated"
proof -
  have "expire_slot demo_llama 0 sid demo_seated = demo_seated" if "sid < 2" for sid
    using that demo_seated_simps(11-13)
    by (cases sid) (auto simp: expire_slot_def expired_def expiry_def demo_request_def empty_request_def less_Suc_eq)
  then show ?thesis
    by (simp add: retire_expired_def slot_ids_upto demo_seated_simps numeral_2_eq_2)
qed

theorem gauges_after_pass_witness:
  "\<exists>e'. decode_step demo_llama \<lparr>t_admit = (\<lambda>_. 0), t_now = 0, t_end = 0\<rparr> demo_seated = Some e' \<and>
     gauge_value Requests_inflight (e_log e') = 0 \<and>
     gauge_value Kv_slot_utilization (e_log e') = rnd64 (1 / 2)"
proof -
  let ?tk = "\<lparr>t_admit = (\<lambda>_. 0), t_now = 0, t_end = 0\<rparr>"
  obtain e' where e': "decode_step demo_llama ?tk demo_seated = Some e'"
    using decode_step_ok [OF demo_seated_ok, of demo_llama ?tk] by blast
  have "max_slots (e_kv demo_seated) = 2" by (simp add: demo_seated_def)
  with gauges_after_pass [OF demo_seated_ok e' refl] e' show ?thesis
    by (simp add: demo_not_expired demo_active demo_seated_simps)
qed

end
