(* ===== verification/Engine_Refine.thy ===== *)
theory Engine_Refine
  imports Engine_Steps
begin

text \<open>
  Batching is transparent. The abstract specification of the engine generates the answer of
  one request by itself, one token at a time. The engine interleaves many sequences in one
  batch, recycles slots, and feeds each sequence only its newest token; this theory shows that
  the answer it delivers is the one of the specification, whatever else was in the batch.
\<close>

section \<open>Generating one answer alone\<close>

text \<open>\<open>nxt\<close> is the greedy choice of the model after a token sequence.\<close>

fun completion :: "('c, 's) llama \<Rightarrow> (int list \<Rightarrow> int) \<Rightarrow> nat \<Rightarrow> int list \<Rightarrow> string" where
  "completion L nxt 0 h = []"
| "completion L nxt (Suc n) h =
     (let t = nxt h in
      if lm_is_eog L t then [] else token_text L t @ completion L nxt n (h @ [t]))"

definition prompt_for :: "('c, 's) llama \<Rightarrow> request \<Rightarrow> int list" where
  "prompt_for L r =
     (let txt = format_prompt (payload r); (n, w) = lm_tokenize L txt (length txt + 16) in
      if n < 0 then (let (n', w') = lm_tokenize L txt (nat (- n)) in take (nat n') w')
      else take (nat n) w)"

definition answer_for :: "('c, 's) llama \<Rightarrow> (int list \<Rightarrow> int) \<Rightarrow> engine_config \<Rightarrow> request \<Rightarrow> string" where
  "answer_for L nxt cfg r = completion L nxt (nat (quota cfg r)) (prompt_for L r)"

section \<open>What the engine relies on in the model library\<close>

text \<open>The tokens of sequence \<open>s\<close> in a batch, and whether they continue what is cached.\<close>

definition seq_tokens :: "batch_entry list \<Rightarrow> nat \<Rightarrow> int list" where
  "seq_tokens b s = map be_token (filter (\<lambda>be. be_seq be = int s) b)"

definition continues :: "('c \<Rightarrow> nat \<Rightarrow> int list) \<Rightarrow> 'c \<Rightarrow> batch_entry list \<Rightarrow> bool" where
  "continues hist c b \<longleftrightarrow>
     (\<forall>s. map be_pos (filter (\<lambda>be. be_seq be = int s) b) =
        map int [length (hist c s)..<length (hist c s) + length (seq_tokens b s)])"

text \<open>
  \<open>hist c s\<close> is the token sequence cached for sequence \<open>s\<close>, \<open>out c i\<close> the greedy choice from
  the logits of batch entry \<open>i\<close> of the last decode call. Decoding a batch that continues the
  cached sequences appends to each its own tokens, and the logits of an entry with no later
  entry of its sequence are those of that sequence; a failed call leaves the sequences outside
  the batch alone; \<open>llama_kv_self_seq_rm\<close> over the whole range empties one sequence and keeps
  the logits; a greedy sampler returns the choice; the tokenizer returns the number of tokens
  it stored, which fit the buffer.
\<close>

definition faithful_model ::
    "('c, 's) llama \<Rightarrow> ('c \<Rightarrow> nat \<Rightarrow> int list) \<Rightarrow> ('c \<Rightarrow> int \<Rightarrow> int) \<Rightarrow> (int list \<Rightarrow> int) \<Rightarrow> bool" where
  "faithful_model L hist out nxt \<longleftrightarrow>
     (\<forall>c b c'. lm_decode L c b = (0, c') \<longrightarrow> continues hist c b \<longrightarrow>
        (\<forall>s. hist c' s = hist c s @ seq_tokens b s) \<and>
        (\<forall>i < length b. be_logits (b ! i) \<longrightarrow>
           (\<forall>j < length b. i < j \<longrightarrow> be_seq (b ! j) \<noteq> be_seq (b ! i)) \<longrightarrow>
           out c' (int i) = nxt (hist c' (nat (be_seq (b ! i)))))) \<and>
     (\<forall>c b rc c' s. lm_decode L c b = (rc, c') \<longrightarrow> seq_tokens b s = [] \<longrightarrow> hist c' s = hist c s) \<and>
     (\<forall>c s. hist (lm_seq_rm L c (int s) 0 (- 1)) = (hist c)(s := []) \<and>
        out (lm_seq_rm L c (int s) 0 (- 1)) = out c) \<and>
     (\<forall>smp c i. fst (lm_sample L smp c i) = out c i) \<and>
     (\<forall>txt cap n w. lm_tokenize L txt cap = (n, w) \<longrightarrow> 0 < n \<longrightarrow> n \<le> int cap \<and> length w = nat n)"

lemma faithfulD:
  assumes "faithful_model L hist out nxt"
  shows "\<And>c b c' s. lm_decode L c b = (0, c') \<Longrightarrow> continues hist c b \<Longrightarrow>
      hist c' s = hist c s @ seq_tokens b s"
    "\<And>c b c' i. lm_decode L c b = (0, c') \<Longrightarrow> continues hist c b \<Longrightarrow> i < length b \<Longrightarrow> be_logits (b ! i) \<Longrightarrow>
      (\<And>j. j < length b \<Longrightarrow> i < j \<Longrightarrow> be_seq (b ! j) \<noteq> be_seq (b ! i)) \<Longrightarrow>
      out c' (int i) = nxt (hist c' (nat (be_seq (b ! i))))"
    "\<And>c b rc c' s. lm_decode L c b = (rc, c') \<Longrightarrow> seq_tokens b s = [] \<Longrightarrow> hist c' s = hist c s"
    "\<And>c s. hist (lm_seq_rm L c (int s) 0 (- 1)) = (hist c)(s := [])"
    "\<And>c s. out (lm_seq_rm L c (int s) 0 (- 1)) = out c"
    "\<And>smp c i. fst (lm_sample L smp c i) = out c i"
    "\<And>txt cap n w. lm_tokenize L txt cap = (n, w) \<Longrightarrow> 0 < n \<Longrightarrow> n \<le> int cap \<and> length w = nat n"
  using assms unfolding faithful_model_def by blast+

lemma resize_write_exact:
  "length w = nat n \<Longrightarrow> nat n \<le> length xs \<Longrightarrow> vec_resize d (nat n) (vec_write w xs) = take (nat n) w"
  by (simp add: vec_resize_write)

lemma prompt_of_faithful:
  assumes f: "faithful_model L hist out nxt" and pos: "0 < fst (prompt_of L r e k)"
  shows "vec_resize 0 (nat (fst (prompt_of L r e k))) (snd (prompt_of L r e k)) = prompt_for L r"
proof -
  let ?txt = "format_prompt (payload r)"
  obtain n w where t: "lm_tokenize L ?txt (length ?txt + 16) = (n, w)" by fastforce
  show ?thesis
  proof (cases "n < 0")
    case True
    obtain n' w' where t': "lm_tokenize L ?txt (nat (- n)) = (n', w')" by fastforce
    have "0 < n'" using pos t t' True by (simp add: prompt_of_def tokenize_prompt_def)
    then have w': "nat n' \<le> nat (- n)" "length w' = nat n'" using faithfulD(7) [OF f t'] True by auto
    then have "vec_resize 0 (nat n') (vec_write w' xs) = take (nat n') w'" if "length xs = nat (- n)" for xs
      using that by (intro resize_write_exact) simp_all
    with t t' True show ?thesis
      by (simp add: prompt_of_def tokenize_prompt_def prompt_for_def)
  next
    case False
    then have "0 < n" using pos t by (simp add: prompt_of_def tokenize_prompt_def)
    then have w: "nat n \<le> length (format_prompt (payload r)) + 16" "length w = nat n"
      using faithfulD(7) [OF f t] by auto
    then have "vec_resize 0 (nat n) (vec_write w xs) = take (nat n) w"
      if "length xs = length (format_prompt (payload r)) + 16" for xs
      using that by (intro resize_write_exact) simp_all
    with t False show ?thesis
      by (simp add: prompt_of_def tokenize_prompt_def prompt_for_def)
  qed
qed

section \<open>The simulation relation\<close>

text \<open>
  A slot between two passes: nothing is cached for a sequence still to be prefilled; otherwise
  the cache holds all but the last token, and what is left to generate completes the answer.
  \<open>D\<close> are the requests taken from the queue so far.
\<close>

definition cell_sim ::
    "('c, 's) llama \<Rightarrow> (int list \<Rightarrow> int) \<Rightarrow> engine_config \<Rightarrow> request set \<Rightarrow> int list \<Rightarrow> 's cell \<Rightarrow> bool" where
  "cell_sim L nxt cfg D h c \<longleftrightarrow>
     (if occupied (c_slot c) then
        slot_req (c_slot c) \<in> D \<and> c_prompt c = prompt_for L (slot_req (c_slot c)) \<and>
        (if c_prefill c then h = [] \<and> c_result c = []
         else int (length h) = kv_pos (c_slot c) \<and>
           c_result c @ completion L nxt (nat (quota cfg (slot_req (c_slot c)) - c_gen c))
             (h @ [last_token (c_slot c)]) = answer_for L nxt cfg (slot_req (c_slot c)))
      else h = [])"

text \<open>The same after the batch was decoded and before the slot was sampled.\<close>

definition fed_sim ::
    "('c, 's) llama \<Rightarrow> (int list \<Rightarrow> int) \<Rightarrow> engine_config \<Rightarrow> request set \<Rightarrow> int list \<Rightarrow> 's cell \<Rightarrow> bool" where
  "fed_sim L nxt cfg D h c \<longleftrightarrow>
     slot_req (c_slot c) \<in> D \<and> c_prompt c = prompt_for L (slot_req (c_slot c)) \<and>
     int (length h) = kv_pos (c_slot c) \<and>
     c_result c @ completion L nxt (nat (quota cfg (slot_req (c_slot c)) - c_gen c)) h =
       answer_for L nxt cfg (slot_req (c_slot c))"

text \<open>Every callback invoked so far received an error or the answer of its own request.\<close>

definition error_texts :: "string set" where
  "error_texts = {err_tokenization, err_deadline, err_decode}"

definition answers_ok ::
    "('c, 's) llama \<Rightarrow> (int list \<Rightarrow> int) \<Rightarrow> engine_config \<Rightarrow> request set \<Rightarrow> (promise_id \<times> string) list \<Rightarrow> bool" where
  "answers_ok L nxt cfg D fs \<longleftrightarrow>
     (\<forall>(p, t) \<in> set fs. t \<in> error_texts \<or>
        (\<exists>r \<in> D. on_complete r = Some p \<and> t = answer_for L nxt cfg r))"

text \<open>
  The relation of a whole engine. During a pass some slots \<open>S\<close> are in an intermediate state,
  described by \<open>P\<close>; between passes there are none.
\<close>

definition sim_with ::
    "('c, 's) llama \<Rightarrow> ('c \<Rightarrow> nat \<Rightarrow> int list) \<Rightarrow> (int list \<Rightarrow> int) \<Rightarrow> request set \<Rightarrow>
      (nat \<Rightarrow> 'c \<Rightarrow> 's cell \<Rightarrow> bool) \<Rightarrow> nat set \<Rightarrow> ('c, 's) engine \<Rightarrow> bool" where
  "sim_with L hist nxt D P S e \<longleftrightarrow>
     answers_ok L nxt (e_cfg e) D (fired e) \<and>
     (\<forall>j. if j < n_slots e
       then (if j \<in> S then P j (e_ctx e) (cell e j)
             else cell_sim L nxt (e_cfg e) D (hist (e_ctx e) j) (cell e j))
       else hist (e_ctx e) j = [])"

definition sim ::
    "('c, 's) llama \<Rightarrow> ('c \<Rightarrow> nat \<Rightarrow> int list) \<Rightarrow> (int list \<Rightarrow> int) \<Rightarrow> request set \<Rightarrow> ('c, 's) engine \<Rightarrow> bool" where
  "sim L hist nxt D e \<longleftrightarrow> sim_with L hist nxt D (\<lambda>_ _ _. True) {} e"

lemma answers_ok_append [simp]:
  "answers_ok L nxt cfg D (xs @ ys) \<longleftrightarrow> answers_ok L nxt cfg D xs \<and> answers_ok L nxt cfg D ys"
  by (auto simp: answers_ok_def)

lemma answers_ok_Nil [simp]: "answers_ok L nxt cfg D []"
  by (simp add: answers_ok_def)

lemma answers_ok_error [simp]: "t \<in> error_texts \<Longrightarrow> answers_ok L nxt cfg D (reply r t)"
  by (auto simp: answers_ok_def reply_def split: option.splits)

lemma answers_ok_answer:
  "r \<in> D \<Longrightarrow> answers_ok L nxt cfg D (reply r (answer_for L nxt cfg r))"
  by (auto simp: answers_ok_def reply_def split: option.splits)

lemma error_textsI [simp]:
  "err_tokenization \<in> error_texts" "err_deadline \<in> error_texts" "err_decode \<in> error_texts"
  by (simp_all add: error_texts_def)

lemma cell_sim_blank [simp]: "cell_sim L nxt cfg D h blank \<longleftrightarrow> h = []"
  by (simp add: cell_sim_def blank_def empty_slot_def)

lemma sim_empty: "sim_with L hist nxt D P {} e = sim L hist nxt D e"
  by (simp add: sim_def sim_with_def)

lemma cell_sim_mono: "cell_sim L nxt cfg D h c \<Longrightarrow> D \<subseteq> D' \<Longrightarrow> cell_sim L nxt cfg D' h c"
  by (auto simp: cell_sim_def)

lemma answers_ok_mono: "answers_ok L nxt cfg D fs \<Longrightarrow> D \<subseteq> D' \<Longrightarrow> answers_ok L nxt cfg D' fs"
  unfolding answers_ok_def by (fast dest: subsetD)

lemma sim_mono: "sim L hist nxt D e \<Longrightarrow> D \<subseteq> D' \<Longrightarrow> sim L hist nxt D' e"
  unfolding sim_def sim_with_def using cell_sim_mono answers_ok_mono by (metis empty_iff)

lemma e_ctx_retire_slot: "e_ctx (retire_slot L sid e) = lm_seq_rm L (e_ctx e) (int sid) 0 (- 1)"
  by (simp add: retire_slot_def Let_def eng_simps)

text \<open>Retiring one slot after its callback was served, between or during passes.\<close>

definition stable :: "('c, 's) llama \<Rightarrow> (nat \<Rightarrow> 'c \<Rightarrow> 's cell \<Rightarrow> bool) \<Rightarrow> bool" where
  "stable L P \<longleftrightarrow> (\<forall>j c sid cl. j \<noteq> sid \<longrightarrow> P j c cl \<longrightarrow> P j (lm_seq_rm L c (int sid) 0 (- 1)) cl)"

lemma stable_True [simp]: "stable L (\<lambda>_ _ _. True)"
  by (simp add: stable_def)

lemma sim_retire:
  assumes f: "faithful_model L hist out nxt" and P: "stable L P"
    and s: "sim_with L hist nxt D P S e" and sh: "shaped e1" "sid < n_slots e"
    and e1: "\<And>j. j \<noteq> sid \<Longrightarrow> cell e1 j = cell e j" "n_slots e1 = n_slots e" "e_cfg e1 = e_cfg e" "e_ctx e1 = e_ctx e"
      "answers_ok L nxt (e_cfg e) D (fired e1)"
  shows "sim_with L hist nxt D P (S - {sid}) (retire_slot L sid e1)"
proof -
  have n: "n_slots (retire_slot L sid e1) = n_slots e" using e1 by (simp add: eng_simps)
  have c: "cell (retire_slot L sid e1) j = (if j = sid then blank else cell e j)" for j
    using cell_retire_slot [OF sh(1), of sid L j] sh(2) e1 by simp
  have h: "hist (e_ctx (retire_slot L sid e1)) = (hist (e_ctx e))(sid := [])"
    using faithfulD(4) [OF f] e1(4) by (simp add: e_ctx_retire_slot)
  have x: "e_ctx (retire_slot L sid e1) = lm_seq_rm L (e_ctx e) (int sid) 0 (- 1)"
    using e1(4) by (simp add: e_ctx_retire_slot)
  show ?thesis
    unfolding sim_with_def
  proof (intro conjI allI)
    show "answers_ok L nxt (e_cfg (retire_slot L sid e1)) D (fired (retire_slot L sid e1))"
      using e1 by (simp add: eng_simps)
    fix j
    show "if j < n_slots (retire_slot L sid e1)
        then (if j \<in> S - {sid} then P j (e_ctx (retire_slot L sid e1)) (cell (retire_slot L sid e1) j)
              else cell_sim L nxt (e_cfg (retire_slot L sid e1)) D
                (hist (e_ctx (retire_slot L sid e1)) j) (cell (retire_slot L sid e1) j))
        else hist (e_ctx (retire_slot L sid e1)) j = []"
    proof (cases "j = sid")
      case True
      then show ?thesis by (simp add: n c h)
    next
      case False
      have "P j (e_ctx e) (cell e j) \<Longrightarrow> P j (lm_seq_rm L (e_ctx e) (int sid) 0 (- 1)) (cell e j)"
        using P False by (auto simp: stable_def)
      with s False e1(3) show ?thesis
        unfolding n c h by (auto simp: sim_with_def x eng_simps dest: spec [of _ j])
    qed
  qed
qed

lemma sim_expire:
  assumes "faithful_model L hist out nxt" "eng_ok e" "sim L hist nxt D e" "sid < n_slots e"
  shows "sim L hist nxt D (expire_slot L now sid e)"
proof (cases "is_occupied e sid \<and> expired now (req_at e sid)")
  case True
  let ?e1 = "emit (Inc Requests_total) (emit (Inc Requests_deadline_exceeded)
      (fire (req_at e sid) err_deadline e))"
  have "answers_ok L nxt (e_cfg e) D (fired e)" using assms(3) by (simp add: sim_def sim_with_def)
  then have "sim_with L hist nxt D (\<lambda>_ _ _. True) ({} - {sid}) (retire_slot L sid ?e1)"
    using assms eng_okD(1) [OF assms(2)]
    by (intro sim_retire [OF assms(1) stable_True, of D _ e]) (simp_all add: sim_def eng_simps fun_eq_iff)
  with True show ?thesis by (simp add: expire_slot_def sim_def)
next
  case False
  with assms(3) show ?thesis by (auto simp: expire_slot_def)
qed

lemma sim_retire_expired:
  assumes f: "faithful_model L hist out nxt" and "eng_ok e" "sim L hist nxt D e"
  shows "sim L hist nxt D (retire_expired L now e)"
proof -
  have "sim L hist nxt D (fold (expire_slot L now) sids e)" if "\<forall>sid \<in> set sids. sid < n_slots e" for sids
    using assms(2,3) that
  proof (induction sids arbitrary: e)
    case (Cons sid sids)
    then have sid: "sid < n_slots e" by simp
    note x = expire_slot_spec(1,2) [OF Cons.prems(1) sid, where L = L and now = now]
    show ?case using Cons.IH [OF x(1) sim_expire [OF f Cons.prems(1,2) sid]] Cons.prems(3) x(2) by simp
  qed simp
  then show ?thesis by (simp add: retire_expired_def slot_ids_upto)
qed

lemma sim_fail_all:
  assumes "faithful_model L hist out nxt" "shaped e" "sim_with L hist nxt D (\<lambda>_ _ _. True) (set sids) e"
    "\<forall>sid \<in> set sids. sid < n_slots e \<and> is_occupied e sid" "distinct sids"
  shows "sim L hist nxt D (fold (fail_slot L) sids e)"
  using assms(2-)
proof (induction sids arbitrary: e)
  case Nil
  then show ?case by (simp add: sim_def)
next
  case (Cons sid sids)
  let ?e1 = "emit (Inc Requests_total) (fire (req_at e sid) err_decode e)"
  let ?e = "fail_slot L sid e"
  have sid: "sid < n_slots e" "is_occupied e sid" using Cons.prems(3) by auto
  note x = fail_slot_spec [OF Cons.prems(1) sid, where L = L]
  have "answers_ok L nxt (e_cfg e) D (fired e)" using Cons.prems(2) by (simp add: sim_with_def)
  then have "sim_with L hist nxt D (\<lambda>_ _ _. True) (set (sid # sids) - {sid}) (retire_slot L sid ?e1)"
    using Cons.prems sid
    by (intro sim_retire [OF assms(1) stable_True Cons.prems(2)]) (simp_all add: eng_simps fun_eq_iff)
  moreover have "set (sid # sids) - {sid} = set sids" using Cons.prems(4) by auto
  ultimately have "sim_with L hist nxt D (\<lambda>_ _ _. True) (set sids) ?e"
    using sid by (simp add: fail_slot_def)
  moreover have "\<forall>sid \<in> set sids. sid < n_slots ?e \<and> is_occupied ?e sid"
    using Cons.prems(3,4) x(2,3) by (auto simp: is_occupied_cell simp del: cell_sel)
  ultimately show ?case using Cons.IH [OF x(1)] Cons.prems(4) by simp
qed

section \<open>Admission\<close>

lemma sim_admit_one:
  assumes f: "faithful_model L hist out nxt" and ok: "eng_ok e" and room: "0 < n_free (e_kv e)"
    and s: "sim L hist nxt D e" and r: "r \<in> D"
  shows "sim L hist nxt D (admit_one L now r e)"
proof -
  let ?a = "admit_one L now r e"
  obtain k where k: "k < n_slots e" "\<not> is_occupied e k" "unchanged e ?a"
    "\<forall>j. j \<noteq> k \<longrightarrow> cell ?a j = cell e j"
    "is_occupied ?a k \<longleftrightarrow> 0 < fst (prompt_of L r e k)"
    "0 < fst (prompt_of L r e k) \<longrightarrow> req_at ?a k = r"
    "0 < fst (prompt_of L r e k) \<longrightarrow> c_prefill (cell ?a k) \<and>
       c_prompt (cell ?a k) = vec_resize 0 (nat (fst (prompt_of L r e k))) (snd (prompt_of L r e k)) \<and>
       c_result (cell ?a k) = []"
    "fired ?a = fired e @ (if 0 < fst (prompt_of L r e k) then [] else reply r err_tokenization)"
    "e_ctx ?a = (if 0 < fst (prompt_of L r e k) then e_ctx e else lm_seq_rm L (e_ctx e) (int k) 0 (- 1))"
    by (rule admit_one_spec [OF ok room, of L now r])
  have u: "n_slots ?a = n_slots e" "e_cfg ?a = e_cfg e" using k(3) by (auto simp: unchanged_def)
  have hk: "hist (e_ctx e) k = []"
    using s k(1,2) by (auto simp: sim_def sim_with_def cell_sim_def is_occupied_def dest: spec [of _ k])
  have h: "hist (e_ctx ?a) = hist (e_ctx e)"
    using faithfulD(4) [OF f, of "e_ctx e" k] hk k(9) by (auto simp: fun_eq_iff)
  have ck: "cell_sim L nxt (e_cfg e) D [] (cell ?a k)"
    using k(5-7) r prompt_of_faithful [OF f, of r e k]
    unfolding is_occupied_cell req_at_cell by (auto simp: cell_sim_def simp del: cell_sel)
  have "if j < n_slots ?a then cell_sim L nxt (e_cfg ?a) D (hist (e_ctx ?a) j) (cell ?a j)
      else hist (e_ctx ?a) j = []" for j
    using s k(1,4) u hk ck unfolding sim_def sim_with_def h by (cases "j = k") auto
  moreover have "answers_ok L nxt (e_cfg ?a) D (fired ?a)"
    using s k(8) u by (simp add: sim_def sim_with_def)
  ultimately show ?thesis by (simp add: sim_def sim_with_def)
qed

lemma sim_admit_all:
  assumes "faithful_model L hist out nxt" "eng_ok e" "length rs \<le> n_free (e_kv e)"
    "sim L hist nxt D e" "set rs \<subseteq> D"
  shows "sim L hist nxt D (admit_all L tick i rs e)"
  using assms(2-)
proof (induction rs arbitrary: i e)
  case (Cons r rs)
  then have room: "0 < n_free (e_kv e)" by simp
  note a = admit_one_ok [OF Cons.prems(1) room, where L = L and now = "tick i" and r = r]
  have "length rs \<le> n_free (e_kv (admit_one L (tick i) r e))" using Cons.prems(2) a(4) by simp
  moreover have "sim L hist nxt D (admit_one L (tick i) r e)"
    using sim_admit_one [OF assms(1) Cons.prems(1) room Cons.prems(3)] Cons.prems(4) by simp
  ultimately show ?case using Cons.IH [OF a(1)] Cons.prems(4) by simp
qed simp

section \<open>Decoding\<close>

lemma filter_entries:
  "distinct xs \<Longrightarrow> filter (\<lambda>be. be_seq be = int s) (concat (map (slot_entries e) xs)) =
     (if s \<in> set xs then slot_entries e s else [])"
proof (induction xs)
  case (Cons x xs)
  have "filter (\<lambda>be. be_seq be = int s) (slot_entries e x) = (if x = s then slot_entries e x else [])"
    using slot_entries_seq [of e x] by (auto simp: filter_empty_conv)
  with Cons show ?case by auto
qed simp

lemma entries_logits_last:
  "distinct xs \<Longrightarrow> sorted_wrt (\<lambda>a b. be_logits a \<longrightarrow> be_seq b \<noteq> be_seq a) (concat (map (slot_entries e) xs))"
proof (induction xs)
  case (Cons x xs)
  have "sorted_wrt (\<lambda>a b. be_logits a \<longrightarrow> be_seq b \<noteq> be_seq a) (slot_entries e x)"
    by (auto simp: slot_entries_def cell_entries_def prompt_entries_def sorted_wrt_map sorted_wrt_iff_nth_less)
  moreover have "be_seq b \<noteq> be_seq a" if "a \<in> set (slot_entries e x)" "y \<in> set xs" "b \<in> set (slot_entries e y)" for a b y
    using that slot_entries_seq [of e x] slot_entries_seq [of e y] Cons.prems by auto
  ultimately show ?case using Cons by (auto simp: sorted_wrt_append)
qed simp

definition fed_state ::
    "('c, 's) llama \<Rightarrow> ('c \<Rightarrow> nat \<Rightarrow> int list) \<Rightarrow> ('c \<Rightarrow> int \<Rightarrow> int) \<Rightarrow> (int list \<Rightarrow> int) \<Rightarrow> request set \<Rightarrow>
      engine_config \<Rightarrow> int list \<Rightarrow> nat \<Rightarrow> 'c \<Rightarrow> 's cell \<Rightarrow> bool" where
  "fed_state L hist out nxt D cfg lp j c cl \<longleftrightarrow>
     fed_sim L nxt cfg D (hist c j) cl \<and> out c (lp ! j) = nxt (hist c j)"

lemma stable_fed:
  assumes "faithful_model L hist out nxt"
  shows "stable L (fed_state L hist out nxt D cfg lp)"
  using faithfulD(4,5) [OF assms] by (simp add: stable_def fed_state_def)

lemma cell_sim_continues:
  assumes "cell_ok cfg (cell e s)" "is_occupied e s" "cell_sim L nxt cfg D h (cell e s)"
  shows "map be_pos (slot_entries e s) = map int [length h..<length h + length (slot_entries e s)]"
    "fed_sim L nxt cfg D (h @ map be_token (slot_entries e s)) (fed (cell e s))"
proof -
  have toks: "map be_token (prompt_entries s ts) = ts" "length (prompt_entries s ts) = length ts" for ts
    by (simp_all add: prompt_entries_def comp_def map_nth)
  show "map be_pos (slot_entries e s) = map int [length h..<length h + length (slot_entries e s)]"
    using assms by (auto simp: cell_sim_def slot_entries_def cell_entries_def prompt_entries_def is_occupied_def)
  show "fed_sim L nxt cfg D (h @ map be_token (slot_entries e s)) (fed (cell e s))"
    using assms toks
    by (auto simp: cell_sim_def slot_entries_def cell_entries_def fed_sim_def fed_def cell_ok_def
        is_occupied_def answer_for_def split: if_splits)
qed

text \<open>
  The batch of a pass continues every cached sequence, and after it every active slot is fed
  and finds at its logits index the model's choice for its own sequence.
\<close>

lemma sim_decoded:
  assumes f: "faithful_model L hist out nxt" and ok: "eng_ok e" and s: "sim L hist nxt D e"
    and act: "active = active_slots e" and b: "b = concat (map (slot_entries e) active)"
    and d: "lm_decode L (e_ctx e) b = (0, c')" and own: "\<forall>sid \<in> set active. own_logits b lp sid"
    and e': "\<And>j. cell e' j = (if j \<in> set active then fed (cell e j) else cell e j)"
      "n_slots e' = n_slots e" "e_cfg e' = e_cfg e" "fired e' = fired e" "e_ctx e' = c'"
  shows "sim_with L hist nxt D (fed_state L hist out nxt D (e_cfg e) lp) (set active) e'"
proof -
  have occ: "j \<in> set active \<longleftrightarrow> j < n_slots e \<and> is_occupied e j" for j
    by (simp add: act active_slots_set)
  have dist: "distinct active" by (simp add: act active_slots_set)
  have cs: "cell_sim L nxt (e_cfg e) D (hist (e_ctx e) j) (cell e j)" if "j < n_slots e" for j
    using s that by (auto simp: sim_def sim_with_def)
  have fl: "filter (\<lambda>be. be_seq be = int j) b = (if j \<in> set active then slot_entries e j else [])" for j
    by (simp add: b filter_entries [OF dist])
  have toks: "seq_tokens b j = (if j \<in> set active then map be_token (slot_entries e j) else [])" for j
    by (simp add: seq_tokens_def fl)
  have cont: "continues hist (e_ctx e) b"
    unfolding continues_def
  proof
    fix j
    show "map be_pos (filter (\<lambda>be. be_seq be = int j) b) =
        map int [length (hist (e_ctx e) j)..<length (hist (e_ctx e) j) + length (seq_tokens b j)]"
      using cell_sim_continues(1) [OF eng_okD(2) [OF ok] _ cs, of j] occ [of j]
      by (simp add: toks fl)
  qed
  note h = faithfulD(1) [OF f d cont]
  have last: "sorted_wrt (\<lambda>a b. be_logits a \<longrightarrow> be_seq b \<noteq> be_seq a) b"
    unfolding b by (rule entries_logits_last [OF dist])
  have out: "out c' (lp ! j) = nxt (hist c' j)" if j: "j \<in> set active" for j
  proof -
    obtain i where i: "i < length b" "lp ! j = int i" "be_seq (b ! i) = int j" "be_logits (b ! i)"
      using own j by (auto simp: own_logits_def)
    have "be_seq (b ! k) \<noteq> be_seq (b ! i)" if "k < length b" "i < k" for k
      using sorted_wrt_nth_less [OF last that(2,1)] i(4) by blast
    from faithfulD(2) [OF f d cont i(1,4) this] i(2,3) show ?thesis by simp
  qed
  have "if j < n_slots e'
      then (if j \<in> set active then fed_state L hist out nxt D (e_cfg e) lp j (e_ctx e') (cell e' j)
            else cell_sim L nxt (e_cfg e') D (hist (e_ctx e') j) (cell e' j))
      else hist (e_ctx e') j = []" for j
  proof (cases "j \<in> set active")
    case True
    then have j: "j < n_slots e" "is_occupied e j" using occ by auto
    from cell_sim_continues(2) [OF eng_okD(2) [OF ok j(1)] j(2) cs [OF j(1)]] True out [OF True] j h [of j]
    show ?thesis by (simp add: e' fed_state_def toks)
  next
    case False
    with s h [of j] show ?thesis by (auto simp: sim_def sim_with_def e' toks dest: spec [of _ j])
  qed
  moreover have "answers_ok L nxt (e_cfg e') D (fired e')"
    using s by (simp add: e' sim_def sim_with_def)
  ultimately show ?thesis by (simp add: sim_with_def)
qed

section \<open>Sampling\<close>

lemma completion_step:
  assumes "gen < quota cfg r" "0 \<le> gen"
  shows "completion L nxt (nat (quota cfg r - gen)) h =
    (if lm_is_eog L (nxt h) then []
     else token_text L (nxt h) @ completion L nxt (nat (quota cfg r - (gen + 1))) (h @ [nxt h]))"
proof -
  have "nat (quota cfg r - gen) = Suc (nat (quota cfg r - (gen + 1)))" using assms by linarith
  then show ?thesis by (simp add: Let_def)
qed

lemma sim_sample_slot:
  assumes f: "faithful_model L hist out nxt" and mid: "mid_ok (insert sid S) e"
    and sid: "sid < n_slots e" "sid \<notin> S"
    and s: "sim_with L hist nxt D (fed_state L hist out nxt D (e_cfg e) lp) (insert sid S) e"
    and run: "sample_slot L t lp sid e = Some e'"
  shows "sim_with L hist nxt D (fed_state L hist out nxt D (e_cfg e) lp) S e'"
proof -
  let ?r = "req_at e sid" and ?g = "tokens_generated e ! sid" and ?h = "hist (e_ctx e) sid"
  have sh: "shaped e" and fo: "fed_ok (e_cfg e) (cell e sid)"
    using mid sid(1) by (auto simp: mid_ok_def)
  have fs: "fed_sim L nxt (e_cfg e) D ?h (cell e sid)" and nx: "out (e_ctx e) (lp ! sid) = nxt ?h"
    using s sid(1) by (auto simp: sim_with_def fed_state_def dest: spec [of _ sid])
  have g: "0 \<le> ?g" "?g < quota (e_cfg e) ?r" and occ: "is_occupied e sid"
    using fo by (simp_all add: fed_ok_def is_occupied_def req_at_def)
  obtain smp where smp: "samplers e ! sid = Some smp" using fo by (auto simp: fed_ok_def)
  obtain tok smp' where tok: "lm_sample L smp (e_ctx e) (lp ! sid) = (tok, smp')" by fastforce
  have tn: "tok = nxt ?h" using faithfulD(6) [OF f, of smp "e_ctx e" "lp ! sid"] tok nx by simp
  obtain eos e2 where e2: "stepped L lp sid smp e = (eos, e2)" by fastforce
  note st = stepped_spec [OF sh sid(1) smp tok e2]
  have u: "e_cfg e2 = e_cfg e" "n_slots e2 = n_slots e" using st(3) by (auto simp: unchanged_def)
  have c2: "req_at e2 sid = ?r" "results e2 ! sid = sampled_text L e sid tok"
    "tokens_generated e2 ! sid = sampled_count L e sid tok"
    using st(1) arg_cong [OF st(8) [of sid], of c_slot] arg_cong [OF st(8) [of sid], of c_result]
      arg_cong [OF st(8) [of sid], of c_gen]
    by (auto simp: req_at_def sampled_text_def sampled_count_def split: if_splits)
  have rD: "?r \<in> D" using fs by (simp add: fed_sim_def req_at_def)
  have ans: "answer_for L nxt (e_cfg e) ?r = sampled_text L e sid tok @
      (if eos then [] else completion L nxt (nat (quota (e_cfg e) ?r - (?g + 1))) (?h @ [tok]))"
    using fs completion_step [OF g(2,1), of L nxt ?h] st(1) tn
    by (auto simp: fed_sim_def req_at_def sampled_text_def split: if_splits)
  let ?fin = "eos \<or> token_limit (e_cfg e2) (req_at e2 sid) \<le> tokens_generated e2 ! sid"
  have res: "e' = (if ?fin then finish_slot L t sid e2 else e2)"
    using run sample_slot_stepped [OF occ smp e2, of t] by simp
  show ?thesis
  proof (cases ?fin)
    case True
    let ?e1 = "fire ?r (sampled_text L e sid tok) (emit (Inc Requests_total)
      (emit (Observe Latency_seconds (secs_of_ns rnd64 (t - enqueue_time ?r))) e2))"
    have "answer_for L nxt (e_cfg e) ?r = sampled_text L e sid tok"
    proof (cases eos)
      case False
      then have "token_limit (e_cfg e) ?r \<le> ?g + 1"
        using True u c2 st(1) by (simp add: sampled_count_def)
      then have "nat (quota (e_cfg e) ?r - (?g + 1)) = 0" using g by (simp add: quota_def)
      with ans False show ?thesis by simp
    qed (use ans in simp)
    then have ok1: "answers_ok L nxt (e_cfg e) D (fired ?e1)"
      using s st(6) answers_ok_answer [OF rD, of L nxt "e_cfg e"] by (simp add: eng_simps sim_with_def)
    have "e' = retire_slot L sid ?e1"
      using res True c2 by (simp add: finish_slot_def Let_def eng_simps)
    moreover have "sim_with L hist nxt D (fed_state L hist out nxt D (e_cfg e) lp) (insert sid S - {sid})
        (retire_slot L sid ?e1)"
      using sid st(2,7,8) u ok1
      by (intro sim_retire [OF f stable_fed [OF f] s]) (simp_all add: eng_simps)
    ultimately show ?thesis using sid(2) by simp
  next
    case False
    then have ne: "\<not> eos" by simp
    have cs: "cell e2 sid = (cell e sid)\<lparr>c_sampler := Some smp',
        c_slot := (slots (e_kv e) ! sid)\<lparr>last_token := tok\<rparr>, c_result := results e ! sid @ token_text L tok,
        c_gen := ?g + 1, c_prefill := False\<rparr>" using st(8) [of sid] ne by simp
    have "cell_sim L nxt (e_cfg e) D ?h (cell e2 sid)"
      unfolding cs using fs ans occ ne st(1)
      by (simp add: cell_sim_def fed_sim_def is_occupied_def req_at_def sampled_text_def)
    moreover have "e' = e2" using res False by simp
    ultimately show ?thesis
      using s st(6-8) u sid by (auto simp: sim_with_def split: if_splits)
  qed
qed

lemma sim_sample_all:
  assumes f: "faithful_model L hist out nxt" and "mid_ok (set sids) e"
    "\<forall>sid \<in> set sids. sid < n_slots e" "distinct sids"
    "sim_with L hist nxt D (fed_state L hist out nxt D (e_cfg e) lp) (set sids) e"
    "sample_all L t lp sids e = Some e'"
  shows "sim L hist nxt D e'"
  using assms(2-)
proof (induction sids arbitrary: e)
  case Nil
  then show ?case by (simp add: sim_empty)
next
  case (Cons sid sids)
  obtain e1 where e1: "sample_slot L t lp sid e = Some e1" "sample_all L t lp sids e1 = Some e'"
    using Cons.prems(5) by (auto split: Option.bind_splits)
  have sid: "sid < n_slots e" "sid \<notin> set sids" "mid_ok (insert sid (set sids)) e" using Cons.prems by auto
  obtain e1' where "sample_slot L t lp sid e = Some e1'" "mid_ok (set sids) e1'" "unchanged e e1'"
    using sample_slot_ok [OF sid(3,1,2), of L t lp] by blast
  then have m: "mid_ok (set sids) e1" "unchanged e e1" using e1(1) by auto
  have "sim_with L hist nxt D (fed_state L hist out nxt D (e_cfg e) lp) (set sids) e1"
    using Cons.prems(4) by (intro sim_sample_slot [OF f sid(3,1,2) _ e1(1)]) simp
  with m Cons.prems(2,3) e1(2) show ?case by (intro Cons.IH) (auto simp: unchanged_def)
qed

section \<open>A whole pass\<close>

lemma sim_emit: "sim_with L hist nxt D P S (emit ev e) = sim_with L hist nxt D P S e"
  by (simp add: sim_with_def eng_simps)

lemma sim_after_decode:
  assumes f: "faithful_model L hist out nxt" and ok: "eng_ok e" and s: "sim L hist nxt D e"
    and act: "active = active_slots e" and b: "b = concat (map (slot_entries e) active)"
    and own: "\<forall>sid \<in> set active. own_logits b lp sid" and mid: "mid_ok (set active) g"
    and g: "\<And>j. cell g j = (if j \<in> set active then fed (cell e j) else cell e j)"
      "n_slots g = n_slots e" "e_cfg g = e_cfg e" "fired g = fired e" "e_ctx g = e_ctx e"
    and run: "after_decode L tk active g (b, lp) = Some e'"
  shows "sim L hist nxt D e'"
proof -
  obtain rc c where d: "lm_decode L (e_ctx e) b = (rc, c)" by fastforce
  let ?g = "g\<lparr>e_ctx := c\<rparr>"
  have occ: "j \<in> set active \<longleftrightarrow> j < n_slots e \<and> is_occupied e j" "distinct active" for j
    by (simp_all add: act active_slots_set)
  have mid': "mid_ok (set active) ?g" "\<forall>sid \<in> set active. sid < n_slots ?g"
    using mid occ(1) g(2) by (simp_all add: eng_simps)
  have cg: "cell ?g j = (if j \<in> set active then fed (cell e j) else cell e j)" for j
    using g(1) [of j] by (simp add: eng_simps)
  have gs: "n_slots ?g = n_slots e" "e_cfg ?g = e_cfg e" "fired ?g = fired e" "e_ctx ?g = c"
    using g by (simp_all add: eng_simps)
  show ?thesis
  proof (cases "rc = 0")
    case True
    then obtain e2 where e2: "sample_all L (t_end tk) lp active ?g = Some e2"
      "e' = emit (Observe Batch_size (of_int (int (length active))))
        (emit (Gauge_dec Requests_inflight (of_int (int (length active)))) e2)"
      using run d g(5) by (auto simp: after_decode_def Let_def split: Option.bind_splits)
    have "sim_with L hist nxt D (fed_state L hist out nxt D (e_cfg e) lp) (set active) ?g"
      using d True by (intro sim_decoded [OF f ok s act b _ own cg gs]) simp
    then have "sim L hist nxt D e2"
      using sim_sample_all [OF f mid' occ(2) _ e2(1)] gs(2) by simp
    then show ?thesis by (simp add: e2(2) sim_def sim_emit)
  next
    case False
    have "seq_tokens b j = []" if "j \<notin> set active" for j
      using that by (simp add: seq_tokens_def b filter_entries [OF occ(2)])
    then have h: "hist c j = hist (e_ctx e) j" if "j \<notin> set active" for j
      using faithfulD(3) [OF f d] that by blast
    have "sim_with L hist nxt D (\<lambda>_ _ _. True) (set active) ?g"
      unfolding sim_with_def
    proof (intro conjI allI)
      show "answers_ok L nxt (e_cfg ?g) D (fired ?g)" using s gs by (simp add: sim_def sim_with_def)
      fix j
      show "if j < n_slots ?g
        then (if j \<in> set active then True else cell_sim L nxt (e_cfg ?g) D (hist (e_ctx ?g) j) (cell ?g j))
        else hist (e_ctx ?g) j = []"
        unfolding gs cg using s h [of j] occ(1) [of j]
        by (auto simp: sim_def sim_with_def dest: spec [of _ j])
    qed
    moreover have "\<forall>sid \<in> set active. sid < n_slots ?g \<and> is_occupied ?g sid"
    proof
      fix sid
      assume "sid \<in> set active"
      then show "sid < n_slots ?g \<and> is_occupied ?g sid"
        using mid' by (auto simp: mid_ok_def fed_ok_def is_occupied_def)
    qed
    ultimately have "sim L hist nxt D (fold (fail_slot L) active ?g)"
      using sim_fail_all [OF f _ _ _ occ(2)] mid'(1) by (auto simp: mid_ok_def)
    then show ?thesis
      using run d g(5) False by (auto simp: after_decode_def sim_def sim_emit)
  qed
qed

lemma sim_decode_active:
  assumes f: "faithful_model L hist out nxt" and ok: "eng_ok e" and s: "sim L hist nxt D e"
    and act: "active = active_slots e" and ne: "active \<noteq> []"
    and run: "decode_active L tk active e = Some e'"
  shows "sim L hist nxt D e'"
proof -
  let ?u = "emit (Gauge_set Kv_slot_utilization
      (rnd64 (of_int (int (length active)) / of_int (max_slots (e_kv e))))) e"
  have u: "eng_ok ?u" "active = active_slots ?u" "e_kv ?u = e_kv e"
    using ok by (simp_all add: eng_simps active_slots_def slot_ids_def act cong: filter_cong)
  have "\<forall>sid \<in> set active. slot_entries ?u sid \<noteq> []"
    using entries_nonempty eng_okD(2) [OF u(1)] active_slots_set(1) [of ?u] u(2) by fastforce
  then have pos: "0 < count_tokens ?u active" by (rule count_tokens_pos [OF _ ne])
  obtain e2 lp where b: "build_batch (count_tokens ?u active) active
      (?u, ([], replicate (nat (max_slots (e_kv ?u))) (- 1))) =
        Some (e2, (concat (map (slot_entries ?u) active), lp))"
    "mid_ok (set active) e2" "same_but_slots ?u e2"
    "\<forall>sid \<in> set active. own_logits (concat (map (slot_entries ?u) active)) lp sid"
    "\<forall>j. cell e2 j = (if j \<in> set active then fed (cell ?u j) else cell ?u j)"
    using build_active [OF u(1,2)] by blast
  let ?g = "emit (Gauge_inc Requests_inflight (of_int (int (length active)))) e2"
  have a: "after_decode L tk active ?g (concat (map (slot_entries ?u) active), lp) = Some e'"
    using run pos b(1) by (simp add: decode_active_def Let_def)
  have su: "sim L hist nxt D ?u" using s by (simp add: sim_def sim_emit)
  note same = same_but_slotsD [OF b(3)]
  show ?thesis
    by (rule sim_after_decode [OF f u(1) su u(2) refl b(4) _ _ _ _ _ _ a])
      (use b(2,5) same in \<open>simp_all add: eng_simps\<close>)
qed

lemma sim_decode_step:
  assumes f: "faithful_model L hist out nxt" and ok: "eng_ok e" and s: "sim L hist nxt D e"
    and run: "decode_step L tk e = Some e'"
  shows "sim L hist nxt D e'"
proof -
  let ?r = "retire_expired L (t_now tk) e"
  have r: "eng_ok ?r" "sim L hist nxt D ?r"
    using retire_expired_ok(1) [OF ok] sim_retire_expired [OF f ok s] by simp_all
  show ?thesis
    using run r sim_decode_active [OF f r refl]
    by (auto simp: decode_step_def Let_def split: if_splits)
qed

section \<open>Every reachable state\<close>

definition sys_sim ::
    "('c, 's) llama \<Rightarrow> ('c \<Rightarrow> nat \<Rightarrow> int list) \<Rightarrow> (int list \<Rightarrow> int) \<Rightarrow> ('c, 's) sys \<Rightarrow> bool" where
  "sys_sim L hist nxt s \<longleftrightarrow>
     sim L hist nxt (set (drained s)) (eng s) \<and> set (in_hand (ph s)) \<subseteq> set (drained s)"

lemma sim_cong:
  assumes "fired e' = fired e" "cell e' = cell e" "n_slots e' = n_slots e" "e_cfg e' = e_cfg e" "e_ctx e' = e_ctx e"
  shows "sim L hist nxt D e' = sim L hist nxt D e"
  by (simp add: sim_def sim_with_def assms)

lemma sys_sim_step:
  assumes f: "faithful_model L hist out nxt" and step: "sys_step L s s'" and inv: "sys_inv s"
    and s: "sys_sim L hist nxt s"
  shows "sys_sim L hist nxt s'"
  using step inv s
proof (induction rule: sys_step.induct)
  case (drain s rs e')
  have e': "e' = (eng s)\<lparr>pending := pending e'\<rparr>" using drain.hyps(2) by (auto simp: drain_pending_eq)
  have "sim L hist nxt D e' = sim L hist nxt D (eng s)" for D
    by (subst e', rule sim_cong) (simp_all add: set_pending_simps)
  with drain.prems(2) show ?case by (auto simp: sys_sim_def intro: sim_mono)
next
  case (work s rs tk e')
  have ok: "eng_ok (eng s)" "length rs \<le> n_free (e_kv (eng s))"
    using sys_invD(1,4) [OF work.prems(1)] work.hyps(1) by simp_all
  have "sim L hist nxt (set (drained s)) (admit_all L (t_admit tk) 0 rs (eng s))"
    using work.prems(2) work.hyps(1) by (intro sim_admit_all [OF f ok]) (simp_all add: sys_sim_def)
  moreover have "eng_ok (admit_all L (t_admit tk) 0 rs (eng s))" using admit_all_ok [OF ok] by blast
  ultimately have "sim L hist nxt (set (drained s)) e'" using sim_decode_step [OF f _ _ work.hyps(2)] by blast
  then show ?case by (simp add: sys_sim_def)
next
  case (push s r)
  have "sim L hist nxt D (enqueue r (eng s)) = sim L hist nxt D (eng s)" for D
    by (rule sim_cong) (simp_all add: enqueue_def set_pending_simps)
  with push.prems(2) show ?case by (simp add: sys_sim_def)
next
  case (sd_flag s)
  have "sim L hist nxt D (shutdown (eng s)) = sim L hist nxt D (eng s)" for D
    by (rule sim_cong) (simp_all add: shutdown_def n_slots_def cell_def fun_eq_iff)
  with sd_flag.prems(2) show ?case by (simp add: sys_sim_def)
qed (auto simp: sys_sim_def)

lemma sys_sim_reach:
  assumes f: "faithful_model L hist out nxt" and "reach L s0 s" "sys_inv s0" "sys_sim L hist nxt s0"
  shows "sys_sim L hist nxt s"
  using assms(2-)
proof (induction rule: reach.induct)
  case (step a b)
  with sys_sim_step [OF f step.hyps(2) reach_inv [OF step.hyps(1) step.prems(1)]] show ?case by simp
qed simp

lemma sys_sim_init:
  assumes "engine_new cfg model init = Inr e0" "\<forall>j. hist (e_ctx e0) j = []"
  shows "sys_sim L hist nxt (sys_init e0)"
proof -
  have "\<not> is_occupied e0 j" if "j < n_slots e0" for j
    using that load_zero(2) [OF engine_new_ok(1) [OF assms(1)]] engine_new_ok(8) [OF assms(1)] by simp
  then have "cell_sim L nxt (e_cfg e0) {} [] (cell e0 j)" if "j < n_slots e0" for j
    using that by (simp add: cell_sim_def is_occupied_def)
  with assms(2) engine_new_ok(6) [OF assms(1)] show ?thesis
    by (simp add: sys_sim_def sim_def sim_with_def sys_init_def)
qed

text \<open>One request served by one pass of a fresh engine.\<close>

lemma reach_one_pass:
  assumes "engine_new cfg model init = Inr e0" "0 < cfg_max_slots cfg"
    "loop_body L tk (enqueue r e0) = Some e'"
  shows "\<exists>s. reach L (sys_init e0) s \<and> eng s = e' \<and> drained s = [r] \<and> pushed s = [r] \<and> ph s = Head"
proof -
  let ?s = "sys_init e0" and ?e = "enqueue r e0"
  let ?p = "?s\<lparr>eng := ?e, owed := 1, pushed := [r]\<rparr>"
  have e0: "running e0" "pending e0 = []" "idle e0"
    using engine_new_ok(4,5) [OF assms(1)] engine_new_idle [OF assms(1)] by simp_all
  have free: "0 < nat (free_count (e_kv e0))"
    using assms(1,2) by (auto simp: engine_new_def kv_new_def Let_def split: option.splits if_splits)
  have "\<not> locked (ph ?s)" by (simp add: sys_init_def locked_def)
  from reach.step [OF reach.start sys_step.push [OF this, where r = r]]
  have a: "reach L ?s ?p" by (simp add: sys_init_def)
  have p: "ph ?p = Head" "running (eng ?p)" "idle (eng ?p)" "pending (eng ?p) = [r]"
    using e0 by (simp_all add: sys_init_def enqueue_def idle_def)
  from reach.step [OF a sys_step.head_idle [OF p(1-3)]]
  have b: "reach L ?s (?p\<lparr>ph := Wait_test\<rparr>)" .
  have "ph (?p\<lparr>ph := Wait_test\<rparr>) = Wait_test" "running (eng (?p\<lparr>ph := Wait_test\<rparr>))"
    "pending (eng (?p\<lparr>ph := Wait_test\<rparr>)) \<noteq> []" using p by simp_all
  from reach.step [OF b sys_step.test_go [OF this]] have c: "reach L ?s (?p\<lparr>ph := Draining\<rparr>)" by simp
  obtain rs q where d: "drain_pending ?e = (rs, q)" by fastforce
  then have rs: "rs = [r]"
    using free e0(2) by (auto simp: drain_pending_eq enqueue_def take_Cons' split: if_splits)
  have w: "decode_step L tk (admit_all L (t_admit tk) 0 rs q) = Some e'"
    using assms(3) d by (simp add: loop_body_def admit_pending_def)
  have "ph (?p\<lparr>ph := Draining\<rparr>) = Draining" "drain_pending (eng (?p\<lparr>ph := Draining\<rparr>)) = (rs, q)"
    using d by simp_all
  from reach.step [OF c sys_step.drain [OF this]]
  have d': "reach L ?s (?p\<lparr>ph := Working rs, eng := q, drained := [r]\<rparr>)"
    by (simp add: sys_init_def rs)
  have "ph (?p\<lparr>ph := Working rs, eng := q, drained := [r]\<rparr>) = Working rs"
    "decode_step L tk (admit_all L (t_admit tk) 0 rs (eng (?p\<lparr>ph := Working rs, eng := q, drained := [r]\<rparr>))) =
       Some e'" using w by simp_all
  from reach.step [OF d' sys_step.work [OF this]] show ?thesis
    by (intro exI conjI) (assumption, simp_all)
qed

text \<open>
  A model library that meets the assumptions: the context is the cached sequences and the
  choices of the last batch, and the model counts the tokens it has seen.
\<close>

definition count_next :: "int list \<Rightarrow> int" where
  "count_next h = int (length h)"

definition greedy_llama :: "((nat \<Rightarrow> int list) \<times> (int \<Rightarrow> int), unit) llama" where
  "greedy_llama =
     \<lparr>lm_tokenize = (\<lambda>txt n. if 1 \<le> n then (1, [0]) else (- 1, [])),
      lm_decode = (\<lambda>c b. (0, (\<lambda>s. fst c s @ seq_tokens b s,
         \<lambda>i. count_next (fst c (nat (be_seq (b ! nat i))) @ seq_tokens b (nat (be_seq (b ! nat i))))))),
      lm_sampler_new = (),
      lm_sample = (\<lambda>s c i. (snd c i, ())),
      lm_is_eog = (\<lambda>t. 3 \<le> t),
      lm_piece = (\<lambda>t n. (1, ''x'')),
      lm_seq_rm = (\<lambda>c s a b. ((fst c)(nat s := []), snd c))\<rparr>"

lemma greedy_llama_faithful: "faithful_model greedy_llama fst snd count_next"
  unfolding faithful_model_def by (auto simp: greedy_llama_def split: if_splits)

definition greedy_engine :: "((nat \<Rightarrow> int list) \<times> (int \<Rightarrow> int), unit) engine" where
  "greedy_engine =
     \<lparr>e_cfg = demo_cfg,
      e_kv = \<lparr>max_slots = 2, slots = [empty_slot, empty_slot], free_count = 2\<rparr>,
      e_ctx = (\<lambda>_. [], \<lambda>_. 0),
      samplers = [None, None], results = [[], []], prompt_tokens = [[], []],
      tokens_generated = [0, 0], in_prefill = [False, False],
      pending = [], running = True, fired = [], e_log = [], n_samplers = 0\<rparr>"

lemma greedy_engine_new:
  "engine_new demo_cfg (Some ()) (\<lambda>_ _ _ _ _. Some (\<lambda>_. [], \<lambda>_. 0)) = Inr greedy_engine"
  by (simp add: engine_new_def demo_cfg_def greedy_engine_def kv_new_def Let_def numeral_2_eq_2)

definition one_token_request :: request where
  "one_token_request = (demo_request 7)\<lparr>max_new_tokens := 1\<rparr>"

lemma one_token_quota: "quota cfg one_token_request = 1" "lab one_token_request = {#7#}"
  "on_complete one_token_request = Some 7"
  by (simp_all add: quota_def token_limit_def one_token_request_def demo_request_def lab_def)

lemma one_token_served:
  assumes "quota demo_cfg r = 1" "lab r = {#7#}"
  shows "\<exists>e'. loop_body greedy_llama tk (enqueue r greedy_engine) = Some e' \<and> map fst (fired e') = [7]"
proof -
  let ?e = "enqueue r greedy_engine"
  have q: "quota (e_cfg greedy_engine) r = 1" using assms(1) by (simp add: greedy_engine_def)
  note n = engine_new_ok [OF greedy_engine_new]
  have ok: "eng_ok ?e" using n(1) by (simp add: enqueue_simps)
  have c: "e_cfg ?e = e_cfg greedy_engine" "cell ?e = cell greedy_engine"
    by (simp_all add: enqueue_def cell_def fun_eq_iff)
  have sl: "slots_load ?e = slots_load greedy_engine"
    by (simp add: slots_load_def c enqueue_simps)
  have w: "weigh (quota (e_cfg greedy_engine)) (pending ?e) = 1"
    using n(5) by (simp add: enqueue_simps q)
  have "load ?e = 1" using n(5,8) sl w by (simp add: load_def c)
  moreover have "0 < n_slots ?e" using n(7) by (simp add: enqueue_simps demo_cfg_def)
  ultimately have pos: "0 < load ?e" "0 < n_slots ?e" "load ?e = 1" by simp_all
  obtain e' where e': "loop_body greedy_llama tk ?e = Some e'" "eng_ok e'"
    "accounted e' = accounted ?e" "0 < load ?e \<longrightarrow> 0 < n_slots ?e \<longrightarrow> load e' < load ?e"
    by (rule loop_body_obtain [OF ok, of greedy_llama tk])
  have l0: "load e' \<le> 0" using mp [OF mp [OF e'(4) pos(1)] pos(2)] pos(3) by linarith
  have "answered e' = {#7#}"
    using load_zero(3) [OF e'(2) l0] e'(3) n(2) by (simp add: enqueue_simps assms(2))
  then have "map fst (fired e') = [7]" unfolding answered_def by (simp only: mset_single_iff)
  with e'(1) show ?thesis by (intro exI [of _ e'] conjI)
qed

text \<open>
  C1: batching is transparent. Under the documented behaviour of the model library, every
  string ever handed to a callback is one of the three error texts or exactly the text that
  generating the answer of that callback's own request alone would give: no token of another
  sequence, no stale cache entry of a recycled slot and no misplaced logits ever reach it,
  whatever was batched together and however requests arrived.
\<close>

theorem batching_is_transparent:
  assumes "faithful_model L hist out nxt" "engine_new cfg model init = Inr e0"
    "\<forall>j. hist (e_ctx e0) j = []" "reach L (sys_init e0) s" "(p, t) \<in> set (fired (eng s))"
  shows "t \<in> error_texts \<or>
    (\<exists>r \<in> set (drained s). on_complete r = Some p \<and>
       t = completion L nxt (nat (quota (e_cfg (eng s)) r)) (prompt_for L r))"
  using sys_sim_reach [OF assms(1,4) sys_init_inv [OF assms(2)] sys_sim_init [where hist = hist, OF assms(2,3)]] assms(5)
  by (auto simp: sys_sim_def sim_def sim_with_def answers_ok_def answer_for_def)

theorem batching_is_transparent_witness:
  "\<exists>e' t. loop_body greedy_llama \<lparr>t_admit = (\<lambda>_. 0), t_now = 0, t_end = 0\<rparr>
       (enqueue one_token_request greedy_engine) = Some e' \<and>
     fired e' = [(7, t)] \<and> (t \<in> error_texts \<or> t = ''x'')"
proof -
  let ?tk = "\<lparr>t_admit = (\<lambda>_. 0), t_now = 0, t_end = 0\<rparr>"
  obtain e' where e': "loop_body greedy_llama ?tk (enqueue one_token_request greedy_engine) = Some e'"
    "map fst (fired e') = [7]" by (rule exE [OF one_token_served [OF one_token_quota(1,2), of ?tk]]) (elim conjE, rule that)
  then obtain t where t: "fired e' = [(7, t)]" by (cases "fired e'") auto
  have "0 < cfg_max_slots demo_cfg" by (simp add: demo_cfg_def)
  from reach_one_pass [OF greedy_engine_new this e'(1)] obtain s where
    s: "reach greedy_llama (sys_init greedy_engine) s" "eng s = e'" "drained s = [one_token_request]" by blast
  have h: "\<forall>j. fst (e_ctx greedy_engine) j = []" by (simp add: greedy_engine_def)
  have p: "prompt_for greedy_llama one_token_request = [0]"
    by (simp add: prompt_for_def greedy_llama_def Let_def)
  have "(7, t) \<in> set (fired (eng s))" using s(2) t by simp
  from batching_is_transparent [OF greedy_llama_faithful greedy_engine_new h s(1) this]
  have "t \<in> error_texts \<or> t = completion greedy_llama count_next 1 [0]"
    by (simp add: s(3) one_token_quota p)
  then have "t \<in> error_texts \<or> t = ''x''"
    by (simp add: Let_def greedy_llama_def count_next_def token_text_def)
  with e'(1) t show ?thesis by blast
qed

end
