(* ===== verification/Rate_Limiter.thy ===== *)
theory Rate_Limiter
  imports Fp64 Requests
begin

text \<open>
  The per-tenant token bucket (\<open>include/rate_limiter.h\<close>, \<open>src/rate_limiter.cpp\<close>): the
  in-memory limiter, the Lua script the Redis server runs for the shared one, the choice
  between the two and its fallback, and the parsing of the Redis address. Doubles are
  rationals with a rounding \<open>rnd\<close> after every operation; clocks are arguments.
\<close>

section \<open>State\<close>

record bucket =
  tokens :: rat
  last_refill :: int

text \<open>\<open>'r\<close> is the connection to Redis; \<open>None\<close> is the null pointer.\<close>

record 'r limiter =
  rate_rps :: rat
  burst :: int
  redis :: "'r option"
  buckets :: "string \<rightharpoonup> bucket"

section \<open>The in-memory limiter\<close>

definition refill :: "(rat \<Rightarrow> rat) \<Rightarrow> rat \<Rightarrow> int \<Rightarrow> int \<Rightarrow> bucket \<Rightarrow> bucket" where
  "refill rnd rate brst now b =
     (let elapsed = secs_of_ns rnd (now - last_refill b)
      in \<lparr>tokens = min (of_int brst) (rnd (tokens b + rnd (elapsed * rate))), last_refill = now\<rparr>)"

definition take_token :: "(rat \<Rightarrow> rat) \<Rightarrow> bucket \<Rightarrow> bool \<times> bucket" where
  "take_token rnd b =
     (if tokens b < 1 then (False, b) else (True, b\<lparr>tokens := rnd (tokens b - 1)\<rparr>))"

definition allow_local :: "(rat \<Rightarrow> rat) \<Rightarrow> int \<Rightarrow> string \<Rightarrow> 'r limiter \<Rightarrow> bool \<times> 'r limiter" where
  "allow_local rnd now tenant lm =
     (let b = (case buckets lm tenant of
                 None \<Rightarrow> \<lparr>tokens = of_int (burst lm), last_refill = now\<rparr>
               | Some b \<Rightarrow> refill rnd (rate_rps lm) (burst lm) now b);
          (ok, b') = take_token rnd b
      in (ok, lm\<lparr>buckets := (buckets lm)(tenant \<mapsto> b')\<rparr>))"

section \<open>The shared limiter\<close>

text \<open>
  The script, over the hash it reads and writes. Lua prints numbers with 14 digits:
  \<open>str\<close> is what \<open>tonumber(tostring(x))\<close> gives back for the token count; a clock reading has
  13 digits and survives.
\<close>

record lua_bucket =
  lua_tokens :: rat
  lua_last_ms :: int

definition token_bucket_script ::
    "(rat \<Rightarrow> rat) \<Rightarrow> (rat \<Rightarrow> rat) \<Rightarrow> string \<Rightarrow> rat \<Rightarrow> int \<Rightarrow> int \<Rightarrow>
      (string \<rightharpoonup> lua_bucket) \<Rightarrow> int \<times> (string \<rightharpoonup> lua_bucket)" where
  "token_bucket_script rnd str key rate brst now_ms data =
     (let (t0, last_ms) = (case data key of
            None \<Rightarrow> (of_int brst, now_ms) | Some b \<Rightarrow> (lua_tokens b, lua_last_ms b));
          elapsed = max 0 (rnd (rnd (of_int now_ms - of_int last_ms) / 1000));
          t1 = min (of_int brst) (rnd (t0 + rnd (elapsed * rate)))
      in if t1 < 1
         then (0, data(key \<mapsto> \<lparr>lua_tokens = str t1, lua_last_ms = now_ms\<rparr>))
         else (1, data(key \<mapsto> \<lparr>lua_tokens = str (rnd (t1 - 1)), lua_last_ms = now_ms\<rparr>)))"

text \<open>
  The client side. \<open>call\<close> is the round trip \<open>redisCommand("EVAL ...")\<close>: the key is passed as
  a C string, and a null reply is a failed command.
\<close>

datatype redis_reply = Reply_integer int | Reply_other

type_synonym 'r redis_call = "string \<Rightarrow> rat \<Rightarrow> int \<Rightarrow> int \<Rightarrow> 'r \<Rightarrow> redis_reply option \<times> 'r"

definition redis_key :: "string \<Rightarrow> string" where
  "redis_key tenant = c_str (''ratelimit:'' @ tenant)"

definition allow_redis :: "'r redis_call \<Rightarrow> int \<Rightarrow> string \<Rightarrow> 'r \<Rightarrow> 'r limiter \<Rightarrow> bool \<times> 'r limiter" where
  "allow_redis call now_ms tenant conn lm =
     (case call (redis_key tenant) (rate_rps lm) (burst lm) now_ms conn of
        (None, conn') \<Rightarrow> (True, lm\<lparr>redis := None\<rparr>)
      | (Some reply, conn') \<Rightarrow> (reply = Reply_integer 1, lm\<lparr>redis := Some conn'\<rparr>))"

text \<open>The two clocks are read by whichever branch needs them.\<close>

definition allow ::
    "(rat \<Rightarrow> rat) \<Rightarrow> 'r redis_call \<Rightarrow> int \<times> int \<Rightarrow> string \<Rightarrow> 'r limiter \<Rightarrow> bool \<times> 'r limiter" where
  "allow rnd call clock tenant lm =
     (case redis lm of
        Some conn \<Rightarrow> allow_redis call (snd clock) tenant conn lm
      | None \<Rightarrow> allow_local rnd (fst clock) tenant lm)"

section \<open>Construction\<close>

text \<open>
  \<open>std::stoi\<close>: leading white space, a sign, digits up to the first other character;
  \<open>None\<close> is either exception.
\<close>

definition stoi :: "string \<Rightarrow> int option" where
  "stoi s =
     (let s1 = dropWhile is_space_c s;
          (sign, s2) = (case s1 of
             c # cs \<Rightarrow> if c = CHR ''-'' then (- 1, cs) else if c = CHR ''+'' then (1, cs) else (1, c # cs)
           | [] \<Rightarrow> (1, []));
          ds = takeWhile is_digit_c s2;
          v = sign * int (of_dec ds)
      in if ds = [] \<or> v < - (2 ^ 31) \<or> 2 ^ 31 \<le> v then None else Some v)"

definition redis_address :: "string \<Rightarrow> string \<times> int" where
  "redis_address url0 =
     (let url = (if starts_with url0 ''redis://'' then drop 8 url0 else url0) in
      case rfind_char url (CHR '':'') of
        None \<Rightarrow> (url, 6379)
      | Some colon \<Rightarrow>
          (take colon url, case stoi (drop (colon + 1) url) of Some p \<Rightarrow> p | None \<Rightarrow> 6379))"

text \<open>\<open>connect\<close> is \<open>redisConnect\<close>, \<open>None\<close> for a null context or one with an error.\<close>

definition limiter_new :: "(string \<Rightarrow> int \<Rightarrow> 'r option) \<Rightarrow> rat \<Rightarrow> int \<Rightarrow> string \<Rightarrow> 'r limiter" where
  "limiter_new connect rate brst url =
     \<lparr>rate_rps = rate, burst = brst,
      redis = (if url = [] then None else let (host, port) = redis_address url in connect (c_str host) port),
      buckets = Map.empty\<rparr>"

section \<open>Sequences of calls\<close>

text \<open>A run: the verdicts and the final state of a list of calls, each with its clock.\<close>

fun run_calls :: "('a \<Rightarrow> 'k \<Rightarrow> 's \<Rightarrow> bool \<times> 's) \<Rightarrow> ('a \<times> 'k) list \<Rightarrow> 's \<Rightarrow> bool list \<times> 's" where
  "run_calls step [] s = ([], s)"
| "run_calls step ((a, k) # cs) s =
     (let (ok, s') = step a k s; (oks, s'') = run_calls step cs s' in (ok # oks, s''))"

lemma run_calls_Cons:
  "fst (run_calls step ((a, k) # cs) s) =
     fst (step a k s) # fst (run_calls step cs (snd (step a k s)))"
  "snd (run_calls step ((a, k) # cs) s) = snd (run_calls step cs (snd (step a k s)))"
  by (simp_all add: Let_def split: prod.splits)

declare run_calls.simps(2) [simp del]

text \<open>
  What makes a limiter fair between its keys: a call looks at and changes the state of its own
  key only. Then the verdicts one key sees are those it would see alone.
\<close>

locale keyed_limiter =
  fixes step :: "'a \<Rightarrow> 'k \<Rightarrow> 's \<Rightarrow> bool \<times> 's"
    and same :: "'k \<Rightarrow> 's \<Rightarrow> 's \<Rightarrow> bool"
  assumes same_refl: "same k s s"
    and same_trans: "same k s t \<Longrightarrow> same k t u \<Longrightarrow> same k s u"
    and own: "same k s t \<Longrightarrow>
      fst (step a k s) = fst (step a k t) \<and> same k (snd (step a k s)) (snd (step a k t))"
    and frame: "k \<noteq> l \<Longrightarrow> same k (snd (step a l s)) s"
begin

lemma run_isolated:
  "same k s t \<Longrightarrow>
     map snd (filter (\<lambda>(c, ok). snd c = k) (zip cs (fst (run_calls step cs s)))) =
       fst (run_calls step (filter (\<lambda>c. snd c = k) cs) t)"
proof (induction cs arbitrary: s t)
  case Nil
  then show ?case by simp
next
  case (Cons c cs)
  obtain a l where c: "c = (a, l)" by fastforce
  show ?case
  proof (cases "l = k")
    case True
    with own [OF Cons.prems, of a] Cons.IH show ?thesis by (simp add: c run_calls_Cons)
  next
    case False
    then have "same k (snd (step a l s)) t" using frame same_trans Cons.prems by metis
    with Cons.IH False show ?thesis by (simp add: c run_calls_Cons)
  qed
qed

end

definition same_bucket :: "string \<Rightarrow> 'r limiter \<Rightarrow> 'r limiter \<Rightarrow> bool" where
  "same_bucket t s s' \<longleftrightarrow>
     buckets s t = buckets s' t \<and> rate_rps s = rate_rps s' \<and> burst s = burst s'"

interpretation in_memory: keyed_limiter "allow_local rnd" same_bucket
  by unfold_locales
    (auto simp: same_bucket_def allow_local_def Let_def split: prod.splits option.splits)

interpretation scripted: keyed_limiter
    "\<lambda>now key data. (case token_bucket_script rnd str key rate brst now data of (v, d) \<Rightarrow> (v = 1, d))"
    "\<lambda>k d d'. d k = d' k"
  by unfold_locales
    (auto simp: token_bucket_script_def Let_def split: prod.splits option.splits)

section \<open>The bucket invariant\<close>

definition bucket_ok :: "int \<Rightarrow> bucket \<Rightarrow> bool" where
  "bucket_ok brst b \<longleftrightarrow> 0 \<le> tokens b \<and> tokens b \<le> of_int brst"

definition limiter_ok :: "'r limiter \<Rightarrow> bool" where
  "limiter_ok lm \<longleftrightarrow>
     0 \<le> burst lm \<and> burst lm \<le> 2 ^ 53 \<and> 0 \<le> rate_rps lm \<and>
     (\<forall>t b. buckets lm t = Some b \<longrightarrow> bucket_ok (burst lm) b)"

text \<open>The clock does not run backwards for any bucket.\<close>

definition clock_ok :: "int \<Rightarrow> 'r limiter \<Rightarrow> bool" where
  "clock_ok now lm \<longleftrightarrow> (\<forall>t b. buckets lm t = Some b \<longrightarrow> last_refill b \<le> now)"

context rounding
begin

lemma refill_ge:
  assumes "0 \<le> rate" "last_refill b \<le> now" "of_int n \<le> tokens b" "n \<le> brst" "\<bar>n\<bar> \<le> 2 ^ 53"
  shows "of_int n \<le> tokens (refill rnd rate brst now b)"
proof -
  have "0 \<le> rnd (secs_of_ns rnd (now - last_refill b) * rate)"
    using assms by (intro rnd_nonneg mult_nonneg_nonneg secs_of_ns_nonneg) auto
  then have "of_int n \<le> rnd (tokens b + rnd (secs_of_ns rnd (now - last_refill b) * rate))"
    using assms by (intro rnd_ge_int) auto
  with assms(4) show ?thesis by (simp add: refill_def Let_def)
qed

lemma refill_ok:
  "0 \<le> rate \<Longrightarrow> 0 \<le> brst \<Longrightarrow> last_refill b \<le> now \<Longrightarrow> bucket_ok brst b \<Longrightarrow>
     bucket_ok brst (refill rnd rate brst now b)"
  using refill_ge [of rate b now 0 brst] by (auto simp: bucket_ok_def refill_def Let_def)

lemma take_token_ok:
  assumes "bucket_ok brst b" "0 \<le> brst" "brst \<le> 2 ^ 53"
  shows "bucket_ok brst (snd (take_token rnd b))"
proof -
  have "0 \<le> rnd (tokens b - 1)" if "1 \<le> tokens b" using that by (intro rnd_nonneg) simp
  moreover have "rnd (tokens b - 1) \<le> of_int brst"
    using assms by (intro rnd_le_int) (auto simp: bucket_ok_def)
  ultimately show ?thesis using assms(1) by (auto simp: take_token_def bucket_ok_def)
qed

lemma allow_local_ok:
  assumes "limiter_ok lm" "clock_ok now lm"
  shows "limiter_ok (snd (allow_local rnd now t lm))" "clock_ok now (snd (allow_local rnd now t lm))"
proof -
  let ?b = "case buckets lm t of None \<Rightarrow> \<lparr>tokens = of_int (burst lm), last_refill = now\<rparr>
      | Some b \<Rightarrow> refill rnd (rate_rps lm) (burst lm) now b"
  have eq: "snd (allow_local rnd now t lm) =
      lm\<lparr>buckets := (buckets lm)(t \<mapsto> snd (take_token rnd ?b))\<rparr>"
    by (simp add: allow_local_def Let_def split: prod.splits)
  have b: "bucket_ok (burst lm) ?b"
    using assms refill_ok by (auto simp: limiter_ok_def clock_ok_def bucket_ok_def split: option.splits)
  show "limiter_ok (snd (allow_local rnd now t lm))"
    using assms(1) take_token_ok [OF b] unfolding eq by (simp add: limiter_ok_def)
  have "last_refill (snd (take_token rnd ?b)) = now"
    by (auto simp: take_token_def refill_def Let_def split: option.splits)
  then show "clock_ok now (snd (allow_local rnd now t lm))"
    using assms(2) unfolding eq by (simp add: clock_ok_def)
qed

text \<open>Every refill only adds, so \<open>k\<close> calls leave at least \<open>burst - k\<close> tokens.\<close>

lemma allow_local_ge:
  assumes "limiter_ok lm" "clock_ok now lm" "0 \<le> n" "n + 1 \<le> burst lm"
    "\<forall>b. buckets lm t = Some b \<longrightarrow> of_int (n + 1) \<le> tokens b"
  shows "fst (allow_local rnd now t lm)"
    "\<exists>b. buckets (snd (allow_local rnd now t lm)) t = Some b \<and> of_int n \<le> tokens b"
proof -
  let ?b = "case buckets lm t of None \<Rightarrow> \<lparr>tokens = of_int (burst lm), last_refill = now\<rparr>
      | Some b \<Rightarrow> refill rnd (rate_rps lm) (burst lm) now b"
  have b2: "burst lm \<le> 2 ^ 53" using assms(1) by (simp add: limiter_ok_def)
  have "of_int (n + 1) \<le> tokens ?b"
  proof (cases "buckets lm t")
    case None
    have "(of_int (n + 1) :: rat) \<le> of_int (burst lm)" using assms(4) by (simp only: of_int_le_iff)
    with None show ?thesis by simp
  next
    case (Some b)
    with assms b2 show ?thesis
      using refill_ge [of "rate_rps lm" b now "n + 1" "burst lm"]
      by (simp add: limiter_ok_def clock_ok_def)
  qed
  then have ge: "1 \<le> tokens ?b" "of_int n \<le> tokens ?b - 1" using assms(3) by simp_all
  then have "of_int n \<le> rnd (tokens ?b - 1)" using assms(3,4) b2 by (intro rnd_ge_int) auto
  with ge(1) show "fst (allow_local rnd now t lm)"
    "\<exists>b. buckets (snd (allow_local rnd now t lm)) t = Some b \<and> of_int n \<le> tokens b"
    by (auto simp: allow_local_def take_token_def Let_def)
qed

end

end
