(* ===== verification/Rate_Props.thy ===== *)
theory Rate_Props
  imports Rate_Limiter
begin

text \<open>
  What the rate limiter guarantees a tenant, and where the shared limiter falls short of it.
\<close>

section \<open>Runs of the in-memory limiter\<close>

text \<open>Calls in the order of the clock, none before \<open>t0\<close>.\<close>

definition clocked :: "int \<Rightarrow> (int \<times> string) list \<Rightarrow> bool" where
  "clocked t0 cs \<longleftrightarrow> sorted_wrt (\<le>) (t0 # map fst cs)"

definition verdicts_of :: "string \<Rightarrow> (int \<times> string) list \<Rightarrow> bool list \<Rightarrow> bool list" where
  "verdicts_of t cs oks = map snd (filter (\<lambda>(c, ok). snd c = t) (zip cs oks))"

lemma clocked_Cons: "clocked t0 ((a, k) # cs) \<longleftrightarrow> t0 \<le> a \<and> clocked a cs"
  by (auto simp: clocked_def)

lemma clocked_filter: "clocked t0 cs \<Longrightarrow> clocked t0 (filter P cs)"
proof (induction cs arbitrary: t0)
  case (Cons c cs)
  obtain a k where c: "c = (a, k)" by fastforce
  from Cons.prems c have a: "t0 \<le> a" "clocked a cs" by (simp_all add: clocked_Cons)
  then have "clocked t0 cs" by (auto simp: clocked_def)
  with a Cons.IH show ?case by (auto simp: c clocked_Cons)
qed simp

lemma clock_ok_mono: "clock_ok t lm \<Longrightarrow> t \<le> t' \<Longrightarrow> clock_ok t' lm"
  by (fastforce simp: clock_ok_def)

lemma run_limiter_ok:
  "limiter_ok lm \<Longrightarrow> clock_ok t0 lm \<Longrightarrow> clocked t0 cs \<Longrightarrow>
     limiter_ok (snd (run_calls (allow_local rnd64) cs lm))"
proof (induction cs arbitrary: lm t0)
  case (Cons c cs)
  obtain a k where c: "c = (a, k)" by fastforce
  from Cons.prems c have a: "clock_ok a lm" "clocked a cs"
    by (auto simp: clocked_Cons intro: clock_ok_mono)
  note s = b64.allow_local_ok [OF Cons.prems(1) a(1), of k]
  show ?case using Cons.IH [OF s a(2)] by (simp add: c run_calls_Cons)
qed simp

lemma allow_local_params [simp]:
  "burst (snd (allow_local rnd now t lm)) = burst lm" "rate_rps (snd (allow_local rnd now t lm)) = rate_rps lm"
  by (simp_all add: allow_local_def Let_def split: prod.splits)

lemma run_params [simp]:
  "burst (snd (run_calls (allow_local rnd) cs lm)) = burst lm"
proof (induction cs arbitrary: lm)
  case (Cons c cs)
  then show ?case by (cases c) (simp add: run_calls_Cons)
qed simp

text \<open>
  C17: however many tenants call and however the time steps are rounded, no bucket ever holds
  less than zero or more than \<open>burst\<close> tokens, as long as the clock does not run backwards.
\<close>

theorem buckets_stay_bounded:
  assumes "limiter_ok lm" "clock_ok t0 lm" "clocked t0 cs"
    "buckets (snd (run_calls (allow_local rnd64) cs lm)) t = Some b"
  shows "0 \<le> tokens b \<and> tokens b \<le> of_int (burst lm)"
  using run_limiter_ok [OF assms(1-3)] assms(4) by (auto simp: limiter_ok_def bucket_ok_def)

definition demo_limiter :: "unit limiter" where
  "demo_limiter = \<lparr>rate_rps = 10, burst = 2, redis = None, buckets = Map.empty\<rparr>"

lemma demo_limiter_ok: "limiter_ok demo_limiter" "clock_ok t0 demo_limiter"
  by (simp_all add: limiter_ok_def clock_ok_def demo_limiter_def)

lemma rnd64_small: "rnd64 0 = 0" "rnd64 1 = 1"
  using b64.rnd_zero b64.rnd_one by simp_all

theorem buckets_stay_bounded_witness:
  "\<exists>b. buckets (snd (run_calls (allow_local rnd64) [(0, ''a'')] demo_limiter)) ''a'' = Some b \<and>
     0 \<le> tokens b \<and> tokens b \<le> 2"
proof -
  have b: "buckets (snd (run_calls (allow_local rnd64) [(0, ''a'')] demo_limiter)) ''a'' =
      Some \<lparr>tokens = 1, last_refill = 0\<rparr>"
    by (simp add: run_calls_Cons allow_local_def take_token_def demo_limiter_def rnd64_small)
  have "clocked 0 [(0, ''a'')]" by (simp add: clocked_def)
  from buckets_stay_bounded [OF demo_limiter_ok this b] b show ?thesis
    by (simp add: demo_limiter_def)
qed


lemma burst_run:
  assumes "limiter_ok lm" "clock_ok t0 lm" "clocked t0 cs" "\<forall>c \<in> set cs. snd c = t"
    "int (length cs) \<le> n" "n \<le> burst lm" "\<forall>b. buckets lm t = Some b \<longrightarrow> of_int n \<le> tokens b"
  shows "fst (run_calls (allow_local rnd64) cs lm) = replicate (length cs) True"
  using assms
proof (induction cs arbitrary: lm t0 n)
  case (Cons c cs)
  obtain a where c: "c = (a, t)" using Cons.prems(4) by (cases c) auto
  from Cons.prems c have a: "clock_ok a lm" "clocked a cs"
    by (auto simp: clocked_Cons intro: clock_ok_mono)
  note s = b64.allow_local_ok [OF Cons.prems(1) a(1), of t]
  have n: "0 \<le> n - 1" "n - 1 + 1 \<le> burst lm" using Cons.prems(5,6) by simp_all
  have "\<forall>b. buckets lm t = Some b \<longrightarrow> of_int (n - 1 + 1) \<le> tokens b" using Cons.prems(7) by simp
  note g = b64.allow_local_ge [OF Cons.prems(1) a(1) n this]
  have "fst (run_calls (allow_local rnd64) cs (snd (allow_local rnd64 a t lm))) = replicate (length cs) True"
    using Cons.prems(4,5,6) g(2) by (intro Cons.IH [OF s a(2), of "n - 1"]) auto
  with g(1) show ?case by (simp add: c run_calls_Cons)
qed simp

text \<open>
  C19: a tenant that has not called yet may send a full burst: its first \<open>burst\<close> calls are all
  allowed, whatever the rate, the times between the calls and the calls of other tenants.
\<close>

theorem first_burst_is_allowed:
  assumes "limiter_ok lm" "clock_ok t0 lm" "clocked t0 cs" "buckets lm t = None"
    "int (length (filter (\<lambda>c. snd c = t) cs)) \<le> burst lm"
  shows "\<forall>ok \<in> set (verdicts_of t cs (fst (run_calls (allow_local rnd64) cs lm))). ok"
  unfolding verdicts_of_def in_memory.run_isolated [OF in_memory.same_refl]
  using burst_run [OF assms(1,2) clocked_filter [OF assms(3)], of "\<lambda>c. snd c = t" t "burst lm"] assms(4,5)
  by simp

theorem first_burst_is_allowed_witness:
  "False \<notin> set (verdicts_of ''a'' [(0, ''a''), (1, ''b''), (2, ''a'')]
     (fst (run_calls (allow_local rnd64) [(0, ''a''), (1, ''b''), (2, ''a'')] demo_limiter)))"
  using first_burst_is_allowed [OF demo_limiter_ok(1) demo_limiter_ok(2) [of 0],
      of "[(0, ''a''), (1, ''b''), (2, ''a'')]" "''a''"]
  by (auto simp: clocked_def demo_limiter_def)

section \<open>The rate, in exact arithmetic\<close>

definition exact :: "rat \<Rightarrow> rat" where
  "exact x = x"

interpretation exact_reals: rounding exact
  by unfold_locales (simp_all add: exact_def)

definition granted :: "bool list \<Rightarrow> nat" where
  "granted oks = length (filter id oks)"

lemma granted_simps [simp]:
  "granted [] = 0" "granted (ok # oks) = (if ok then 1 else 0) + granted oks"
  by (simp_all add: granted_def)

lemma rate_run:
  assumes "0 \<le> rate_rps lm" "buckets lm t = Some b" "clocked (last_refill b) cs" "\<forall>c \<in> set cs. snd c = t"
    "0 \<le> tokens b" "0 \<le> burst lm"
  shows "of_nat (granted (fst (run_calls (allow_local exact) cs lm))) \<le>
    tokens b + rate_rps lm * of_int (last (last_refill b # map fst cs) - last_refill b) / 1000000000"
  using assms
proof (induction cs arbitrary: lm b)
  case Nil
  then show ?case by simp
next
  case (Cons c cs)
  obtain a where c: "c = (a, t)" using Cons.prems(4) by (cases c) auto
  let ?r = "refill exact (rate_rps lm) (burst lm) a b"
  let ?s = "snd (allow_local exact a t lm)" and ?ok = "1 \<le> tokens ?r"
  let ?b = "if ?ok then ?r\<lparr>tokens := tokens ?r - 1\<rparr> else ?r"
  let ?z = "last (a # map fst cs)"
  have step: "fst (allow_local exact a t lm) = ?ok" "buckets ?s t = Some ?b"
    using Cons.prems(2) by (auto simp: allow_local_def take_token_def exact_def Let_def)
  have a: "last_refill b \<le> a" "clocked a cs" using Cons.prems(3) by (auto simp: c clocked_Cons)
  have l: "last_refill ?b = a" by (simp add: refill_def Let_def)
  have el: "0 \<le> rate_rps lm * of_int (a - last_refill b) / 1000000000"
    using Cons.prems(1) a(1) by simp
  have r: "tokens ?r \<le> tokens b + rate_rps lm * of_int (a - last_refill b) / 1000000000" "0 \<le> tokens ?r"
    using Cons.prems(5,6) el by (auto simp: refill_def Let_def secs_of_ns_def exact_def field_simps min_def)
  have "of_nat (granted (fst (run_calls (allow_local exact) cs ?s))) \<le>
      tokens ?b + rate_rps ?s * of_int (last (last_refill ?b # map fst cs) - last_refill ?b) / 1000000000"
    using Cons.prems(1,4,6) step(2) a(2) l r(2) by (intro Cons.IH) auto
  then have ih: "of_nat (granted (fst (run_calls (allow_local exact) cs ?s))) \<le>
      tokens ?b + rate_rps lm * of_int (?z - a) / 1000000000" unfolding l by simp
  have "tokens ?b + (if ?ok then 1 else 0) \<le> tokens b + rate_rps lm * of_int (a - last_refill b) / 1000000000"
    using r(1) by simp
  moreover have "rate_rps lm * of_int (?z - last_refill b) / 1000000000 =
      rate_rps lm * of_int (a - last_refill b) / 1000000000 + rate_rps lm * of_int (?z - a) / 1000000000"
    by (simp only: add_divide_distrib [symmetric] distrib_left [symmetric] of_int_add [symmetric]) simp
  moreover have "(of_nat (granted (fst (run_calls (allow_local exact) (c # cs) lm))) :: rat) =
      (if ?ok then 1 else 0) + of_nat (granted (fst (run_calls (allow_local exact) cs ?s)))"
    using step(1) by (simp add: c run_calls_Cons)
  ultimately have "of_nat (granted (fst (run_calls (allow_local exact) (c # cs) lm))) \<le>
      tokens b + rate_rps lm * of_int (?z - last_refill b) / 1000000000" using ih by linarith
  moreover have "last (last_refill b # map fst (c # cs)) = ?z" by (simp add: c)
  ultimately show ?case by (simp only:)
qed



section \<open>The shared limiter\<close>

text \<open>The bucket of a key after a list of calls with their clocks, as the script leaves it.\<close>

fun script_run :: "string \<Rightarrow> rat \<Rightarrow> int \<Rightarrow> int list \<Rightarrow> (string \<rightharpoonup> lua_bucket) \<Rightarrow> int list" where
  "script_run key rate brst [] data = []"
| "script_run key rate brst (now # nows) data =
     (let (v, data') = token_bucket_script exact exact key rate brst now data
      in v # script_run key rate brst nows data')"

text \<open>
  C21: the shared bucket trusts the clock of each server. The script stores the caller's clock
  even when it is behind the stored one, so with two servers whose clocks differ by \<open>d\<close> the
  same interval is credited again: with a burst of one, a call is granted, the other server's
  call is refused, and a third call at the clock of the first is granted again although no
  time has passed, as soon as \<open>rate * d\<close> is worth a token.
\<close>

theorem script_refills_on_clock_skew:
  assumes "0 \<le> rate" "0 \<le> d" "1000 \<le> rate * of_int d"
  shows "script_run key rate 1 [now, now - d, now] Map.empty = [1, 0, 1]"
proof -
  have "1 \<le> rate * of_int d / 1000" using assms(3) by simp
  then have "1 \<le> of_int d / 1000 * rate" by (simp add: mult.commute)
  then show ?thesis
    using assms(2) by (simp add: token_bucket_script_def exact_def Let_def)
qed

theorem script_refills_on_clock_skew_witness:
  "script_run ''k'' 10 1 [1000, 800, 1000] Map.empty = [1, 0, 1]"
  using script_refills_on_clock_skew [of 10 200 "''k''" 1000] by simp

text \<open>
  Redis failing is failing open. When the command gets no reply the call is allowed, the
  connection is dropped, and every later call is decided by the in-memory limiter alone.
\<close>

theorem redis_failure_fails_open:
  assumes "redis lm = Some conn"
    "call (redis_key t) (rate_rps lm) (burst lm) (snd clock) conn = (None, conn')"
  shows "allow rnd call clock t lm = (True, lm\<lparr>redis := None\<rparr>) \<and>
    allow rnd call clock' u (snd (allow rnd call clock t lm)) =
      allow_local rnd (fst clock') u (lm\<lparr>redis := None\<rparr>)"
  using assms by (simp add: allow_def allow_redis_def)

theorem redis_failure_fails_open_witness:
  "allow rnd64 (\<lambda>key rate brst now c. (None, c)) (0, 0) ''a'' (demo_limiter\<lparr>redis := Some ()\<rparr>) =
     (True, demo_limiter)"
  using redis_failure_fails_open [of "demo_limiter\<lparr>redis := Some ()\<rparr>" "()"
      "\<lambda>key rate brst now c. (None, c)" "''a''" "(0, 0)" "()" rnd64]
  by (simp add: demo_limiter_def)

section \<open>Two threads and one connection\<close>

text \<open>
  The connection is a plain pointer: \<open>allow\<close> tests it and \<open>allow_redis\<close> uses, frees and clears
  it, without a lock. The threads below run \<open>allow\<close> while the Redis server is down.
\<close>

datatype allow_pc = At_test | At_command | At_free | At_clear | At_local | Returned

record redis_race =
  handle_set :: bool
  frees :: nat
  pcs :: "nat \<Rightarrow> allow_pc"

inductive race_step :: "redis_race \<Rightarrow> redis_race \<Rightarrow> bool" where
  test_set: "pcs s i = At_test \<Longrightarrow> handle_set s \<Longrightarrow> race_step s (s\<lparr>pcs := (pcs s)(i := At_command)\<rparr>)"
| test_null: "pcs s i = At_test \<Longrightarrow> \<not> handle_set s \<Longrightarrow> race_step s (s\<lparr>pcs := (pcs s)(i := At_local)\<rparr>)"
| command_fails: "pcs s i = At_command \<Longrightarrow> race_step s (s\<lparr>pcs := (pcs s)(i := At_free)\<rparr>)"
| free: "pcs s i = At_free \<Longrightarrow>
    race_step s (s\<lparr>frees := (if handle_set s then frees s + 1 else frees s), pcs := (pcs s)(i := At_clear)\<rparr>)"
| clear: "pcs s i = At_clear \<Longrightarrow> race_step s (s\<lparr>handle_set := False, pcs := (pcs s)(i := Returned)\<rparr>)"
| local: "pcs s i = At_local \<Longrightarrow> race_step s (s\<lparr>pcs := (pcs s)(i := Returned)\<rparr>)"

definition race_start :: redis_race where
  "race_start = \<lparr>handle_set = True, frees = 0, pcs = (\<lambda>_. At_test)\<rparr>"

lemmas race_trans = rtranclp.rtrancl_into_rtrancl [of race_step]

text \<open>
  C15: two concurrent callers can free the connection twice, because both may pass the test
  before either clears the pointer.
\<close>

theorem redis_connection_freed_twice:
  "\<exists>s. race_step\<^sup>*\<^sup>* race_start s \<and> frees s = 2"
proof -
  let ?s = "\<lambda>h n a b. \<lparr>handle_set = h, frees = n, pcs = (\<lambda>_. At_test)(0 := a, 1 := b)\<rparr>"
  have z: "race_step\<^sup>*\<^sup>* race_start (?s True 0 At_test At_test)"
    by (simp add: race_start_def fun_upd_idem)
  note race_trans [OF z test_set [of _ 0], simplified]
  then have a: "race_step\<^sup>*\<^sup>* race_start (?s True 0 At_command At_test)" by (simp add: fun_upd_twist)
  note race_trans [OF a test_set [of _ 1], simplified]
  then have b: "race_step\<^sup>*\<^sup>* race_start (?s True 0 At_command At_command)" by (simp add: fun_upd_twist)
  note race_trans [OF b command_fails [of _ 0], simplified]
  then have c: "race_step\<^sup>*\<^sup>* race_start (?s True 0 At_free At_command)" by (simp add: fun_upd_twist)
  note race_trans [OF c command_fails [of _ 1], simplified]
  then have d: "race_step\<^sup>*\<^sup>* race_start (?s True 0 At_free At_free)" by (simp add: fun_upd_twist)
  note race_trans [OF d free [of _ 0], simplified]
  then have e: "race_step\<^sup>*\<^sup>* race_start (?s True 1 At_clear At_free)" by (simp add: fun_upd_twist)
  note race_trans [OF e free [of _ 1], simplified]
  then have f: "race_step\<^sup>*\<^sup>* race_start (?s True 2 At_clear At_clear)" by (simp add: fun_upd_twist numeral_2_eq_2)
  then show ?thesis by (intro exI [of _ "?s True 2 At_clear At_clear"]) simp
qed

section \<open>The address\<close>

lemma rfind_char_split:
  assumes "c \<notin> set t"
  shows "rfind_char (s @ c # t) c = Some (length s)"
proof -
  have "\<forall>d \<in> set (rev t). \<not> d = c" using assms by auto
  then have "first_pos (\<lambda>d. d = c) (rev t @ c # rev s) = Some (length t)"
    by (simp add: first_pos_append)
  then show ?thesis by (simp add: rfind_char_def)
qed

lemma is_digit_not_special:
  "is_digit_c c \<Longrightarrow> \<not> is_space_c c \<and> c \<noteq> CHR ''-'' \<and> c \<noteq> CHR ''+'' \<and> c \<noteq> CHR '':''"
  by (auto simp: is_digit_c_def is_space_c_def)

lemma stoi_to_dec:
  assumes "p < 2 ^ 31"
  shows "stoi (to_dec p) = Some (int p)"
proof -
  obtain c cs where s: "to_dec p = c # cs" by (cases "to_dec p") auto
  have d: "is_digit_c c" "\<forall>x \<in> set (to_dec p). is_digit_c x" using to_dec_digits [of p] s by auto
  have t: "takeWhile is_digit_c (to_dec p) = to_dec p" using d(2) by simp
  have w: "dropWhile is_space_c (to_dec p) = to_dec p" using is_digit_not_special [OF d(1)] s by simp
  show ?thesis
    using assms is_digit_not_special [OF d(1)] t of_dec_to_dec [of p]
    unfolding stoi_def Let_def w s by simp
qed

text \<open>
  A Redis address of the documented form is read back: with or without the scheme, the
  host is everything before the last colon and the port the number after it; without a port,
  the port is 6379.
\<close>

theorem redis_address_documented:
  assumes "p < 2 ^ 31" "\<not> starts_with (host @ '':'' @ to_dec p) ''redis://''"
  shows "redis_address (''redis://'' @ host @ '':'' @ to_dec p) = (host, int p) \<and>
    redis_address (host @ '':'' @ to_dec p) = (host, int p) \<and>
    (CHR '':'' \<notin> set host \<longrightarrow> redis_address (''redis://'' @ host) = (host, 6379))"
proof -
  have "CHR '':'' \<notin> set (to_dec p)" using to_dec_digits [of p] is_digit_not_special by blast
  then have r: "rfind_char (host @ CHR '':'' # to_dec p) (CHR '':'') = Some (length host)"
    by (rule rfind_char_split)
  have n: "CHR '':'' \<notin> set host \<longrightarrow> rfind_char host (CHR '':'') = None"
    by (auto simp: rfind_char_def first_pos_None_iff)
  have q: "redis_address (''redis://'' @ u) =
      (case rfind_char u (CHR '':'') of None \<Rightarrow> (u, 6379)
       | Some colon \<Rightarrow> (take colon u, case stoi (drop (colon + 1) u) of Some p \<Rightarrow> p | None \<Rightarrow> 6379))" for u
    by (simp add: redis_address_def)
  have v: "redis_address u =
      (case rfind_char u (CHR '':'') of None \<Rightarrow> (u, 6379)
       | Some colon \<Rightarrow> (take colon u, case stoi (drop (colon + 1) u) of Some p \<Rightarrow> p | None \<Rightarrow> 6379))"
    if "\<not> starts_with u ''redis://''" for u
    using that unfolding redis_address_def by (simp only: if_False Let_def)
  show ?thesis unfolding q v [OF assms(2)] using r n stoi_to_dec [OF assms(1)] by simp
qed

theorem redis_address_documented_witness:
  "redis_address ''redis://cache:6380'' = (''cache'', 6380)"
proof -
  have "to_dec 6380 = ''6380''"
    by (simp add: to_dec.simps [of 6380] to_dec.simps [of 638] to_dec.simps [of 63] to_dec.simps [of 6]
        digit_char_def char_of_def bit_0)
  then show ?thesis using redis_address_documented [of 6380 "''cache''"] by simp
qed

end
