(* ===== verification/Http_Text.thy ===== *)
theory Http_Text
  imports Prelude "HOL-Library.Word"
begin

text \<open>
  The text layer of \<open>include/httplib.h\<close>: case-insensitive comparison and hashing of header
  names, the number scanner, ports and URLs, the status codes, hexadecimal numbers, entity
  tags and UTF-8. A \<open>char\<close> is a byte, \<open>byte c\<close> its unsigned value; a string the source scans
  with an index is consumed from the front.
\<close>

unbundle bit_operations_syntax

abbreviation byte :: "char \<Rightarrow> nat" where
  "byte c \<equiv> of_char c"

abbreviation chr :: "nat \<Rightarrow> char" where
  "chr n \<equiv> char_of n"

lemma byte_chr [simp]: "byte (chr n) = n mod 256"
  by simp

lemma byte_less [simp]: "byte c < 256"
  using mod_less_divisor [of 256 "byte c"] by simp

section \<open>Bits\<close>

lemma and_push: "(x::nat) AND push_bit n m = push_bit n (drop_bit n x AND m)"
  by (rule bit_eqI) (auto simp: bit_simps)

lemma and_exp_minus_1: "(x::nat) AND (2 ^ n - 1) = x mod 2 ^ n"
  using take_bit_eq_mask [of n x] by (simp only: mask_eq_exp_minus_1 take_bit_eq_mod)

lemma and_mask_nat:
  "(x::nat) AND 0xFF = x mod 256" "x AND 0x7F = x mod 128" "x AND 0x3F = x mod 64" "x AND 0x1F = x mod 32"
  "x AND 0xF = x mod 16" "x AND 0x7 = x mod 8"  "x AND 3 = x mod 4" "x AND 1 = x mod 2"
  using and_exp_minus_1 [of x 8] apply simp
  using and_exp_minus_1 [of x 7] apply simp
  using and_exp_minus_1 [of x 6] apply simp
  using and_exp_minus_1 [of x 5] apply simp
  using and_exp_minus_1 [of x 4] apply simp
  using and_exp_minus_1 [of x 3] apply simp
  using and_exp_minus_1 [of x 2] apply simp
  by (rule and_one_eq)

lemma and_push_div: "(x::nat) AND (m * 2 ^ n) = (x div 2 ^ n AND m) * 2 ^ n"
  using and_push [of x n m] by (simp only: push_bit_eq_mult drop_bit_eq_div)

lemma and_high:
  "(x::nat) AND 0xE0 = x div 32 mod 8 * 32" "x AND 0xF0 = x div 16 mod 16 * 16"
  "x AND 0xF8 = x div 8 mod 32 * 8" "x AND 0xC0 = x div 64 mod 4 * 64"
  "x AND 0x80 = x div 128 mod 2 * 128" "x AND 0x70 = x div 16 mod 8 * 16" "x AND 8 = x div 8 mod 2 * 8"
  using and_push_div [of x 7 5, unfolded and_mask_nat] apply simp
  using and_push_div [of x 15 4, unfolded and_mask_nat] apply simp
  using and_push_div [of x 31 3, unfolded and_mask_nat] apply simp
  using and_push_div [of x 3 6, unfolded and_mask_nat] apply simp
  using and_push_div [of x 1 7, unfolded and_mask_nat] apply simp
  using and_push_div [of x 7 4, unfolded and_mask_nat] apply simp
  using and_push_div [of x 1 3, unfolded and_mask_nat] by simp

lemma div_window: "0 < m \<Longrightarrow> c div m = q \<longleftrightarrow> q * m \<le> c \<and> c < Suc q * (m::nat)"
  by (metis Suc_eq_plus1 div_less_iff_less_mult dual_order.eq_iff less_Suc_eq_le less_eq_div_iff_mult_less_eq linorder_not_less)

lemma byte_masks:
  assumes "c < (256::nat)"
  shows "c AND 0xE0 = 0xC0 \<longleftrightarrow> 0xC0 \<le> c \<and> c < 0xE0" "c AND 0xF0 = 0xE0 \<longleftrightarrow> 0xE0 \<le> c \<and> c < 0xF0"
     "c AND 0xF8 = 0xF0 \<longleftrightarrow> 0xF0 \<le> c \<and> c < 0xF8" "c AND 0xC0 = 0x80 \<longleftrightarrow> 0x80 \<le> c \<and> c < 0xC0"
proof -
  have m: "c div 32 mod 8 = c div 32" "c div 16 mod 16 = c div 16" "c div 8 mod 32 = c div 8" "c div 64 mod 4 = c div 64"
    using assms by (simp_all only: mod_less div_less_iff_less_mult zero_less_numeral)
  have e: "q * 32 = 0xC0 \<longleftrightarrow> q = 6" "q * 16 = 0xE0 \<longleftrightarrow> q = 14" "q * 8 = 0xF0 \<longleftrightarrow> q = 30" "q * 64 = 0x80 \<longleftrightarrow> q = 2" for q :: nat
    by arith+
  show "c AND 0xE0 = 0xC0 \<longleftrightarrow> 0xC0 \<le> c \<and> c < 0xE0" "c AND 0xF0 = 0xE0 \<longleftrightarrow> 0xE0 \<le> c \<and> c < 0xF0"
     "c AND 0xF8 = 0xF0 \<longleftrightarrow> 0xF0 \<le> c \<and> c < 0xF8" "c AND 0xC0 = 0x80 \<longleftrightarrow> 0x80 \<le> c \<and> c < 0xC0"
    unfolding and_high m e by (simp_all add: div_window)
qed

lemma mod_window: "k \<le> c \<Longrightarrow> c - k < m \<Longrightarrow> m dvd k \<Longrightarrow> c mod m = c - (k::nat)"
  by (rule mod_nat_eqI) simp_all

lemma byte_mods:
  assumes "c < (256::nat)"
  shows "0x80 \<le> c \<Longrightarrow> c < 0xC0 \<Longrightarrow> c mod 64 = c - 0x80"
    "0xC0 \<le> c \<Longrightarrow> c < 0xE0 \<Longrightarrow> c mod 32 = c - 0xC0" "0xE0 \<le> c \<Longrightarrow> c < 0xF0 \<Longrightarrow> c mod 16 = c - 0xE0"
    "0xF0 \<le> c \<Longrightarrow> c < 0xF8 \<Longrightarrow> c mod 8 = c - 0xF0"
  by (rule mod_window; simp)+

section \<open>Case-insensitive names (\<open>case_ignore\<close>)\<close>

definition lower_table :: "nat list" where
  "lower_table =
     [0, 1, 2, 3, 4, 5, 6, 7, 8, 9, 10, 11, 12, 13, 14, 15,
      16, 17, 18, 19, 20, 21, 22, 23, 24, 25, 26, 27, 28, 29, 30, 31,
      32, 33, 34, 35, 36, 37, 38, 39, 40, 41, 42, 43, 44, 45, 46, 47,
      48, 49, 50, 51, 52, 53, 54, 55, 56, 57, 58, 59, 60, 61, 62, 63,
      64, 97, 98, 99, 100, 101, 102, 103, 104, 105, 106, 107, 108, 109, 110, 111,
      112, 113, 114, 115, 116, 117, 118, 119, 120, 121, 122, 91, 92, 93, 94, 95,
      96, 97, 98, 99, 100, 101, 102, 103, 104, 105, 106, 107, 108, 109, 110, 111,
      112, 113, 114, 115, 116, 117, 118, 119, 120, 121, 122, 123, 124, 125, 126, 127,
      128, 129, 130, 131, 132, 133, 134, 135, 136, 137, 138, 139, 140, 141, 142, 143,
      144, 145, 146, 147, 148, 149, 150, 151, 152, 153, 154, 155, 156, 157, 158, 159,
      160, 161, 162, 163, 164, 165, 166, 167, 168, 169, 170, 171, 172, 173, 174, 175,
      176, 177, 178, 179, 180, 181, 182, 183, 184, 185, 186, 187, 188, 189, 190, 191,
      224, 225, 226, 227, 228, 229, 230, 231, 232, 233, 234, 235, 236, 237, 238, 239,
      240, 241, 242, 243, 244, 245, 246, 215, 248, 249, 250, 251, 252, 253, 254, 223,
      224, 225, 226, 227, 228, 229, 230, 231, 232, 233, 234, 235, 236, 237, 238, 239,
      240, 241, 242, 243, 244, 245, 246, 247, 248, 249, 250, 251, 252, 253, 254, 255]"

definition to_lower_c :: "char \<Rightarrow> char" where
  "to_lower_c c = chr (lower_table ! byte c)"

definition to_lower :: "string \<Rightarrow> string" where
  "to_lower s = map to_lower_c s"

definition equal_ci :: "string \<Rightarrow> string \<Rightarrow> bool" where
  "equal_ci a b \<longleftrightarrow> length a = length b \<and> list_all2 (\<lambda>ca cb. to_lower_c ca = to_lower_c cb) a b"

text \<open>\<open>hash_core\<close>; \<open>size_t\<close> has 64 bits.\<close>

fun hash_core :: "string \<Rightarrow> 64 word \<Rightarrow> 64 word" where
  "hash_core [] h = h"
| "hash_core (c # s) h =
     hash_core s ((drop_bit 6 (- 1) AND (h * 33)) XOR of_nat (byte (to_lower_c c)))"

definition hash_ci :: "string \<Rightarrow> 64 word" where
  "hash_ci key = hash_core key 0"

lemma equal_ci_iff: "equal_ci a b \<longleftrightarrow> to_lower a = to_lower b"
  by (auto simp: equal_ci_def to_lower_def list_all2_conv_all_nth list_eq_iff_nth_eq)

lemma equal_ci_refl [simp]: "equal_ci a a"
  by (simp add: equal_ci_iff)

lemma equal_ci_sym: "equal_ci a b \<longleftrightarrow> equal_ci b a"
  by (auto simp: equal_ci_iff)

lemma equal_ci_trans: "equal_ci a b \<Longrightarrow> equal_ci b c \<Longrightarrow> equal_ci a c"
  by (simp add: equal_ci_iff)

lemma hash_core_lower: "to_lower a = to_lower b \<Longrightarrow> hash_core a h = hash_core b h"
proof (induction a arbitrary: b h)
  case Nil
  then show ?case by (simp add: to_lower_def)
next
  case (Cons c a)
  then obtain d b' where b: "b = d # b'" "to_lower_c c = to_lower_c d" "to_lower a = to_lower b'"
    by (cases b) (auto simp: to_lower_def)
  show ?case unfolding b(1) hash_core.simps(2) b(2) by (rule Cons.IH [OF b(3)])
qed

text \<open>The hash table of the header map needs equal keys to have equal hashes.\<close>

lemma equal_ci_hash: "equal_ci a b \<Longrightarrow> hash_ci a = hash_ci b"
  using hash_core_lower [of a b 0] by (simp add: equal_ci_iff hash_ci_def)

section \<open>Numbers (\<open>from_chars\<close>, \<open>parse_port\<close>)\<close>

datatype errc = Ok | Invalid_argument | Out_of_range

definition digit_of :: "char \<Rightarrow> nat option" where
  "digit_of c =
     (if 48 \<le> byte c \<and> byte c \<le> 57 then Some (byte c - 48)
      else if 97 \<le> byte c \<and> byte c \<le> 122 then Some (byte c - 97 + 10)
      else if 65 \<le> byte c \<and> byte c \<le> 90 then Some (byte c - 65 + 10)
      else None)"

text \<open>
  The scanning loop, with \<open>p\<close> the position: it stops at the first character that is not a
  digit of the base, or with an error at the digit that would leave the type.
\<close>

fun from_chars_loop :: "nat \<Rightarrow> nat \<Rightarrow> string \<Rightarrow> nat \<Rightarrow> nat \<Rightarrow> errc \<times> nat \<times> nat" where
  "from_chars_loop mx bs [] p r = (Ok, p, r)"
| "from_chars_loop mx bs (c # s) p r =
     (case digit_of c of
        None \<Rightarrow> (Ok, p, r)
      | Some d \<Rightarrow>
          if bs \<le> d then (Ok, p, r)
          else if (mx - d) div bs < r then (Out_of_range, p, r)
          else from_chars_loop mx bs s (p + 1) (r * bs + d))"

text \<open>The value stored, the position of \<open>ptr\<close> and the error; \<open>mx\<close> is the type's maximum.\<close>

definition from_chars :: "nat \<Rightarrow> nat \<Rightarrow> string \<Rightarrow> int \<times> nat \<times> errc" where
  "from_chars mx bs s =
     (let (negative, digits, start) =
            (case s of [] \<Rightarrow> (False, s, 0)
             | c # cs \<Rightarrow> if c = CHR ''-'' then (True, cs, 1) else (False, s, 0))
      in if digits = [] then (0, 0, Invalid_argument)
         else case from_chars_loop mx bs digits start 0 of
           (Out_of_range, p, r) \<Rightarrow> (0, p, Out_of_range)
         | (_, p, r) \<Rightarrow>
             if p = start then (0, 0, Invalid_argument)
             else (if negative then - int r else int r, p, Ok))"

abbreviation int_max :: nat where
  "int_max \<equiv> 2147483647"

abbreviation size_max :: nat where
  "size_max \<equiv> 18446744073709551615"

definition parse_port :: "string \<Rightarrow> int option" where
  "parse_port s =
     (let (v, p, ec) = from_chars int_max 10 s
      in if ec \<noteq> Ok \<or> v < 1 \<or> 65535 < v then None else Some v)"

lemma digit_of_digit: "is_digit_c c \<Longrightarrow> digit_of c = Some (digit_val c)"
  by (auto simp: is_digit_c_def digit_of_def digit_val_def)

lemma digit_val_less: "is_digit_c c \<Longrightarrow> digit_val c < 10"
  unfolding is_digit_c_def digit_val_def by linarith

lemma foldl_digits_mono: "r \<le> foldl (\<lambda>a c. 10 * a + digit_val c) r s"
proof (induction s arbitrary: r)
  case (Cons c s)
  have "r \<le> 10 * r + digit_val c" by simp
  also have "\<dots> \<le> foldl (\<lambda>a c. 10 * a + digit_val c) (10 * r + digit_val c) s" by (rule Cons.IH)
  finally show ?case by simp
qed simp

lemma from_chars_loop_digits:
  assumes "\<forall>c \<in> set s. is_digit_c c" "foldl (\<lambda>a c. 10 * a + digit_val c) r s \<le> mx"
    "case t of [] \<Rightarrow> True | c # _ \<Rightarrow> digit_of c = None \<or> (\<exists>d. digit_of c = Some d \<and> 10 \<le> d)"
  shows "from_chars_loop mx 10 (s @ t) p r = (Ok, p + length s, foldl (\<lambda>a c. 10 * a + digit_val c) r s)"
  using assms(1,2)
proof (induction s arbitrary: p r)
  case Nil
  show ?case using assms(3) by (cases t) auto
next
  case (Cons c s)
  have d: "digit_of c = Some (digit_val c)" "digit_val c < 10"
    using Cons.prems(1) digit_of_digit digit_val_less by auto
  have "10 * r + digit_val c \<le> mx"
    using Cons.prems(2) foldl_digits_mono [of "10 * r + digit_val c" s] by simp
  then have "\<not> (mx - digit_val c) div 10 < r" by linarith
  then show ?case using d Cons.prems Cons.IH [of "10 * r + digit_val c" "p + 1"]
    by (simp add: mult.commute)
qed

lemma from_chars_to_dec:
  assumes "n \<le> mx"
    "case t of [] \<Rightarrow> True | c # _ \<Rightarrow> digit_of c = None \<or> (\<exists>d. digit_of c = Some d \<and> 10 \<le> d)"
  shows "from_chars mx 10 (to_dec n @ t) = (int n, length (to_dec n), Ok)"
proof -
  obtain c cs where s: "to_dec n = c # cs" by (cases "to_dec n") auto
  have c: "c \<noteq> CHR ''-''" using to_dec_digits [of n] s by (auto simp: is_digit_c_def)
  have "foldl (\<lambda>a c. 10 * a + digit_val c) 0 (to_dec n) = n"
    using of_dec_to_dec [of n] by (simp add: of_dec_def)
  then have "from_chars_loop mx 10 (to_dec n @ t) 0 0 = (Ok, length (to_dec n), n)"
    using from_chars_loop_digits [OF to_dec_digits, of 0 n mx t 0] assms by simp
  then show ?thesis using c by (simp add: from_chars_def s)
qed

section \<open>URLs\<close>

record url_components =
  uc_scheme :: string
  uc_host :: string
  uc_port :: string
  uc_path :: string
  uc_query :: string

definition at_char :: "string \<Rightarrow> nat \<Rightarrow> char \<Rightarrow> bool" where
  "at_char s pos c \<longleftrightarrow> pos < length s \<and> s ! pos = c"

text \<open>A \<open>find\<close> whose failure means the end of the string.\<close>

definition find_or_end :: "string \<Rightarrow> string \<Rightarrow> nat \<Rightarrow> nat" where
  "find_or_end s cs pos = (case find_first_of s cs pos of None \<Rightarrow> length s | Some i \<Rightarrow> i)"

definition is_lower_c :: "char \<Rightarrow> bool" where
  "is_lower_c c \<longleftrightarrow> 97 \<le> byte c \<and> byte c \<le> 122"

definition is_ipv6_char :: "char \<Rightarrow> bool" where
  "is_ipv6_char c \<longleftrightarrow> 97 \<le> byte c \<and> byte c \<le> 102 \<or> 65 \<le> byte c \<and> byte c \<le> 70 \<or>
     48 \<le> byte c \<and> byte c \<le> 57 \<or> c = CHR '':''"

text \<open>The scheme and the position behind it; \<open>None\<close> is \<open>return false\<close>.\<close>

definition url_scheme :: "string \<Rightarrow> (string \<times> nat) option" where
  "url_scheme url =
     (case str_find url ''://'' 0 of
        Some sep \<Rightarrow>
          (let scheme = substr url 0 sep
           in if scheme = [] \<or> (\<exists>c \<in> set scheme. \<not> is_lower_c c) then None else Some (scheme, sep + 3))
      | None \<Rightarrow> if take 2 url = ''//'' then Some ([], 2) else Some ([], 0))"

text \<open>The host and the position behind it, a bracketed IPv6 address or a name.\<close>

definition url_host :: "string \<Rightarrow> nat \<Rightarrow> (string \<times> nat) option" where
  "url_host url pos =
     (if at_char url pos (CHR ''['') then
        (case find_first_of url '']'' pos of
           None \<Rightarrow> None
         | Some close \<Rightarrow>
             (let host = substr url (pos + 1) (close - pos - 1)
              in if host = [] \<or> (\<exists>c \<in> set host. \<not> is_ipv6_char c) then None else Some (host, close + 1)))
      else (let e = find_or_end url '':/?#'' pos in Some (substr url pos (e - pos), e)))"

definition url_port :: "string \<Rightarrow> nat \<Rightarrow> string \<times> nat" where
  "url_port url pos =
     (if at_char url pos (CHR '':'')
      then (let e = find_or_end url ''/?#'' (pos + 1) in (substr url (pos + 1) (e - (pos + 1)), e))
      else ([], pos))"

definition url_path :: "string \<Rightarrow> nat \<Rightarrow> string \<times> nat" where
  "url_path url pos =
     (if pos < length url \<and> url ! pos \<noteq> CHR ''?'' \<and> url ! pos \<noteq> CHR ''#''
      then (let e = find_or_end url ''?#'' pos in (substr url pos (e - pos), e))
      else ([], pos))"

definition url_query :: "string \<Rightarrow> nat \<Rightarrow> string" where
  "url_query url pos =
     (if at_char url pos (CHR ''?'') then (let e = find_or_end url ''#'' pos in substr url pos (e - pos))
      else [])"

definition url_authority :: "string \<Rightarrow> nat \<Rightarrow> (string \<times> string \<times> nat) option" where
  "url_authority url pos =
     (if 0 < pos \<or> url \<noteq> [] \<and> hd url \<notin> {CHR ''/'', CHR ''?'', CHR ''#''} then
        (case url_host url pos of
           None \<Rightarrow> None
         | Some (host, pos1) \<Rightarrow>
             (let (port, pos2) = url_port url pos1
              in if \<not> 0 < pos \<and> pos2 < length url then Some ([], [], 0) else Some (host, port, pos2)))
      else Some ([], [], pos))"

definition parse_url :: "string \<Rightarrow> url_components option" where
  "parse_url url =
     (case url_scheme url of
        None \<Rightarrow> None
      | Some (scheme, pos) \<Rightarrow>
          (case url_authority url pos of
             None \<Rightarrow> None
           | Some (host, port, pos2) \<Rightarrow>
               (let (path, pos3) = url_path url pos2
                in Some \<lparr>uc_scheme = scheme, uc_host = host, uc_port = port, uc_path = path,
                         uc_query = url_query url pos3\<rparr>)))"

section \<open>Status codes\<close>

definition status_codes :: "(string \<times> int) list" where
  "status_codes =
     [(''Continue_100'', 100), (''SwitchingProtocol_101'', 101),
      (''Processing_102'', 102), (''EarlyHints_103'', 103),
      (''OK_200'', 200), (''Created_201'', 201),
      (''Accepted_202'', 202), (''NonAuthoritativeInformation_203'', 203),
      (''NoContent_204'', 204), (''ResetContent_205'', 205),
      (''PartialContent_206'', 206), (''MultiStatus_207'', 207),
      (''AlreadyReported_208'', 208), (''IMUsed_226'', 226),
      (''MultipleChoices_300'', 300), (''MovedPermanently_301'', 301),
      (''Found_302'', 302), (''SeeOther_303'', 303),
      (''NotModified_304'', 304), (''UseProxy_305'', 305),
      (''unused_306'', 306), (''TemporaryRedirect_307'', 307),
      (''PermanentRedirect_308'', 308), (''BadRequest_400'', 400),
      (''Unauthorized_401'', 401), (''PaymentRequired_402'', 402),
      (''Forbidden_403'', 403), (''NotFound_404'', 404),
      (''MethodNotAllowed_405'', 405), (''NotAcceptable_406'', 406),
      (''ProxyAuthenticationRequired_407'', 407), (''RequestTimeout_408'', 408),
      (''Conflict_409'', 409), (''Gone_410'', 410),
      (''LengthRequired_411'', 411), (''PreconditionFailed_412'', 412),
      (''PayloadTooLarge_413'', 413), (''UriTooLong_414'', 414),
      (''UnsupportedMediaType_415'', 415), (''RangeNotSatisfiable_416'', 416),
      (''ExpectationFailed_417'', 417), (''ImATeapot_418'', 418),
      (''MisdirectedRequest_421'', 421), (''UnprocessableContent_422'', 422),
      (''Locked_423'', 423), (''FailedDependency_424'', 424),
      (''TooEarly_425'', 425), (''UpgradeRequired_426'', 426),
      (''PreconditionRequired_428'', 428), (''TooManyRequests_429'', 429),
      (''RequestHeaderFieldsTooLarge_431'', 431), (''UnavailableForLegalReasons_451'', 451),
      (''InternalServerError_500'', 500), (''NotImplemented_501'', 501),
      (''BadGateway_502'', 502), (''ServiceUnavailable_503'', 503),
      (''GatewayTimeout_504'', 504), (''HttpVersionNotSupported_505'', 505),
      (''VariantAlsoNegotiates_506'', 506), (''InsufficientStorage_507'', 507),
      (''LoopDetected_508'', 508), (''NotExtended_510'', 510),
      (''NetworkAuthenticationRequired_511'', 511)]"

section \<open>Hexadecimal numbers and entity tags\<close>

text \<open>\<open>is_hex\<close>: the digit's value, or \<open>None\<close>.\<close>

definition is_hex :: "char \<Rightarrow> nat option" where
  "is_hex c =
     (if is_digit_c c then Some (byte c - 48)
      else if 65 \<le> byte c \<and> byte c \<le> 70 then Some (byte c - 65 + 10)
      else if 97 \<le> byte c \<and> byte c \<le> 102 then Some (byte c - 97 + 10)
      else None)"

text \<open>The character at the end of a string is the terminating zero, no digit.\<close>

fun from_hex_loop :: "string \<Rightarrow> nat \<Rightarrow> nat \<Rightarrow> nat option" where
  "from_hex_loop s 0 v = Some v"
| "from_hex_loop [] (Suc n) v = None"
| "from_hex_loop (c # s) (Suc n) v = (case is_hex c of None \<Rightarrow> None | Some d \<Rightarrow> from_hex_loop s n (v * 16 + d))"

definition from_hex_to_i :: "string \<Rightarrow> nat \<Rightarrow> nat \<Rightarrow> nat option" where
  "from_hex_to_i s i cnt = (if length s \<le> i then None else from_hex_loop (drop i s) cnt 0)"

definition hex_digit :: "nat \<Rightarrow> char" where
  "hex_digit d = ''0123456789abcdef'' ! d"

fun from_i_to_hex :: "nat \<Rightarrow> string" where
  "from_i_to_hex n = (if n < 16 then [hex_digit n] else from_i_to_hex (n div 16) @ [hex_digit (n mod 16)])"

declare from_i_to_hex.simps [simp del]

text \<open>A file as \<open>FileStat\<close> sees it: its kind, modification time and size.\<close>

record file_stat =
  fs_exists :: bool
  fs_regular :: bool
  fs_dir :: bool
  fs_mtime :: int
  fs_size :: nat

definition fs_is_file :: "file_stat \<Rightarrow> bool" where
  "fs_is_file f \<longleftrightarrow> fs_exists f \<and> fs_regular f"

definition fs_is_dir :: "file_stat \<Rightarrow> bool" where
  "fs_is_dir f \<longleftrightarrow> fs_exists f \<and> fs_dir f"

definition fs_time :: "file_stat \<Rightarrow> int" where
  "fs_time f = (if fs_exists f then fs_mtime f else - 1)"

definition fs_len :: "file_stat \<Rightarrow> nat" where
  "fs_len f = (if fs_exists f then fs_size f else 0)"

definition compute_etag :: "file_stat \<Rightarrow> string" where
  "compute_etag fs =
     (if \<not> fs_is_file fs then [] else if fs_time fs < 0 then []
      else ''W/'' @ [CHR 0x22] @ from_i_to_hex (nat (fs_time fs)) @ ''-'' @ from_i_to_hex (fs_len fs) @ [CHR 0x22])"

definition is_weak_etag :: "string \<Rightarrow> bool" where
  "is_weak_etag s \<longleftrightarrow> 3 < length s \<and> s ! 0 = CHR ''W'' \<and> s ! 1 = CHR ''/'' \<and> s ! 2 = CHR 0x22"

definition is_strong_etag :: "string \<Rightarrow> bool" where
  "is_strong_etag s \<longleftrightarrow> 2 \<le> length s \<and> s ! 0 = CHR 0x22 \<and> last s = CHR 0x22"

lemma is_hex_digit: "d < 16 \<Longrightarrow> is_hex (hex_digit d) = Some d"
proof -
  have "\<forall>d \<in> set [0..<16]. is_hex (hex_digit d) = Some d" by code_simp
  then show "d < 16 \<Longrightarrow> ?thesis" by simp
qed

lemma from_hex_loop_append:
  "from_hex_loop (s @ t) (length s + n) v = Option.bind (from_hex_loop s (length s) v) (from_hex_loop t n)"
  by (induction s arbitrary: v) (auto split: option.splits)

lemma from_hex_loop_prefix:
  "from_hex_loop (s @ t) (length s) v = from_hex_loop s (length s) v"
  using from_hex_loop_append [of s t 0 v] by (cases "from_hex_loop s (length s) v") auto

lemma from_hex_from_i: "from_hex_loop (from_i_to_hex n) (length (from_i_to_hex n)) 0 = Some n"
proof (induction n rule: from_i_to_hex.induct)
  case (1 n)
  show ?case
  proof (cases "n < 16")
    case True
    then show ?thesis by (simp add: from_i_to_hex.simps [of n] is_hex_digit)
  next
    case False
    then have e: "from_i_to_hex n = from_i_to_hex (n div 16) @ [hex_digit (n mod 16)]"
      by (simp add: from_i_to_hex.simps [of n])
    show ?thesis unfolding e using 1 [OF False]
      from_hex_loop_append [of "from_i_to_hex (n div 16)" "[hex_digit (n mod 16)]" 1 0]
      by (simp add: is_hex_digit)
  qed
qed

lemma from_i_to_hex_nonempty [simp]: "from_i_to_hex n \<noteq> []"
  by (subst from_i_to_hex.simps) simp

end
