(* ===== verification/Http_Utf8.thy ===== *)
theory Http_Utf8
  imports Http_Text
begin

text \<open>
  UTF-8 in \<open>include/httplib.h\<close>: \<open>to_utf8\<close> writes a code point, \<open>is_valid_utf8\<close> checks a text
  message. The checker accepts exactly the concatenations of what the writer produces for
  code points that are not surrogates.
\<close>

section \<open>The two routines\<close>

definition cont_byte :: "nat \<Rightarrow> nat \<Rightarrow> char" where
  "cont_byte code sh = chr (0x80 OR (drop_bit sh code AND 0x3F))"

definition to_utf8 :: "nat \<Rightarrow> string" where
  "to_utf8 code =
     (if code < 0x0080 then [chr (code AND 0x7F)]
      else if code < 0x0800 then [chr (0xC0 OR (drop_bit 6 code AND 0x1F)), cont_byte code 0]
      else if code < 0xD800 then [chr (0xE0 OR (drop_bit 12 code AND 0xF)), cont_byte code 6, cont_byte code 0]
      else if code < 0xE000 then []
      else if code < 0x10000 then [chr (0xE0 OR (drop_bit 12 code AND 0xF)), cont_byte code 6, cont_byte code 0]
      else if code < 0x110000
        then [chr (0xF0 OR (drop_bit 18 code AND 0x7)), cont_byte code 12, cont_byte code 6, cont_byte code 0]
      else [])"

text \<open>The length and the first bits of the code point, from the first byte.\<close>

definition utf8_lead :: "nat \<Rightarrow> (nat \<times> nat) option" where
  "utf8_lead c =
     (if c AND 0xE0 = 0xC0 then Some (2, c AND 0x1F)
      else if c AND 0xF0 = 0xE0 then Some (3, c AND 0x0F)
      else if c AND 0xF8 = 0xF0 then Some (4, c AND 0x07)
      else None)"

fun utf8_cont :: "string \<Rightarrow> nat \<Rightarrow> nat option" where
  "utf8_cont [] cp = Some cp"
| "utf8_cont (b # bs) cp =
     (if byte b AND 0xC0 \<noteq> 0x80 then None else utf8_cont bs (push_bit 6 cp OR (byte b AND 0x3F)))"

definition utf8_cp_ok :: "nat \<Rightarrow> nat \<Rightarrow> bool" where
  "utf8_cp_ok len cp \<longleftrightarrow>
     \<not> (len = 2 \<and> cp < 0x80) \<and> \<not> (len = 3 \<and> cp < 0x800) \<and> \<not> (len = 4 \<and> cp < 0x10000) \<and>
     \<not> (0xD800 \<le> cp \<and> cp \<le> 0xDFFF) \<and> \<not> 0x10FFFF < cp"

function is_valid_utf8 :: "string \<Rightarrow> bool" where
  "is_valid_utf8 [] = True"
| "is_valid_utf8 (c # s) =
     (if byte c < 0x80 then is_valid_utf8 s
      else case utf8_lead (byte c) of
        None \<Rightarrow> False
      | Some (len, cp) \<Rightarrow>
          if length (c # s) < len then False
          else case utf8_cont (take (len - 1) s) cp of
            None \<Rightarrow> False
          | Some cp' \<Rightarrow> utf8_cp_ok len cp' \<and> is_valid_utf8 (drop (len - 1) s))"
  by pat_completeness auto
termination by (relation "measure length") (auto simp: utf8_lead_def split: if_splits)

section \<open>The bits as arithmetic\<close>

lemma or_mod_nat: "push_bit n x OR (y mod 2 ^ n) = x * 2 ^ n + (y mod 2 ^ n :: nat)"
proof -
  have "push_bit n x OR take_bit n y = push_bit n x + take_bit n y"
    by (rule disjunctive_add [symmetric]) (auto simp: bit_push_bit_iff bit_take_bit_iff)
  then show ?thesis by (simp add: take_bit_eq_mod push_bit_eq_mult)
qed

lemma lead_or:
  "0x80 OR (y mod 64) = 0x80 + (y mod 64 :: nat)" "0xC0 OR (y mod 32) = 0xC0 + (y mod 32 :: nat)"
  "0xE0 OR (y mod 16) = 0xE0 + (y mod 16 :: nat)" "0xF0 OR (y mod 8) = 0xF0 + (y mod 8 :: nat)"
  using or_mod_nat [of 6 2 y] or_mod_nat [of 5 6 y] or_mod_nat [of 4 14 y] or_mod_nat [of 3 30 y]
  by simp_all

lemma digits64:
  "d < 64 \<Longrightarrow> (x * 64 + d) div 64 = (x::nat)" "d < 64 \<Longrightarrow> (x * 64 + d) mod 64 = d"
  by simp_all

lemma utf8_lead_arith:
  assumes "c < 256"
  shows "utf8_lead c =
    (if 0xC0 \<le> c \<and> c < 0xE0 then Some (2, c - 0xC0) else if 0xE0 \<le> c \<and> c < 0xF0 then Some (3, c - 0xE0)
     else if 0xF0 \<le> c \<and> c < 0xF8 then Some (4, c - 0xF0) else None)"
  unfolding utf8_lead_def and_mask_nat byte_masks [OF assms]
  by (intro if_cong refl) (simp_all only: byte_mods [OF assms])

lemma utf8_lead_two: "a < 32 \<Longrightarrow> utf8_lead (0xC0 + a) = Some (2, a)"
  by (simp add: utf8_lead_arith)

lemma utf8_cont_Cons:
  "utf8_cont (b # bs) cp =
     (if 0x80 \<le> byte b \<and> byte b < 0xC0 then utf8_cont bs (cp * 64 + (byte b - 0x80)) else None)"
  using byte_masks [OF byte_less [of b]] or_mod_nat [of 6 cp "byte b"] byte_mods(1) [OF byte_less [of b]]
  unfolding utf8_cont.simps and_mask_nat by auto

declare utf8_cont.simps(2) [simp del]

definition cb :: "nat \<Rightarrow> char" where
  "cb d = chr (0x80 + d)"

lemma byte_cb [simp]: "d < 64 \<Longrightarrow> byte (cb d) = 0x80 + d"
  by (simp add: cb_def)

lemma cont_byte_arith: "cont_byte code sh = cb (code div 2 ^ sh mod 64)"
  by (simp add: cont_byte_def cb_def and_mask_nat lead_or drop_bit_eq_div)

lemma to_utf8_arith:
  "to_utf8 code =
     (if code < 0x80 then [chr code]
      else if code < 0x800 then [chr (0xC0 + code div 64 mod 32), cb (code mod 64)]
      else if code < 0xD800 \<or> 0xE000 \<le> code \<and> code < 0x10000
        then [chr (0xE0 + code div 4096 mod 16), cb (code div 64 mod 64), cb (code mod 64)]
      else if 0x10000 \<le> code \<and> code < 0x110000
        then [chr (0xF0 + code div 262144 mod 8), cb (code div 4096 mod 64), cb (code div 64 mod 64), cb (code mod 64)]
      else [])"
  unfolding to_utf8_def and_mask_nat drop_bit_eq_div lead_or cont_byte_arith by simp

section \<open>The checker accepts what the writer writes\<close>

definition scalar :: "nat \<Rightarrow> bool" where
  "scalar code \<longleftrightarrow> code < 0xD800 \<or> 0xE000 \<le> code \<and> code < 0x110000"

lemma byte_chr_small: "n < 256 \<Longrightarrow> byte (chr n) = n"
  by simp

lemma valid_step:
  assumes "0x80 \<le> byte c" "utf8_lead (byte c) = Some (len, cp)" "utf8_cont bs cp = Some cp'"
    "length bs = len - 1" "0 < len" "utf8_cp_ok len cp'"
  shows "is_valid_utf8 (c # bs @ s) = is_valid_utf8 s"
  using assms by simp

lemma valid_to_utf8:
  assumes "scalar code"
  shows "is_valid_utf8 (to_utf8 code @ s) = is_valid_utf8 s"
proof -
  consider "code < 0x80" | "0x80 \<le> code \<and> code < 0x800"
    | "0x800 \<le> code \<and> (code < 0xD800 \<or> 0xE000 \<le> code \<and> code < 0x10000)"
    | "0x10000 \<le> code \<and> code < 0x110000"
    using assms unfolding scalar_def by linarith
  then show ?thesis
  proof cases
    case 1
    then show ?thesis by (simp add: to_utf8_arith)
  next
    case 2
    let ?a = "code div 64" and ?b = "code mod 64"
    have r: "?a < 32" "2 \<le> ?a" "?b < 64" "?a * 64 + ?b = code" using 2 by auto
    have e: "to_utf8 code = chr (0xC0 + ?a) # [cb ?b]"
      unfolding to_utf8_arith using 2 mod_less [OF r(1)] by simp
    have "byte (chr (0xC0 + ?a)) = 0xC0 + ?a" by (rule byte_chr_small) (use r(1) in linarith)
    then have "is_valid_utf8 (chr (0xC0 + ?a) # [cb ?b] @ s) = is_valid_utf8 s"
      using utf8_lead_two [OF r(1)] r(3,4) 2
      by (intro valid_step [where len = 2 and cp = ?a and cp' = code])
        (simp_all add: utf8_cont_Cons utf8_cp_ok_def del: byte_chr of_char_of)
    then show ?thesis by (simp add: e)
  next
    case 3
    let ?a = "code div 4096" and ?b = "code div 64 mod 64" and ?c = "code mod 64"
    have r: "?a < 16" "?b < 64" "?c < 64" using 3 by auto
    have "?a = code div 64 div 64" by (simp add: div_mult2_eq [symmetric])
    then have s: "(?a * 64 + ?b) * 64 + ?c = code" by (simp only: div_mult_mod_eq)
    have e: "to_utf8 code = chr (0xE0 + ?a) # [cb ?b, cb ?c]"
      unfolding to_utf8_arith using 3 mod_less [OF r(1)] by auto
    have "is_valid_utf8 (chr (0xE0 + ?a) # [cb ?b, cb ?c] @ s) = is_valid_utf8 s"
      by (rule valid_step [where len = 3 and cp = ?a and cp' = code])
        (use r 3 s in \<open>auto simp: utf8_lead_arith utf8_cont_Cons utf8_cp_ok_def\<close>)
    then show ?thesis by (simp add: e)
  next
    case 4
    let ?a = "code div 262144" and ?b = "code div 4096 mod 64" and ?c = "code div 64 mod 64" and ?d = "code mod 64"
    have r: "?a < 5" "?b < 64" "?c < 64" "?d < 64" using 4 by auto
    have "code div 4096 = code div 64 div 64" "?a = code div 4096 div 64" by (simp_all add: div_mult2_eq [symmetric])
    then have s: "((?a * 64 + ?b) * 64 + ?c) * 64 + ?d = code" by (simp only: div_mult_mod_eq)
    have a8: "?a < 8" using r(1) by simp
    have e: "to_utf8 code = chr (0xF0 + ?a) # [cb ?b, cb ?c, cb ?d]"
      unfolding to_utf8_arith using 4 mod_less [OF a8] by simp
    have "is_valid_utf8 (chr (0xF0 + ?a) # [cb ?b, cb ?c, cb ?d] @ s) = is_valid_utf8 s"
      by (rule valid_step [where len = 4 and cp = ?a and cp' = code])
        (use r 4 s in \<open>simp_all add: utf8_lead_arith utf8_cont_Cons utf8_cp_ok_def\<close>)
    then show ?thesis by (simp add: e)
  qed
qed

lemma valid_concat: "\<forall>code \<in> set codes. scalar code \<Longrightarrow> is_valid_utf8 (concat (map to_utf8 codes))"
  by (induction codes) (simp_all add: valid_to_utf8)

section \<open>Only those\<close>

lemma char_of_byte: "c = chr n \<longleftrightarrow> byte c = n mod 256"
  by (metis byte_chr char_of_char char_of_mod_256 of_char_mod_256)

lemma cont_is_cb: "0x80 \<le> byte b \<Longrightarrow> byte b < 0xC0 \<Longrightarrow> \<exists>d < 64. b = cb d"
  by (intro exI [of _ "byte b - 0x80"]) (auto simp: cb_def)

lemma utf8_cont_obtain:
  assumes "utf8_cont bs cp = Some cp'"
  shows "\<exists>ds. bs = map cb ds \<and> (\<forall>d \<in> set ds. d < 64) \<and> cp' = foldl (\<lambda>a d. a * 64 + d) cp ds"
  using assms
proof (induction bs arbitrary: cp)
  case Nil
  then show ?case by (intro exI [of _ "[]"]) simp
next
  case (Cons b bs)
  then have b: "0x80 \<le> byte b" "byte b < 0xC0" "utf8_cont bs (cp * 64 + (byte b - 0x80)) = Some cp'"
    by (auto simp: utf8_cont_Cons split: if_splits)
  obtain d where d: "d < 64" "b = cb d" using cont_is_cb [OF b(1,2)] by blast
  obtain ds where "bs = map cb ds" "\<forall>d \<in> set ds. d < 64"
    "cp' = foldl (\<lambda>a d. a * 64 + d) (cp * 64 + (byte b - 0x80)) ds"
    using Cons.IH [OF b(3)] by blast
  with d show ?case by (intro exI [of _ "d # ds"]) auto
qed

lemma valid_char_written:
  assumes "0x80 \<le> byte c" "utf8_lead (byte c) = Some (len, cp)" "utf8_cont bs cp = Some cp'"
    "length bs = len - 1" "utf8_cp_ok len cp'"
  shows "scalar cp' \<and> c # bs = to_utf8 cp'"
proof -
  obtain ds where ds: "bs = map cb ds" "\<forall>d \<in> set ds. d < 64" "cp' = foldl (\<lambda>a d. a * 64 + d) cp ds"
    using utf8_cont_obtain [OF assms(3)] by blast
  have lead: "(len = 2 \<and> byte c = 0xC0 + cp \<and> cp < 32) \<or> (len = 3 \<and> byte c = 0xE0 + cp \<and> cp < 16) \<or>
      (len = 4 \<and> byte c = 0xF0 + cp \<and> cp < 8)"
    using assms(2) by (auto simp: utf8_lead_arith split: if_splits)
  have sc: "scalar cp'" using assms(5) by (auto simp: scalar_def utf8_cp_ok_def)
  from lead show ?thesis
  proof (elim disjE conjE)
    assume l: "len = 2" "byte c = 0xC0 + cp" "cp < 32"
    then obtain a where a: "ds = [a]" using assms(4) ds(1) by (cases ds) auto
    have "a < 64" "cp' = cp * 64 + a" using a ds by auto
    then have "cp' div 64 = cp" "cp' mod 64 = a" "\<not> cp' < 0x80" "cp' < 0x800" using l assms(5) by (auto simp: utf8_cp_ok_def)
    moreover have "c = chr (0xC0 + cp)" using l by (simp add: char_of_byte)
    ultimately show ?thesis using sc l a ds(1) by (simp add: to_utf8_arith)
  next
    assume l: "len = 3" "byte c = 0xE0 + cp" "cp < 16"
    then obtain a b where a: "ds = [a, b]" using assms(4) ds(1) by (cases ds; cases "tl ds") auto
    have ab: "a < 64" "b < 64" "cp' = (cp * 64 + a) * 64 + b" using a ds by auto
    then have q: "cp' div 64 = cp * 64 + a" "cp' mod 64 = b" by (simp_all only: digits64)
    then have "cp' div 64 mod 64 = a" "cp' div 64 div 64 = cp" using ab(1) by (simp_all only: digits64)
    then have "cp' div 64 mod 64 = a" "cp' div 4096 = cp" by (simp_all add: div_mult2_eq [symmetric])
    moreover have "cp' mod 64 = b" "cp' < 0x10000" "\<not> cp' < 0x800"
      using ab l assms(5) q(2) by (simp_all add: utf8_cp_ok_def)
    moreover have "c = chr (0xE0 + cp)" using l by (simp add: char_of_byte)
    ultimately show ?thesis using sc l a ds(1) by (auto simp: to_utf8_arith scalar_def)
  next
    assume l: "len = 4" "byte c = 0xF0 + cp" "cp < 8"
    then obtain a b d where a: "ds = [a, b, d]" using assms(4) ds(1) by (cases ds; cases "tl ds"; cases "tl (tl ds)") auto
    have ab: "a < 64" "b < 64" "d < 64" "cp' = ((cp * 64 + a) * 64 + b) * 64 + d" using a ds by auto
    then have q: "cp' div 64 = (cp * 64 + a) * 64 + b" "cp' mod 64 = d" by (simp_all only: digits64)
    then have q2: "cp' div 64 div 64 = cp * 64 + a" "cp' div 64 mod 64 = b" using ab(2) by (simp_all only: digits64)
    then have "cp' div 64 div 64 div 64 = cp" "cp' div 64 div 64 mod 64 = a" using ab(1) by (simp_all only: digits64)
    then have "cp' div 262144 = cp" "cp' div 4096 mod 64 = a" by (simp_all add: div_mult2_eq [symmetric])
    moreover note q(2) q2(2)
    moreover have "\<not> cp' < 0x10000" "cp' < 0x110000" using l assms(5) by (auto simp: utf8_cp_ok_def)
    moreover have "c = chr (0xF0 + cp)" using l by (simp add: char_of_byte)
    ultimately show ?thesis using sc l a ds(1) by (simp add: to_utf8_arith)
  qed
qed

lemma valid_written: "is_valid_utf8 s \<Longrightarrow> \<exists>codes. (\<forall>code \<in> set codes. scalar code) \<and> s = concat (map to_utf8 codes)"
proof (induction s rule: is_valid_utf8.induct)
  case 1
  then show ?case by (intro exI [of _ "[]"]) simp
next
  case (2 c s)
  show ?case
  proof (cases "byte c < 0x80")
    case True
    then obtain codes where "\<forall>code \<in> set codes. scalar code" "s = concat (map to_utf8 codes)"
      using 2 by auto
    moreover have "to_utf8 (byte c) = [c]" "scalar (byte c)" using True by (simp_all add: to_utf8_arith scalar_def)
    ultimately show ?thesis by (intro exI [of _ "byte c # codes"]) simp
  next
    case False
    obtain len cp where l1: "utf8_lead (byte c) = Some (len, cp)"
      using "2.prems" False by (cases "utf8_lead (byte c)") auto
    note p = "2.prems" [unfolded is_valid_utf8.simps(2) l1 option.case prod.case if_not_P [OF False]]
    then have l2: "\<not> length (c # s) < len" by (simp split: if_splits)
    obtain cp' where l3: "utf8_cont (take (len - 1) s) cp = Some cp'"
      using p unfolding if_not_P [OF l2] by (cases "utf8_cont (take (len - 1) s) cp") simp_all
    note l = l1 l2 l3 p [unfolded if_not_P [OF l2] l3 option.case, THEN conjunct1]
      p [unfolded if_not_P [OF l2] l3 option.case, THEN conjunct2]
    obtain codes where c: "\<forall>code \<in> set codes. scalar code" "drop (len - 1) s = concat (map to_utf8 codes)"
      using "2.IH"(2) [OF False l(1) refl l(2) l(3) l(5)] by blast
    have "length (take (len - 1) s) = len - 1" using l(2) by auto
    then have "scalar cp'" "c # take (len - 1) s = to_utf8 cp'"
      using valid_char_written [OF _ l(1,3) _ l(4)] False by auto
    then show ?thesis using c
      by (intro exI [of _ "cp' # codes"]) (auto simp flip: c(2), metis append_Cons append_take_drop_id)
  qed
qed

text \<open>
  C1: the UTF-8 check is exact. A string passes if and only if it is the concatenation of the
  encodings \<open>to_utf8\<close> gives for code points up to U+10FFFF outside the surrogate range: no
  overlong, truncated, surrogate or out-of-range sequence is let through, and no valid text
  is refused.
\<close>

theorem utf8_check_is_exact:
  "is_valid_utf8 s = (\<exists>codes. s = concat (map to_utf8 codes) \<and> list_all scalar codes)"
  using valid_written [of s] valid_concat by (auto simp: list_all_iff)

end
