(* ===== verification/Http_Stream.thy ===== *)
theory Http_Stream
  imports Http_Status
begin

text \<open>
  The byte streams of \<open>include/httplib.h\<close>: \<open>SocketStream\<close> with its read buffer, \<open>BufferStream\<close>,
  \<open>write_data\<close> and \<open>stream_line_reader\<close>. What the kernel delivers to successive \<open>recv\<close> calls
  and how much successive \<open>send\<close> calls take is part of the state, so that a statement about
  every state is one about every fragmentation. A read or write yields the C return value.
\<close>

section \<open>The socket stream\<close>

text \<open>
  \<open>Arrive d\<close>: these bytes are next in the socket (none: the peer has closed); \<open>Recv_timeout\<close>:
  nothing became readable in time; \<open>Recv_fail\<close>: \<open>recv\<close> fails. A \<open>send\<close> entry is negative for a failure, otherwise the number of bytes
  the kernel is ready to take; behind the last entry everything is taken.
\<close>

datatype recv_event = Arrive string | Recv_timeout | Recv_fail

record stream =
  s_error :: http_error
  inbound :: "recv_event list"
  rbuf :: string
  outbound :: string
  sends :: "int list"

definition read_buff_size :: nat where
  "read_buff_size = 1024 * 4"

text \<open>\<open>wait_readable\<close> and \<open>recv\<close> into a buffer of \<open>n\<close> bytes, with the error recorded.\<close>

definition recv :: "nat \<Rightarrow> stream \<Rightarrow> int \<times> string \<times> stream" where
  "recv n s =
     (case inbound s of
        [] \<Rightarrow> (0, [], s\<lparr>s_error := Err_ConnectionClosed\<rparr>)
      | Recv_timeout # es \<Rightarrow> (- 1, [], s\<lparr>s_error := Err_Timeout, inbound := es\<rparr>)
      | Recv_fail # es \<Rightarrow> (- 1, [], s\<lparr>s_error := Err_Read, inbound := es\<rparr>)
      | Arrive d # es \<Rightarrow>
          (if take n d = [] then (0, [], s\<lparr>s_error := Err_ConnectionClosed, inbound := es\<rparr>)
           else (int (length (take n d)), take n d,
             s\<lparr>inbound := (if drop n d = [] then es else Arrive (drop n d) # es)\<rparr>)))"

definition sock_read :: "nat \<Rightarrow> stream \<Rightarrow> int \<times> string \<times> stream" where
  "sock_read n s =
     (if rbuf s \<noteq> [] then
        (if n \<le> length (rbuf s) then (int n, take n (rbuf s), s\<lparr>rbuf := drop n (rbuf s)\<rparr>)
         else (int (length (rbuf s)), rbuf s, s\<lparr>rbuf := []\<rparr>))
      else if n < read_buff_size then
        (let (k, d, s1) = recv read_buff_size s
         in if k \<le> 0 then (k, [], s1)
            else if k \<le> int n then (k, d, s1)
            else (int n, take n d, s1\<lparr>rbuf := drop n d\<rparr>))
      else recv n s)"

definition sock_write :: "string \<Rightarrow> stream \<Rightarrow> int \<times> stream" where
  "sock_write d s =
     (case sends s of
        [] \<Rightarrow> (int (length d), s\<lparr>outbound := outbound s @ d\<rparr>)
      | k # ks \<Rightarrow>
          if k < 0 then (- 1, s\<lparr>sends := ks\<rparr>)
          else (let w = min (nat k) (length d)
                in (int w, s\<lparr>outbound := outbound s @ take w d, sends := ks\<rparr>)))"

function write_data :: "string \<Rightarrow> stream \<Rightarrow> bool \<times> stream" where
  "write_data d s =
     (if d = [] then (True, s)
      else let (k, s') = sock_write d s in if k < 0 then (False, s') else write_data (drop (nat k) d) s')"
  by pat_completeness auto
termination
  by (relation "measure (\<lambda>(d, s). length d + length (sends s))")
    (auto simp: sock_write_def Let_def split: list.splits if_splits)

declare write_data.simps [simp del]

section \<open>The buffer stream\<close>

record buffer_stream =
  bs_buffer :: string
  bs_position :: nat

definition buf_read :: "nat \<Rightarrow> buffer_stream \<Rightarrow> int \<times> string \<times> buffer_stream" where
  "buf_read n b =
     (let d = substr (bs_buffer b) (bs_position b) n
      in (int (length d), d, b\<lparr>bs_position := bs_position b + length d\<rparr>))"

definition buf_write :: "string \<Rightarrow> buffer_stream \<Rightarrow> int \<times> buffer_stream" where
  "buf_write d b = (int (length d), b\<lparr>bs_buffer := bs_buffer b @ d\<rparr>)"

section \<open>The line reader\<close>

text \<open>The bytes used of the fixed buffer, its capacity, and the buffer for longer lines.\<close>

record line_reader =
  fixed_used :: string
  fixed_size :: nat
  growable :: string

definition new_reader :: "nat \<Rightarrow> line_reader" where
  "new_reader n = \<lparr>fixed_used = [], fixed_size = n, growable = []\<rparr>"

definition lr_ptr :: "line_reader \<Rightarrow> string" where
  "lr_ptr r = (if growable r = [] then fixed_used r else growable r)"

definition lr_size :: "line_reader \<Rightarrow> nat" where
  "lr_size r = (if growable r = [] then length (fixed_used r) else length (growable r))"

definition crlf :: string where
  "crlf = [CHR 0x0D, CHR 0x0A]"

definition end_with_crlf :: "line_reader \<Rightarrow> bool" where
  "end_with_crlf r \<longleftrightarrow> 2 \<le> lr_size r \<and> drop (lr_size r - 2) (lr_ptr r) = crlf"

definition lr_append :: "char \<Rightarrow> line_reader \<Rightarrow> line_reader" where
  "lr_append c r =
     (if length (fixed_used r) < fixed_size r - 1 then r\<lparr>fixed_used := fixed_used r @ [c]\<rparr>
      else r\<lparr>growable := (if growable r = [] then fixed_used r else growable r) @ [c]\<rparr>)"

definition max_line_length :: nat where
  "max_line_length = 32768"

text \<open>Bytes and events still to come: each one-byte read that succeeds takes some.\<close>

fun event_size :: "recv_event \<Rightarrow> nat" where
  "event_size (Arrive d) = Suc (length d)"
| "event_size Recv_timeout = 1"
| "event_size Recv_fail = 1"

definition to_come :: "stream \<Rightarrow> nat" where
  "to_come s = length (rbuf s) + sum_list (map event_size (inbound s))"

lemma sock_read_to_come:
  assumes "sock_read n s = (k, d, s')" "0 < k"
  shows "to_come s' < to_come s"
  using assms
  by (auto simp: sock_read_def recv_def to_come_def Let_def read_buff_size_def min_def
      split: if_splits list.splits recv_event.splits)

function getline_loop :: "nat \<Rightarrow> char \<Rightarrow> line_reader \<Rightarrow> stream \<Rightarrow> bool \<times> line_reader \<times> stream" where
  "getline_loop i prev r s =
     (if max_line_length \<le> lr_size r then (False, r, s)
      else let (n, d, s') = sock_read 1 s
        in if n < 0 then (False, r, s')
           else if n = 0 then (i \<noteq> 0, r, s')
           else let b = hd d; r' = lr_append b r
             in if prev = CHR 0x0D \<and> b = CHR 0x0A then (True, r', s') else getline_loop (i + 1) b r' s')"
  by pat_completeness auto
termination
  by (relation "measure (\<lambda>(i, prev, r, s). to_come s)") (auto dest: sock_read_to_come [OF sym])

declare getline_loop.simps [simp del]

definition getline :: "line_reader \<Rightarrow> stream \<Rightarrow> bool \<times> line_reader \<times> stream" where
  "getline r s = getline_loop 0 (CHR 0x00) (r\<lparr>fixed_used := [], growable := []\<rparr>) s"

section \<open>What is written arrives, however the kernel splits it\<close>

lemma sock_write_outbound:
  "sock_write d s = (k, s') \<Longrightarrow> 0 \<le> k \<Longrightarrow> nat k \<le> length d \<and> outbound s' = outbound s @ take (nat k) d"
  by (auto simp: sock_write_def Let_def split: list.splits if_splits)

lemma sock_write_fails: "sock_write d s = (k, s') \<Longrightarrow> k < 0 \<Longrightarrow> outbound s' = outbound s"
  by (auto simp: sock_write_def Let_def split: list.splits if_splits)

lemma write_data_outbound:
  "write_data d s = (ok, s') \<Longrightarrow> \<exists>t u. d = t @ u \<and> outbound s' = outbound s @ t \<and> (ok \<longrightarrow> u = [])"
proof (induction d s arbitrary: ok s' rule: write_data.induct)
  case (1 d s)
  show ?case
  proof (cases "d = []")
    case True
    with "1.prems" show ?thesis by (simp add: write_data.simps)
  next
    case False
    obtain k s1 where w: "sock_write d s = (k, s1)" by (cases "sock_write d s")
    show ?thesis
    proof (cases "k < 0")
      case True
      then have "ok = False" "s' = s1" using "1.prems" False w by (simp_all add: write_data.simps [of d])
      then show ?thesis using sock_write_fails [OF w True] by (intro exI [of _ "[]"] exI [of _ d]) simp
    next
      case k: False
      then have "write_data (drop (nat k) d) s1 = (ok, s')"
        using "1.prems" False w by (simp add: write_data.simps [of d])
      from "1.IH" [OF False w [symmetric] refl k this] obtain t u where
        t: "drop (nat k) d = t @ u" "outbound s' = outbound s1 @ t" "ok \<longrightarrow> u = []"
        by blast
      have "outbound s1 = outbound s @ take (nat k) d" using sock_write_outbound [OF w] k by simp
      moreover have "d = (take (nat k) d @ t) @ u" using t(1) append_take_drop_id [of "nat k" d] by simp
      ultimately show ?thesis using t(2,3)
        by (intro exI [of _ "take (nat k) d @ t"] exI [of _ u]) simp
    qed
  qed
qed

lemma write_data_ok: "write_data d s = (True, s') \<Longrightarrow> outbound s' = outbound s @ d"
  using write_data_outbound [of d s True s'] by auto

lemma write_data_nofail: "sends s = [] \<Longrightarrow> write_data d s = (True, s\<lparr>outbound := outbound s @ d\<rparr>)"
  by (cases "d = []") (simp_all add: write_data.simps [of d] write_data.simps [of "[]"] sock_write_def)

section \<open>What is read does not depend on the fragmentation\<close>

text \<open>A stream that delivers its bytes without a failure, and what it delivers.\<close>

fun event_ok :: "recv_event \<Rightarrow> bool" where
  "event_ok (Arrive d) = (d \<noteq> [])"
| "event_ok Recv_timeout = False"
| "event_ok Recv_fail = False"

fun event_data :: "recv_event \<Rightarrow> string" where
  "event_data (Arrive d) = d"
| "event_data Recv_timeout = []"
| "event_data Recv_fail = []"

definition plain :: "stream \<Rightarrow> bool" where
  "plain s \<longleftrightarrow> list_all event_ok (inbound s)"

definition content :: "stream \<Rightarrow> string" where
  "content s = rbuf s @ concat (map event_data (inbound s))"

lemma content_rbuf: "rbuf s = [] \<Longrightarrow> content (s\<lparr>rbuf := d\<rparr>) = d @ content s"
  by (simp add: content_def)

lemma plain_rbuf [simp]: "plain (s\<lparr>rbuf := d\<rparr>) = plain s"
  by (simp add: plain_def)

lemma recv_plain:
  assumes "plain s" "0 < n" "recv n s = (k, d, s')" "rbuf s = []"
  shows "plain s' \<and> content s = d @ content s' \<and> k = int (length d) \<and> length d \<le> n \<and>
    (d = [] \<longleftrightarrow> content s = []) \<and> rbuf s' = []"
proof (cases "inbound s")
  case Nil
  then show ?thesis using assms by (auto simp: recv_def plain_def content_def)
next
  case (Cons ev es)
  then obtain x where ev: "ev = Arrive x" "x \<noteq> []" using assms(1) by (cases ev) (auto simp: plain_def)
  have "(k, d, s') = (int (length (take n x)), take n x, s\<lparr>inbound := if drop n x = [] then es else Arrive (drop n x) # es\<rparr>)"
    unfolding assms(3) [symmetric] using Cons ev assms(2) by (simp add: recv_def)
  then show ?thesis using assms Cons ev append_take_drop_id [of n x]
    by (cases "drop n x = []") (simp_all add: plain_def content_def)
qed

lemma read_buff_size_pos: "0 < read_buff_size"
  by (simp add: read_buff_size_def)

lemma sock_read_plain_all:
  assumes "plain s" "0 < n" "sock_read n s = (k, d, s')"
  shows "plain s' \<and> content s = d @ content s' \<and> k = int (length d) \<and> length d \<le> n \<and> (d = [] \<longleftrightarrow> content s = [])"
proof (cases "rbuf s = []")
  case False
  show ?thesis
  proof (cases "n \<le> length (rbuf s)")
    case True
    then have "k = int n" "d = take n (rbuf s)" "s' = s\<lparr>rbuf := drop n (rbuf s)\<rparr>"
      using False assms(3) by (simp_all add: sock_read_def)
    then show ?thesis using assms(1,2) False True by (simp add: content_def)
  next
    case le: False
    have "(k, d, s') = (int (length (rbuf s)), rbuf s, s\<lparr>rbuf := []\<rparr>)"
      unfolding assms(3) [symmetric] using False le by (simp add: sock_read_def)
    then show ?thesis using assms(1) False le by (simp add: content_def)
  qed
next
  case True
  show ?thesis
  proof (cases "n < read_buff_size")
    case False
    then have "recv n s = (k, d, s')" using assms(3) True by (simp add: sock_read_def)
    then show ?thesis using recv_plain [OF assms(1,2) _ True] by blast
  next
    case small: True
    obtain k1 d1 s1 where r: "recv read_buff_size s = (k1, d1, s1)" by (metis prod_cases3)
    have p: "plain s1" "content s = d1 @ content s1" "k1 = int (length d1)" "d1 = [] \<longleftrightarrow> content s = []" "rbuf s1 = []"
      using recv_plain [OF assms(1) read_buff_size_pos r True] by blast+
    show ?thesis
    proof (cases "length d1 \<le> n")
      case le: True
      have "(k, d, s') = (k1, d1, s1)"
        unfolding assms(3) [symmetric] sock_read_def using le small True r p(3)
        by (cases "d1 = []") (simp_all add: Let_def)
      then show ?thesis using p le by simp
    next
      case False
      then have "(k, d, s') = (int n, take n d1, s1\<lparr>rbuf := drop n d1\<rparr>)"
        unfolding assms(3) [symmetric] sock_read_def using small True r p(3) by (cases d1) (simp_all add: Let_def)
      then show ?thesis using p False assms(2) by (auto simp: content_rbuf)
    qed
  qed
qed

lemmas sock_read_plain =
  sock_read_plain_all [THEN conjunct1] sock_read_plain_all [THEN conjunct2, THEN conjunct1]
  sock_read_plain_all [THEN conjunct2, THEN conjunct2, THEN conjunct1]
  sock_read_plain_all [THEN conjunct2, THEN conjunct2, THEN conjunct2, THEN conjunct1]
  sock_read_plain_all [THEN conjunct2, THEN conjunct2, THEN conjunct2, THEN conjunct2]

lemma sock_read_1_Nil:
  assumes "plain s" "content s = []"
  shows "\<exists>s'. sock_read (Suc 0) s = (0, [], s') \<and> plain s' \<and> content s' = []"
proof -
  obtain k d s' where r: "sock_read (Suc 0) s = (k, d, s')" by (metis prod_cases3)
  show ?thesis using sock_read_plain [OF assms(1) _ r, simplified] assms(2) r by simp
qed

lemma sock_read_1_Cons:
  assumes "plain s" "content s = b # t"
  shows "\<exists>s'. sock_read (Suc 0) s = (1, [b], s') \<and> content s' = t \<and> plain s'"
proof -
  obtain k d s' where r: "sock_read (Suc 0) s = (k, d, s')" by (metis prod_cases3)
  note p = sock_read_plain [OF assms(1) _ r, simplified]
  have "length d = 1" using p(4,5) assms(2) by (cases d) auto
  then obtain c where d: "d = [c]" by (cases d) auto
  then show ?thesis using r p assms(2) by simp
qed

text \<open>The reader's buffers are one string.\<close>

definition reader_ok :: "line_reader \<Rightarrow> bool" where
  "reader_ok r \<longleftrightarrow> length (fixed_used r) \<le> fixed_size r - 1 \<and>
     (growable r \<noteq> [] \<longrightarrow> length (fixed_used r) = fixed_size r - 1)"

lemma lr_append_ptr: "reader_ok r \<Longrightarrow> lr_ptr (lr_append c r) = lr_ptr r @ [c] \<and> reader_ok (lr_append c r)"
  by (auto simp: reader_ok_def lr_append_def lr_ptr_def)

lemma lr_size_ptr: "lr_size r = length (lr_ptr r)"
  by (simp add: lr_size_def lr_ptr_def)

text \<open>The next line of a byte sequence: whether one was found, the line and the rest.\<close>

fun next_line :: "nat \<Rightarrow> bool \<Rightarrow> char \<Rightarrow> string \<Rightarrow> bool \<times> string \<times> string" where
  "next_line 0 begun p s = (False, [], s)"
| "next_line (Suc m) begun p [] = (begun, [], [])"
| "next_line (Suc m) begun p (b # s) =
     (if p = CHR 0x0D \<and> b = CHR 0x0A then (True, [b], s)
      else let (ok, l, t) = next_line m True b s in (ok, b # l, t))"

lemma getline_loop_next:
  assumes "plain s" "reader_ok r" "length (lr_ptr r) \<le> max_line_length"
  shows "\<exists>r' s'. getline_loop i p r s =
      (fst (next_line (max_line_length - length (lr_ptr r)) (i \<noteq> 0) p (content s)), r', s') \<and>
    plain s' \<and> content s' = snd (snd (next_line (max_line_length - length (lr_ptr r)) (i \<noteq> 0) p (content s))) \<and>
    lr_ptr r' = lr_ptr r @ fst (snd (next_line (max_line_length - length (lr_ptr r)) (i \<noteq> 0) p (content s)))"
  using assms
proof (induction i p r s rule: getline_loop.induct)
  case (1 i p r s)
  show ?case
  proof (cases "max_line_length \<le> lr_size r")
    case True
    then show ?thesis using "1.prems" by (simp add: getline_loop.simps [of i p r s] lr_size_ptr)
  next
    case False
    obtain m where m: "max_line_length - length (lr_ptr r) = Suc m"
      using False by (metis Suc_diff_Suc lr_size_ptr not_le)
    show ?thesis
    proof (cases "content s")
      case Nil
      then obtain s' where "sock_read (Suc 0) s = (0, [], s')" "plain s'" "content s' = []"
        using sock_read_1_Nil [OF "1.prems"(1)] by blast
      then show ?thesis using "1.prems" False m Nil by (simp add: getline_loop.simps [of i p r s])
    next
      case (Cons b t)
      obtain s' where r: "sock_read (Suc 0) s = (1, [b], s')" and s': "content s' = t" "plain s'"
        using sock_read_1_Cons [OF "1.prems"(1) Cons] by blast
      note ap = lr_append_ptr [OF "1.prems"(2), of b]
      show ?thesis
      proof (cases "p = CHR 0x0D \<and> b = CHR 0x0A")
        case True
        then have "getline_loop i p r s = (True, lr_append b r, s')"
          unfolding getline_loop.simps [of i p r s] using False r by simp
        then show ?thesis using True m s' Cons ap by simp
      next
        case nc: False
        have l: "length (lr_ptr (lr_append b r)) \<le> max_line_length" "max_line_length - length (lr_ptr (lr_append b r)) = m"
          using ap m by simp_all
        have "getline_loop i p r s = getline_loop (i + 1) b (lr_append b r) s'"
          unfolding getline_loop.simps [of i p r s] using False r nc by (auto simp: Let_def)
        moreover have "\<exists>r' s''. getline_loop (i + 1) b (lr_append b r) s' = (fst (next_line m True b t), r', s'') \<and>
            plain s'' \<and> content s'' = snd (snd (next_line m True b t)) \<and>
            lr_ptr r' = lr_ptr (lr_append b r) @ fst (snd (next_line m True b t))"
          using "1.IH" [OF False refl, of 1 "([b], s')" "[b]" s' b "lr_append b r"] r nc s' ap l by simp
        ultimately show ?thesis using nc Cons m ap
          by (auto simp: split_beta)
      qed
    qed
  qed
qed

lemma getline_next:
  assumes "plain s" "0 < fixed_size r"
  shows "\<exists>r' s'. getline r s = (fst (next_line max_line_length False (CHR 0x00) (content s)), r', s') \<and>
    plain s' \<and> content s' = snd (snd (next_line max_line_length False (CHR 0x00) (content s))) \<and>
    lr_ptr r' = fst (snd (next_line max_line_length False (CHR 0x00) (content s)))"
proof -
  let ?r = "r\<lparr>fixed_used := [], growable := []\<rparr>"
  have "reader_ok ?r" "lr_ptr ?r = []" by (simp_all add: reader_ok_def lr_ptr_def)
  then show ?thesis using getline_loop_next [OF assms(1), of ?r 0 "CHR 0x00"] by (simp add: getline_def)
qed

text \<open>
  Reading a line does not depend on how its bytes were fragmented into packets. Two
  streams that deliver the same bytes, split and buffered in any way, give the same verdict
  and the same line, and leave the same bytes to be read.
\<close>

theorem lines_ignore_fragmentation:
  assumes "plain s" "plain t" "content s = content t" "0 < fixed_size r" "0 < fixed_size q"
  shows "fst (getline r s) = fst (getline q t) \<and>
    lr_ptr (fst (snd (getline r s))) = lr_ptr (fst (snd (getline q t))) \<and>
    content (snd (snd (getline r s))) = content (snd (snd (getline q t)))"
  using getline_next [OF assms(1,4)] getline_next [OF assms(2,5)] assms(3) by auto

theorem lines_ignore_fragmentation_witness:
  "fst (getline (new_reader 4) \<lparr>s_error = Err_Success, inbound = [Arrive ''G'', Arrive ''ET /''], rbuf = [], outbound = [], sends = []\<rparr>) =
   fst (getline (new_reader 2048) \<lparr>s_error = Err_Success, inbound = [Arrive ''ET /''], rbuf = ''G'', outbound = [], sends = []\<rparr>)"
  using lines_ignore_fragmentation
    [of "\<lparr>s_error = Err_Success, inbound = [Arrive ''G'', Arrive ''ET /''], rbuf = [], outbound = [], sends = []\<rparr>"
      "\<lparr>s_error = Err_Success, inbound = [Arrive ''ET /''], rbuf = ''G'', outbound = [], sends = []\<rparr>" "new_reader 4" "new_reader 2048"]
  by (simp add: plain_def content_def new_reader_def)

text \<open>The line the reader finds when the bytes begin with one.\<close>

lemma next_line_found:
  assumes "\<forall>c \<in> set l. c \<noteq> CHR 0x0D \<and> c \<noteq> CHR 0x0A" "length l + 2 \<le> m"
  shows "next_line m begun p (l @ crlf @ t) = (True, l @ crlf, t) \<or> (l = [] \<and> p = CHR 0x0D)"
  using assms
proof (induction l arbitrary: m begun p)
  case Nil
  then obtain k where "m = Suc (Suc k)" using le_Suc_ex [of 2 m] by auto
  then show ?case by (simp add: crlf_def)
next
  case (Cons c l)
  then obtain k where m: "m = Suc k" "length l + 2 \<le> k" by (cases m) auto
  have "next_line k True c (l @ crlf @ t) = (True, l @ crlf, t)"
    using Cons.IH [of k True c] Cons.prems m by auto
  then show ?case using Cons.prems m(1) by simp
qed

lemma next_line_first:
  "\<forall>c \<in> set l. c \<noteq> CHR 0x0D \<and> c \<noteq> CHR 0x0A \<Longrightarrow> length l + 2 \<le> m \<Longrightarrow>
     next_line m begun (CHR 0x00) (l @ crlf @ t) = (True, l @ crlf, t)"
  using next_line_found [of l m begun "CHR 0x00" t] by auto

end
