(* ===== verification/Http_Header.thy ===== *)
theory Http_Header
  imports Http_Stream
begin

text \<open>
  Header fields in \<open>include/httplib.h\<close>: the token and field grammar, splitting and trimming,
  the header multimap and its accessors, reading and writing a header section and trailers.
  A multimap is the list of its entries; entries with equal keys are kept in the order of
  their insertion.
\<close>

section \<open>Grammar (\<open>fields\<close>)\<close>

definition is_alnum :: "char \<Rightarrow> bool" where
  "is_alnum c \<longleftrightarrow> 48 \<le> byte c \<and> byte c \<le> 57 \<or> 65 \<le> byte c \<and> byte c \<le> 90 \<or> 97 \<le> byte c \<and> byte c \<le> 122"

definition is_token_char :: "char \<Rightarrow> bool" where
  "is_token_char c \<longleftrightarrow> is_alnum c \<or> c \<in> set ''!#$%&*+-.^_|~'' \<or> c = CHR 0x27 \<or> c = CHR 0x60"

definition is_token :: "string \<Rightarrow> bool" where
  "is_token s \<longleftrightarrow> s \<noteq> [] \<and> list_all is_token_char s"

definition is_field_name :: "string \<Rightarrow> bool" where
  "is_field_name s = is_token s"

definition is_vchar :: "char \<Rightarrow> bool" where
  "is_vchar c \<longleftrightarrow> 33 \<le> byte c \<and> byte c \<le> 126"

definition is_obs_text :: "char \<Rightarrow> bool" where
  "is_obs_text c \<longleftrightarrow> 128 \<le> byte c"

definition is_field_vchar :: "char \<Rightarrow> bool" where
  "is_field_vchar c \<longleftrightarrow> is_vchar c \<or> is_obs_text c"

definition is_space_or_tab :: "char \<Rightarrow> bool" where
  "is_space_or_tab c \<longleftrightarrow> c = CHR 0x20 \<or> c = CHR 0x09"

definition is_field_content :: "string \<Rightarrow> bool" where
  "is_field_content s =
     (if s = [] then True
      else if length s = 1 then is_field_vchar (s ! 0)
      else if length s = 2 then is_field_vchar (s ! 0) \<and> is_field_vchar (s ! 1)
      else is_field_vchar (s ! 0) \<and>
        list_all (\<lambda>c. is_space_or_tab c \<or> is_field_vchar c) (butlast (tl s)) \<and> is_field_vchar (last s))"

definition is_field_value :: "string \<Rightarrow> bool" where
  "is_field_value s = is_field_content s"

definition is_numeric :: "string \<Rightarrow> bool" where
  "is_numeric s \<longleftrightarrow> s \<noteq> [] \<and> list_all is_digit_c s"

section \<open>Trimming and splitting\<close>

text \<open>Positions into the string \<open>b\<close>; the left one may run past the right one.\<close>

definition trim :: "string \<Rightarrow> nat \<Rightarrow> nat \<Rightarrow> nat \<times> nat" where
  "trim b left right =
     (left + length (takeWhile is_space_or_tab (drop left b)),
      right - length (takeWhile is_space_or_tab (rev (take right b))))"

definition trim_copy :: "string \<Rightarrow> string" where
  "trim_copy s = (let (l, r) = trim s 0 (length s) in substr s l (r - l))"

definition trim_double_quotes_copy :: "string \<Rightarrow> string" where
  "trim_double_quotes_copy s =
     (if 2 \<le> length s \<and> hd s = CHR 0x22 \<and> last s = CHR 0x22 then substr s 1 (length s - 2) else s)"

definition divide :: "string \<Rightarrow> char \<Rightarrow> string \<times> string" where
  "divide s d =
     (let lhs = takeWhile (\<lambda>c. c \<noteq> d) s; found = (if length lhs < length s then 1 else 0)
      in (lhs, drop (length lhs + found) s))"

definition emit_token :: "string \<Rightarrow> nat \<Rightarrow> nat \<Rightarrow> string list" where
  "emit_token b beg i = (let (l, r) = trim b beg i in if l < r then [substr b l (r - l)] else [])"

text \<open>\<open>m\<close> bounds the number of tokens; \<open>None\<close> is the default, the largest \<open>size_t\<close>.\<close>

function split_loop :: "string \<Rightarrow> char \<Rightarrow> nat option \<Rightarrow> nat \<Rightarrow> nat \<Rightarrow> nat \<Rightarrow> string list" where
  "split_loop b d m i beg cnt =
     (if i < length b then
        (if b ! i = d \<and> (case m of None \<Rightarrow> True | Some k \<Rightarrow> cnt < k)
         then emit_token b beg i @ split_loop b d m (i + 1) (i + 1) (cnt + 1)
         else split_loop b d m (i + 1) beg cnt)
      else if i \<noteq> 0 then emit_token b beg i else [])"
  by pat_completeness auto
termination by (relation "measure (\<lambda>(b, d, m, i, beg, cnt). length b - i)") auto

declare split_loop.simps [simp del]

definition split :: "string \<Rightarrow> char \<Rightarrow> nat option \<Rightarrow> string list" where
  "split b d m = split_loop b d m 0 0 1"

text \<open>The first token the callback accepts; it is not called on the tokens behind it.\<close>

definition split_find :: "string \<Rightarrow> char \<Rightarrow> nat option \<Rightarrow> (string \<Rightarrow> bool) \<Rightarrow> string option" where
  "split_find b d m fn = List.find fn (split b d m)"

section \<open>The header map\<close>

type_synonym headers = "(string \<times> string) list"

definition equal_range :: "headers \<Rightarrow> string \<Rightarrow> string list" where
  "equal_range hs key = map snd (filter (\<lambda>kv. equal_ci (fst kv) key) hs)"

fun str2tag_core :: "string \<Rightarrow> 32 word \<Rightarrow> 32 word" where
  "str2tag_core [] h = h"
| "str2tag_core (c # s) h = str2tag_core s ((drop_bit 6 (- 1) AND (h * 33)) XOR of_nat (byte c))"

definition str2tag :: "string \<Rightarrow> 32 word" where
  "str2tag s = fold (\<lambda>c h. (drop_bit 6 (- 1) AND (h * 33)) XOR of_nat (byte c)) s 0"

definition is_prohibited_header_name :: "string \<Rightarrow> bool" where
  "is_prohibited_header_name name \<longleftrightarrow>
     str2tag name \<in> str2tag ` {''REMOTE_ADDR'', ''REMOTE_PORT'', ''LOCAL_ADDR'', ''LOCAL_PORT''}"

definition has_header :: "headers \<Rightarrow> string \<Rightarrow> bool" where
  "has_header hs key = (\<not> is_prohibited_header_name key \<and> equal_range hs key \<noteq> [])"

text \<open>\<open>None\<close> is the exception for a prohibited name; the value comes back as a C string.\<close>

definition get_header_value :: "headers \<Rightarrow> string \<Rightarrow> string \<Rightarrow> nat \<Rightarrow> string option" where
  "get_header_value hs key def i =
     (if is_prohibited_header_name key then None
      else if i < length (equal_range hs key) then Some (c_str (equal_range hs key ! i)) else Some def)"

definition get_header_value_count :: "headers \<Rightarrow> string \<Rightarrow> nat" where
  "get_header_value_count hs key = length (equal_range hs key)"

definition get_multimap_value :: "headers \<Rightarrow> string \<Rightarrow> nat \<Rightarrow> string" where
  "get_multimap_value m key i = (if i < length (equal_range m key) then equal_range m key ! i else [])"

text \<open>The value and whether it is invalid; \<open>strtoull\<close> saturates.\<close>

definition get_header_value_u64 :: "headers \<Rightarrow> string \<Rightarrow> nat \<Rightarrow> nat \<Rightarrow> nat \<times> bool" where
  "get_header_value_u64 hs key def i =
     (if i < length (equal_range hs key) then
        (let v = equal_range hs key ! i in if is_numeric v then (min (of_dec v) size_max, False) else (def, True))
      else (def, False))"

definition set_header :: "headers \<Rightarrow> string \<Rightarrow> string \<Rightarrow> headers" where
  "set_header hs key val = (if is_field_name key \<and> is_field_value val then hs @ [(key, val)] else hs)"

text \<open>
  For the fixed names the library and the server ask for: none of them is reserved, so the
  exception is not a case.
\<close>

definition header_value :: "headers \<Rightarrow> string \<Rightarrow> string" where
  "header_value hs key = (case get_header_value hs key [] 0 of Some v \<Rightarrow> v | None \<Rightarrow> [])"

definition library_names :: "string list" where
  "library_names =
     [''Content-Encoding'', ''Content-Type'', ''Content-Length'', ''Transfer-Encoding'', ''Connection'',
      ''Accept'', ''Accept-Encoding'', ''Authorization'', ''X-Tenant-ID'', ''Range'', ''If-Range'',
      ''If-None-Match'', ''If-Modified-Since'', ''Expect'', ''Host'', ''X-Forwarded-For'',
      ''Sec-WebSocket-Key'', ''Sec-WebSocket-Version'']"

lemma library_names_allowed: "list_all (\<lambda>key. \<not> is_prohibited_header_name key) library_names"
  by code_simp

definition is_chunked_transfer_encoding :: "headers \<Rightarrow> bool" where
  "is_chunked_transfer_encoding hs = equal_ci (header_value hs ''Transfer-Encoding'') ''chunked''"

section \<open>Reading a header section\<close>

definition strip_right :: "string \<Rightarrow> string" where
  "strip_right s = rev (dropWhile is_space_or_tab (rev s))"

text \<open>One line without its terminator: the field, or \<open>None\<close> for \<open>return false\<close>.\<close>

definition parse_header :: "string \<Rightarrow> (string \<times> string) option" where
  "parse_header line =
     (let l = strip_right line; name = takeWhile (\<lambda>c. c \<noteq> CHR '':'') l
      in if \<not> is_field_name name then None
         else case dropWhile (\<lambda>c. c \<noteq> CHR '':'') l of
           [] \<Rightarrow> None
         | _ # rest \<Rightarrow>
             (let val = dropWhile is_space_or_tab rest
              in if name = [] then None else if \<not> is_field_value val then None else Some (name, val)))"

definition header_max_length :: nat where
  "header_max_length = 8192"

definition header_max_count :: nat where
  "header_max_count = 100"

lemma sock_read_to_come_le: "sock_read n s = (k, d, s') \<Longrightarrow> to_come s' \<le> to_come s"
  by (auto simp: sock_read_def recv_def to_come_def Let_def read_buff_size_def min_def
      split: if_splits list.splits recv_event.splits)

lemma getline_loop_to_come:
  "getline_loop i p r s = (ok, r', s') \<Longrightarrow> to_come s' \<le> to_come s \<and> (ok \<and> i = 0 \<longrightarrow> to_come s' < to_come s)"
proof (induction i p r s arbitrary: ok r' s' rule: getline_loop.induct)
  case (1 i p r s)
  show ?case
  proof (cases "max_line_length \<le> lr_size r")
    case True
    then show ?thesis using "1.prems" by (simp add: getline_loop.simps [of i p r s])
  next
    case False
    obtain n d s1 where r: "sock_read 1 s = (n, d, s1)" by (metis prod_cases3)
    note le = sock_read_to_come_le [OF r]
    show ?thesis
    proof (cases "0 < n")
      case pos: True
      have lt: "to_come s1 < to_come s" by (rule sock_read_to_come [OF r pos])
      show ?thesis
      proof (cases "p = CHR 0x0D \<and> hd d = CHR 0x0A")
        case True
        then have "s' = s1" using "1.prems" False pos r unfolding getline_loop.simps [of i p r s] by simp
        then show ?thesis using lt by simp
      next
        case nc: False
        have "getline_loop (i + 1) (hd d) (lr_append (hd d) r) s1 = (ok, r', s')"
          using "1.prems" False pos r nc unfolding getline_loop.simps [of i p r s] by (auto simp: Let_def)
        then show ?thesis using "1.IH" [OF False refl, of n "(d, s1)" d s1 "hd d" "lr_append (hd d) r"] r nc pos lt
          by fastforce
      qed
    next
      case np: False
      then have "s' = s1 \<and> (ok \<longrightarrow> i \<noteq> 0)"
        using "1.prems" False r unfolding getline_loop.simps [of i p r s] by (auto split: if_splits)
      then show ?thesis using le by auto
    qed
  qed
qed

lemma getline_to_come: "getline r s = (True, r', s') \<Longrightarrow> to_come s' < to_come s"
  using getline_loop_to_come unfolding getline_def by blast

function read_headers_loop :: "nat \<Rightarrow> line_reader \<Rightarrow> headers \<Rightarrow> stream \<Rightarrow> bool \<times> headers \<times> stream" where
  "read_headers_loop cnt r hs s =
     (case getline r s of
        (False, r', s') \<Rightarrow> (False, hs, s')
      | (True, r', s') \<Rightarrow>
          if \<not> end_with_crlf r' then read_headers_loop cnt r' hs s'
          else if lr_size r' = 2 then (True, hs, s')
          else if header_max_length < lr_size r' then (False, hs, s')
          else if header_max_count \<le> cnt then (False, hs, s')
          else case parse_header (take (lr_size r' - 2) (lr_ptr r')) of
            None \<Rightarrow> (False, hs, s')
          | Some kv \<Rightarrow> read_headers_loop (cnt + 1) r' (hs @ [kv]) s')"
  by pat_completeness auto
termination
  by (relation "measure (\<lambda>(cnt, r, hs, s). to_come s)") (auto dest: getline_to_come [OF sym])

declare read_headers_loop.simps [simp del]

definition one_content_length :: "headers \<Rightarrow> bool" where
  "one_content_length hs \<longleftrightarrow>
     (case equal_range hs ''Content-Length'' of [] \<Rightarrow> True | v # vs \<Rightarrow> list_all (\<lambda>w. w = v) vs)"

definition read_headers :: "headers \<Rightarrow> stream \<Rightarrow> bool \<times> headers \<times> stream" where
  "read_headers hs0 s =
     (case read_headers_loop 0 (new_reader 2048) hs0 s of
        (False, hs, s') \<Rightarrow> (False, hs, s')
      | (True, hs, s') \<Rightarrow> (one_content_length hs, hs, s'))"

section \<open>Trailers\<close>

definition prohibited_trailers :: "string list" where
  "prohibited_trailers =
     [''transfer-encoding'', ''content-length'', ''host'', ''authorization'', ''www-authenticate'',
      ''proxy-authenticate'', ''proxy-authorization'', ''cookie'', ''set-cookie'', ''cache-control'',
      ''expect'', ''max-forwards'', ''pragma'', ''range'', ''te'', ''age'', ''expires'', ''date'',
      ''location'', ''retry-after'', ''vary'', ''warning'', ''content-encoding'', ''content-type'',
      ''content-range'', ''trailer'']"

definition in_ci :: "string \<Rightarrow> string list \<Rightarrow> bool" where
  "in_ci key ks \<longleftrightarrow> list_ex (equal_ci key) ks"

definition declared_trailers :: "headers \<Rightarrow> string list" where
  "declared_trailers src =
     (case get_header_value src ''Trailer'' [] 0 of
        None \<Rightarrow> []
      | Some v \<Rightarrow> filter (\<lambda>key. key \<noteq> [] \<and> \<not> in_ci key prohibited_trailers) (map trim_copy (split v (CHR '','') None)))"

function trailer_loop :: "string list \<Rightarrow> nat \<Rightarrow> line_reader \<Rightarrow> headers \<Rightarrow> stream \<Rightarrow> bool \<times> headers \<times> stream" where
  "trailer_loop decl cnt r dest s =
     (if c_str (lr_ptr r) = crlf then (True, dest, s)
      else if header_max_length < lr_size r then (False, dest, s)
      else if header_max_count \<le> cnt then (False, dest, s)
      else case parse_header (take (lr_size r - 2) (lr_ptr r)) of
        None \<Rightarrow> (False, dest, s)
      | Some (key, val) \<Rightarrow>
          (let keep = in_ci key decl; dest' = (if keep then dest @ [(key, val)] else dest)
           in case getline r s of
                (False, r', s') \<Rightarrow> (False, dest', s')
              | (True, r', s') \<Rightarrow> trailer_loop decl (if keep then cnt + 1 else cnt) r' dest' s'))"
  by pat_completeness auto
termination
  by (relation "measure (\<lambda>(decl, cnt, r, dest, s). to_come s)") (auto dest: getline_to_come [OF sym])

declare trailer_loop.simps [simp del]

definition parse_trailers :: "line_reader \<Rightarrow> headers \<Rightarrow> headers \<Rightarrow> stream \<Rightarrow> bool \<times> headers \<times> stream" where
  "parse_trailers r dest src s = trailer_loop (declared_trailers src) 0 r dest s"

section \<open>Writing a header section\<close>

definition header_line :: "string \<times> string \<Rightarrow> string" where
  "header_line kv = fst kv @ '': '' @ snd kv @ crlf"

text \<open>Into a buffer, as the server does; the number of bytes written comes back.\<close>

fun write_headers :: "headers \<Rightarrow> buffer_stream \<Rightarrow> int \<times> buffer_stream" where
  "write_headers [] b = buf_write crlf b"
| "write_headers (kv # hs) b =
     (case buf_write (header_line kv) b of (len, b') \<Rightarrow>
        if len < 0 then (len, b')
        else case write_headers hs b' of (len', b'') \<Rightarrow> if len' < 0 then (len', b'') else (len + len', b''))"

lemma write_headers_buffer:
  "fst (write_headers hs b) = int (length (concat (map header_line hs) @ crlf)) \<and>
   snd (write_headers hs b) = b\<lparr>bs_buffer := bs_buffer b @ concat (map header_line hs) @ crlf\<rparr>"
  by (induction hs arbitrary: b) (simp_all add: buf_write_def split_beta)

end
