(* ===== verification/Http_Body.thy ===== *)
theory Http_Body
  imports Http_Header
begin

text \<open>
  Message bodies in \<open>include/httplib.h\<close>: the chunked decoder, \<open>BodyReader\<close>, the three ways of
  reading a body and the choice between them, and the three ways of writing one. A receiver
  is a function on its own state that may refuse the data.
\<close>

section \<open>The chunked decoder\<close>

record chunked_decoder =
  chunk_remaining :: nat
  dec_finished :: bool
  last_chunk_total :: nat
  last_chunk_offset :: nat

definition new_decoder :: chunked_decoder where
  "new_decoder = \<lparr>chunk_remaining = 0, dec_finished = False, last_chunk_total = 0, last_chunk_offset = 0\<rparr>"

text \<open>The hexadecimal digits at the start of the line; \<open>None\<close> is the overflow.\<close>

fun chunk_size_loop :: "string \<Rightarrow> nat \<Rightarrow> (nat \<times> string) option" where
  "chunk_size_loop [] len = Some (len, [])"
| "chunk_size_loop (c # p) len =
     (case is_hex c of
        None \<Rightarrow> Some (len, c # p)
      | Some v \<Rightarrow> if drop_bit 4 size_max < len then None else chunk_size_loop p (push_bit 4 len OR v))"

text \<open>\<open>None\<close> is \<open>return -1\<close>. The line is read as a C string.\<close>

definition chunk_size :: "string \<Rightarrow> nat option" where
  "chunk_size line =
     (case c_str line of
        [] \<Rightarrow> None
      | c # p \<Rightarrow>
          if is_hex c = None then None
          else case chunk_size_loop (c # p) 0 of
            None \<Rightarrow> None
          | Some (len, rest) \<Rightarrow>
              (case dropWhile is_space_or_tab rest of
                 [] \<Rightarrow> Some len
               | d # _ \<Rightarrow> if d \<in> {CHR '';'', CHR 0x0D, CHR 0x0A} then Some len else None))"

text \<open>The header of the next chunk, if the last one is used up: \<open>None\<close> is an error.\<close>

definition next_chunk :: "chunked_decoder \<Rightarrow> stream \<Rightarrow> chunked_decoder option \<times> stream" where
  "next_chunk dec s =
     (case getline (new_reader 64) s of
        (False, r, s') \<Rightarrow> (None, s')
      | (True, r, s') \<Rightarrow>
          (case chunk_size (lr_ptr r) of
             None \<Rightarrow> (None, s')
           | Some 0 \<Rightarrow> (Some (dec\<lparr>chunk_remaining := 0, dec_finished := True\<rparr>), s')
           | Some len \<Rightarrow> (Some (dec\<lparr>chunk_remaining := len, last_chunk_total := len, last_chunk_offset := 0\<rparr>), s')))"

text \<open>Data of the current chunk, and the line break behind its last byte.\<close>

definition chunk_data ::
    "nat \<Rightarrow> chunked_decoder \<Rightarrow> stream \<Rightarrow> int \<times> string \<times> nat \<times> nat \<times> chunked_decoder \<times> stream" where
  "chunk_data len dec s =
     (case sock_read (min (chunk_remaining dec) len) s of
        (n, d, s') \<Rightarrow>
          if n \<le> 0 then (- 1, [], 0, 0, dec, s')
          else let off = last_chunk_offset dec;
                   dec' = dec\<lparr>last_chunk_offset := off + nat n, chunk_remaining := chunk_remaining dec - nat n\<rparr>
            in if chunk_remaining dec' = 0 then
                 (case getline (new_reader 64) s' of
                    (False, r, s'') \<Rightarrow> (- 1, [], off, last_chunk_total dec', dec', s'')
                  | (True, r, s'') \<Rightarrow>
                      if c_str (lr_ptr r) \<noteq> crlf then (- 1, [], off, last_chunk_total dec', dec', s'')
                      else (n, d, off, last_chunk_total dec', dec', s''))
               else (n, d, off, last_chunk_total dec', dec', s'))"

text \<open>\<open>read_payload\<close>: the return value, the data, the offset in the chunk and the chunk's size.\<close>

definition read_payload ::
    "nat \<Rightarrow> chunked_decoder \<Rightarrow> stream \<Rightarrow> int \<times> string \<times> nat \<times> nat \<times> chunked_decoder \<times> stream" where
  "read_payload len dec s =
     (if dec_finished dec then (0, [], 0, 0, dec, s)
      else if chunk_remaining dec = 0 then
        (case next_chunk dec s of
           (None, s') \<Rightarrow> (- 1, [], 0, 0, dec, s')
         | (Some dec', s') \<Rightarrow> if dec_finished dec' then (0, [], 0, 0, dec', s') else chunk_data len dec' s')
      else chunk_data len dec s)"

definition parse_trailers_into :: "headers \<Rightarrow> headers \<Rightarrow> stream \<Rightarrow> bool \<times> headers \<times> stream" where
  "parse_trailers_into dest src s =
     (case getline (new_reader 64) s of
        (False, r, s') \<Rightarrow> (False, dest, s')
      | (True, r, s') \<Rightarrow> parse_trailers r dest src s')"

lemma getline_to_come_le: "getline r s = (ok, r', s') \<Longrightarrow> to_come s' \<le> to_come s"
  using getline_loop_to_come unfolding getline_def by blast

lemma chunk_data_to_come:
  assumes "chunk_data len dec s = (n, d, off, tot, dec', s')" "0 < n"
  shows "to_come s' < to_come s"
proof -
  obtain k e s1 where r: "sock_read (min (chunk_remaining dec) len) s = (k, e, s1)" by (metis prod_cases3)
  have k: "0 < k" using assms r by (auto simp: chunk_data_def Let_def split: if_splits)
  have "to_come s' \<le> to_come s1"
    using assms r k
    by (auto simp: chunk_data_def Let_def split: if_splits prod.splits bool.splits dest: getline_to_come_le)
  then show ?thesis using sock_read_to_come [OF r k] by simp
qed

lemma read_payload_to_come:
  assumes "read_payload len dec s = (n, d, off, tot, dec', s')" "0 < n"
  shows "to_come s' < to_come s"
proof -
  have le: "to_come s1 \<le> to_come s" if "next_chunk dec s = (x, s1)" for x s1
    using that by (auto simp: next_chunk_def split: prod.splits bool.splits option.splits nat.splits dest: getline_to_come_le)
  show ?thesis
    using assms by (auto simp: read_payload_def split: if_splits prod.splits option.splits
        dest: chunk_data_to_come le intro: order.strict_trans2)
qed

section \<open>\<open>BodyReader\<close>\<close>

record body_reader =
  br_has_stream :: bool
  has_content_length :: bool
  content_length :: nat
  br_payload_max :: nat
  bytes_read :: nat
  br_chunked :: bool
  br_eof :: bool
  br_decoder :: chunked_decoder
  last_error :: http_error

definition stream_error :: "stream \<Rightarrow> http_error" where
  "stream_error s = (if s_error s = Err_Success then Err_Read else s_error s)"

definition body_read :: "nat \<Rightarrow> body_reader \<Rightarrow> stream \<Rightarrow> int \<times> string \<times> body_reader \<times> stream" where
  "body_read len br s =
     (if \<not> br_has_stream br then (- 1, [], br\<lparr>last_error := Err_Connection\<rparr>, s)
      else if br_eof br then (0, [], br, s)
      else if \<not> br_chunked br then
        (if has_content_length br \<and> content_length br \<le> bytes_read br then (0, [], br\<lparr>br_eof := True\<rparr>, s)
         else let to_read = (if has_content_length br then min len (content_length br - bytes_read br) else len);
                  (n, d, s') = sock_read to_read s
           in if n \<le> 0 then (n, [], br\<lparr>last_error := stream_error s', br_eof := True\<rparr>, s')
              else let got = bytes_read br + nat n;
                       br1 = br\<lparr>bytes_read := got, br_eof := (has_content_length br \<and> content_length br \<le> got)\<rparr>
                in if 0 < br_payload_max br \<and> br_payload_max br < got
                   then (- 1, [], br1\<lparr>last_error := Err_ExceedMaxPayloadSize, br_eof := True\<rparr>, s')
                   else (n, d, br1, s'))
      else case read_payload len (br_decoder br) s of
        (n, d, off, tot, dec, s') \<Rightarrow>
          if n < 0 then (n, [], br\<lparr>last_error := stream_error s', br_eof := True, br_decoder := dec\<rparr>, s')
          else if n = 0 then (0, [], br\<lparr>br_eof := True, br_decoder := dec\<rparr>, s')
          else let got = bytes_read br + nat n; br1 = br\<lparr>bytes_read := got, br_decoder := dec\<rparr>
            in if 0 < br_payload_max br \<and> br_payload_max br < got
               then (- 1, [], br1\<lparr>last_error := Err_ExceedMaxPayloadSize, br_eof := True\<rparr>, s')
               else (n, d, br1, s'))"

section \<open>Reading a body\<close>

datatype read_content_result = Rc_Success | Rc_PayloadTooLarge | Rc_Error

type_synonym 'a receiver = "string \<Rightarrow> nat \<Rightarrow> nat \<Rightarrow> 'a \<Rightarrow> bool \<times> 'a"
type_synonym progress = "(nat \<Rightarrow> nat \<Rightarrow> bool) option"

definition recv_bufsiz :: nat where
  "recv_bufsiz = 16384"

function with_length_loop ::
    "nat \<Rightarrow> progress \<Rightarrow> 'a receiver \<Rightarrow> nat \<Rightarrow> body_reader \<Rightarrow> 'a \<Rightarrow> stream \<Rightarrow> read_content_result \<times> 'a \<times> stream" where
  "with_length_loop len progress out r br a s =
     (if r < len then
        (case body_read (min (len - r) recv_bufsiz) br s of
           (n, d, br', s') \<Rightarrow>
             if n \<le> 0 then (if last_error br' = Err_ExceedMaxPayloadSize then Rc_PayloadTooLarge else Rc_Error, a, s')
             else case out d r len a of
               (False, a') \<Rightarrow> (Rc_Error, a', s')
             | (True, a') \<Rightarrow>
                 if (case progress of None \<Rightarrow> True | Some p \<Rightarrow> p (r + nat n) len)
                 then with_length_loop len progress out (r + nat n) br' a' s'
                 else (Rc_Error, a', s'))
      else (Rc_Success, a, s))"
  by pat_completeness auto
termination by (relation "measure (\<lambda>(len, progress, out, r, br, a, s). len - r)") auto

declare with_length_loop.simps [simp del]

definition read_content_with_length ::
    "nat \<Rightarrow> progress \<Rightarrow> 'a receiver \<Rightarrow> nat \<Rightarrow> 'a \<Rightarrow> stream \<Rightarrow> read_content_result \<times> 'a \<times> stream" where
  "read_content_with_length len progress out payload_max a s =
     with_length_loop len progress out 0
       \<lparr>br_has_stream = True, has_content_length = True, content_length = len, br_payload_max = payload_max,
        bytes_read = 0, br_chunked = False, br_eof = False, br_decoder = new_decoder, last_error = Err_Success\<rparr> a s"

function without_length_loop ::
    "nat \<Rightarrow> 'a receiver \<Rightarrow> nat \<Rightarrow> 'a \<Rightarrow> stream \<Rightarrow> read_content_result \<times> 'a \<times> stream" where
  "without_length_loop payload_max out r a s =
     (case sock_read recv_bufsiz s of
        (n, d, s') \<Rightarrow>
          if n = 0 then (Rc_Success, a, s')
          else if n < 0 then (Rc_Error, a, s')
          else if payload_max < r \<or> payload_max - r < nat n then (Rc_PayloadTooLarge, a, s')
          else case out d r 0 a of
            (False, a') \<Rightarrow> (Rc_Error, a', s')
          | (True, a') \<Rightarrow> without_length_loop payload_max out (r + nat n) a' s')"
  by pat_completeness auto
termination
  by (relation "measure (\<lambda>(payload_max, out, r, a, s). to_come s)") (auto dest: sock_read_to_come [OF sym])

declare without_length_loop.simps [simp del]

definition read_content_without_length ::
    "nat \<Rightarrow> 'a receiver \<Rightarrow> 'a \<Rightarrow> stream \<Rightarrow> read_content_result \<times> 'a \<times> stream" where
  "read_content_without_length payload_max out a s = without_length_loop payload_max out 0 a s"

function chunked_loop ::
    "nat \<Rightarrow> 'a receiver \<Rightarrow> nat \<Rightarrow> chunked_decoder \<Rightarrow> 'a \<Rightarrow> stream \<Rightarrow> read_content_result \<times> 'a \<times> stream" where
  "chunked_loop payload_max out got dec a s =
     (case read_payload recv_bufsiz dec s of
        (n, d, off, tot, dec', s') \<Rightarrow>
          if n < 0 then (Rc_Error, a, s')
          else if n = 0 then (Rc_Success, a, s')
          else if payload_max < got \<or> payload_max - got < nat n then (Rc_PayloadTooLarge, a, s')
          else case out d off tot a of
            (False, a') \<Rightarrow> (Rc_Error, a', s')
          | (True, a') \<Rightarrow> chunked_loop payload_max out (got + nat n) dec' a' s')"
  by pat_completeness auto
termination
  by (relation "measure (\<lambda>(payload_max, out, got, dec, a, s). to_come s)") (auto dest: read_payload_to_come [OF sym])

declare chunked_loop.simps [simp del]

text \<open>The trailers are read behind the last chunk.\<close>

definition read_content_chunked ::
    "headers \<Rightarrow> headers \<Rightarrow> nat \<Rightarrow> 'a receiver \<Rightarrow> 'a \<Rightarrow> stream \<Rightarrow> read_content_result \<times> headers \<times> 'a \<times> stream" where
  "read_content_chunked hs trailers payload_max out a s =
     (case chunked_loop payload_max out 0 new_decoder a s of
        (Rc_Success, a', s') \<Rightarrow>
          (case parse_trailers_into trailers hs s' of
             (ok, trailers', s'') \<Rightarrow> (if ok then Rc_Success else Rc_Error, trailers', a', s''))
      | (rc, a', s') \<Rightarrow> (rc, trailers, a', s'))"

text \<open>
  Without a compression library no decompressor exists, so that a coded body is refused
  before it is read. The status is \<open>None\<close> where the code leaves it alone.
\<close>

definition create_decompressor :: "string \<Rightarrow> unit option" where
  "create_decompressor encoding = None"

definition body_status :: "read_content_result \<Rightarrow> bool \<times> int option" where
  "body_status rc =
     (case rc of Rc_Success \<Rightarrow> (True, None) | Rc_PayloadTooLarge \<Rightarrow> (False, Some 413) | Rc_Error \<Rightarrow> (False, Some 400))"

definition prepare_content_receiver :: "headers \<Rightarrow> bool \<Rightarrow> int option" where
  "prepare_content_receiver hs decompress =
     (let encoding = header_value hs ''Content-Encoding''
      in if decompress \<and> encoding \<noteq> [] \<and> create_decompressor encoding = None then Some 415 else None)"

definition read_content ::
    "headers \<Rightarrow> headers \<Rightarrow> nat \<Rightarrow> progress \<Rightarrow> 'a receiver \<Rightarrow> bool \<Rightarrow> 'a \<Rightarrow> stream \<Rightarrow>
      (bool \<times> int option) \<times> headers \<times> 'a \<times> stream" where
  "read_content hs trailers payload_max progress out decompress a s =
     (if prepare_content_receiver hs decompress \<noteq> None
      then ((False, prepare_content_receiver hs decompress), trailers, a, s)
      else if is_chunked_transfer_encoding hs then
        (case read_content_chunked hs trailers payload_max out a s of
           (rc, trailers', a', s') \<Rightarrow> (body_status rc, trailers', a', s'))
      else if \<not> has_header hs ''Content-Length'' then
        (case read_content_without_length payload_max out a s of (rc, a', s') \<Rightarrow> (body_status rc, trailers, a', s'))
      else let (len, invalid) = get_header_value_u64 hs ''Content-Length'' size_max 0
        in if invalid then ((False, Some 400), trailers, a, s)
           else if 0 < len then
             (case read_content_with_length len progress out payload_max a s of
                (rc, a', s') \<Rightarrow> (body_status rc, trailers, a', s'))
           else ((True, None), trailers, a, s))"

section \<open>Writing a body\<close>

text \<open>
  A content provider is the list of what its successive calls do: the calls it makes of the
  sink, its own result, and whether the peer was still there before the call. Behind the last
  entry the server is shutting down.
\<close>

datatype sink_call = Sink_write string | Sink_done "headers option"

record provider_step =
  peer_ok :: bool
  sink_calls :: "sink_call list"
  provider_ok :: bool

record sink =
  sink_ok :: bool
  data_available :: bool
  sink_offset :: nat

definition chunk_of :: "string \<Rightarrow> string" where
  "chunk_of payload = from_i_to_hex (length payload) @ crlf @ payload @ crlf"

text \<open>\<open>nocompressor\<close>: nothing comes out of an empty piece.\<close>

definition no_compress :: "string \<Rightarrow> string" where
  "no_compress d = d"

definition chunked_write :: "string \<Rightarrow> sink \<Rightarrow> stream \<Rightarrow> sink \<times> stream" where
  "chunked_write d k s =
     (if sink_ok k then
        (let k1 = k\<lparr>data_available := (0 < length d), sink_offset := sink_offset k + length d\<rparr>;
             payload = no_compress d
         in if payload \<noteq> [] then
              (case write_data (chunk_of payload) s of (ok, s') \<Rightarrow> (if ok then k1 else k1\<lparr>sink_ok := False\<rparr>, s'))
            else (k1, s))
      else (k, s))"

fun write_lines :: "string list \<Rightarrow> bool \<Rightarrow> stream \<Rightarrow> bool \<times> stream" where
  "write_lines [] ok s = (ok, s)"
| "write_lines (l # ls) ok s = (case write_data l s of (w, s') \<Rightarrow> write_lines ls (ok \<and> w) s')"

definition chunked_done :: "headers option \<Rightarrow> sink \<Rightarrow> stream \<Rightarrow> sink \<times> stream" where
  "chunked_done trailer k s =
     (if \<not> sink_ok k then (k, s)
      else case write_lines ([''0'' @ crlf] @ map header_line (case trailer of None \<Rightarrow> [] | Some hs \<Rightarrow> hs) @ [crlf]) True s of
        (ok, s') \<Rightarrow> (k\<lparr>data_available := False, sink_ok := ok\<rparr>, s'))"

fun chunked_call :: "sink_call \<Rightarrow> sink \<times> stream \<Rightarrow> sink \<times> stream" where
  "chunked_call (Sink_write d) (k, s) = chunked_write d k s"
| "chunked_call (Sink_done tr) (k, s) = chunked_done tr k s"

fun chunked_provider_loop :: "provider_step list \<Rightarrow> sink \<Rightarrow> stream \<Rightarrow> bool \<times> http_error \<times> stream" where
  "chunked_provider_loop [] k s = (if data_available k then (False, Err_Write, s) else (True, Err_Success, s))"
| "chunked_provider_loop (st # sts) k s =
     (if \<not> data_available k then (True, Err_Success, s)
      else if \<not> peer_ok st then (False, Err_Write, s)
      else case fold chunked_call (sink_calls st) (k, s) of
        (k', s') \<Rightarrow>
          if \<not> provider_ok st then (False, Err_Canceled, s')
          else if \<not> sink_ok k' then (False, Err_Write, s')
          else chunked_provider_loop sts k' s')"

definition write_content_chunked :: "provider_step list \<Rightarrow> stream \<Rightarrow> bool \<times> http_error \<times> stream" where
  "write_content_chunked sts s =
     chunked_provider_loop sts \<lparr>sink_ok = True, data_available = True, sink_offset = 0\<rparr> s"

text \<open>With a known length the sink only counts; \<open>done\<close> is not offered.\<close>

definition length_write :: "(nat \<Rightarrow> nat \<Rightarrow> bool) option \<Rightarrow> nat \<Rightarrow> nat \<Rightarrow> string \<Rightarrow> sink \<Rightarrow> stream \<Rightarrow> sink \<times> stream" where
  "length_write progress start len d k s =
     (if sink_ok k then
        (case write_data d s of
           (True, s') \<Rightarrow>
             (let k1 = k\<lparr>sink_offset := sink_offset k + length d\<rparr>
              in (case progress of
                    Some p \<Rightarrow> if 0 < len \<and> \<not> p (sink_offset k1 - start) len then k1\<lparr>sink_ok := False\<rparr> else k1
                  | None \<Rightarrow> k1, s'))
         | (False, s') \<Rightarrow> (k\<lparr>sink_ok := False\<rparr>, s'))
      else (k, s))"

fun length_call :: "(nat \<Rightarrow> nat \<Rightarrow> bool) option \<Rightarrow> nat \<Rightarrow> nat \<Rightarrow> sink_call \<Rightarrow> sink \<times> stream \<Rightarrow> sink \<times> stream" where
  "length_call progress start len (Sink_write d) (k, s) = length_write progress start len d k s"
| "length_call progress start len (Sink_done tr) (k, s) = (k, s)"

fun length_provider_loop ::
    "(nat \<Rightarrow> nat \<Rightarrow> bool) option \<Rightarrow> nat \<Rightarrow> nat \<Rightarrow> provider_step list \<Rightarrow> sink \<Rightarrow> stream \<Rightarrow> bool \<times> http_error \<times> stream" where
  "length_provider_loop progress start len [] k s =
     (if sink_offset k < start + len then (False, Err_Write, s) else (True, Err_Success, s))"
| "length_provider_loop progress start len (st # sts) k s =
     (if \<not> sink_offset k < start + len then (True, Err_Success, s)
      else if \<not> peer_ok st then (False, Err_Write, s)
      else case fold (length_call progress start len) (sink_calls st) (k, s) of
        (k', s') \<Rightarrow>
          if \<not> provider_ok st then (False, Err_Canceled, s')
          else if \<not> sink_ok k' then (False, Err_Write, s')
          else length_provider_loop progress start len sts k' s')"

definition write_content_with_progress ::
    "(nat \<Rightarrow> nat \<Rightarrow> bool) option \<Rightarrow> nat \<Rightarrow> nat \<Rightarrow> provider_step list \<Rightarrow> stream \<Rightarrow> bool \<times> http_error \<times> stream" where
  "write_content_with_progress progress offset len sts s =
     length_provider_loop progress offset len sts \<lparr>sink_ok = True, data_available = True, sink_offset = offset\<rparr> s"

definition write_content :: "nat \<Rightarrow> nat \<Rightarrow> provider_step list \<Rightarrow> stream \<Rightarrow> bool \<times> http_error \<times> stream" where
  "write_content offset len sts s = write_content_with_progress None offset len sts s"

text \<open>Without a length the body ends when the provider says so.\<close>

definition plain_write :: "string \<Rightarrow> sink \<Rightarrow> stream \<Rightarrow> sink \<times> stream" where
  "plain_write d k s =
     (if sink_ok k then
        (case write_data d s of
           (ok, s') \<Rightarrow> (k\<lparr>sink_offset := sink_offset k + length d, sink_ok := ok\<rparr>, s'))
      else (k, s))"

fun plain_call :: "sink_call \<Rightarrow> sink \<times> stream \<Rightarrow> sink \<times> stream" where
  "plain_call (Sink_write d) (k, s) = plain_write d k s"
| "plain_call (Sink_done tr) (k, s) = (k\<lparr>data_available := False\<rparr>, s)"

fun plain_provider_loop :: "provider_step list \<Rightarrow> sink \<Rightarrow> stream \<Rightarrow> bool \<times> stream" where
  "plain_provider_loop [] k s = (\<not> data_available k, s)"
| "plain_provider_loop (st # sts) k s =
     (if \<not> data_available k then (True, s)
      else if \<not> peer_ok st then (False, s)
      else case fold plain_call (sink_calls st) (k, s) of
        (k', s') \<Rightarrow> if \<not> provider_ok st \<or> \<not> sink_ok k' then (False, s') else plain_provider_loop sts k' s')"

definition write_content_without_length :: "provider_step list \<Rightarrow> stream \<Rightarrow> bool \<times> stream" where
  "write_content_without_length sts s =
     plain_provider_loop sts \<lparr>sink_ok = True, data_available = True, sink_offset = 0\<rparr> s"

end
