(* ===== verification/Http_Header_Props.thy ===== *)
theory Http_Header_Props
  imports Http_Header
begin

text \<open>
  A header section survives its transfer: what \<open>write_headers\<close> puts on the wire for fields
  that \<open>set_header\<close> lets through is read back by \<open>read_headers\<close> as the same fields, however
  the bytes are fragmented. The case-insensitive lookups after an insertion.
\<close>

section \<open>Characters\<close>

lemma token_char_plain: "is_token_char c \<Longrightarrow> c \<noteq> CHR '':'' \<and> c \<noteq> CHR 0x0D \<and> c \<noteq> CHR 0x0A \<and> \<not> is_space_or_tab c"
  by (auto simp: is_token_char_def is_alnum_def is_space_or_tab_def)

lemma vchar_plain: "is_field_vchar c \<Longrightarrow> c \<noteq> CHR 0x0D \<and> c \<noteq> CHR 0x0A \<and> c \<noteq> CHR 0x00 \<and> \<not> is_space_or_tab c"
  by (auto simp: is_field_vchar_def is_vchar_def is_obs_text_def is_space_or_tab_def)

lemma field_name_plain: "is_field_name k \<Longrightarrow> c \<in> set k \<Longrightarrow> c \<noteq> CHR '':'' \<and> c \<noteq> CHR 0x0D \<and> c \<noteq> CHR 0x0A"
  using token_char_plain by (auto simp: is_field_name_def is_token_def list_all_iff)

lemma field_value_ends:
  assumes "is_field_value v" "v \<noteq> []"
  shows "is_field_vchar (hd v)" "is_field_vchar (last v)"
proof -
  obtain c v' where v: "v = c # v'" using assms(2) by (cases v) auto
  have "is_field_vchar (hd v) \<and> is_field_vchar (last v)"
  proof (cases "length v' = 1")
    case True
    then obtain d where "v' = [d]" by (cases v') auto
    then show ?thesis using assms(1) v by (simp add: is_field_value_def is_field_content_def)
  next
    case False
    then show ?thesis using assms(1) v by (auto simp: is_field_value_def is_field_content_def split: if_splits)
  qed
  then show "is_field_vchar (hd v)" "is_field_vchar (last v)" by auto
qed

lemma field_value_chars:
  assumes "is_field_value v" "c \<in> set v"
  shows "is_space_or_tab c \<or> is_field_vchar c"
proof -
  obtain a v' where v: "v = a # v'" using assms(2) by (cases v) auto
  show ?thesis
  proof (cases "v' = []")
    case True
    then show ?thesis using assms v by (simp add: is_field_value_def is_field_content_def)
  next
    case False
    then have "v = a # butlast v' @ [last v]" using v by simp
    then consider "c = a" | "c = last v" | "c \<in> set (butlast v')" using assms(2) by (metis Un_iff empty_iff insert_iff list.set set_append)
    then show ?thesis
    proof cases
      case 1
      then show ?thesis using field_value_ends(1) [OF assms(1)] v by simp
    next
      case 2
      then show ?thesis using field_value_ends(2) [OF assms(1)] v by simp
    next
      case 3
      then have "2 < length v" using v by (cases v') (auto split: if_splits)
      then have "list_all (\<lambda>c. is_space_or_tab c \<or> is_field_vchar c) (butlast v')"
        using assms(1) v False by (auto simp: is_field_value_def is_field_content_def split: if_splits)
      then show ?thesis using 3 by (simp add: list_all_iff)
    qed
  qed
qed

lemma field_value_plain: "is_field_value v \<Longrightarrow> c \<in> set v \<Longrightarrow> c \<noteq> CHR 0x0D \<and> c \<noteq> CHR 0x0A \<and> c \<noteq> CHR 0x00"
  using field_value_chars [of v c] vchar_plain [of c] by (auto simp: is_space_or_tab_def)

section \<open>One line\<close>

lemma strip_right_none: "s \<noteq> [] \<Longrightarrow> \<not> is_space_or_tab (last s) \<Longrightarrow> strip_right s = s"
  by (cases s rule: rev_cases) (simp_all add: strip_right_def)

lemma parse_header_written:
  assumes "is_field_name k" "is_field_value v"
  shows "parse_header (k @ '': '' @ v) = Some (k, v)"
proof -
  have k: "\<forall>c \<in> set k. c \<noteq> CHR '':''" "k \<noteq> []"
    using field_name_plain [OF assms(1)] assms(1) by (auto simp: is_field_name_def is_token_def)
  have l: "\<exists>r. strip_right (k @ '': '' @ v) = k @ CHR '':'' # r \<and> dropWhile is_space_or_tab r = v"
  proof (cases "v = []")
    case True
    then show ?thesis by (intro exI [of _ "[]"]) (simp add: strip_right_def is_space_or_tab_def)
  next
    case False
    have "\<not> is_space_or_tab (last v)" "\<not> is_space_or_tab (hd v)"
      using field_value_ends [OF assms(2) False] vchar_plain by auto
    then have "strip_right (k @ '': '' @ v) = k @ '': '' @ v" "dropWhile is_space_or_tab ('' '' @ v) = v"
      using False by (auto simp: strip_right_none is_space_or_tab_def dropWhile_eq_self_iff)
    then show ?thesis by (intro exI [of _ "'' '' @ v"]) simp
  qed
  then obtain r where r: "strip_right (k @ '': '' @ v) = k @ CHR '':'' # r" "dropWhile is_space_or_tab r = v" by blast
  have "takeWhile (\<lambda>c. c \<noteq> CHR '':'') (k @ CHR '':'' # r) = k" "dropWhile (\<lambda>c. c \<noteq> CHR '':'') (k @ CHR '':'' # r) = CHR '':'' # r"
    using k(1) by auto
  then show ?thesis unfolding parse_header_def r(1) Let_def using assms k(2) r(2) by simp
qed

text \<open>A field that fits in a line.\<close>

definition field_fits :: "string \<times> string \<Rightarrow> bool" where
  "field_fits kv \<longleftrightarrow> is_field_name (fst kv) \<and> is_field_value (snd kv) \<and>
     length (fst kv) + length (snd kv) + 4 \<le> header_max_length"

lemma field_line_found:
  assumes "field_fits kv"
  shows "next_line max_line_length b (CHR 0x00) (header_line kv @ t) = (True, header_line kv, t)"
proof -
  have "\<forall>c \<in> set (fst kv @ '': '' @ snd kv). c \<noteq> CHR 0x0D \<and> c \<noteq> CHR 0x0A"
    using assms field_name_plain field_value_plain by (fastforce simp: field_fits_def)
  moreover have "length (fst kv @ '': '' @ snd kv) + 2 \<le> max_line_length"
    using assms by (simp add: field_fits_def header_max_length_def max_line_length_def)
  ultimately show ?thesis
    using next_line_first [of "fst kv @ '': '' @ snd kv" max_line_length b t] by (simp add: header_line_def)
qed

lemma blank_line_found: "next_line max_line_length b (CHR 0x00) (crlf @ t) = (True, crlf, t)"
  using next_line_first [of "[]" max_line_length b t] by (simp add: max_line_length_def)

lemma end_with_crlf_append: "lr_ptr r = l @ crlf \<Longrightarrow> end_with_crlf r"
  by (simp add: end_with_crlf_def lr_size_ptr crlf_def)

lemma getline_fixed_size: "getline r s = (ok, r', s') \<Longrightarrow> fixed_size r' = fixed_size r"
proof -
  have "getline_loop i p r s = (ok, r', s') \<Longrightarrow> fixed_size r' = fixed_size r" for i p r s
  proof (induction i p r s rule: getline_loop.induct)
    case (1 i p r s)
    obtain n d s1 where r: "sock_read 1 s = (n, d, s1)" by (metis prod_cases3)
    have a: "fixed_size (lr_append c r) = fixed_size r" for c by (simp add: lr_append_def)
    show ?case
    proof (cases "max_line_length \<le> lr_size r \<or> n \<le> 0 \<or> p = CHR 0x0D \<and> hd d = CHR 0x0A")
      case True
      then show ?thesis using "1.prems" r a unfolding getline_loop.simps [of i p r s]
        by (auto simp: Let_def split: if_splits)
    next
      case False
      then have "getline_loop (i + 1) (hd d) (lr_append (hd d) r) s1 = (ok, r', s')"
        using "1.prems" r unfolding getline_loop.simps [of i p r s] by (auto simp: Let_def)
      then show ?thesis using "1.IH" [OF _ refl, of n "(d, s1)" d s1 "hd d" "lr_append (hd d) r"] r False a by auto
    qed
  qed
  from this [of 0 "CHR 0x00" "r\<lparr>fixed_used := [], growable := []\<rparr>" s]
  show "getline r s = (ok, r', s') \<Longrightarrow> fixed_size r' = fixed_size r" by (simp add: getline_def)
qed

section \<open>The section\<close>

lemma read_headers_loop_written:
  assumes "plain s" "content s = concat (map header_line hs) @ crlf @ rest" "0 < fixed_size r"
    "list_all field_fits hs" "cnt + length hs \<le> header_max_count"
  shows "\<exists>s'. read_headers_loop cnt r acc s = (True, acc @ hs, s') \<and> plain s' \<and> content s' = rest"
  using assms
proof (induction hs arbitrary: cnt r acc s)
  case Nil
  obtain r' s' where g: "getline r s = (True, r', s')" "plain s'" "content s' = rest" "lr_ptr r' = crlf"
    using getline_next [OF Nil.prems(1,3)] Nil.prems(2) by (auto simp: blank_line_found)
  have "end_with_crlf r'" using end_with_crlf_append [of r' "[]"] g(4) by simp
  then show ?case using g by (simp add: read_headers_loop.simps [of cnt r acc s] lr_size_ptr crlf_def)
next
  case (Cons kv hs)
  have f: "field_fits kv" using Cons.prems(4) by simp
  let ?t = "concat (map header_line hs) @ crlf @ rest"
  obtain r' s' where g: "getline r s = (True, r', s')" "plain s'" "content s' = ?t" "lr_ptr r' = header_line kv"
    using getline_next [OF Cons.prems(1,3)] Cons.prems(2) by (auto simp: field_line_found [OF f])
  have l: "lr_size r' = length (fst kv) + length (snd kv) + 4"
    using g(4) by (simp add: lr_size_ptr header_line_def crlf_def)
  have e: "end_with_crlf r'"
    using g(4) end_with_crlf_append [of r' "fst kv @ '': '' @ snd kv"] by (simp add: header_line_def)
  have "take (lr_size r' - 2) (lr_ptr r') = fst kv @ '': '' @ snd kv"
    unfolding l g(4) by (simp add: header_line_def crlf_def)
  then have p: "parse_header (take (lr_size r' - 2) (lr_ptr r')) = Some kv"
    using parse_header_written f by (simp add: field_fits_def)
  have "read_headers_loop cnt r acc s = read_headers_loop (cnt + 1) r' (acc @ [kv]) s'"
    using g(1) e l p f Cons.prems(5)
    by (simp add: read_headers_loop.simps [of cnt r acc s] field_fits_def)
  moreover have "0 < fixed_size r'" using getline_fixed_size [OF g(1)] Cons.prems(3) by simp
  ultimately show ?case using Cons.IH [OF g(2,3), of r' "cnt + 1" "acc @ [kv]"] Cons.prems(4,5) by auto
qed



section \<open>Lookups after an insertion\<close>

lemma equal_range_append: "equal_range (hs @ ks) key = equal_range hs key @ equal_range ks key"
  by (simp add: equal_range_def)

lemma equal_range_ci: "equal_ci a b \<Longrightarrow> equal_range hs a = equal_range hs b"
  by (simp add: equal_range_def equal_ci_iff)

lemma c_str_field_value: "is_field_value v \<Longrightarrow> c_str v = v"
  using field_value_plain [of v] by (simp add: c_str_def)

text \<open>
  Setting a header field. A valid field can be read under any spelling of its name (other
  than the four reserved names) and other names are not affected; a field whose name or value
  contains a character outside the grammar, a line break for instance, is dropped.
\<close>

theorem set_then_get_header:
  assumes "\<not> is_prohibited_header_name q"
  shows "get_header_value (set_header hs k v) q def 0 =
    (if is_field_name k \<and> is_field_value v \<and> equal_ci k q \<and> equal_range hs q = [] then Some v
     else get_header_value hs q def 0)"
proof (cases "is_field_name k \<and> is_field_value v")
  case True
  then show ?thesis
    using assms c_str_field_value [of v]
    by (cases "equal_range hs q") (auto simp: get_header_value_def set_header_def equal_range_append equal_range_def)
next
  case False
  then show ?thesis by (auto simp: set_header_def)
qed

theorem set_then_get_header_witness:
  "get_header_value (set_header [] ''Content-Type'' ''text/plain'') ''content-type'' [] 0 = Some ''text/plain''"
proof -
  have "\<not> is_prohibited_header_name ''content-type''" by code_simp
  from set_then_get_header [OF this, of "[]" "''Content-Type''" "''text/plain''" "[]"] show ?thesis
    by (simp add: equal_range_def is_field_name_def is_token_def is_token_char_def is_alnum_def is_field_value_def
        is_field_content_def is_field_vchar_def is_vchar_def equal_ci_def to_lower_c_def lower_table_def)
qed

end
