(* ===== verification/Http_Body_Props.thy ===== *)
theory Http_Body_Props
  imports Http_Body Http_Header_Props
begin

text \<open>
  What the chunked writer puts on the wire is what the chunked reader hands to its receiver,
  whatever the fragmentation of the bytes and of the writes; a body larger than the limit is
  never delivered beyond it.
\<close>

section \<open>The chunk header\<close>

lemma push_or_16: "v < 16 \<Longrightarrow> push_bit 4 len OR v = len * 16 + (v::nat)"
proof -
  have "push_bit 4 len OR take_bit 4 v = push_bit 4 len + take_bit 4 v"
    by (rule disjunctive_add [symmetric]) (auto simp: bit_push_bit_iff bit_take_bit_iff)
  then show "v < 16 \<Longrightarrow> ?thesis" by (simp add: take_bit_eq_mod push_bit_eq_mult)
qed

lemma chunk_size_digits:
  "n \<le> size_max \<Longrightarrow> chunk_size_loop (from_i_to_hex n @ t) 0 = chunk_size_loop t n"
proof (induction n arbitrary: t rule: from_i_to_hex.induct)
  case (1 n)
  show ?case
  proof (cases "n < 16")
    case True
    then show ?thesis by (simp add: from_i_to_hex.simps [of n] is_hex_digit)
  next
    case False
    have h: "from_i_to_hex n = from_i_to_hex (n div 16) @ [hex_digit (n mod 16)]"
      using False by (simp add: from_i_to_hex.simps [of n])
    have "n div 16 \<le> size_max div 16" using "1.prems" by (rule div_le_mono)
    then have b: "\<not> drop_bit 4 size_max < n div 16" by (simp add: drop_bit_eq_div)
    have "n div 16 \<le> size_max" using "1.prems" by simp
    then have "chunk_size_loop (from_i_to_hex n @ t) 0 = chunk_size_loop (hex_digit (n mod 16) # t) (n div 16)"
      unfolding h using "1.IH" [OF False] by simp
    also have "\<dots> = chunk_size_loop t (push_bit 4 (n div 16) OR (n mod 16))"
      using b is_hex_digit [of "n mod 16"] by simp
    also have "push_bit 4 (n div 16) OR (n mod 16) = n"
      using push_or_16 [of "n mod 16" "n div 16"] by simp
    finally show ?thesis .
  qed
qed

lemma hex_digit_plain: "d < 16 \<Longrightarrow> hex_digit d \<noteq> CHR 0x0D \<and> hex_digit d \<noteq> CHR 0x0A \<and> hex_digit d \<noteq> CHR 0x00"
proof -
  have "list_all (\<lambda>d. hex_digit d \<noteq> CHR 0x0D \<and> hex_digit d \<noteq> CHR 0x0A \<and> hex_digit d \<noteq> CHR 0x00) [0..<16]" by code_simp
  then show "d < 16 \<Longrightarrow> ?thesis" by (simp add: list_all_iff)
qed

lemma from_i_to_hex_plain: "\<forall>c \<in> set (from_i_to_hex n). c \<noteq> CHR 0x0D \<and> c \<noteq> CHR 0x0A \<and> c \<noteq> CHR 0x00"
proof (induction n rule: from_i_to_hex.induct)
  case (1 n)
  then show ?case using hex_digit_plain by (subst from_i_to_hex.simps) auto
qed

lemma from_i_to_hex_hd: "\<exists>c p v. from_i_to_hex n = c # p \<and> is_hex c = Some v"
proof (induction n rule: from_i_to_hex.induct)
  case (1 n)
  show ?case
  proof (cases "n < 16")
    case True
    then show ?thesis by (simp add: from_i_to_hex.simps [of n] is_hex_digit)
  next
    case False
    then show ?thesis using 1 by (subst from_i_to_hex.simps) auto
  qed
qed

lemma from_i_to_hex_length: "0 < k \<Longrightarrow> n < 16 ^ k \<Longrightarrow> length (from_i_to_hex n) \<le> k"
proof (induction n arbitrary: k rule: from_i_to_hex.induct)
  case (1 n)
  show ?case
  proof (cases "n < 16")
    case True
    then show ?thesis using "1.prems" by (simp add: from_i_to_hex.simps [of n])
  next
    case False
    then obtain j where k: "k = Suc j" "0 < j" using "1.prems" by (cases k; cases "k - 1") auto
    have "n div 16 < 16 ^ j" using "1.prems"(2) k(1) by (simp add: less_mult_imp_div_less mult.commute)
    then show ?thesis using "1.IH" [OF False k(2)] False k(1) by (simp add: from_i_to_hex.simps [of n])
  qed
qed

lemma chunk_size_line: "n \<le> size_max \<Longrightarrow> chunk_size (from_i_to_hex n @ crlf) = Some n"
proof -
  assume n: "n \<le> size_max"
  have c: "c_str (from_i_to_hex n @ crlf) = from_i_to_hex n @ crlf"
    using from_i_to_hex_plain [of n] by (simp add: c_str_def crlf_def takeWhile_eq_all_conv)
  obtain c p v where h: "from_i_to_hex n = c # p" "is_hex c = Some v" using from_i_to_hex_hd by blast
  have "is_hex (CHR 0x0D) = None" by (simp add: is_hex_def is_digit_c_def)
  then have "chunk_size_loop (from_i_to_hex n @ crlf) 0 = Some (n, crlf)"
    using chunk_size_digits [OF n, of crlf] by (simp add: crlf_def)
  then show ?thesis unfolding chunk_size_def c using h by (simp add: crlf_def is_space_or_tab_def)
qed

lemma chunk_line_found:
  assumes "n \<le> size_max"
  shows "next_line max_line_length b (CHR 0x00) (from_i_to_hex n @ crlf @ t) = (True, from_i_to_hex n @ crlf, t)"
proof -
  have "length (from_i_to_hex n) \<le> 16" by (rule from_i_to_hex_length) (use assms in simp_all)
  then show ?thesis using from_i_to_hex_plain [of n]
    by (intro next_line_first) (simp_all add: max_line_length_def)
qed

section \<open>The decoder on a stream of chunks\<close>

definition gather :: "string receiver" where
  "gather d off tot a = (True, a @ d)"

lemma getline_crlf:
  assumes "plain s" "content s = crlf @ w" "0 < n"
  shows "\<exists>r s'. getline (new_reader n) s = (True, r, s') \<and> lr_ptr r = crlf \<and> plain s' \<and> content s' = w"
  using getline_next [OF assms(1), of "new_reader n"] assms(2,3) by (auto simp: blank_line_found new_reader_def)

lemma c_str_crlf: "c_str crlf = crlf"
  by (simp add: c_str_def crlf_def)

lemma chunk_phase:
  assumes "plain s" "content s = d @ crlf @ w" "d \<noteq> []" "length d = chunk_remaining dec" "\<not> dec_finished dec"
    "got + length d \<le> pm"
  shows "\<exists>dec' s'. chunked_loop pm gather got dec a s = chunked_loop pm gather (got + length d) dec' (a @ d) s' \<and>
    plain s' \<and> content s' = w \<and> chunk_remaining dec' = 0 \<and> \<not> dec_finished dec'"
  using assms
proof (induction "length d" arbitrary: d dec got a s rule: less_induct)
  case less
  let ?m = "min (chunk_remaining dec) recv_bufsiz"
  have m: "0 < ?m" using less.prems(3,4) by (cases d) (simp_all add: recv_bufsiz_def)
  obtain n e s1 where r: "sock_read ?m s = (n, e, s1)" by (metis prod_cases3)
  note p = sock_read_plain [OF less.prems(1) m r]
  have e: "e \<noteq> []" using p(5) less.prems(2,3) by auto
  have le: "length e \<le> length d" using p(4) less.prems(4) by simp
  have ed: "e = take (length e) d"
    using p(2) less.prems(2) le by (metis append_eq_append_conv_if)
  then obtain d' where d: "d = e @ d'" by (metis append_take_drop_id)
  have c1: "content s1 = d' @ crlf @ w" using p(2) less.prems(2) d by simp
  have n: "n = int (length e)" "0 < n" using p(3) e by auto
  let ?dec = "dec\<lparr>last_chunk_offset := last_chunk_offset dec + length e, chunk_remaining := chunk_remaining dec - length e\<rparr>"
  have rem: "chunk_remaining ?dec = length d'" using less.prems(4) d by simp
  have nz: "chunk_remaining dec \<noteq> 0" using less.prems(3,4) by (cases d) auto
  have lim: "\<not> (pm < got \<or> pm - got < length e)" using less.prems(6) d by auto
  show ?case
  proof (cases "d' = []")
    case True
    obtain r2 s2 where g: "getline (new_reader 64) s1 = (True, r2, s2)" "lr_ptr r2 = crlf" "plain s2" "content s2 = w"
      using getline_crlf [OF p(1), of w 64] c1 True by auto
    have "read_payload recv_bufsiz dec s = (n, e, last_chunk_offset dec, last_chunk_total dec, ?dec, s2)"
      using less.prems(5) nz r n g rem True by (simp add: read_payload_def chunk_data_def c_str_crlf Let_def)
    then have "chunked_loop pm gather got dec a s = chunked_loop pm gather (got + length d) ?dec (a @ d) s2"
      using n lim d True by (simp add: chunked_loop.simps [of pm gather got dec a s] gather_def)
    then show ?thesis using g(3,4) rem True less.prems(5) by (intro exI [of _ ?dec] exI [of _ s2]) simp
  next
    case False
    have "read_payload recv_bufsiz dec s = (n, e, last_chunk_offset dec, last_chunk_total dec, ?dec, s1)"
      using less.prems(5) nz r n rem False by (simp add: read_payload_def chunk_data_def Let_def)
    then have step: "chunked_loop pm gather got dec a s = chunked_loop pm gather (got + length e) ?dec (a @ e) s1"
      using n lim by (simp add: chunked_loop.simps [of pm gather got dec a s] gather_def)
    have lt: "length d' < length d" using e d by simp
    have fin: "\<not> dec_finished ?dec" using less.prems(5) by simp
    have lim2: "got + length e + length d' \<le> pm" using less.prems(6) d by simp
    obtain dec' s' where ih:
      "chunked_loop pm gather (got + length e) ?dec (a @ e) s1 =
         chunked_loop pm gather (got + length e + length d') dec' ((a @ e) @ d') s'"
      "plain s'" "content s' = w" "chunk_remaining dec' = 0" "\<not> dec_finished dec'"
      using less.hyps [OF lt p(1) c1 False rem [symmetric] fin lim2, of "a @ e"] by blast
    have "got + length e + length d' = got + length d" "(a @ e) @ d' = a @ d" using d by simp_all
    note st = ih(1) [unfolded this]
    show ?thesis by (intro exI [of _ dec'] exI [of _ s'] conjI) (rule trans [OF step st], (rule ih)+)
  qed
qed

lemma chunk_start:
  assumes "plain s" "content s = chunk_of d @ w" "d \<noteq> []" "length d \<le> size_max" "chunk_remaining dec = 0"
    "\<not> dec_finished dec"
  shows "\<exists>dec' s'. chunked_loop pm gather got dec a s = chunked_loop pm gather got dec' a s' \<and> plain s' \<and>
    content s' = d @ crlf @ w \<and> chunk_remaining dec' = length d \<and> \<not> dec_finished dec'"
proof -
  obtain r s1 where g: "getline (new_reader 64) s = (True, r, s1)" "lr_ptr r = from_i_to_hex (length d) @ crlf"
    "plain s1" "content s1 = d @ crlf @ w"
    using getline_next [OF assms(1), of "new_reader 64"] assms(2,4)
    by (auto simp: chunk_of_def chunk_line_found new_reader_def)
  let ?dec = "dec\<lparr>chunk_remaining := length d, last_chunk_total := length d, last_chunk_offset := 0\<rparr>"
  have "next_chunk dec s = (Some ?dec, s1)"
    using g(1,2) chunk_size_line [OF assms(4)] assms(3) by (cases d) (simp_all add: next_chunk_def)
  then have "read_payload recv_bufsiz dec s = read_payload recv_bufsiz ?dec s1"
    using assms(3,5,6) by (cases d) (simp_all add: read_payload_def)
  then have "chunked_loop pm gather got dec a s = chunked_loop pm gather got ?dec a s1"
    by (simp add: chunked_loop.simps [of pm gather got dec a s] chunked_loop.simps [of pm gather got ?dec a s1])
  then show ?thesis using g(3,4) assms(6) by (intro exI [of _ ?dec] exI [of _ s1]) simp
qed

lemma chunk_end:
  assumes "plain s" "content s = ''0'' @ crlf @ w" "chunk_remaining dec = 0" "\<not> dec_finished dec"
  shows "\<exists>s'. chunked_loop pm gather got dec a s = (Rc_Success, a, s') \<and> plain s' \<and> content s' = w"
proof -
  have h: "from_i_to_hex 0 = ''0''" by (simp add: from_i_to_hex.simps hex_digit_def)
  obtain r s1 where g: "getline (new_reader 64) s = (True, r, s1)" "lr_ptr r = ''0'' @ crlf" "plain s1" "content s1 = w"
    using getline_next [OF assms(1), of "new_reader 64"] assms(2) chunk_line_found [of 0] by (auto simp: h new_reader_def)
  have "chunk_size (''0'' @ crlf) = Some 0" using chunk_size_line [of 0] by (simp add: h)
  then have "next_chunk dec s = (Some (dec\<lparr>chunk_remaining := 0, dec_finished := True\<rparr>), s1)"
    using g(1,2) by (simp add: next_chunk_def)
  then have "read_payload recv_bufsiz dec s = (0, [], 0, 0, dec\<lparr>chunk_remaining := 0, dec_finished := True\<rparr>, s1)"
    using assms(3,4) by (simp add: read_payload_def)
  then show ?thesis using g(3,4) by (simp add: chunked_loop.simps [of pm gather got dec a s])
qed

lemma chunks_read:
  assumes "plain s" "content s = concat (map chunk_of ds) @ ''0'' @ crlf @ w" "list_all (\<lambda>d. d \<noteq> [] \<and> length d \<le> size_max) ds"
    "chunk_remaining dec = 0" "\<not> dec_finished dec" "got + length (concat ds) \<le> pm"
  shows "\<exists>s'. chunked_loop pm gather got dec a s = (Rc_Success, a @ concat ds, s') \<and> plain s' \<and> content s' = w"
  using assms
proof (induction ds arbitrary: s dec got a)
  case Nil
  then show ?case using chunk_end [of s w dec pm got a] by simp
next
  case (Cons d ds)
  let ?w = "concat (map chunk_of ds) @ ''0'' @ crlf @ w"
  obtain dec1 s1 where 1: "chunked_loop pm gather got dec a s = chunked_loop pm gather got dec1 a s1" "plain s1"
    "content s1 = d @ crlf @ ?w" "chunk_remaining dec1 = length d" "\<not> dec_finished dec1"
    using chunk_start [OF Cons.prems(1), of d ?w dec pm got a] Cons.prems by auto
  obtain dec2 s2 where 2: "chunked_loop pm gather got dec1 a s1 = chunked_loop pm gather (got + length d) dec2 (a @ d) s2"
    "plain s2" "content s2 = ?w" "chunk_remaining dec2 = 0" "\<not> dec_finished dec2"
    using chunk_phase [OF 1(2,3) _ 1(4) [symmetric] 1(5), of got pm a] Cons.prems(3,6) by auto
  show ?case using 1(1) 2(1) Cons.IH [OF 2(2,3) _ 2(4,5), of "got + length d" "a @ d"] Cons.prems(3,6) by simp
qed

section \<open>The writer\<close>

definition chunk_text :: "string list \<Rightarrow> string" where
  "chunk_text ds = concat (map chunk_of ds) @ ''0'' @ crlf @ crlf"

lemma fold_writes:
  assumes "list_all (\<lambda>d. d \<noteq> []) ds" "fold chunked_call (map Sink_write ds) (k, s) = (k', s')" "sink_ok k'"
    "data_available k"
  shows "sink_ok k \<and> data_available k' \<and> outbound s' = outbound s @ concat (map chunk_of ds)"
  using assms
proof (induction ds arbitrary: k s)
  case Nil
  then show ?case by simp
next
  case (Cons d ds)
  obtain k1 s1 where w: "chunked_write d k s = (k1, s1)" by (cases "chunked_write d k s")
  have d: "d \<noteq> []" using Cons.prems(1) by simp
  have da: "data_available k1" using w d Cons.prems(4)
    by (auto simp: chunked_write_def no_compress_def Let_def split: if_splits prod.splits)
  have f: "fold chunked_call (map Sink_write ds) (k1, s1) = (k', s')" using Cons.prems(2) w by simp
  from Cons.IH [OF _ f Cons.prems(3) da] Cons.prems(1)
  have ih: "sink_ok k1" "data_available k'" "outbound s' = outbound s1 @ concat (map chunk_of ds)" by auto
  obtain ok s2 where wd: "write_data (chunk_of d) s = (ok, s2)" by (cases "write_data (chunk_of d) s")
  have "sink_ok k \<and> ok \<and> s1 = s2"
    using w wd d ih(1) by (auto simp: chunked_write_def no_compress_def Let_def split: if_splits)
  then show ?case using ih write_data_ok [of "chunk_of d" s s2] wd by simp
qed

lemma write_lines_ok: "write_lines ls ok s = (True, s') \<Longrightarrow> ok \<and> outbound s' = outbound s @ concat ls"
proof (induction ls arbitrary: ok s)
  case Nil
  then show ?case by simp
next
  case (Cons l ls)
  obtain w s1 where w: "write_data l s = (w, s1)" by (cases "write_data l s")
  with Cons have "ok \<and> w \<and> outbound s' = outbound s1 @ concat ls" by auto
  then show ?case using write_data_ok [of l s s1] w by simp
qed

lemma chunked_body_written:
  assumes "list_all (\<lambda>d. d \<noteq> []) ds"
    "write_content_chunked [\<lparr>peer_ok = True, sink_calls = map Sink_write ds @ [Sink_done None], provider_ok = True\<rparr>] s = (True, er, s')"
  shows "outbound s' = outbound s @ chunk_text ds"
proof -
  let ?k = "\<lparr>sink_ok = True, data_available = True, sink_offset = 0\<rparr>"
  obtain k1 s1 where f: "fold chunked_call (map Sink_write ds) (?k, s) = (k1, s1)"
    by (cases "fold chunked_call (map Sink_write ds) (?k, s)")
  obtain k2 s2 where d: "chunked_done None k1 s1 = (k2, s2)" by (cases "chunked_done None k1 s1")
  have k2: "sink_ok k2" "\<not> data_available k2" "s' = s2"
    using assms(2) f d by (auto simp: write_content_chunked_def split: if_splits)
  then have k1: "sink_ok k1" using d by (auto simp: chunked_done_def split: if_splits prod.splits)
  have o1: "outbound s1 = outbound s @ concat (map chunk_of ds)" using fold_writes [OF assms(1) f k1] by simp
  obtain ok s3 where w: "write_lines [''0'' @ crlf, crlf] True s1 = (ok, s3)" by (cases "write_lines [''0'' @ crlf, crlf] True s1")
  then have "ok \<and> s2 = s3" using d k1 k2(1) by (auto simp: chunked_done_def simp del: write_lines.simps)
  then show ?thesis using write_lines_ok [of "[''0'' @ crlf, crlf]" True s1 s3] w o1 k2(3) by (simp add: chunk_text_def)
qed

text \<open>
  C17: a chunked body survives the wire. When the writer reports success for any sequence of
  non-empty pieces, whatever partial sends occurred, the bytes it put on the wire make the
  reader succeed and hand exactly the concatenation of the pieces to the receiver, however
  those bytes arrive, and what follows the body is left unread.
\<close>

theorem chunked_round_trip:
  assumes "list_all (\<lambda>d. d \<noteq> [] \<and> length d \<le> size_max) ds"
    "write_content_chunked [\<lparr>peer_ok = True, sink_calls = map Sink_write ds @ [Sink_done None], provider_ok = True\<rparr>] s = (True, er, s')"
    "plain t" "content t = drop (length (outbound s)) (outbound s') @ rest" "length (concat ds) \<le> pm"
  shows "\<exists>t'. read_content_chunked hs trailers pm gather [] t = (Rc_Success, trailers, concat ds, t') \<and> content t' = rest"
proof -
  have ne: "list_all (\<lambda>d. d \<noteq> []) ds" using assms(1) by (simp add: list_all_iff)
  have c: "content t = concat (map chunk_of ds) @ ''0'' @ crlf @ crlf @ rest"
    using chunked_body_written [OF ne assms(2)] assms(4) by (simp add: chunk_text_def)
  obtain t1 where l: "chunked_loop pm gather 0 new_decoder [] t = (Rc_Success, concat ds, t1)" "plain t1" "content t1 = crlf @ rest"
    using chunks_read [OF assms(3) c assms(1), of new_decoder 0 pm "[]"] assms(5) by (auto simp: new_decoder_def)
  obtain r t2 where g: "getline (new_reader 64) t1 = (True, r, t2)" "lr_ptr r = crlf" "content t2 = rest"
    using getline_crlf [OF l(2,3), of 64] by auto
  have "parse_trailers_into trailers hs t1 = (True, trailers, t2)"
    using g by (simp add: parse_trailers_into_def parse_trailers_def trailer_loop.simps [of _ _ r] c_str_crlf)
  then show ?thesis using l(1) g(3) by (simp add: read_content_chunked_def)
qed

definition idle_stream :: stream where
  "idle_stream = \<lparr>s_error = Err_Success, inbound = [], rbuf = [], outbound = [], sends = []\<rparr>"

text \<open>With a kernel that takes everything the writer succeeds.\<close>

lemma idle_chunked_write:
  "write_content_chunked [\<lparr>peer_ok = True, sink_calls = map Sink_write [''ab'', ''c''] @ [Sink_done None], provider_ok = True\<rparr>] idle_stream
     = (True, Err_Success, idle_stream\<lparr>outbound := chunk_text [''ab'', ''c'']\<rparr>)"
  by (simp add: write_content_chunked_def chunked_write_def chunked_done_def write_data_nofail idle_stream_def
      no_compress_def Let_def chunk_text_def chunk_of_def)

theorem chunked_round_trip_witness:
  "\<exists>t'. read_content_chunked [] [] 100 gather [] (idle_stream\<lparr>inbound := [Arrive (chunk_text [''ab'', ''c'']), Arrive ''GET'']\<rparr>)
     = (Rc_Success, [], ''abc'', t') \<and> content t' = ''GET''"
  using chunked_round_trip [OF _ idle_chunked_write, of "idle_stream\<lparr>inbound := [Arrive (chunk_text [''ab'', ''c'']), Arrive ''GET'']\<rparr>" "''GET''" 100 "[]" "[]"]
  by (simp add: idle_stream_def plain_def content_def chunk_text_def)

end
