(* ===== verification/Http_Message.thy ===== *)
theory Http_Message
  imports Http_Body
begin

text \<open>
  \<open>httplib::Request\<close> and \<open>httplib::Response\<close>: the members the server works with and the member
  functions on them; the socket addresses other than the peer's, the regular expression matches and
  the client's callbacks are left out. A multimap of parameters or trailers is read by exact key, the header
  map by the case-insensitive one. The streaming members of a response are a description of
  the content (\<open>None\<close> is the null provider).
\<close>

section \<open>The records\<close>

type_synonym params = "(string \<times> string) list"

record form_data =
  fd_name :: string
  fd_content :: string
  fd_filename :: string
  fd_content_type :: string
  fd_headers :: headers

definition empty_form_data :: form_data where
  "empty_form_data = \<lparr>fd_name = [], fd_content = [], fd_filename = [], fd_content_type = [], fd_headers = []\<rparr>"

text \<open>The fields and files of a form, each in the order of their arrival.\<close>

record form =
  fm_fields :: "form_data list"
  fm_files :: "form_data list"

definition empty_form :: form where
  "empty_form = \<lparr>fm_fields = [], fm_files = []\<rparr>"

record http_request =
  rq_method :: string
  rq_path :: string
  rq_matched_route :: string
  rq_params :: params
  rq_headers :: headers
  rq_trailers :: headers
  rq_body :: string
  rq_remote_addr :: string
  rq_version :: string
  rq_target :: string
  rq_form :: form
  rq_ranges :: "(int \<times> int) list"
  rq_path_params :: "(string \<times> string) list"
  rq_accept :: "string list"
  rq_body_consumed :: bool

definition new_request :: http_request where
  "new_request =
     \<lparr>rq_method = [], rq_path = [], rq_matched_route = [], rq_params = [], rq_headers = [], rq_trailers = [],
      rq_body = [], rq_remote_addr = [], rq_version = [], rq_target = [], rq_form = empty_form, rq_ranges = [], rq_path_params = [],
      rq_accept = [], rq_body_consumed = False\<rparr>"

record http_response =
  rs_version :: string
  rs_status :: int
  rs_headers :: headers
  rs_trailers :: headers
  rs_body :: string
  rs_content_length :: nat
  rs_provider :: "(nat \<Rightarrow> nat \<Rightarrow> provider_step list) option"
  rs_chunked :: bool

definition new_response :: http_response where
  "new_response =
     \<lparr>rs_version = [], rs_status = - 1, rs_headers = [], rs_trailers = [], rs_body = [], rs_content_length = 0,
      rs_provider = None, rs_chunked = False\<rparr>"

section \<open>Request\<close>

definition rq_has_header :: "http_request \<Rightarrow> string \<Rightarrow> bool" where
  "rq_has_header r key = has_header (rq_headers r) key"

definition rq_header :: "http_request \<Rightarrow> string \<Rightarrow> string" where
  "rq_header r key = header_value (rq_headers r) key"

definition rq_header_u64 :: "http_request \<Rightarrow> string \<Rightarrow> nat" where
  "rq_header_u64 r key = fst (get_header_value_u64 (rq_headers r) key 0 0)"

definition rq_header_count :: "http_request \<Rightarrow> string \<Rightarrow> nat" where
  "rq_header_count r key = get_header_value_count (rq_headers r) key"

definition rq_set_header :: "string \<Rightarrow> string \<Rightarrow> http_request \<Rightarrow> http_request" where
  "rq_set_header key val r = r\<lparr>rq_headers := set_header (rq_headers r) key val\<rparr>"

definition rq_has_trailer :: "http_request \<Rightarrow> string \<Rightarrow> bool" where
  "rq_has_trailer r key \<longleftrightarrow> equal_range (rq_trailers r) key \<noteq> []"

definition rq_trailer :: "http_request \<Rightarrow> string \<Rightarrow> nat \<Rightarrow> string" where
  "rq_trailer r key i = get_multimap_value (rq_trailers r) key i"

definition rq_trailer_count :: "http_request \<Rightarrow> string \<Rightarrow> nat" where
  "rq_trailer_count r key = length (equal_range (rq_trailers r) key)"

definition param_range :: "params \<Rightarrow> string \<Rightarrow> string list" where
  "param_range ps key = map snd (filter (\<lambda>kv. fst kv = key) ps)"

definition rq_has_param :: "http_request \<Rightarrow> string \<Rightarrow> bool" where
  "rq_has_param r key \<longleftrightarrow> param_range (rq_params r) key \<noteq> []"

definition rq_param :: "http_request \<Rightarrow> string \<Rightarrow> nat \<Rightarrow> string" where
  "rq_param r key i = (let vs = param_range (rq_params r) key in if i < length vs then vs ! i else [])"

definition rq_param_values :: "http_request \<Rightarrow> string \<Rightarrow> string list" where
  "rq_param_values r key = param_range (rq_params r) key"

definition rq_param_count :: "http_request \<Rightarrow> string \<Rightarrow> nat" where
  "rq_param_count r key = length (param_range (rq_params r) key)"

text \<open>The media type of a content type, and its parameters.\<close>

definition media_param :: "string \<Rightarrow> (string \<times> string) list" where
  "media_param p =
     (case split p (CHR ''='') None of
        [] \<Rightarrow> []
      | key # vals \<Rightarrow> [(trim_copy key, trim_double_quotes_copy (if vals = [] then [] else last vals))])"

definition extract_media_type :: "string \<Rightarrow> string \<times> (string \<times> string) list" where
  "extract_media_type content_type =
     (case str_find content_type '';'' 0 of
        None \<Rightarrow> (trim_copy content_type, [])
      | Some pos \<Rightarrow>
          (trim_copy (take pos content_type),
           concat (map media_param (split (drop (pos + 1) content_type) (CHR '';'') None))))"

definition media_type :: "string \<Rightarrow> string" where
  "media_type content_type = fst (extract_media_type content_type)"

definition is_multipart_form_data :: "http_request \<Rightarrow> bool" where
  "is_multipart_form_data r \<longleftrightarrow> media_type (rq_header r ''Content-Type'') = ''multipart/form-data''"

section \<open>Response\<close>

definition rs_has_header :: "http_response \<Rightarrow> string \<Rightarrow> bool" where
  "rs_has_header r key \<longleftrightarrow> equal_range (rs_headers r) key \<noteq> []"

definition rs_header :: "http_response \<Rightarrow> string \<Rightarrow> string" where
  "rs_header r key = header_value (rs_headers r) key"

definition rs_header_u64 :: "http_response \<Rightarrow> string \<Rightarrow> nat" where
  "rs_header_u64 r key = fst (get_header_value_u64 (rs_headers r) key 0 0)"

definition rs_header_count :: "http_response \<Rightarrow> string \<Rightarrow> nat" where
  "rs_header_count r key = get_header_value_count (rs_headers r) key"

definition rs_set_header :: "string \<Rightarrow> string \<Rightarrow> http_response \<Rightarrow> http_response" where
  "rs_set_header key val r = r\<lparr>rs_headers := set_header (rs_headers r) key val\<rparr>"

definition erase_header :: "string \<Rightarrow> headers \<Rightarrow> headers" where
  "erase_header key hs = filter (\<lambda>kv. \<not> equal_ci (fst kv) key) hs"

definition rs_has_trailer :: "http_response \<Rightarrow> string \<Rightarrow> bool" where
  "rs_has_trailer r key \<longleftrightarrow> equal_range (rs_trailers r) key \<noteq> []"

definition rs_trailer :: "http_response \<Rightarrow> string \<Rightarrow> nat \<Rightarrow> string" where
  "rs_trailer r key i = get_multimap_value (rs_trailers r) key i"

definition rs_trailer_count :: "http_response \<Rightarrow> string \<Rightarrow> nat" where
  "rs_trailer_count r key = length (equal_range (rs_trailers r) key)"

definition set_redirect :: "string \<Rightarrow> int \<Rightarrow> http_response \<Rightarrow> http_response" where
  "set_redirect url stat r =
     (if is_field_value url
      then (rs_set_header ''Location'' url r)\<lparr>rs_status := (if 300 \<le> stat \<and> stat < 400 then stat else 302)\<rparr>
      else r)"

definition set_content :: "string \<Rightarrow> string \<Rightarrow> http_response \<Rightarrow> http_response" where
  "set_content s content_type r =
     rs_set_header ''Content-Type'' content_type
       (r\<lparr>rs_body := s, rs_headers := erase_header ''Content-Type'' (rs_headers r)\<rparr>)"

definition set_content_provider ::
    "nat \<Rightarrow> string \<Rightarrow> (nat \<Rightarrow> nat \<Rightarrow> provider_step list) \<Rightarrow> http_response \<Rightarrow> http_response" where
  "set_content_provider len content_type provider r =
     (let r1 = (rs_set_header ''Content-Type'' content_type r)\<lparr>rs_content_length := len, rs_chunked := False\<rparr>
      in if 0 < len then r1\<lparr>rs_provider := Some provider\<rparr> else r1)"

definition set_stream_provider ::
    "bool \<Rightarrow> string \<Rightarrow> (nat \<Rightarrow> nat \<Rightarrow> provider_step list) \<Rightarrow> http_response \<Rightarrow> http_response" where
  "set_stream_provider chunked content_type provider r =
     (rs_set_header ''Content-Type'' content_type r)
       \<lparr>rs_content_length := 0, rs_provider := Some provider, rs_chunked := chunked\<rparr>"

lemma set_content_simps [simp]:
  "rs_body (set_content s ct r) = s" "rs_status (set_content s ct r) = rs_status r"
  "rs_provider (set_content s ct r) = rs_provider r" "rs_content_length (set_content s ct r) = rs_content_length r"
  by (simp_all add: set_content_def rs_set_header_def)

end
