(* ===== verification/Http_Range.thy ===== *)
theory Http_Range
  imports Http_Message Http_Query
begin

text \<open>
  Byte ranges in \<open>include/httplib.h\<close>: the \<open>Range\<close> header, the check against the length of the
  content with its coalescing of overlaps, and the parts of a multipart range response.
  \<open>-1\<close> stands for an absent end of a range, as in the code.
\<close>

type_synonym range = "int \<times> int"

abbreviation ssize_max :: nat where
  "ssize_max \<equiv> 9223372036854775807"

section \<open>The header\<close>

definition range_number :: "string \<Rightarrow> int" where
  "range_number s =
     (if s = [] then - 1
      else case from_chars ssize_max 10 s of (v, _, ec) \<Rightarrow> if ec = Ok then v else - 1)"

definition parse_range_spec :: "string \<Rightarrow> range option" where
  "parse_range_spec s =
     (let lhs = takeWhile (\<lambda>c. c \<noteq> CHR ''-'') s; rest = dropWhile (\<lambda>c. c \<noteq> CHR ''-'') s in
      if rest = [] then None
      else if \<not> list_all is_digit_c lhs \<or> \<not> list_all is_digit_c (tl rest) then None
      else (let first = range_number lhs; last = range_number (tl rest) in
            if first = - 1 \<and> last = - 1 \<or> first \<noteq> - 1 \<and> last \<noteq> - 1 \<and> last < first then None
            else Some (first, last)))"

text \<open>The verdict and the ranges, those before an invalid one included.\<close>

fun parse_range_specs :: "string list \<Rightarrow> range list \<Rightarrow> bool \<times> range list" where
  "parse_range_specs [] rs = (True, rs)"
| "parse_range_specs (s # ss) rs =
     (case parse_range_spec s of None \<Rightarrow> (False, rs) | Some r \<Rightarrow> parse_range_specs ss (rs @ [r]))"

definition parse_range_header :: "string \<Rightarrow> range list \<Rightarrow> bool \<times> range list" where
  "parse_range_header s ranges =
     (if 7 < length s \<and> starts_with s ''bytes='' then
        (let (ok, rs) = parse_range_specs (split (drop 6 s) (CHR '','') None) ranges in (ok \<and> rs \<noteq> [], rs))
      else (False, ranges))"

section \<open>Ranges against a length\<close>

text \<open>The rewriting of one range both routines begin with, and the test that follows it.\<close>

definition norm_range :: "int \<Rightarrow> range \<Rightarrow> range" where
  "norm_range len r =
     (let (f0, l0) = (if fst r = - 1 \<and> snd r = - 1 then (0, len) else r);
          (f1, l1) = (if f0 = - 1 then (len - l0, len - 1) else (f0, l0))
      in (f1, if l1 = - 1 \<or> len \<le> l1 then len - 1 else l1))"

definition range_ok :: "int \<Rightarrow> range \<Rightarrow> bool" where
  "range_ok len r \<longleftrightarrow> 0 \<le> fst r \<and> fst r \<le> snd r \<and> snd r < len"

definition coalesce_step :: "int \<Rightarrow> range \<Rightarrow> range list \<Rightarrow> range list" where
  "coalesce_step len r acc =
     (let (f, l) = norm_range len r in
      if \<not> range_ok len (f, l) then acc
      else if acc \<noteq> [] \<and> f \<le> snd (last acc) + 1 \<and> (f, l) \<noteq> last acc
      then butlast acc @ [(fst (last acc), max (snd (last acc)) l)]
      else acc @ [(f, l)])"

text \<open>\<open>std::sort\<close> on the first positions, taken as stable.\<close>

definition coalesce_ranges :: "range list \<Rightarrow> int \<Rightarrow> range list" where
  "coalesce_ranges rs len =
     (if length rs \<le> 1 then rs else fold (coalesce_step len) (sort_key fst rs) [])"

definition overlaps :: "range \<Rightarrow> range \<Rightarrow> bool" where
  "overlaps r p \<longleftrightarrow> \<not> (snd r < fst p \<or> snd p < fst r)"

text \<open>\<open>None\<close> is the error; otherwise the rewritten ranges.\<close>

fun range_loop :: "int \<Rightarrow> range list \<Rightarrow> nat \<Rightarrow> range list \<Rightarrow> range list option" where
  "range_loop len done n [] = Some done"
| "range_loop len done n (r # rs) =
     (let r' = norm_range len r; hit = list_ex (overlaps r') done; n' = (if hit then n + 1 else n) in
      if \<not> range_ok len r' then None
      else if hit \<and> 2 < n' then None
      else range_loop len (done @ [r']) n' rs)"

definition range_max_count :: nat where
  "range_max_count = 1024"

definition content_len :: "http_response \<Rightarrow> int" where
  "content_len res = int (if rs_content_length res \<noteq> 0 then rs_content_length res else length (rs_body res))"

definition range_error :: "range list \<Rightarrow> http_response \<Rightarrow> range list option" where
  "range_error rs res =
     (if rs \<noteq> [] \<and> 200 \<le> rs_status res \<and> rs_status res < 300 then
        (if range_max_count < length rs then None
         else map_option (\<lambda>done. coalesce_ranges done (content_len res)) (range_loop (content_len res) [] 0 rs))
      else Some rs)"

section \<open>Parts of a response\<close>

definition get_range_offset_and_length :: "range \<Rightarrow> nat \<times> nat" where
  "get_range_offset_and_length r = (nat (fst r), nat (snd r - fst r) + 1)"

definition make_content_range_header_field :: "nat \<times> nat \<Rightarrow> nat \<Rightarrow> string" where
  "make_content_range_header_field ol len =
     ''bytes '' @ to_dec (fst ol) @ ''-'' @ to_dec (fst ol + snd ol - 1) @ ''/'' @ to_dec len"

text \<open>The template over the effects of a token and of a piece of content on the state \<open>'a\<close>.\<close>

fun process_multipart_ranges_data ::
    "(string \<Rightarrow> 'a \<Rightarrow> 'a) \<Rightarrow> (nat \<Rightarrow> nat \<Rightarrow> 'a \<Rightarrow> bool \<times> 'a) \<Rightarrow> string \<Rightarrow> string \<Rightarrow> nat \<Rightarrow> range list \<Rightarrow> 'a \<Rightarrow> bool \<times> 'a" where
  "process_multipart_ranges_data token piece boundary ctype len [] a =
     (True, token ''--'' (token boundary (token ''--'' a)))"
| "process_multipart_ranges_data token piece boundary ctype len (r # rs) a =
     (let ol = get_range_offset_and_length r;
          a1 = token crlf (token boundary (token ''--'' a));
          a2 = (if ctype = [] then a1 else token crlf (token ctype (token ''Content-Type: '' a1)));
          a3 = token crlf (token crlf (token (make_content_range_header_field ol len) (token ''Content-Range: '' a2)))
      in case piece (fst ol) (snd ol) a3 of
           (False, a4) \<Rightarrow> (False, a4)
         | (True, a4) \<Rightarrow> process_multipart_ranges_data token piece boundary ctype len rs (token crlf a4))"

definition make_multipart_ranges_data :: "range list \<Rightarrow> string \<Rightarrow> string \<Rightarrow> string \<Rightarrow> nat \<Rightarrow> string" where
  "make_multipart_ranges_data rs body boundary ctype len =
     snd (process_multipart_ranges_data (\<lambda>t d. d @ t) (\<lambda>off n d. (True, d @ substr body off n)) boundary ctype len rs [])"

definition get_multipart_ranges_data_length :: "range list \<Rightarrow> string \<Rightarrow> string \<Rightarrow> nat \<Rightarrow> nat" where
  "get_multipart_ranges_data_length rs boundary ctype len =
     snd (process_multipart_ranges_data (\<lambda>t n. n + length t) (\<lambda>off n k. (True, k + n)) boundary ctype len rs 0)"

text \<open>Tokens that are not written in full go unnoticed here.\<close>

definition write_multipart_ranges_data ::
    "(nat \<Rightarrow> nat \<Rightarrow> provider_step list) \<Rightarrow> range list \<Rightarrow> string \<Rightarrow> string \<Rightarrow> nat \<Rightarrow> stream \<Rightarrow> bool \<times> stream" where
  "write_multipart_ranges_data provider rs boundary ctype len =
     process_multipart_ranges_data (\<lambda>t s. snd (sock_write t s))
       (\<lambda>off n s. case write_content off n (provider off n) s of (ok, _, s') \<Rightarrow> (ok, s')) boundary ctype len rs"

section \<open>Properties\<close>

text \<open>The bytes a range stands for in content of the given length.\<close>

definition bytes_of :: "int \<Rightarrow> range list \<Rightarrow> int set" where
  "bytes_of len rs = (\<Union>r \<in> set rs. {fst (norm_range len r) .. snd (norm_range len r)})"

lemma norm_ok: "range_ok len r \<Longrightarrow> norm_range len r = r"
  by (cases r) (auto simp: range_ok_def norm_range_def)

lemma bytes_of_Nil [simp]: "bytes_of len [] = {}"
  by (simp add: bytes_of_def)

lemma bytes_of_Cons: "bytes_of len (r # rs) = {fst (norm_range len r) .. snd (norm_range len r)} \<union> bytes_of len rs"
  by (simp add: bytes_of_def)

lemma bytes_of_append: "bytes_of len (rs @ qs) = bytes_of len rs \<union> bytes_of len qs"
  by (simp add: bytes_of_def)

lemma bytes_of_ok: "range_ok len (f, l) \<Longrightarrow> bytes_of len [(f, l)] = {f..l}"
  by (simp add: bytes_of_def norm_ok)

lemma range_loop_ok:
  "range_loop len dn n rs = Some out \<Longrightarrow> list_all (range_ok len) dn \<Longrightarrow>
   list_all (range_ok len) out \<and> out = dn @ map (norm_range len) rs"
proof (induction len dn n rs arbitrary: out rule: range_loop.induct)
  case (2 len dn n r rs)
  let ?hit = "list_ex (overlaps (norm_range len r)) dn"
  let ?n = "if ?hit then n + 1 else n"
  have c: "\<not> \<not> range_ok len (norm_range len r)" "\<not> (?hit \<and> 2 < ?n)"
    "range_loop len (dn @ [norm_range len r]) ?n rs = Some out"
    using "2.prems"(1) by (auto simp: Let_def split: if_splits)
  have "list_all (range_ok len) (dn @ [norm_range len r])" using "2.prems"(2) c(1) by simp
  note i = "2.IH" [OF refl refl refl c this]
  show ?case by (rule conjI [OF conjunct1 [OF i]]) (use conjunct2 [OF i] in simp)
qed simp

text \<open>One step of the coalescing, on a range that starts no earlier than those before it.\<close>

lemma coalesce_step_ok:
  assumes "range_ok len r" "list_all (range_ok len) acc" "\<forall>p \<in> set acc. fst p \<le> fst r"
  shows "list_all (range_ok len) (coalesce_step len r acc)"
    "bytes_of len (coalesce_step len r acc) = bytes_of len acc \<union> bytes_of len [r]"
    "coalesce_step len r acc \<noteq> []" "\<forall>p \<in> set (coalesce_step len r acc). fst p \<le> fst r"
proof -
  obtain f l where r: "r = (f, l)" by (cases r)
  have n: "norm_range len (f, l) = (f, l)" using assms(1) r norm_ok by simp
  have ok: "range_ok len (f, l)" using assms(1) r by simp
  have "list_all (range_ok len) (coalesce_step len r acc) \<and>
      bytes_of len (coalesce_step len r acc) = bytes_of len acc \<union> bytes_of len [r] \<and> coalesce_step len r acc \<noteq> [] \<and>
      (\<forall>p \<in> set (coalesce_step len r acc). fst p \<le> fst r)"
  proof (cases "acc \<noteq> [] \<and> f \<le> snd (last acc) + 1 \<and> (f, l) \<noteq> last acc")
    case True
    obtain a p q where acc: "acc = a @ [(p, q)]"
      using True by (metis append_butlast_last_id surj_pair)
    have pq: "range_ok len (p, q)" "p \<le> f" using assms(2,3) acc r by auto
    have step: "coalesce_step len r acc = a @ [(p, max q l)]" using True ok n by (simp add: coalesce_step_def r acc)
    have m: "range_ok len (p, max q l)" using ok pq by (auto simp: range_ok_def)
    have "{p..max q l} = {p..q} \<union> {f..l}" using True acc pq ok by (auto simp: range_ok_def)
    then show ?thesis
      using assms(2,3) m bytes_of_ok [OF m] bytes_of_ok [OF pq(1)] bytes_of_ok [OF ok] pq(2)
      unfolding step by (auto simp: acc r bytes_of_append)
  next
    case False
    then have "coalesce_step len r acc = acc @ [(f, l)]" using ok n by (auto simp: coalesce_step_def r)
    then show ?thesis using assms(2,3) ok r by (auto simp: bytes_of_append)
  qed
  then show "list_all (range_ok len) (coalesce_step len r acc)"
    "bytes_of len (coalesce_step len r acc) = bytes_of len acc \<union> bytes_of len [r]"
    "coalesce_step len r acc \<noteq> []" "\<forall>p \<in> set (coalesce_step len r acc). fst p \<le> fst r" by blast+
qed

lemma coalesce_fold:
  assumes "list_all (range_ok len) rs" "sorted (map fst rs)" "list_all (range_ok len) acc"
    "\<forall>p \<in> set acc. \<forall>r \<in> set rs. fst p \<le> fst r" "rs \<noteq> [] \<or> acc \<noteq> []"
  shows "list_all (range_ok len) (fold (coalesce_step len) rs acc) \<and>
    bytes_of len (fold (coalesce_step len) rs acc) = bytes_of len acc \<union> bytes_of len rs \<and>
    fold (coalesce_step len) rs acc \<noteq> []"
  using assms
proof (induction rs arbitrary: acc)
  case (Cons r rs)
  have a: "range_ok len r" "\<forall>p \<in> set acc. fst p \<le> fst r" using Cons.prems by auto
  note st = coalesce_step_ok [OF a(1) Cons.prems(3) a(2)]
  have "\<forall>p \<in> set (coalesce_step len r acc). \<forall>q \<in> set rs. fst p \<le> fst q"
    using st(4) Cons.prems(2) by fastforce
  from Cons.IH [OF _ _ st(1) this] st(3) Cons.prems(1,2)
  show ?case unfolding bytes_of_Cons using st(2) by (auto simp: bytes_of_def)
qed simp

lemma coalesce_ok:
  assumes "list_all (range_ok len) rs" "rs \<noteq> []"
  shows "list_all (range_ok len) (coalesce_ranges rs len) \<and>
    bytes_of len (coalesce_ranges rs len) = bytes_of len rs \<and> coalesce_ranges rs len \<noteq> []"
proof (cases "length rs \<le> 1")
  case False
  have s: "set (sort_key fst rs) = set rs" by simp
  have "list_all (range_ok len) (sort_key fst rs)" using assms(1) by (simp add: list_all_iff)
  moreover have "sort_key fst rs \<noteq> []" using assms(2) s by (metis set_empty)
  ultimately have "list_all (range_ok len) (fold (coalesce_step len) (sort_key fst rs) []) \<and>
    bytes_of len (fold (coalesce_step len) (sort_key fst rs) []) = bytes_of len [] \<union> bytes_of len (sort_key fst rs) \<and>
    fold (coalesce_step len) (sort_key fst rs) [] \<noteq> []"
    by (intro coalesce_fold) simp_all
  moreover have "bytes_of len (sort_key fst rs) = bytes_of len rs" by (simp add: bytes_of_def)
  ultimately show ?thesis using False by (simp add: coalesce_ranges_def)
qed (use assms in \<open>simp add: coalesce_ranges_def\<close>)


definition ten_bytes :: http_response where
  "ten_bytes = new_response\<lparr>rs_status := 206, rs_body := ''0123456789''\<rparr>"


section \<open>The length announced for a multipart response\<close>

lemma parts_length:
  assumes "list_all (range_ok (int (length body))) rs"
  shows "length (snd (process_multipart_ranges_data (\<lambda>t d. d @ t) (\<lambda>off n d. (True, d @ substr body off n)) b ct len rs d)) =
    snd (process_multipart_ranges_data (\<lambda>t n. n + length t) (\<lambda>off n k. (True, k + n)) b ct len rs (length d))"
  using assms
proof (induction rs arbitrary: d ct)
  case (Cons r rs)
  have "length (substr body (fst (get_range_offset_and_length r)) (snd (get_range_offset_and_length r))) =
      snd (get_range_offset_and_length r)"
    using Cons.prems(1) by (auto simp: range_ok_def get_range_offset_and_length_def substr_def)
  then show ?case using Cons.prems by (cases "ct = []") (simp_all add: Let_def Cons.IH add.assoc)
qed simp

text \<open>
  C2: the \<open>Content-Length\<close> computed for a multipart range response is the length of the body
  that is built for it, for any ranges within the content.
\<close>

theorem multipart_length_is_exact:
  assumes "list_all (range_ok (int (length body))) rs"
  shows "get_multipart_ranges_data_length rs boundary ctype len = length (make_multipart_ranges_data rs body boundary ctype len)"
  unfolding get_multipart_ranges_data_length_def make_multipart_ranges_data_def
  using parts_length [OF assms, where d = "[]"] by simp

theorem multipart_length_is_exact_witness:
  "get_multipart_ranges_data_length [(0, 1), (3, 3)] ''b'' [] 4 = length (make_multipart_ranges_data [(0, 1), (3, 3)] ''abcd'' ''b'' [] 4)"
  by (rule multipart_length_is_exact) (simp add: range_ok_def)

end
