(* ===== verification/Http_Multipart.thy ===== *)
theory Http_Multipart
  imports Http_Range
begin

text \<open>
  Multipart form data in \<open>include/httplib.h\<close>: the parameters of a content disposition,
  \<open>FormDataParser\<close> with its buffer and states, and the routines that write a form. The parser is
  fed the body piece by piece; the effects of its two callbacks are on a state \<open>'a\<close>.
\<close>

section \<open>Header parameters\<close>

definition parse_multipart_boundary :: "string \<Rightarrow> string option" where
  "parse_multipart_boundary content_type =
     (case map_of (snd (extract_media_type content_type)) ''boundary'' of
        None \<Rightarrow> None
      | Some b \<Rightarrow> if b = [] then None else Some b)"

definition disposition_piece ::
    "string \<Rightarrow> string set \<times> (string \<times> string) list \<Rightarrow> string set \<times> (string \<times> string) list" where
  "disposition_piece kv st =
     (let (cache, ps) = st in
      if kv \<in> cache then (cache, ps)
      else (insert kv cache,
            case split kv (CHR ''='') None of
              [] \<Rightarrow> ps
            | key # vals \<Rightarrow>
                params_emplace (trim_double_quotes_copy key,
                  trim_double_quotes_copy (if vals = [] then [] else last vals)) ps))"

definition parse_disposition_params :: "string \<Rightarrow> (string \<times> string) list" where
  "parse_disposition_params s = snd (fold disposition_piece (split s (CHR '';'') None) ({}, []))"

definition start_with_case_ignore :: "string \<Rightarrow> string \<Rightarrow> nat \<Rightarrow> bool" where
  "start_with_case_ignore a b offset \<longleftrightarrow>
     offset + length b \<le> length a \<and> to_lower (take (length b) (drop offset a)) = to_lower b"

definition skip_spaces :: "string \<Rightarrow> string" where
  "skip_spaces s = dropWhile is_space_or_tab s"

definition parse_content_disposition :: "string \<Rightarrow> string option" where
  "parse_content_disposition header =
     (if \<not> start_with_case_ignore header ''Content-Disposition:'' 0 then None
      else (let rest = skip_spaces (drop 20 header) in
            if \<not> start_with_case_ignore rest ''form-data;'' 0 then None
            else Some (skip_spaces (drop 10 rest))))"

section \<open>The parser\<close>

datatype fdp_state = Fs_initial | Fs_entry | Fs_headers | Fs_body | Fs_boundary

text \<open>\<open>fp_buf\<close> is the part of the buffer between its two positions.\<close>

record form_parser =
  fp_boundary :: string
  fp_state :: fdp_state
  fp_valid :: bool
  fp_file :: form_data
  fp_buf :: string

definition new_form_parser :: "string \<Rightarrow> form_parser" where
  "new_form_parser boundary =
     \<lparr>fp_boundary = boundary, fp_state = Fs_initial, fp_valid = False, fp_file = empty_form_data, fp_buf = []\<rparr>"

definition dash_boundary_crlf :: "form_parser \<Rightarrow> string" where
  "dash_boundary_crlf p = ''--'' @ fp_boundary p @ crlf"

definition crlf_dash_boundary :: "form_parser \<Rightarrow> string" where
  "crlf_dash_boundary p = crlf @ ''--'' @ fp_boundary p"

text \<open>The position of a text in the buffer, or the size of the buffer.\<close>

definition buf_find :: "string \<Rightarrow> string \<Rightarrow> nat" where
  "buf_find s buf = (case str_find buf s 0 of None \<Rightarrow> length buf | Some pos \<Rightarrow> pos)"

text \<open>One header line of an entry; \<open>None\<close> makes the form invalid.\<close>

definition filename_star :: "string \<Rightarrow> string option" where
  "filename_star val =
     (let prefix = ''UTF-8'' @ [CHR 0x27, CHR 0x27] in
      if 7 < length val \<and> start_with_case_ignore val prefix 0 then Some (decode_path_component (drop 7 val)) else None)"

definition apply_disposition :: "(string \<times> string) list \<Rightarrow> form_data \<Rightarrow> form_data option" where
  "apply_disposition params f =
     (case map_of params ''name'' of
        None \<Rightarrow> None
      | Some name \<Rightarrow>
          (let f1 = f\<lparr>fd_name := name\<rparr>;
               f2 = (case map_of params ''filename'' of Some fn \<Rightarrow> f1\<lparr>fd_filename := fn\<rparr> | None \<Rightarrow> f1)
           in case map_of params ''filename*'' of
                None \<Rightarrow> Some f2
              | Some val \<Rightarrow> map_option (\<lambda>fn. f2\<lparr>fd_filename := fn\<rparr>) (filename_star val)))"

definition entry_header :: "string \<Rightarrow> form_data \<Rightarrow> form_data option" where
  "entry_header header f =
     (case parse_header header of
        None \<Rightarrow> None
      | Some kv \<Rightarrow>
          (let f1 = f\<lparr>fd_headers := fd_headers f @ [kv]\<rparr> in
           if start_with_case_ignore header ''Content-Type:'' 0
           then Some (f1\<lparr>fd_content_type := trim_copy (drop 13 header)\<rparr>)
           else case parse_content_disposition header of
                  None \<Rightarrow> Some f1
                | Some params \<Rightarrow> apply_disposition (parse_disposition_params params) f1))"

text \<open>How the loop over header lines ends: more bytes needed, the empty line, or an error.\<close>

datatype header_end = He_more form_data string | He_empty form_data string | He_bad

function entry_headers :: "form_data \<Rightarrow> string \<Rightarrow> header_end" where
  "entry_headers f buf =
     (case str_find buf crlf 0 of
        None \<Rightarrow> He_more f buf
      | Some pos \<Rightarrow>
          if pos = 0 then He_empty f (drop 2 buf)
          else (case entry_header (take pos buf) f of
                  None \<Rightarrow> He_bad
                | Some f' \<Rightarrow> entry_headers f' (drop (pos + 2) buf)))"
  by pat_completeness auto

lemma str_find_Nil: "str_find [] crlf 0 = None"
  by (simp add: str_find_def crlf_def starts_with_def)

termination entry_headers
proof (relation "measure (\<lambda>(f, buf). length buf)")
  fix f buf pos f'
  assume "str_find buf crlf 0 = Some pos"
  then have "buf \<noteq> []" using str_find_Nil by auto
  then show "((f', drop (pos + 2) buf), f, buf) \<in> measure (\<lambda>(f, buf). length buf)" by simp
qed simp

declare entry_headers.simps [simp del]

text \<open>What one turn of the loop over the states leads to.\<close>

datatype 'a turn = Turn_on form_parser 'a | Turn_return bool form_parser 'a

definition turn_initial :: "form_parser \<Rightarrow> 'a \<Rightarrow> 'a turn" where
  "turn_initial p a =
     (case str_find (fp_buf p) (dash_boundary_crlf p) 0 of
        None \<Rightarrow> Turn_return True p a
      | Some pos \<Rightarrow> Turn_on (p\<lparr>fp_buf := drop (pos + length (dash_boundary_crlf p)) (fp_buf p), fp_state := Fs_entry\<rparr>) a)"

definition turn_headers :: "(form_data \<Rightarrow> 'a \<Rightarrow> bool \<times> 'a) \<Rightarrow> form_parser \<Rightarrow> 'a \<Rightarrow> 'a turn" where
  "turn_headers on_header p a =
     (if header_max_length < buf_find crlf (fp_buf p) then Turn_return False p a
      else case entry_headers (fp_file p) (fp_buf p) of
             He_bad \<Rightarrow> Turn_return False (p\<lparr>fp_valid := False\<rparr>) a
           | He_more f buf \<Rightarrow> Turn_return True (p\<lparr>fp_file := f, fp_buf := buf\<rparr>) a
           | He_empty f buf \<Rightarrow>
               (case on_header f a of
                  (False, a') \<Rightarrow> Turn_return False (p\<lparr>fp_file := f, fp_valid := False\<rparr>) a'
                | (True, a') \<Rightarrow> Turn_on (p\<lparr>fp_file := f, fp_buf := buf, fp_state := Fs_body\<rparr>) a'))"

definition turn_body :: "(string \<Rightarrow> 'a \<Rightarrow> bool \<times> 'a) \<Rightarrow> form_parser \<Rightarrow> 'a \<Rightarrow> 'a turn" where
  "turn_body on_content p a =
     (let mark = crlf_dash_boundary p; buf = fp_buf p in
      if length buf < length mark then Turn_return True p a
      else case str_find buf mark 0 of
             Some pos \<Rightarrow>
               (case on_content (take pos buf) a of
                  (False, a') \<Rightarrow> Turn_return False (p\<lparr>fp_valid := False\<rparr>) a'
                | (True, a') \<Rightarrow> Turn_on (p\<lparr>fp_buf := drop (pos + length mark) buf, fp_state := Fs_boundary\<rparr>) a')
           | None \<Rightarrow>
               (let n = length buf - length mark in
                if 0 < n then
                  (case on_content (take n buf) a of
                     (False, a') \<Rightarrow> Turn_return False (p\<lparr>fp_valid := False\<rparr>) a'
                   | (True, a') \<Rightarrow> Turn_return True (p\<lparr>fp_buf := drop n buf\<rparr>) a')
                else Turn_return True p a))"

definition turn_boundary :: "form_parser \<Rightarrow> 'a \<Rightarrow> 'a turn" where
  "turn_boundary p a =
     (let buf = fp_buf p in
      if length buf < 2 then Turn_return True p a
      else if starts_with buf crlf then Turn_on (p\<lparr>fp_buf := drop 2 buf, fp_state := Fs_entry\<rparr>) a
      else if starts_with buf ''--'' then Turn_on (p\<lparr>fp_buf := [], fp_valid := True\<rparr>) a
      else Turn_return True p a)"

definition turn ::
    "(form_data \<Rightarrow> 'a \<Rightarrow> bool \<times> 'a) \<Rightarrow> (string \<Rightarrow> 'a \<Rightarrow> bool \<times> 'a) \<Rightarrow> form_parser \<Rightarrow> 'a \<Rightarrow> 'a turn" where
  "turn on_header on_content p a =
     (case fp_state p of
        Fs_initial \<Rightarrow> turn_initial p a
      | Fs_entry \<Rightarrow> Turn_on (p\<lparr>fp_file := empty_form_data, fp_state := Fs_headers\<rparr>) a
      | Fs_headers \<Rightarrow> turn_headers on_header p a
      | Fs_body \<Rightarrow> turn_body on_content p a
      | Fs_boundary \<Rightarrow> turn_boundary p a)"

text \<open>Every turn that goes on has used up bytes, or has only entered the header state.\<close>

definition turn_rank :: "form_parser \<Rightarrow> nat" where
  "turn_rank p = 2 * length (fp_buf p) + (if fp_state p = Fs_entry then 1 else 0)"

lemma entry_headers_length: "entry_headers f buf = He_empty f' buf' \<Longrightarrow> length buf' < length buf"
proof (induction f buf rule: entry_headers.induct)
  case (1 f buf)
  have "buf \<noteq> []" using "1.prems" str_find_Nil by (subst (asm) entry_headers.simps) (auto split: option.splits)
  then show ?case
    using "1.prems" "1.IH" by (subst (asm) entry_headers.simps) (force split: option.splits if_splits)
qed

lemma turn_rank_less:
  assumes "turn h c p a = Turn_on p' a'" "fp_buf p \<noteq> []"
  shows "turn_rank p' < turn_rank p"
proof (cases "fp_state p")
  case Fs_initial
  then obtain pos where "p' = p\<lparr>fp_buf := drop (pos + length (dash_boundary_crlf p)) (fp_buf p), fp_state := Fs_entry\<rparr>"
    using assms(1) by (auto simp: turn_def turn_initial_def split: option.splits)
  moreover have "2 \<le> length (dash_boundary_crlf p)" by (simp add: dash_boundary_crlf_def)
  moreover have "0 < length (fp_buf p)" using assms(2) by simp
  then have "2 \<le> k \<Longrightarrow> Suc (2 * (length (fp_buf p) - (pos + k))) < 2 * length (fp_buf p)" for k by arith
  ultimately show ?thesis by (simp add: turn_rank_def Fs_initial)
next
  case Fs_entry
  then show ?thesis using assms by (auto simp: turn_def turn_rank_def)
next
  case Fs_headers
  then show ?thesis using assms
    by (auto simp: turn_def turn_headers_def turn_rank_def dest!: entry_headers_length
        split: if_splits header_end.splits prod.splits bool.splits)
next
  case Fs_body
  then show ?thesis using assms
    by (auto simp: turn_def turn_body_def turn_rank_def crlf_dash_boundary_def Let_def
        split: if_splits option.splits prod.splits bool.splits)
next
  case Fs_boundary
  then show ?thesis using assms
    by (auto simp: turn_def turn_boundary_def turn_rank_def Let_def split: if_splits)
qed

function form_loop ::
    "(form_data \<Rightarrow> 'a \<Rightarrow> bool \<times> 'a) \<Rightarrow> (string \<Rightarrow> 'a \<Rightarrow> bool \<times> 'a) \<Rightarrow> form_parser \<Rightarrow> 'a \<Rightarrow> bool \<times> form_parser \<times> 'a" where
  "form_loop h c p a =
     (if fp_buf p = [] then (True, p, a)
      else case turn h c p a of
             Turn_return ok p' a' \<Rightarrow> (ok, p', a')
           | Turn_on p' a' \<Rightarrow> form_loop h c p' a')"
  by pat_completeness auto
termination
  by (relation "measure (\<lambda>(h, c, p, a). turn_rank p)") (auto dest: turn_rank_less)

declare form_loop.simps [simp del]

definition form_parse ::
    "(form_data \<Rightarrow> 'a \<Rightarrow> bool \<times> 'a) \<Rightarrow> (string \<Rightarrow> 'a \<Rightarrow> bool \<times> 'a) \<Rightarrow> string \<Rightarrow> form_parser \<Rightarrow> 'a \<Rightarrow> bool \<times> form_parser \<times> 'a" where
  "form_parse h c d p a = form_loop h c (p\<lparr>fp_buf := fp_buf p @ d\<rparr>) a"

section \<open>The form\<close>

definition form_file_max_count :: nat where
  "form_file_max_count = 1024"

text \<open>
  What the receivers of \<open>read_content\<close> work on: the form, whether the current entry is a field,
  and the number of entries. The current entry is the last one of its kind.
\<close>

type_synonym form_sink = "form \<times> bool \<times> nat"

definition form_header :: "form_data \<Rightarrow> form_sink \<Rightarrow> bool \<times> form_sink" where
  "form_header f st =
     (let (fm, is_text, n) = st in
      if n = form_file_max_count then (False, (fm, is_text, n + 1))
      else if fd_filename f = [] then
        (True, (fm\<lparr>fm_fields := fm_fields fm @
            [empty_form_data\<lparr>fd_name := fd_name f, fd_content := fd_content f, fd_headers := fd_headers f\<rparr>]\<rparr>, True, n + 1))
      else (True, (fm\<lparr>fm_files := fm_files fm @ [f]\<rparr>, False, n + 1)))"

definition append_content :: "string \<Rightarrow> form_data list \<Rightarrow> form_data list" where
  "append_content d fs = butlast fs @ [(last fs)\<lparr>fd_content := fd_content (last fs) @ d\<rparr>]"

definition form_content :: "string \<Rightarrow> form_sink \<Rightarrow> bool \<times> form_sink" where
  "form_content d st =
     (let (fm, is_text, n) = st
      in (True, (if is_text then fm\<lparr>fm_fields := append_content d (fm_fields fm)\<rparr>
                 else fm\<lparr>fm_files := append_content d (fm_files fm)\<rparr>, is_text, n)))"

definition entries_named :: "string \<Rightarrow> form_data list \<Rightarrow> form_data list" where
  "entries_named key fs = filter (\<lambda>f. fd_name f = key) fs"

definition get_field :: "form \<Rightarrow> string \<Rightarrow> nat \<Rightarrow> string" where
  "get_field fm key i =
     (let fs = entries_named key (fm_fields fm) in if i < length fs then fd_content (fs ! i) else [])"

definition get_fields :: "form \<Rightarrow> string \<Rightarrow> string list" where
  "get_fields fm key = map fd_content (entries_named key (fm_fields fm))"

definition has_field :: "form \<Rightarrow> string \<Rightarrow> bool" where
  "has_field fm key \<longleftrightarrow> entries_named key (fm_fields fm) \<noteq> []"

definition get_field_count :: "form \<Rightarrow> string \<Rightarrow> nat" where
  "get_field_count fm key = length (entries_named key (fm_fields fm))"

definition get_file :: "form \<Rightarrow> string \<Rightarrow> nat \<Rightarrow> form_data" where
  "get_file fm key i = (let fs = entries_named key (fm_files fm) in if i < length fs then fs ! i else empty_form_data)"

definition get_files :: "form \<Rightarrow> string \<Rightarrow> form_data list" where
  "get_files fm key = entries_named key (fm_files fm)"

definition has_file :: "form \<Rightarrow> string \<Rightarrow> bool" where
  "has_file fm key \<longleftrightarrow> entries_named key (fm_files fm) \<noteq> []"

definition get_file_count :: "form \<Rightarrow> string \<Rightarrow> nat" where
  "get_file_count fm key = length (entries_named key (fm_files fm))"

section \<open>Writing a form\<close>

definition is_multipart_boundary_chars_valid :: "string \<Rightarrow> bool" where
  "is_multipart_boundary_chars_valid b = list_all (\<lambda>c. is_alnum c \<or> c = CHR ''-'' \<or> c = CHR ''_'') b"

definition quoted :: "string \<Rightarrow> string" where
  "quoted s = [CHR 0x22] @ s @ [CHR 0x22]"

definition serialize_multipart_formdata_item_begin :: "form_data \<Rightarrow> string \<Rightarrow> string" where
  "serialize_multipart_formdata_item_begin item boundary =
     ''--'' @ boundary @ crlf @ ''Content-Disposition: form-data; name='' @ quoted (fd_name item) @
     (if fd_filename item = [] then [] else ''; filename='' @ quoted (fd_filename item)) @ crlf @
     (if fd_content_type item = [] then [] else ''Content-Type: '' @ fd_content_type item @ crlf) @ crlf"

definition serialize_multipart_formdata_item_end :: string where
  "serialize_multipart_formdata_item_end = crlf"

definition serialize_multipart_formdata_finish :: "string \<Rightarrow> string" where
  "serialize_multipart_formdata_finish boundary = ''--'' @ boundary @ ''--'' @ crlf"

definition serialize_multipart_formdata :: "form_data list \<Rightarrow> string \<Rightarrow> bool \<Rightarrow> string" where
  "serialize_multipart_formdata items boundary finish =
     concat (map (\<lambda>item. serialize_multipart_formdata_item_begin item boundary @ fd_content item @
       serialize_multipart_formdata_item_end) items) @
     (if finish then serialize_multipart_formdata_finish boundary else [])"

definition get_multipart_content_length :: "form_data list \<Rightarrow> string \<Rightarrow> nat" where
  "get_multipart_content_length items boundary =
     fold (\<lambda>item n. n + length (serialize_multipart_formdata_item_begin item boundary) + length (fd_content item) +
       length serialize_multipart_formdata_item_end) items 0 + length (serialize_multipart_formdata_finish boundary)"

end
