(* ===== verification/Http_Multipart_Props.thy ===== *)
theory Http_Multipart_Props
  imports Http_Multipart
begin

text \<open>
  Properties of the form parser: the content of a part is delivered exactly, however the body is
  cut into pieces, and the number of parts found can depend on how it is cut.
\<close>

section \<open>Feeding pieces\<close>

fun form_feed ::
    "(form_data \<Rightarrow> 'a \<Rightarrow> bool \<times> 'a) \<Rightarrow> (string \<Rightarrow> 'a \<Rightarrow> bool \<times> 'a) \<Rightarrow> string list \<Rightarrow> form_parser \<Rightarrow> 'a \<Rightarrow> bool \<times> form_parser \<times> 'a" where
  "form_feed h c [] p a = (True, p, a)"
| "form_feed h c (d # ds) p a =
     (case form_parse h c d p a of
        (False, p', a') \<Rightarrow> (False, p', a')
      | (True, p', a') \<Rightarrow> form_feed h c ds p' a')"

section \<open>The content of a part\<close>

lemma first_match_Some:
  "first_match m s = Some i \<longleftrightarrow> i \<le> length s \<and> starts_with (drop i s) m \<and> (\<forall>j < i. \<not> starts_with (drop j s) m)"
proof (induction s arbitrary: i)
  case Nil
  then show ?case by (auto simp: starts_with_def)
next
  case (Cons c s)
  show ?case
  proof (cases i)
    case 0
    then show ?thesis by auto
  next
    case (Suc k)
    have "(\<forall>j < Suc k. \<not> starts_with (drop j (c # s)) m) \<longleftrightarrow>
        \<not> starts_with (c # s) m \<and> (\<forall>j < k. \<not> starts_with (drop j s) m)"
      by (auto simp: less_Suc_eq_0_disj)
    then show ?thesis using Suc Cons.IH [of k] by auto
  qed
qed

lemma first_match_None: "first_match m s = None \<longleftrightarrow> (\<forall>j \<le> length s. \<not> starts_with (drop j s) m)"
proof (induction s)
  case (Cons c s)
  have "(\<forall>j \<le> Suc (length s). \<not> starts_with (drop j (c # s)) m) \<longleftrightarrow>
      \<not> starts_with (c # s) m \<and> (\<forall>j \<le> length s. \<not> starts_with (drop j s) m)"
    unfolding less_Suc_eq_le [symmetric] All_less_Suc2 by simp
  then show ?case using Cons by auto
qed (auto simp: starts_with_def)

lemma str_find_0: "str_find s m 0 = first_match m s"
  by (simp add: str_find_def) (cases "first_match m s"; simp)

lemma starts_with_prefix: "starts_with (drop j x) m \<Longrightarrow> starts_with (drop j (x @ y)) m"
  by (cases "j \<le> length x") (auto simp: starts_with_iff)

text \<open>The first occurrence of the delimiter ends the text: a proper prefix holds none.\<close>

lemma only_at_end:
  assumes "str_find (cont @ m) m 0 = Some (length cont)" "x @ y = cont @ m" "m \<noteq> []"
    "starts_with (drop j x) m"
  shows "y = [] \<and> j = length cont"
proof -
  have f: "\<forall>i < length cont. \<not> starts_with (drop i (cont @ m)) m"
    using assms(1) by (simp add: str_find_0 first_match_Some)
  have "starts_with (drop j (cont @ m)) m" using starts_with_prefix [OF assms(4), of y] assms(2) by simp
  then have g: "length cont \<le> j" using f by (meson not_le)
  have "j + length m \<le> length x"
  proof -
    obtain t where "drop j x = m @ t" using assms(4) by (auto simp: starts_with_iff)
    then have "length x - j = length m + length t" by (metis length_append length_drop)
    then show ?thesis using assms(3) by (cases "length m") auto
  qed
  moreover have "length x + length y = length cont + length m" using assms(2) by (metis length_append)
  ultimately have "length y = 0 \<and> j = length cont" using g by linarith
  then show ?thesis by simp
qed

abbreviation gather_content :: "string \<Rightarrow> string \<Rightarrow> bool \<times> string" where
  "gather_content d a \<equiv> (True, a @ d)"

lemma take_past: "take (length a + n) (a @ b) = a @ take n b" and drop_past: "drop (length a + n) (a @ b) = drop n b"
  by simp_all

lemma form_parse_body:
  assumes st: "fp_state p = Fs_body" and m: "m = crlf_dash_boundary p"
    and first: "str_find (cont @ m) m 0 = Some (length cont)"
    and x: "(a @ fp_buf p @ d) @ y = cont @ m" and a: "length a \<le> length cont"
  shows "\<exists>p' a'. form_parse h gather_content d p a = (True, p', a') \<and> fp_boundary p' = fp_boundary p \<and>
    (if y = [] then fp_state p' = Fs_boundary \<and> fp_buf p' = [] \<and> a' = cont
     else fp_state p' = Fs_body \<and> a' @ fp_buf p' = a @ fp_buf p @ d \<and> length a' \<le> length cont)"
proof -
  let ?b = "fp_buf p @ d" and ?q = "p\<lparr>fp_buf := fp_buf p @ d\<rparr>"
  have m0: "m \<noteq> []" unfolding m by (simp add: crlf_dash_boundary_def)
  have mq: "crlf_dash_boundary ?q = m" unfolding m by (simp add: crlf_dash_boundary_def)
  have len: "length a + length ?b + length y = length cont + length m"
    using arg_cong [OF x, of length] by simp
  show ?thesis
  proof (cases "?b = []")
    case True
    moreover have "y \<noteq> []" using len True a m0 by auto
    ultimately show ?thesis using st a by (simp add: form_parse_def form_loop.simps)
  next
    case ne: False
    have loop: "form_parse h gather_content d p a =
        (case turn_body gather_content ?q a of Turn_return ok p' a' \<Rightarrow> (ok, p', a') | Turn_on p' a' \<Rightarrow> form_loop h gather_content p' a')"
      unfolding form_parse_def using ne st by (subst form_loop.simps) (auto simp: turn_def)
    show ?thesis
    proof (cases "str_find ?b m 0")
      case (Some pos)
      then have sw: "starts_with (drop pos ?b) m" by (simp add: str_find_0 first_match_Some)
      then have "starts_with (drop (length a + pos) (a @ ?b)) m" by simp
      from only_at_end [OF first x m0 this] have e: "y = []" "length a + pos = length cont" by simp_all
      have "length y = 0" using e(1) by simp
      then have n: "\<not> length ?b < length m" using len e(2) by linarith
      have "take (length cont) (a @ ?b) = cont" using x e(1) by simp
      then have c: "a @ take pos ?b = cont" using take_past [of a pos ?b] e(2) by simp
      have "drop (pos + length m) ?b = []" using len e by simp
      then show ?thesis unfolding loop using n Some c e(1)
        by (simp add: turn_body_def mq Let_def form_loop.simps)
    next
      case None
      have y: "y \<noteq> []"
      proof
        assume "y = []"
        then have "a @ ?b = cont @ m" using x by simp
        then have "drop (length cont) (a @ ?b) = m" by simp
        then have "drop (length cont - length a) ?b = m"
          using drop_past [of a "length cont - length a" ?b] a by simp
        then have "\<not> (\<forall>j \<le> length ?b. \<not> starts_with (drop j ?b) m)"
          using len a m0 by (auto intro!: exI [of _ "length cont - length a"] simp: starts_with_def)
        then show False using None unfolding str_find_0 first_match_None by blast
      qed
      show ?thesis
      proof (cases "length m < length ?b")
        case True
        let ?n = "length ?b - length m"
        have "length (a @ take ?n ?b) \<le> length cont" using len True y by (cases y) auto
        then show ?thesis unfolding loop using True None st y
          by (simp add: turn_body_def mq Let_def del: take_append drop_append)
      next
        case False
        then show ?thesis unfolding loop using None st y a by (simp add: turn_body_def mq Let_def)
      qed
    qed
  qed
qed


lemma form_feed_empty: "fp_buf p = [] \<Longrightarrow> concat ds = [] \<Longrightarrow> form_feed h c ds p a = (True, p, a)"
  by (induction ds) (cases p; simp add: form_parse_def form_loop.simps)+

lemma form_feed_body:
  assumes "fp_state p = Fs_body" "m = crlf_dash_boundary p" "str_find (cont @ m) m 0 = Some (length cont)"
    "a @ fp_buf p @ concat ds = cont @ m" "length a \<le> length cont" "concat ds \<noteq> []"
  shows "\<exists>p'. form_feed h gather_content ds p a = (True, p', cont) \<and> fp_state p' = Fs_boundary \<and> fp_buf p' = []"
  using assms
proof (induction ds arbitrary: p a)
  case (Cons d ds)
  have x: "(a @ fp_buf p @ d) @ concat ds = cont @ m" using Cons.prems(4) by simp
  obtain p' a' where s: "form_parse h gather_content d p a = (True, p', a')" "fp_boundary p' = fp_boundary p"
    "if concat ds = [] then fp_state p' = Fs_boundary \<and> fp_buf p' = [] \<and> a' = cont
     else fp_state p' = Fs_body \<and> a' @ fp_buf p' = a @ fp_buf p @ d \<and> length a' \<le> length cont"
    using form_parse_body [OF Cons.prems(1-3) x Cons.prems(5)] by blast
  show ?case
  proof (cases "concat ds = []")
    case True
    then show ?thesis using s by (simp add: form_feed_empty)
  next
    case False
    then have t: "fp_state p' = Fs_body" "a' @ fp_buf p' = a @ fp_buf p @ d" "length a' \<le> length cont"
      using s(3) by simp_all
    have m: "m = crlf_dash_boundary p'" using Cons.prems(2) s(2) by (simp add: crlf_dash_boundary_def)
    have "a' @ fp_buf p' @ concat ds = cont @ m" using x t(2) by (metis append.assoc)
    from Cons.IH [OF t(1) m Cons.prems(3) this t(3) False] show ?thesis using s(1) by simp
  qed
qed simp

text \<open>
  The content of a part does not depend on how the body arrives. Whatever pieces the bytes
  from the end of a part's headers to the end of the next delimiter are cut into, even inside
  the delimiter, the callback is given exactly the bytes in front of the delimiter, in order,
  and the parser is behind the delimiter with nothing left over.
\<close>

theorem part_content_is_exact:
  assumes "fp_state p = Fs_body" "fp_buf p = []" "concat ds = cont @ crlf_dash_boundary p"
    "str_find (concat ds) (crlf_dash_boundary p) 0 = Some (length cont)"
  shows "\<exists>p'. form_feed h gather_content ds p [] = (True, p', cont) \<and> fp_state p' = Fs_boundary \<and> fp_buf p' = []"
proof (rule form_feed_body [OF assms(1) refl])
  show "str_find (cont @ crlf_dash_boundary p) (crlf_dash_boundary p) 0 = Some (length cont)"
    using assms(3,4) by simp
  show "concat ds \<noteq> []" unfolding assms(3) by (simp add: crlf_dash_boundary_def)
qed (use assms in simp_all)

definition body_parser :: form_parser where
  "body_parser = (new_form_parser ''b'')\<lparr>fp_state := Fs_body\<rparr>"

theorem part_content_is_exact_witness:
  "\<exists>p'. form_feed (\<lambda>f a. (True, a)) gather_content [[CHR ''x'', CHR 0x0D], [CHR ''y'', CHR 0x0D, CHR 0x0A], ''-'', ''-b''] body_parser [] =
     (True, p', [CHR ''x'', CHR 0x0D, CHR ''y'']) \<and> fp_state p' = Fs_boundary \<and> fp_buf p' = []"
  by (rule part_content_is_exact)
    (simp_all add: body_parser_def new_form_parser_def crlf_dash_boundary_def crlf_def str_find_def starts_with_def)

text \<open>
  The parts found can depend on how the body arrives. The text behind the closing delimiter
  is discarded when it is in the buffer together with the delimiter, but when it arrives in a
  later piece the parser takes it for a further part of a form that already counts as valid.
\<close>

theorem epilogue_depends_on_fragmentation:
  assumes "fp_state p = Fs_boundary" "fp_buf p = []"
  shows "form_feed h c [''--'' @ crlf @ e] p a = (True, p\<lparr>fp_valid := True\<rparr>, a) \<and>
    form_feed h c [''--'', crlf @ e] p a = form_feed h c [e] (p\<lparr>fp_valid := True, fp_state := Fs_entry\<rparr>) a"
proof -
  have p: "p\<lparr>fp_buf := []\<rparr> = p" using assms(2) by simp
  have t: "turn h c (p\<lparr>fp_buf := ''--'' @ t\<rparr>) a = Turn_on (p\<lparr>fp_buf := [], fp_valid := True\<rparr>) a" for t
    using assms(1) by (simp add: turn_def turn_boundary_def crlf_def Let_def)
  have one: "form_parse h c (''--'' @ t) p a = (True, p\<lparr>fp_valid := True\<rparr>, a)" for t
    unfolding form_parse_def using t [of t] assms(2)
    by (subst form_loop.simps) (simp add: form_loop.simps [of _ _ "p\<lparr>fp_buf := [], fp_valid := True\<rparr>"])
  have two: "form_parse h c (crlf @ e) (p\<lparr>fp_valid := True\<rparr>) a = form_parse h c e (p\<lparr>fp_valid := True, fp_state := Fs_entry\<rparr>) a"
    unfolding form_parse_def using assms
    by (subst form_loop.simps) (cases p; simp add: turn_def turn_boundary_def crlf_def Let_def)
  show ?thesis using one [of "crlf @ e"] one [of "[]"] two by simp
qed

theorem epilogue_depends_on_fragmentation_witness:
  "form_feed form_header form_content [''--'', crlf @ ''x''] (body_parser\<lparr>fp_state := Fs_boundary\<rparr>) (empty_form, False, 0) =
   form_feed form_header form_content [''x''] (body_parser\<lparr>fp_state := Fs_entry, fp_valid := True\<rparr>) (empty_form, False, 0)"
  using epilogue_depends_on_fragmentation [of "body_parser\<lparr>fp_state := Fs_boundary\<rparr>" form_header form_content "''x''" "(empty_form, False, 0)"]
  by (simp add: body_parser_def new_form_parser_def)

end
