(* ===== verification/Http_Path.thy ===== *)
theory Http_Path
  imports Http_Query
begin

text \<open>
  Paths in \<open>include/httplib.h\<close>: the check that a request path stays below the directory it is
  served from, the prefix test on resolved paths, and the encoding of a path. The check is
  compared with walking the components of the path.
\<close>

section \<open>The routines\<close>

text \<open>The loop over the components: \<open>level\<close> counts the directories entered and not left.\<close>

definition skip_slashes :: "string \<Rightarrow> string" where
  "skip_slashes p = dropWhile (\<lambda>c. c = CHR ''/'') p"

lemma skip_slashes_length: "length (skip_slashes p) \<le> length p"
  by (simp add: skip_slashes_def length_dropWhile_le)

definition path_char :: "char \<Rightarrow> bool" where
  "path_char c \<longleftrightarrow> c \<noteq> CHR ''/'' \<and> c \<noteq> CHR 0x00 \<and> c \<noteq> CHR 0x5C"

function valid_path_loop :: "string \<Rightarrow> nat \<Rightarrow> bool" where
  "valid_path_loop p level =
     (if p = [] \<or> hd p = CHR ''/'' then p = []
      else
        (let comp = takeWhile path_char p; rest = dropWhile path_char p in
         if rest \<noteq> [] \<and> hd rest \<noteq> CHR ''/'' then False
         else if comp = ''.'' then valid_path_loop (skip_slashes rest) level
         else if comp = ''..'' then (if level = 0 then False else valid_path_loop (skip_slashes rest) (level - 1))
         else valid_path_loop (skip_slashes rest) (level + 1)))"
  by pat_completeness auto

lemma valid_path_decreases:
  assumes "p \<noteq> []" "hd p \<noteq> CHR ''/''" "dropWhile path_char p = [] \<or> hd (dropWhile path_char p) = CHR ''/''"
  shows "length (skip_slashes (dropWhile path_char p)) < length p"
proof -
  have "path_char (hd p)"
  proof (rule ccontr)
    assume n: "\<not> path_char (hd p)"
    then have "dropWhile path_char p = p" using assms(1) by (cases p) auto
    then show False using assms by auto
  qed
  then have "length (dropWhile path_char p) < length p"
    using assms(1) by (cases p) (auto simp: length_dropWhile_le less_Suc_eq_le)
  then show ?thesis using skip_slashes_length le_less_trans by blast
qed

termination valid_path_loop
  by (relation "measure (\<lambda>(p, _). length p)") (auto simp: valid_path_decreases)

declare valid_path_loop.simps [simp del]

definition is_valid_path :: "string \<Rightarrow> bool" where
  "is_valid_path path = valid_path_loop (skip_slashes path) 0"

text \<open>\<open>strncmp\<close> over the length of the base compares C strings.\<close>

definition is_path_within_base :: "string \<Rightarrow> string \<Rightarrow> bool" where
  "is_path_within_base resolved_path resolved_base \<longleftrightarrow>
     take (length resolved_base) (c_str resolved_path) = take (length resolved_base) (c_str resolved_base)"

definition encode_path_char :: "char \<Rightarrow> string" where
  "encode_path_char c =
     (if c \<in> set '' +,;'' \<or> c = CHR 0x0D \<or> c = CHR 0x0A \<or> c = CHR 0x27 \<or> 128 \<le> byte c then pct c else [c])"

definition encode_path :: "string \<Rightarrow> string" where
  "encode_path s = concat (map encode_path_char (c_str s))"

section \<open>Walking a path\<close>

declare dropWhile_eq_Nil_conv [simp del]

text \<open>
  The directory a path leads to, from a directory given by its components: \<open>.\<close> stays, \<open>..\<close>
  leaves for the parent, the root being its own parent.
\<close>

fun walk :: "string list \<Rightarrow> string list \<Rightarrow> string list" where
  "walk dir [] = dir"
| "walk dir (c # cs) =
     walk (if c = ''.'' \<or> c = [] then dir else if c = ''..'' then butlast dir else dir @ [c]) cs"

function components :: "string \<Rightarrow> string list" where
  "components p =
     (let comp = takeWhile (\<lambda>c. c \<noteq> CHR ''/'') p; rest = dropWhile (\<lambda>c. c \<noteq> CHR ''/'') p
      in if rest = [] then [comp] else comp # components (tl rest))"
  by pat_completeness auto

lemma components_decreases:
  "dropWhile P p \<noteq> [] \<Longrightarrow> length (tl (dropWhile P p)) < length p"
  using length_dropWhile_le [of P p] by (cases "dropWhile P p") auto

termination components
  by (relation "measure length") (simp, metis in_measure components_decreases)

declare components.simps [simp del]

lemma components_Nil [simp]: "components [] = [[]]"
  by (simp add: components.simps [of "[]"])

lemma components_slash [simp]: "components (CHR ''/'' # p) = [] # components p"
  by (simp add: components.simps [of "CHR ''/'' # p"])

lemma walk_slashes: "walk dir (components (skip_slashes p)) = walk dir (components p)"
proof (induction p)
  case (Cons c p)
  then show ?case by (cases "c = CHR ''/''") (simp_all add: skip_slashes_def)
qed (simp add: skip_slashes_def)

lemma components_head:
  assumes "p \<noteq> []" "hd p \<noteq> CHR ''/''"
  shows "\<exists>cs. components p = takeWhile (\<lambda>c. c \<noteq> CHR ''/'') p # cs"
  by (subst components.simps) (simp add: Let_def)

text \<open>How deep the walk has gone below its start, if it never left it.\<close>

fun depth :: "nat \<Rightarrow> string list \<Rightarrow> nat option" where
  "depth n [] = Some n"
| "depth n (c # cs) =
     (if c = ''.'' \<or> c = [] then depth n cs
      else if c = ''..'' then (if n = 0 then None else depth (n - 1) cs)
      else depth (n + 1) cs)"

lemma depth_slashes: "depth n (components (skip_slashes p)) = depth n (components p)"
proof (induction p)
  case (Cons c p)
  then show ?case by (cases "c = CHR ''/''") (simp_all add: skip_slashes_def)
qed (simp add: skip_slashes_def)

definition clean :: "string \<Rightarrow> bool" where
  "clean p \<longleftrightarrow> CHR 0x00 \<notin> set p \<and> CHR 0x5C \<notin> set p"

lemma clean_slashes: "clean (skip_slashes p) = clean p"
  by (induction p) (auto simp: skip_slashes_def clean_def)

lemma takeWhile_path_char:
  assumes "dropWhile path_char p = [] \<or> hd (dropWhile path_char p) = CHR ''/''"
  shows "takeWhile path_char p = takeWhile (\<lambda>c. c \<noteq> CHR ''/'') p"
    "dropWhile path_char p = dropWhile (\<lambda>c. c \<noteq> CHR ''/'') p" "clean (takeWhile path_char p)"
  using assms by (induction p) (auto simp: path_char_def clean_def split: if_splits)

lemma not_path_char_unclean:
  "dropWhile path_char p \<noteq> [] \<Longrightarrow> hd (dropWhile path_char p) \<noteq> CHR ''/'' \<Longrightarrow> \<not> clean p"
  by (induction p) (auto simp: path_char_def clean_def split: if_splits)

lemma depth_unfold:
  assumes "p \<noteq> []" "hd p \<noteq> CHR ''/''" "rest = dropWhile (\<lambda>c. c \<noteq> CHR ''/'') p"
  shows "depth n (components p) = depth n (takeWhile (\<lambda>c. c \<noteq> CHR ''/'') p # components (skip_slashes rest))"
proof (cases rest)
  case Nil
  then have d: "dropWhile (\<lambda>c. c \<noteq> CHR ''/'') p = []" using assms(3) by simp
  show ?thesis by (subst components.simps) (simp add: d Nil skip_slashes_def Let_def)
next
  case (Cons c t)
  then have c: "c = CHR ''/''" using assms(3) by (metis (mono_tags, lifting) dropWhile_eq_Cons_conv)
  have "components p = takeWhile (\<lambda>c. c \<noteq> CHR ''/'') p # components t"
    using assms(3) [symmetric] by (subst components.simps) (simp add: Let_def Cons)
  moreover have "depth m (components (skip_slashes rest)) = depth m (components t)" for m
    unfolding depth_slashes by (simp add: Cons c)
  ultimately show ?thesis by simp
qed

text \<open>The loop is the depth of the walk.\<close>

lemma valid_path_loop_depth:
  "hd p \<noteq> CHR ''/'' \<or> p = [] \<Longrightarrow> valid_path_loop p n \<longleftrightarrow> clean p \<and> depth n (components p) \<noteq> None"
proof (induction p n rule: valid_path_loop.induct)
  case (1 p n)
  show ?case
  proof (cases "p = []")
    case True
    then show ?thesis by (simp add: valid_path_loop.simps [of "[]"] clean_def)
  next
    case ne: False
    let ?c = "takeWhile path_char p" and ?r = "dropWhile path_char p"
    have h: "hd p \<noteq> CHR ''/''" using 1 ne by simp
    show ?thesis
    proof (cases "?r = [] \<or> hd ?r = CHR ''/''")
      case False
      then have "\<not> valid_path_loop p n" using ne h by (subst valid_path_loop.simps) simp
      then show ?thesis using not_path_char_unclean False by blast
    next
      case True
      note tw = takeWhile_path_char [OF True]
      have nh: "hd (skip_slashes ?r) \<noteq> CHR ''/'' \<or> skip_slashes ?r = []"
        unfolding skip_slashes_def by (metis (mono_tags, lifting) hd_dropWhile)
      have cl: "clean p \<longleftrightarrow> clean (skip_slashes ?r)"
      proof -
        have "clean p \<longleftrightarrow> clean ?c \<and> clean ?r"
          unfolding clean_def by (metis (no_types, lifting) Un_iff set_append takeWhile_dropWhile_id)
        then show ?thesis using tw(3) clean_slashes by simp
      qed
      have c0: "?c \<noteq> []" using ne h True by (cases p) (auto simp: path_char_def split: if_splits)
      have d: "depth n (components p) = depth n (?c # components (skip_slashes ?r))"
        using depth_unfold [OF ne h refl, of n] tw(1,2) by simp
      have g: "p \<noteq> [] \<and> hd p \<noteq> CHR ''/''" "\<not> (p = [] \<or> hd p = CHR ''/'')"
        "\<not> (?r \<noteq> [] \<and> hd ?r \<noteq> CHR ''/'')" using ne h True by auto
      note ih = "1.IH" [OF g(2) refl refl g(3)]
      show ?thesis
      proof (cases "?c = ''.''")
        case True
        then show ?thesis using ih(1) [OF True nh] g d cl by (subst valid_path_loop.simps) (auto simp: Let_def)
      next
        case nd: False
        show ?thesis
        proof (cases "?c = ''..''")
          case True
          then show ?thesis using ih(2) [OF nd True _ nh] g d cl nd by (subst valid_path_loop.simps) (auto simp: Let_def)
        next
          case False
          then show ?thesis using ih(3) [OF nd False nh] g d cl nd c0 by (subst valid_path_loop.simps) (auto simp: Let_def)
        qed
      qed
    qed
  qed
qed


section \<open>Properties\<close>

lemma depth_walk:
  "depth n cs \<noteq> None \<Longrightarrow> length dir = n \<Longrightarrow> \<exists>below. walk (base @ dir) (take k cs) = base @ below"
proof (induction cs arbitrary: n dir k)
  case (Cons c cs)
  show ?case
  proof (cases k)
    case (Suc j)
    consider "c = ''.'' \<or> c = []" | "c = ''..''" "n \<noteq> 0" | "c \<noteq> ''.''" "c \<noteq> []" "c \<noteq> ''..''"
      using Cons.prems(1) by (auto split: if_splits)
    then show ?thesis
    proof cases
      case 1
      then show ?thesis using Cons.IH [of n dir j] Cons.prems Suc by auto
    next
      case 2
      then have "dir \<noteq> []" "length (butlast dir) = n - 1" using Cons.prems(2) by auto
      then show ?thesis using Cons.IH [of "n - 1" "butlast dir" j] Cons.prems(1) Suc 2 by (simp add: butlast_append)
    next
      case 3
      then show ?thesis using Cons.IH [of "n + 1" "dir @ [c]" j] Cons.prems Suc by simp
    qed
  qed simp
qed simp

text \<open>
  C1: a path the check accepts never leaves the directory it is served from. Walking any number
  of its components from any base directory, with \<open>..\<close> leading to the parent, ends in the base
  or below; and it holds no zero byte, at which the file system would cut it, and no backslash.
\<close>

theorem valid_path_stays_inside:
  assumes "is_valid_path path"
  shows "(\<exists>below. walk base (take k (components path)) = base @ below) \<and> CHR 0x00 \<notin> set path \<and> CHR 0x5C \<notin> set path"
proof -
  have h: "hd (skip_slashes path) \<noteq> CHR ''/'' \<or> skip_slashes path = []"
    unfolding skip_slashes_def by (metis (mono_tags, lifting) hd_dropWhile)
  from assms have v: "clean path" "depth 0 (components path) \<noteq> None"
    unfolding is_valid_path_def valid_path_loop_depth [OF h] depth_slashes clean_slashes by simp_all
  show ?thesis using depth_walk [OF v(2), of "[]" base k] v(1) by (simp add: clean_def)
qed

theorem valid_path_stays_inside_witness:
  "\<exists>below. walk [''srv''] (take 3 (components ''/a/../b'')) = [''srv''] @ below"
proof -
  have h: "hd ''a/../b'' \<noteq> CHR ''/'' \<or> ''a/../b'' = []" by simp
  have s: "skip_slashes ''/a/../b'' = ''a/../b''" by (simp add: skip_slashes_def)
  have "depth 0 (components ''a/../b'') \<noteq> None"
    by (simp add: components.simps [of "''a/../b''"] components.simps [of "''../b''"] components.simps [of "''b''"])
  then have "is_valid_path ''/a/../b''"
    unfolding is_valid_path_def s valid_path_loop_depth [OF h] by (simp add: clean_def)
  from valid_path_stays_inside [OF this] show ?thesis by blast
qed

text \<open>
  The check on resolved paths compares text, not components: a sibling directory whose name
  begins with the name of the base passes it.
\<close>

lemma sibling_within_base: "is_path_within_base (base @ ''-private/key'') base"
proof -
  have "take (length base) (takeWhile P (base @ xs)) = take (length base) (takeWhile P base)" for P and xs :: string
    by (induction base) auto
  then show ?thesis by (simp add: is_path_within_base_def c_str_def)
qed

end
