(* ===== verification/Step_Systems.thy ===== *)
theory Step_Systems
  imports Prelude
begin

text \<open>
  The contract of a system whose steps use up a rank: as long as it is not done it can make a
  step, and every step takes it closer to the end. What the users of the contract get is that
  every run ends, whatever is chosen at each step, and where.
\<close>

locale ranked_steps =
  fixes step :: "'s \<Rightarrow> 's \<Rightarrow> bool" and ok :: "'s \<Rightarrow> bool" and final :: "'s \<Rightarrow> bool" and rank :: "'s \<Rightarrow> nat"
  assumes ok_step: "ok s \<Longrightarrow> step s s' \<Longrightarrow> ok s'"
    and progress: "ok s \<Longrightarrow> \<not> final s \<Longrightarrow> \<exists>s'. step s s'"
    and uses_up: "ok s \<Longrightarrow> step s s' \<Longrightarrow> rank s' < rank s"
begin

lemma ok_steps: "(step ^^ n) s s' \<Longrightarrow> ok s \<Longrightarrow> ok s'"
  by (induction n arbitrary: s') (auto intro: ok_step)

lemma run_bounded: "(step ^^ n) s s' \<Longrightarrow> ok s \<Longrightarrow> n + rank s' \<le> rank s"
proof (induction n arbitrary: s')
  case (Suc n)
  then obtain t where t: "(step ^^ n) s t" "step t s'" by auto
  from uses_up [OF ok_steps [OF t(1) Suc.prems(2)] t(2)] Suc.IH [OF t(1) Suc.prems(2)] show ?case by simp
qed simp

lemma stuck_is_done: "(step ^^ n) s s' \<Longrightarrow> ok s \<Longrightarrow> (\<And>t. \<not> step s' t) \<Longrightarrow> final s'"
  using ok_steps progress by blast

lemma ends: "ok s \<Longrightarrow> \<exists>n s'. (step ^^ n) s s' \<and> n \<le> rank s \<and> final s'"
proof (induction "rank s" arbitrary: s rule: less_induct)
  case less
  show ?case
  proof (cases "final s")
    case True
    then show ?thesis by (intro exI [of _ 0] exI [of _ s]) simp
  next
    case False
    then obtain t where t: "step s t" using progress less.prems by blast
    obtain n s' where n: "(step ^^ n) t s'" "final s'"
      using less.hyps [OF uses_up [OF less.prems t] ok_step [OF less.prems t]] by blast
    have "(step ^^ Suc n) s s'" using relpowp_Suc_I2 [of step, OF t n(1)] .
    with n(2) run_bounded [OF this less.prems] show ?thesis by (metis add_leD1)
  qed
qed

end

end
