(* ===== verification/Thread_Pool.thy ===== *)
theory Thread_Pool
  imports Step_Systems
begin

text \<open>
  The thread pool of \<open>include/httplib.h\<close> the HTTP server runs its connections on. A critical
  section is one definition; the threads come in between critical sections only, so that a
  step relation over them describes every schedule. Creating a thread is taken to succeed.
\<close>

section \<open>State\<close>

text \<open>
  Where a worker is: about to lock the mutex at the top of its loop, asleep on the condition
  variable, woken but without the mutex yet, running a job, or out of its loop.
\<close>

datatype 'j worker_state = At_top | Waiting | Notified | Running 'j | Exited

record 'j worker =
  w_dynamic :: bool
  w_state :: "'j worker_state"

text \<open>
  Threads are numbered in the order they were started, base threads first; \<open>accepted\<close>, \<open>taken\<close>
  and \<open>completed\<close> are the traces of the jobs queued, begun and ended.
\<close>

record 'j pool =
  base_thread_count :: nat
  max_thread_count :: nat
  max_queued_requests :: nat
  idle_thread_count :: nat
  shut :: bool
  jobs :: "'j list"
  workers :: "'j worker list"
  dynamic_threads :: "nat list"
  finished_threads :: "nat list"
  accepted :: "'j list"
  taken :: "'j list"
  completed :: "'j list"

definition worker_at :: "'j pool \<Rightarrow> nat \<Rightarrow> 'j worker_state" where
  "worker_at p i = w_state (workers p ! i)"

definition set_worker :: "nat \<Rightarrow> 'j worker_state \<Rightarrow> 'j pool \<Rightarrow> 'j pool" where
  "set_worker i st p = p\<lparr>workers := (workers p)[i := (workers p ! i)\<lparr>w_state := st\<rparr>]\<rparr>"

section \<open>Construction\<close>

text \<open>\<open>None\<close> is the exception of the constructor. \<open>hw\<close> is \<open>hardware_concurrency()\<close>.\<close>

definition pool_new :: "nat \<Rightarrow> nat \<Rightarrow> nat \<Rightarrow> 'j pool option" where
  "pool_new n max_n mqr =
     (if max_n \<noteq> 0 \<and> max_n < n then None
      else Some \<lparr>base_thread_count = n, max_thread_count = (if max_n = 0 then n else max_n), max_queued_requests = mqr,
        idle_thread_count = 0, shut = False, jobs = [], workers = replicate n \<lparr>w_dynamic = False, w_state = At_top\<rparr>,
        dynamic_threads = [], finished_threads = [], accepted = [], taken = [], completed = []\<rparr>)"

definition thread_pool_count :: "nat \<Rightarrow> nat" where
  "thread_pool_count hw = max 8 (if 0 < hw then hw - 1 else 0)"

definition new_task_queue :: "nat \<Rightarrow> 'j pool option" where
  "new_task_queue hw = pool_new (thread_pool_count hw) (thread_pool_count hw * 4) 0"

section \<open>Critical sections\<close>

text \<open>Joining the finished threads: they are out of their loops, so that nothing is waited for.\<close>

definition cleanup_finished_threads :: "'j pool \<Rightarrow> 'j pool" where
  "cleanup_finished_threads p = p\<lparr>finished_threads := []\<rparr>"

definition move_to_finished :: "nat \<Rightarrow> 'j pool \<Rightarrow> 'j pool" where
  "move_to_finished i p =
     (if i \<in> set (dynamic_threads p)
      then p\<lparr>finished_threads := finished_threads p @ [i], dynamic_threads := remove1 i (dynamic_threads p)\<rparr> else p)"

definition spawn :: "'j pool \<Rightarrow> 'j pool" where
  "spawn p =
     (cleanup_finished_threads p)
       \<lparr>dynamic_threads := dynamic_threads p @ [length (workers p)],
        workers := workers p @ [\<lparr>w_dynamic = True, w_state = At_top\<rparr>]\<rparr>"

definition pool_enqueue :: "'j \<Rightarrow> 'j pool \<Rightarrow> bool \<times> 'j pool" where
  "pool_enqueue j p =
     (if shut p then (False, p)
      else if 0 < max_queued_requests p \<and> max_queued_requests p \<le> length (jobs p) then (False, p)
      else
        (let p1 = p\<lparr>jobs := jobs p @ [j], accepted := accepted p @ [j]\<rparr> in
         (True, if idle_thread_count p1 = 0 \<and> base_thread_count p1 + length (dynamic_threads p1) < max_thread_count p1
                then spawn p1 else p1)))"

text \<open>The predicate of the wait, and what follows once it holds.\<close>

definition has_work :: "'j pool \<Rightarrow> bool" where
  "has_work p \<longleftrightarrow> jobs p \<noteq> [] \<or> shut p"

definition take_or_exit :: "nat \<Rightarrow> 'j pool \<Rightarrow> 'j pool" where
  "take_or_exit i p =
     (case jobs p of
        [] \<Rightarrow> set_worker i Exited p
      | j # js \<Rightarrow> set_worker i (Running j) (p\<lparr>jobs := js, taken := taken p @ [j]\<rparr>))"

text \<open>
  From the top of the loop to the job, the end or the sleep; and from a wakeup, \<open>timed_out\<close> when
  it is the end of \<open>wait_for\<close>, which only a dynamic worker calls.
\<close>

definition worker_top :: "nat \<Rightarrow> 'j pool \<Rightarrow> 'j pool" where
  "worker_top i p =
     (let p1 = p\<lparr>idle_thread_count := idle_thread_count p + 1\<rparr> in
      if has_work p1 then take_or_exit i (p1\<lparr>idle_thread_count := idle_thread_count p1 - 1\<rparr>)
      else set_worker i Waiting p1)"

definition worker_woken :: "bool \<Rightarrow> nat \<Rightarrow> 'j pool \<Rightarrow> 'j pool" where
  "worker_woken timed_out i p =
     (let p1 = p\<lparr>idle_thread_count := idle_thread_count p - 1\<rparr> in
      if has_work p then take_or_exit i p1
      else if w_dynamic (workers p ! i) \<and> timed_out then set_worker i Exited (move_to_finished i p1)
      else set_worker i Waiting p)"

definition worker_done :: "nat \<Rightarrow> 'j \<Rightarrow> 'j pool \<Rightarrow> 'j pool" where
  "worker_done i j p = set_worker i At_top (p\<lparr>completed := completed p @ [j]\<rparr>)"

definition notify_all :: "'j pool \<Rightarrow> 'j pool" where
  "notify_all p = p\<lparr>workers := map (\<lambda>w. if w_state w = Waiting then w\<lparr>w_state := Notified\<rparr> else w) (workers p)\<rparr>"

section \<open>The threads\<close>

text \<open>How far \<open>shutdown\<close> is; the last joins are over the threads that were dynamic at that moment.\<close>

datatype sd_phase = Sd_none | Sd_notify | Sd_join_base | Sd_join_dynamic "nat list" | Sd_returned

record 'j pool_sys =
  pl :: "'j pool"
  owes :: nat
  sd :: sd_phase

inductive pool_step :: "'j pool_sys \<Rightarrow> 'j pool_sys \<Rightarrow> bool" where
  submit: "pool_enqueue j (pl s) = (True, p') \<Longrightarrow> pool_step s (s\<lparr>pl := p', owes := owes s + 1\<rparr>)"
| notify_one: "0 < owes s \<Longrightarrow> i < length (workers (pl s)) \<Longrightarrow> worker_at (pl s) i = Waiting \<Longrightarrow>
    pool_step s (s\<lparr>pl := set_worker i Notified (pl s), owes := owes s - 1\<rparr>)"
| notify_none: "0 < owes s \<Longrightarrow> (\<forall>i < length (workers (pl s)). worker_at (pl s) i \<noteq> Waiting) \<Longrightarrow>
    pool_step s (s\<lparr>owes := owes s - 1\<rparr>)"
| spurious: "i < length (workers (pl s)) \<Longrightarrow> worker_at (pl s) i = Waiting \<Longrightarrow>
    pool_step s (s\<lparr>pl := set_worker i Notified (pl s)\<rparr>)"
| top: "i < length (workers (pl s)) \<Longrightarrow> worker_at (pl s) i = At_top \<Longrightarrow> pool_step s (s\<lparr>pl := worker_top i (pl s)\<rparr>)"
| resume: "i < length (workers (pl s)) \<Longrightarrow> worker_at (pl s) i = Notified \<Longrightarrow>
    pool_step s (s\<lparr>pl := worker_woken False i (pl s)\<rparr>)"
| time_out: "i < length (workers (pl s)) \<Longrightarrow> worker_at (pl s) i \<in> {Waiting, Notified} \<Longrightarrow> w_dynamic (workers (pl s) ! i) \<Longrightarrow>
    pool_step s (s\<lparr>pl := worker_woken True i (pl s)\<rparr>)"
| finish: "i < length (workers (pl s)) \<Longrightarrow> worker_at (pl s) i = Running j \<Longrightarrow>
    pool_step s (s\<lparr>pl := worker_done i j (pl s)\<rparr>)"
| sd_flag: "sd s = Sd_none \<Longrightarrow> pool_step s (s\<lparr>pl := (pl s)\<lparr>shut := True\<rparr>, sd := Sd_notify\<rparr>)"
| sd_wake: "sd s = Sd_notify \<Longrightarrow> pool_step s (s\<lparr>pl := notify_all (pl s), sd := Sd_join_base\<rparr>)"
| sd_base: "sd s = Sd_join_base \<Longrightarrow> (\<forall>i < base_thread_count (pl s). worker_at (pl s) i = Exited) \<Longrightarrow>
    pool_step s (s\<lparr>pl := (pl s)\<lparr>dynamic_threads := []\<rparr>, sd := Sd_join_dynamic (dynamic_threads (pl s))\<rparr>)"
| sd_dynamic: "sd s = Sd_join_dynamic ids \<Longrightarrow> (\<forall>i \<in> set ids. worker_at (pl s) i = Exited) \<Longrightarrow>
    pool_step s (s\<lparr>pl := cleanup_finished_threads (pl s), sd := Sd_returned\<rparr>)"

inductive_cases pool_stepE: "pool_step s s'"

definition pool_init :: "'j pool \<Rightarrow> 'j pool_sys" where
  "pool_init p = \<lparr>pl = p, owes = 0, sd = Sd_none\<rparr>"

end
