(* ===== verification/Thread_Pool_Props.thy ===== *)
theory Thread_Pool_Props
  imports Thread_Pool
begin

text \<open>
  What the thread pool guarantees under every schedule: its bounds and counters, the order of
  the jobs, no lost wakeup, the end of \<open>shutdown\<close>, and a schedule that leaves a job waiting.
\<close>

section \<open>The critical sections as moves of one worker\<close>

lemma set_worker_simps [simp]:
  "base_thread_count (set_worker i st p) = base_thread_count p" "max_thread_count (set_worker i st p) = max_thread_count p"
  "max_queued_requests (set_worker i st p) = max_queued_requests p" "idle_thread_count (set_worker i st p) = idle_thread_count p"
  "shut (set_worker i st p) = shut p" "jobs (set_worker i st p) = jobs p" "dynamic_threads (set_worker i st p) = dynamic_threads p"
  "accepted (set_worker i st p) = accepted p" "taken (set_worker i st p) = taken p" "completed (set_worker i st p) = completed p"
  "length (workers (set_worker i st p)) = length (workers p)"
  "workers (set_worker i st p) = (workers p)[i := (workers p ! i)\<lparr>w_state := st\<rparr>]"
  by (simp_all add: set_worker_def)

lemma worker_at_set [simp]:
  "i < length (workers p) \<Longrightarrow> worker_at (set_worker i st p) k = (if k = i then st else worker_at p k)"
  by (simp add: worker_at_def)

lemma w_dynamic_set [simp]: "i < length ws \<Longrightarrow> w_dynamic (ws[i := (ws ! i)\<lparr>w_state := st\<rparr>] ! k) = w_dynamic (ws ! k)"
  by (cases "k = i") simp_all

lemma worker_at_fields [simp]:
  "worker_at (p\<lparr>jobs := a\<rparr>) = worker_at p" "worker_at (p\<lparr>taken := a\<rparr>) = worker_at p" "worker_at (p\<lparr>idle_thread_count := n\<rparr>) = worker_at p"
  "worker_at (p\<lparr>shut := b\<rparr>) = worker_at p" "worker_at (p\<lparr>dynamic_threads := l\<rparr>) = worker_at p"
  "worker_at (p\<lparr>finished_threads := l\<rparr>) = worker_at p" "worker_at (p\<lparr>accepted := a\<rparr>) = worker_at p" "worker_at (p\<lparr>completed := a\<rparr>) = worker_at p"
  by (simp_all add: worker_at_def fun_eq_iff)

lemma worker_top_eq:
  "worker_top i p =
     (case jobs p of
        j # js \<Rightarrow> set_worker i (Running j) (p\<lparr>jobs := js, taken := taken p @ [j]\<rparr>)
      | [] \<Rightarrow> if shut p then set_worker i Exited p else set_worker i Waiting (p\<lparr>idle_thread_count := idle_thread_count p + 1\<rparr>))"
  by (simp add: worker_top_def has_work_def take_or_exit_def Let_def split: list.split)

lemma worker_woken_eq:
  "worker_woken t i p =
     (case jobs p of
        j # js \<Rightarrow> set_worker i (Running j) (p\<lparr>idle_thread_count := idle_thread_count p - 1, jobs := js, taken := taken p @ [j]\<rparr>)
      | [] \<Rightarrow>
          if shut p then set_worker i Exited (p\<lparr>idle_thread_count := idle_thread_count p - 1\<rparr>)
          else if w_dynamic (workers p ! i) \<and> t
          then set_worker i Exited (move_to_finished i (p\<lparr>idle_thread_count := idle_thread_count p - 1\<rparr>))
          else set_worker i Waiting p)"
  by (simp add: worker_woken_def has_work_def take_or_exit_def Let_def split: list.split)

lemma move_to_finished_simps [simp]:
  "base_thread_count (move_to_finished i p) = base_thread_count p" "max_thread_count (move_to_finished i p) = max_thread_count p"
  "max_queued_requests (move_to_finished i p) = max_queued_requests p" "idle_thread_count (move_to_finished i p) = idle_thread_count p"
  "shut (move_to_finished i p) = shut p" "jobs (move_to_finished i p) = jobs p" "workers (move_to_finished i p) = workers p"
  "accepted (move_to_finished i p) = accepted p" "taken (move_to_finished i p) = taken p" "completed (move_to_finished i p) = completed p"
  "dynamic_threads (move_to_finished i p) = remove1 i (dynamic_threads p)" "worker_at (move_to_finished i p) = worker_at p"
  by (auto simp: move_to_finished_def remove1_idem worker_at_def fun_eq_iff)

lemma pool_enqueue_simps:
  assumes "pool_enqueue j p = (True, p')"
  shows "base_thread_count p' = base_thread_count p" "max_thread_count p' = max_thread_count p"
    "max_queued_requests p' = max_queued_requests p" "idle_thread_count p' = idle_thread_count p" "shut p' = shut p" "\<not> shut p"
    "jobs p' = jobs p @ [j]" "accepted p' = accepted p @ [j]" "taken p' = taken p" "completed p' = completed p"
    "0 < max_queued_requests p \<Longrightarrow> length (jobs p) < max_queued_requests p"
    "workers p' = workers p \<and> dynamic_threads p' = dynamic_threads p \<or>
     workers p' = workers p @ [\<lparr>w_dynamic = True, w_state = At_top\<rparr>] \<and> dynamic_threads p' = dynamic_threads p @ [length (workers p)] \<and>
       base_thread_count p + length (dynamic_threads p) < max_thread_count p"
  using assms by (auto simp: pool_enqueue_def spawn_def cleanup_finished_threads_def Let_def split: if_splits)

lemma notify_all_simps [simp]:
  "base_thread_count (notify_all p) = base_thread_count p" "max_thread_count (notify_all p) = max_thread_count p"
  "max_queued_requests (notify_all p) = max_queued_requests p" "idle_thread_count (notify_all p) = idle_thread_count p"
  "shut (notify_all p) = shut p" "jobs (notify_all p) = jobs p" "dynamic_threads (notify_all p) = dynamic_threads p"
  "accepted (notify_all p) = accepted p" "taken (notify_all p) = taken p" "completed (notify_all p) = completed p"
  "length (workers (notify_all p)) = length (workers p)"
  "i < length (workers p) \<Longrightarrow> worker_at (notify_all p) i = (if worker_at p i = Waiting then Notified else worker_at p i)"
  "i < length (workers p) \<Longrightarrow> w_dynamic (workers (notify_all p) ! i) = w_dynamic (workers p ! i)"
  by (simp_all add: notify_all_def worker_at_def)

lemma cleanup_simps [simp]:
  "base_thread_count (cleanup_finished_threads p) = base_thread_count p" "max_thread_count (cleanup_finished_threads p) = max_thread_count p"
  "max_queued_requests (cleanup_finished_threads p) = max_queued_requests p"
  "idle_thread_count (cleanup_finished_threads p) = idle_thread_count p" "shut (cleanup_finished_threads p) = shut p"
  "jobs (cleanup_finished_threads p) = jobs p" "workers (cleanup_finished_threads p) = workers p"
  "dynamic_threads (cleanup_finished_threads p) = dynamic_threads p" "accepted (cleanup_finished_threads p) = accepted p"
  "taken (cleanup_finished_threads p) = taken p" "completed (cleanup_finished_threads p) = completed p"
  "worker_at (cleanup_finished_threads p) = worker_at p"
  by (simp_all add: cleanup_finished_threads_def)

section \<open>The invariant\<close>

definition blocked :: "'j worker \<Rightarrow> int" where
  "blocked w = (if w_state w = Waiting \<or> w_state w = Notified then 1 else 0)"

definition woken :: "'j worker \<Rightarrow> int" where
  "woken w = (if w_state w = Notified then 1 else 0)"

definition running_job :: "'j worker \<Rightarrow> 'j option" where
  "running_job w = (case w_state w of Running j \<Rightarrow> Some j | _ \<Rightarrow> None)"

text \<open>The threads and the counters.\<close>

definition threads_ok :: "'j pool \<Rightarrow> bool" where
  "threads_ok p \<longleftrightarrow> 0 < base_thread_count p \<and> base_thread_count p \<le> length (workers p) \<and>
     base_thread_count p + length (dynamic_threads p) \<le> max_thread_count p \<and>
     (\<forall>i < length (workers p). w_dynamic (workers p ! i) \<longleftrightarrow> base_thread_count p \<le> i) \<and>
     distinct (dynamic_threads p) \<and> (\<forall>i \<in> set (dynamic_threads p). base_thread_count p \<le> i \<and> i < length (workers p)) \<and>
     int (idle_thread_count p) = weigh blocked (workers p)"

text \<open>The jobs.\<close>

definition jobs_ok :: "'j pool \<Rightarrow> bool" where
  "jobs_ok p \<longleftrightarrow> accepted p = taken p @ jobs p \<and> mset (taken p) = mset (completed p) + labels running_job (workers p) \<and>
     (0 < max_queued_requests p \<longrightarrow> length (jobs p) \<le> max_queued_requests p)"

text \<open>Wakeups on their way, and the stages of \<open>shutdown\<close>.\<close>

definition wakeups_ok :: "'j pool_sys \<Rightarrow> bool" where
  "wakeups_ok s \<longleftrightarrow> (\<exists>i < length (workers (pl s)). worker_at (pl s) i = Waiting) \<longrightarrow>
     int (length (jobs (pl s))) \<le> int (owes s) + weigh woken (workers (pl s))"

definition joining :: "sd_phase \<Rightarrow> nat list" where
  "joining ph = (case ph of Sd_join_dynamic ids \<Rightarrow> ids | _ \<Rightarrow> [])"

text \<open>The stages, as a function of the pool and the stage \<open>shutdown\<close> is in.\<close>

definition stages :: "sd_phase \<Rightarrow> 'j pool \<Rightarrow> bool" where
  "stages ph p \<longleftrightarrow> (shut p \<longleftrightarrow> ph \<noteq> Sd_none) \<and>
     (ph \<notin> {Sd_none, Sd_notify} \<longrightarrow> (\<forall>i < length (workers p). worker_at p i \<noteq> Waiting)) \<and>
     (\<forall>i < base_thread_count p. worker_at p i = Exited \<longrightarrow> shut p \<and> jobs p = []) \<and>
     (\<forall>i < length (workers p). base_thread_count p \<le> i \<longrightarrow> worker_at p i \<noteq> Exited \<longrightarrow> ph \<noteq> Sd_returned \<longrightarrow>
        i \<in> set (dynamic_threads p) \<union> set (joining ph)) \<and>
     (ph \<notin> {Sd_none, Sd_notify, Sd_join_base} \<longrightarrow> dynamic_threads p = [] \<and> (\<forall>i < base_thread_count p. worker_at p i = Exited)) \<and>
     (\<forall>i \<in> set (joining ph). i < length (workers p)) \<and> base_thread_count p + length (joining ph) \<le> max_thread_count p \<and>
     (ph = Sd_returned \<longrightarrow> (\<forall>i < length (workers p). worker_at p i = Exited))"

definition pool_ok :: "'j pool_sys \<Rightarrow> bool" where
  "pool_ok s \<longleftrightarrow> threads_ok (pl s) \<and> jobs_ok (pl s) \<and> wakeups_ok s \<and> stages (sd s) (pl s)"

lemma weigh_01:
  assumes "\<And>w. f w \<in> {0, 1 :: int}"
  shows "0 \<le> weigh f ws" "i < length ws \<Longrightarrow> f (ws ! i) \<le> weigh f ws" "weigh f ws \<le> int (length ws)"
proof -
  have f: "0 \<le> f w" "f w \<le> 1" for w using assms [of w] by auto
  show n: "0 \<le> weigh f ws" for ws using f(1) by (induction ws) (simp_all add: add_nonneg_nonneg)
  show "i < length ws \<Longrightarrow> f (ws ! i) \<le> weigh f ws"
  proof (induction ws arbitrary: i)
    case (Cons w ws)
    then show ?case using n [of ws] f(1) [of w] by (cases i) (simp_all add: add_increasing)
  qed simp
  show "weigh f ws \<le> int (length ws)" using f(2) by (induction ws) (simp_all add: add_mono)
qed

lemma blocked_01: "blocked w \<in> {0, 1}" and woken_01: "woken w \<in> {0, 1}"
  by (simp_all add: blocked_def woken_def)

lemma blocked_pos:
  "i < length (workers p) \<Longrightarrow> worker_at p i \<in> {Waiting, Notified} \<Longrightarrow> 0 < weigh blocked (workers p)"
  using weigh_01(2) [of blocked i "workers p", OF blocked_01] by (auto simp: worker_at_def blocked_def)

text \<open>A worker that sleeps or was woken is counted as idle, so that the counter never wraps.\<close>

lemma idle_pos:
  "threads_ok p \<Longrightarrow> i < length (workers p) \<Longrightarrow> worker_at p i \<in> {Waiting, Notified} \<Longrightarrow> 0 < idle_thread_count p"
  using blocked_pos [of i p] by (simp add: threads_ok_def)

lemma weigh_notify_all: "weigh blocked (workers (notify_all p)) = weigh blocked (workers p)"
proof -
  have "weigh blocked (map (\<lambda>w. if w_state w = Waiting then w\<lparr>w_state := Notified\<rparr> else w) ws) = weigh blocked ws" for ws
    by (induction ws) (simp_all add: blocked_def)
  then show ?thesis by (simp add: notify_all_def)
qed

lemma threads_ok_enqueue:
  assumes "pool_enqueue j p = (True, p')" "threads_ok p"
  shows "threads_ok p'"
  using pool_enqueue_simps [OF assms(1)] assms(2) by (auto simp: threads_ok_def nth_append blocked_def less_Suc_eq)

lemma threads_ok_set:
  assumes "threads_ok p" "i < length (workers p)" "(worker_at p i \<in> {Waiting, Notified}) = (st \<in> {Waiting, Notified})"
  shows "threads_ok (set_worker i st p)"
  using assms by (auto simp: threads_ok_def weigh_update blocked_def worker_at_def)

lemma threads_ok_block:
  assumes "threads_ok p" "i < length (workers p)" "worker_at p i \<notin> {Waiting, Notified}"
  shows "threads_ok (set_worker i Waiting (p\<lparr>idle_thread_count := idle_thread_count p + 1\<rparr>))"
  using assms by (auto simp: threads_ok_def weigh_update blocked_def worker_at_def)

lemma threads_ok_unblock:
  assumes "threads_ok p" "i < length (workers p)" "worker_at p i \<in> {Waiting, Notified}" "st \<notin> {Waiting, Notified}"
  shows "threads_ok (set_worker i st (p\<lparr>idle_thread_count := idle_thread_count p - 1\<rparr>))"
  using assms idle_pos [OF assms(1-3)] by (auto simp: threads_ok_def weigh_update blocked_def worker_at_def)

lemma threads_ok_cong [simp]:
  "threads_ok (p\<lparr>jobs := a, taken := b\<rparr>) = threads_ok p" "threads_ok (p\<lparr>completed := b\<rparr>) = threads_ok p"
  "threads_ok (p\<lparr>shut := c\<rparr>) = threads_ok p" "threads_ok (cleanup_finished_threads p) = threads_ok p"
  "threads_ok (set_worker i st (p\<lparr>jobs := a, taken := b\<rparr>)) = threads_ok (set_worker i st p)"
  by (simp_all add: threads_ok_def)

lemma threads_ok_moved: "threads_ok p \<Longrightarrow> threads_ok (move_to_finished i p)"
  by (auto simp: threads_ok_def length_remove1 dest: notin_set_remove1)

lemma threads_ok_woken:
  assumes "threads_ok p" "i < length (workers p)" "worker_at p i \<in> {Waiting, Notified}"
  shows "threads_ok (worker_woken t i p)"
proof -
  let ?p = "p\<lparr>idle_thread_count := idle_thread_count p - 1\<rparr>"
  have e: "set_worker i st (move_to_finished i ?p) = move_to_finished i (set_worker i st ?p)" for st
    by (simp add: move_to_finished_def set_worker_def)
  show ?thesis
    using threads_ok_unblock [OF assms] threads_ok_set [OF assms(1,2)] threads_ok_moved assms(3)
    unfolding worker_woken_eq e by (auto split: list.split)
qed

lemma threads_ok_top:
  assumes "threads_ok p" "i < length (workers p)" "worker_at p i = At_top"
  shows "threads_ok (worker_top i p)"
  using threads_ok_set [OF assms(1,2)] threads_ok_block [OF assms(1,2)] assms(3)
  unfolding worker_top_eq by (auto split: list.split)

lemma threads_ok_notify_all: "threads_ok p \<Longrightarrow> threads_ok (notify_all p)"
  by (simp add: threads_ok_def weigh_notify_all)

lemma threads_ok_step:
  assumes "pool_step s s'" "threads_ok (pl s)"
  shows "threads_ok (pl s')"
  using assms(1)
proof cases
  case (finish i j)
  have "threads_ok (worker_done i j (pl s))"
    using threads_ok_set [of "(pl s)\<lparr>completed := completed (pl s) @ [j]\<rparr>" i At_top] finish assms(2) by (simp add: worker_done_def)
  then show ?thesis by (simp add: finish)
next
  case sd_base
  then show ?thesis using assms(2) by (simp add: threads_ok_def)
qed (use assms(2) in \<open>auto intro: threads_ok_enqueue threads_ok_set threads_ok_top threads_ok_woken threads_ok_notify_all\<close>)

definition job_of :: "'j worker_state \<Rightarrow> 'j multiset" where
  "job_of st = (case st of Running j \<Rightarrow> {#j#} | _ \<Rightarrow> {#})"

lemma job_of_simps [simp]:
  "job_of At_top = {#}" "job_of Waiting = {#}" "job_of Notified = {#}" "job_of Exited = {#}" "job_of (Running j) = {#j#}"
  by (simp_all add: job_of_def)

lemma labels_set_worker:
  assumes "i < length (workers p)"
  shows "labels running_job (workers (set_worker i st p)) + job_of (worker_at p i) = labels running_job (workers p) + job_of st"
proof -
  have c: "(case running_job w of None \<Rightarrow> {#} | Some b \<Rightarrow> {#b#}) = job_of (w_state w)" for w :: "'a worker"
    by (simp add: running_job_def job_of_def split: worker_state.split)
  show ?thesis
    using labels_update [OF assms, of running_job "(workers p ! i)\<lparr>w_state := st\<rparr>"] unfolding c by (simp add: worker_at_def)
qed

lemma labels_notify_all: "labels running_job (workers (notify_all p)) = labels running_job (workers p)"
proof -
  have "labels running_job (map (\<lambda>w. if w_state w = Waiting then w\<lparr>w_state := Notified\<rparr> else w) ws) = labels running_job ws" for ws :: "'a worker list"
    by (induction ws) (simp_all add: running_job_def)
  then show ?thesis by (simp add: notify_all_def)
qed

lemma jobs_ok_set:
  assumes "jobs_ok p" "i < length (workers p)" "job_of (worker_at p i) = {#}" "job_of st = {#}"
  shows "jobs_ok (set_worker i st p)"
  using assms labels_set_worker [OF assms(2), of st] by (simp add: jobs_ok_def)

lemma jobs_ok_take:
  assumes "jobs_ok p" "i < length (workers p)" "job_of (worker_at p i) = {#}" "jobs p = j # js"
  shows "jobs_ok (set_worker i (Running j) (p\<lparr>jobs := js, taken := taken p @ [j]\<rparr>))"
  using assms labels_set_worker [OF assms(2), of "Running j"] by (auto simp: jobs_ok_def)

lemma jobs_ok_cong [simp]:
  "jobs_ok (p\<lparr>idle_thread_count := n\<rparr>) = jobs_ok p" "jobs_ok (move_to_finished i p) = jobs_ok p"
  "jobs_ok (p\<lparr>shut := b\<rparr>) = jobs_ok p" "jobs_ok (p\<lparr>dynamic_threads := l\<rparr>) = jobs_ok p" "jobs_ok (cleanup_finished_threads p) = jobs_ok p"
  "jobs_ok (notify_all p) = jobs_ok p"
  by (simp_all add: jobs_ok_def labels_notify_all)

lemma jobs_ok_woken:
  assumes "jobs_ok p" "i < length (workers p)" "worker_at p i \<in> {Waiting, Notified}"
  shows "jobs_ok (worker_woken t i p)"
proof -
  let ?p = "p\<lparr>idle_thread_count := idle_thread_count p - 1\<rparr>"
  have "job_of (worker_at p i) = {#}" using assms(3) by auto
  then show ?thesis
    using jobs_ok_take [of ?p i] jobs_ok_set [of p i] jobs_ok_set [of ?p i] jobs_ok_set [of "move_to_finished i ?p" i] assms(1,2)
    unfolding worker_woken_eq by (auto split: list.split)
qed

lemma jobs_ok_top:
  assumes "jobs_ok p" "i < length (workers p)" "worker_at p i = At_top"
  shows "jobs_ok (worker_top i p)"
  using jobs_ok_take [OF assms(1,2)] jobs_ok_set [OF assms(1,2)] assms
    jobs_ok_set [of "p\<lparr>idle_thread_count := idle_thread_count p + 1\<rparr>" i]
  unfolding worker_top_eq by (auto split: list.split)

lemma jobs_ok_enqueue:
  assumes "pool_enqueue j p = (True, p')" "jobs_ok p"
  shows "jobs_ok p'"
  using pool_enqueue_simps [OF assms(1)] assms(2) by (auto simp: jobs_ok_def running_job_def)

lemma jobs_ok_done:
  assumes "jobs_ok p" "i < length (workers p)" "worker_at p i = Running j"
  shows "jobs_ok (worker_done i j p)"
  using assms labels_set_worker [OF assms(2), of At_top] by (auto simp: jobs_ok_def worker_done_def)

lemma jobs_ok_step:
  assumes "pool_step s s'" "jobs_ok (pl s)"
  shows "jobs_ok (pl s')"
  using assms(1)
proof cases
  case (notify_one i)
  then show ?thesis using jobs_ok_set [OF assms(2), of i Notified] by simp
next
  case (spurious i)
  then show ?thesis using jobs_ok_set [OF assms(2), of i Notified] by simp
qed (use assms(2) in \<open>auto intro: jobs_ok_enqueue jobs_ok_top jobs_ok_woken jobs_ok_done\<close>)

section \<open>Wakeups\<close>

lemma weigh_woken_set:
  "i < length (workers p) \<Longrightarrow> weigh woken (workers (set_worker i st p)) =
     weigh woken (workers p) - of_bool (worker_at p i = Notified) + of_bool (st = Notified)"
  by (simp add: weigh_update woken_def worker_at_def)

lemma woken_nonneg: "0 \<le> weigh woken ws"
  using weigh_01(1) [of woken, OF woken_01] .

text \<open>The wakeups for a pool, as a function of what the notifications still owed are.\<close>

definition wakes :: "nat \<Rightarrow> 'j pool \<Rightarrow> bool" where
  "wakes n p \<longleftrightarrow> (\<exists>i < length (workers p). worker_at p i = Waiting) \<longrightarrow> int (length (jobs p)) \<le> int n + weigh woken (workers p)"

lemma wakeups_ok_wakes: "wakeups_ok s \<longleftrightarrow> wakes (owes s) (pl s)"
  by (simp add: wakeups_ok_def wakes_def)

lemma wakes_cong [simp]:
  "wakes n (p\<lparr>idle_thread_count := k\<rparr>) = wakes n p" "wakes n (move_to_finished i p) = wakes n p"
  "wakes n (p\<lparr>shut := b\<rparr>) = wakes n p" "wakes n (p\<lparr>dynamic_threads := l\<rparr>) = wakes n p" "wakes n (cleanup_finished_threads p) = wakes n p"
  by (simp_all add: wakes_def)

lemma wakes_take:
  assumes "wakes n p" "i < length (workers p)" "jobs p = j # js"
  shows "wakes n (set_worker i (Running j) (p\<lparr>jobs := js, taken := b\<rparr>))"
proof -
  have "weigh woken (workers p) - 1 \<le> weigh woken (workers (set_worker i (Running j) p))"
    using weigh_woken_set [OF assms(2), of "Running j"] by simp
  then show ?thesis using assms by (auto simp: wakes_def split: if_splits)
qed

lemma wakes_empty: "jobs p = [] \<Longrightarrow> wakes n p"
  using woken_nonneg [of "workers p"] by (simp add: wakes_def)

lemma wakes_woken:
  assumes "wakes n p" "i < length (workers p)"
  shows "wakes n (worker_woken t i p)" "wakes n (worker_top i p)"
  using wakes_take [of n "p\<lparr>idle_thread_count := idle_thread_count p - 1\<rparr>" i] wakes_take [of n p i] assms
  unfolding worker_woken_eq worker_top_eq by (auto split: list.split intro: wakes_empty)

lemma wakes_notified:
  assumes "wakes n p" "i < length (workers p)" "worker_at p i = Waiting" "n \<le> Suc m"
  shows "wakes m (set_worker i Notified p)"
  using assms weigh_woken_set [OF assms(2), of Notified] by (auto simp: wakes_def split: if_splits)

lemma wakes_done:
  assumes "wakes n p" "i < length (workers p)" "worker_at p i = Running j"
  shows "wakes n (worker_done i j p)"
  using assms weigh_woken_set [OF assms(2), of At_top] by (auto simp: wakes_def worker_done_def split: if_splits)

lemma wakes_enqueue:
  assumes "pool_enqueue j p = (True, p')" "wakes n p"
  shows "wakes (Suc n) p'"
proof -
  note e = pool_enqueue_simps(7,12) [OF assms(1)]
  show ?thesis
    using e assms(2) by (auto simp: wakes_def woken_def worker_at_def nth_append less_Suc_eq split: if_splits)
qed

lemma wakeups_ok_step:
  assumes "pool_step s s'" "wakeups_ok s"
  shows "wakeups_ok s'"
  using assms(1)
proof cases
  case (notify_one i)
  then show ?thesis using wakes_notified [of "owes s" "pl s" i "owes s - 1"] assms(2) by (simp add: wakeups_ok_wakes)
next
  case (spurious i)
  then show ?thesis using wakes_notified [of "owes s" "pl s" i "owes s"] assms(2) by (simp add: wakeups_ok_wakes)
next
  case notify_none
  then show ?thesis by (auto simp: wakeups_ok_wakes wakes_def)
next
  case sd_wake
  then show ?thesis by (auto simp: wakeups_ok_wakes wakes_def split: if_splits)
qed (use assms(2) in \<open>auto simp: wakeups_ok_wakes intro: wakes_woken wakes_done wakes_enqueue\<close>)

section \<open>The stages of a shutdown\<close>

lemma joining_simps [simp]:
  "joining Sd_none = []" "joining Sd_notify = []" "joining Sd_join_base = []" "joining (Sd_join_dynamic ids) = ids" "joining Sd_returned = []"
  by (simp_all add: joining_def)

text \<open>A worker that is not out of its loop, moved to another place in it, or to the end when nothing is left.\<close>

lemma stages_move:
  assumes "stages ph p" "i < length (workers p)" "worker_at p i \<noteq> Exited" "st \<noteq> Exited" "st \<noteq> Waiting \<or> ph = Sd_none"
  shows "stages ph (set_worker i st p)"
  using assms by (auto simp: stages_def)

lemma stages_exit:
  assumes "stages ph p" "i < length (workers p)" "shut p" "jobs p = []"
  shows "stages ph (set_worker i Exited p)"
  using assms by (auto simp: stages_def)

lemma stages_jobs:
  assumes "stages ph p" "jobs p \<noteq> []"
  shows "stages ph (p\<lparr>jobs := js, taken := b\<rparr>)"
  using assms by (auto simp: stages_def)

lemma stages_cong [simp]:
  "stages ph (p\<lparr>idle_thread_count := k\<rparr>) = stages ph p" "stages ph (p\<lparr>completed := c\<rparr>) = stages ph p"
  "stages ph (cleanup_finished_threads p) = stages ph p"
  by (simp_all add: stages_def)

lemma stages_time_out:
  assumes "stages Sd_none p" "threads_ok p" "i < length (workers p)" "w_dynamic (workers p ! i)"
  shows "stages Sd_none (set_worker i Exited (move_to_finished i p))"
proof -
  have "base_thread_count p \<le> i" "distinct (dynamic_threads p)" using assms(2-4) by (auto simp: threads_ok_def)
  then show ?thesis using assms(1,3) by (auto simp: stages_def)
qed

lemma stages_taken:
  assumes "stages ph p" "i < length (workers p)" "worker_at p i \<noteq> Exited" "jobs p = j # js"
  shows "stages ph (set_worker i (Running j) (p\<lparr>jobs := js, taken := b\<rparr>))"
  using stages_move [OF stages_jobs [OF assms(1), of b js], of i "Running j"] assms by simp

lemma stages_top:
  assumes "stages ph p" "i < length (workers p)" "worker_at p i = At_top"
  shows "stages ph (worker_top i p)"
proof (cases "jobs p")
  case Nil
  have "ph = Sd_none" if "\<not> shut p" using assms(1) that by (simp add: stages_def)
  then have "stages ph (set_worker i Waiting (p\<lparr>idle_thread_count := idle_thread_count p + 1\<rparr>))" if "\<not> shut p"
    using stages_move [of ph "p\<lparr>idle_thread_count := idle_thread_count p + 1\<rparr>" i Waiting] assms that by simp
  moreover have "stages ph (set_worker i Exited p)" if "shut p" using stages_exit [OF assms(1,2) that Nil] .
  ultimately show ?thesis unfolding worker_top_eq Nil by simp
next
  case (Cons j js)
  then show ?thesis using stages_taken [OF assms(1,2), of j js] assms(3) unfolding worker_top_eq by simp
qed

lemma stages_woken:
  assumes "stages ph p" "threads_ok p" "i < length (workers p)" "worker_at p i \<in> {Waiting, Notified}"
  shows "stages ph (worker_woken t i p)"
proof -
  let ?p = "p\<lparr>idle_thread_count := idle_thread_count p - 1\<rparr>"
  have s: "stages ph ?p" "i < length (workers ?p)" "worker_at ?p i \<noteq> Exited" using assms by auto
  have n: "\<not> shut p \<Longrightarrow> ph = Sd_none" using assms(1) by (simp add: stages_def)
  have m: "set_worker i Exited (move_to_finished i ?p) = (set_worker i Exited (move_to_finished i p))\<lparr>idle_thread_count := idle_thread_count p - 1\<rparr>"
    by (simp add: move_to_finished_def set_worker_def)
  show ?thesis
  proof (cases "jobs p")
    case Nil
    have "stages ph (set_worker i Exited ?p)" if "shut p" using stages_exit [OF s(1,2)] that Nil by simp
    moreover have "stages ph (set_worker i Waiting p)" if "\<not> shut p"
      using stages_move [OF assms(1,3), of Waiting] n [OF that] assms(4) by auto
    moreover have "stages ph (set_worker i Exited (move_to_finished i ?p))" if "\<not> shut p" "w_dynamic (workers p ! i)"
      using stages_time_out [of p i] assms(1-3) n [OF that(1)] that(2) unfolding m by simp
    ultimately show ?thesis unfolding worker_woken_eq Nil by simp
  next
    case (Cons j js)
    then show ?thesis using stages_taken [OF s, of j js] unfolding worker_woken_eq by simp
  qed
qed

lemma stages_enqueue:
  assumes "pool_enqueue j p = (True, p')" "stages ph p" "threads_ok p"
  shows "stages ph p'"
proof -
  note e = pool_enqueue_simps [OF assms(1)]
  have "ph = Sd_none" using assms(2) e(6) by (simp add: stages_def)
  moreover have "base_thread_count p \<le> length (workers p)" using assms(3) by (simp add: threads_ok_def)
  moreover have "worker_at p' i = (if i < length (workers p) then worker_at p i else At_top)" if "i < length (workers p')" for i
    using e(12) that by (auto simp: worker_at_def nth_append less_Suc_eq)
  ultimately show ?thesis using assms(2) e by (auto simp: stages_def less_Suc_eq)
qed

lemma stages_ok_step:
  assumes "pool_step s s'" "stages (sd s) (pl s)" "threads_ok (pl s)"
  shows "stages (sd s') (pl s')"
  using assms(1)
proof cases
  case (submit j p')
  then show ?thesis using stages_enqueue [OF _ assms(2,3)] by simp
next
  case (notify_one i)
  then show ?thesis using stages_move [OF assms(2), of i Notified] by simp
next
  case (spurious i)
  then show ?thesis using stages_move [OF assms(2), of i Notified] by simp
next
  case (finish i j)
  then show ?thesis using stages_move [of "sd s" "(pl s)\<lparr>completed := completed (pl s) @ [j]\<rparr>" i At_top] assms(2) by (simp add: worker_done_def)
next
  case sd_flag
  then show ?thesis using assms(2) by (auto simp: stages_def)
next
  case sd_wake
  have "base_thread_count (pl s) \<le> length (workers (pl s))" using assms(3) by (simp add: threads_ok_def)
  then show ?thesis using assms(2) unfolding sd_wake by (auto simp: stages_def)
next
  case sd_base
  then show ?thesis using assms(2,3) by (auto simp: stages_def threads_ok_def)
next
  case (sd_dynamic ids)
  then show ?thesis using assms(2) by (auto simp: stages_def not_less)
qed (use assms(2,3) in \<open>auto intro: stages_top stages_woken\<close>)

section \<open>Every reachable state\<close>

lemma pool_ok_step:
  assumes "pool_step s s'" "pool_ok s"
  shows "pool_ok s'"
  using assms threads_ok_step jobs_ok_step wakeups_ok_step stages_ok_step unfolding pool_ok_def by blast

lemma weigh_replicate: "f x = 0 \<Longrightarrow> weigh f (replicate n x) = 0"
  by (induction n) simp_all

lemma pool_init_ok:
  assumes "pool_new n max_n mqr = Some p" "0 < n"
  shows "pool_ok (pool_init p)"
proof -
  have p: "p = \<lparr>base_thread_count = n, max_thread_count = (if max_n = 0 then n else max_n), max_queued_requests = mqr,
      idle_thread_count = 0, shut = False, jobs = [], workers = replicate n \<lparr>w_dynamic = False, w_state = At_top\<rparr>,
      dynamic_threads = [], finished_threads = [], accepted = [], taken = [], completed = []\<rparr>" and m: "max_n = 0 \<or> n \<le> max_n"
    using assms(1) by (auto simp: pool_new_def split: if_splits)
  have l: "labels running_job (replicate n \<lparr>w_dynamic = False, w_state = At_top\<rparr>) = {#}"
    by (induction n) (simp_all add: running_job_def)
  show ?thesis
    using assms(2) m unfolding p pool_ok_def pool_init_def
    by (auto simp: threads_ok_def jobs_ok_def wakeups_ok_def stages_def weigh_replicate blocked_def l worker_at_def)
qed

lemma pool_reach_ok:
  assumes "pool_new n max_n mqr = Some p" "0 < n" "pool_step\<^sup>*\<^sup>* (pool_init p) s"
  shows "pool_ok s"
  using assms(3) by induction (auto intro: pool_init_ok [OF assms(1,2)] pool_ok_step)

lemma turn_limits [simp]:
  "max_thread_count (worker_top i p) = max_thread_count p" "max_queued_requests (worker_top i p) = max_queued_requests p"
  "max_thread_count (worker_woken t i p) = max_thread_count p" "max_queued_requests (worker_woken t i p) = max_queued_requests p"
  "max_thread_count (worker_done i j p) = max_thread_count p" "max_queued_requests (worker_done i j p) = max_queued_requests p"
  unfolding worker_top_eq worker_woken_eq worker_done_def by (simp_all split: list.split)

lemma pool_limits_step:
  assumes "pool_step s s'"
  shows "max_thread_count (pl s') = max_thread_count (pl s) \<and> max_queued_requests (pl s') = max_queued_requests (pl s)"
  using assms
proof cases
  case (submit j p')
  then show ?thesis using pool_enqueue_simps(2,3) [OF submit(2)] by simp
qed simp_all

lemma pool_limits:
  assumes "pool_new n max_n mqr = Some p" "pool_step\<^sup>*\<^sup>* (pool_init p) s"
  shows "max_thread_count (pl s) = (if max_n = 0 then n else max_n)" "max_queued_requests (pl s) = mqr"
proof -
  have "max_thread_count (pl s) = max_thread_count p \<and> max_queued_requests (pl s) = max_queued_requests p"
    using assms(2) by induction (simp_all add: pool_init_def pool_limits_step)
  then show "max_thread_count (pl s) = (if max_n = 0 then n else max_n)" "max_queued_requests (pl s) = mqr"
    using assms(1) by (auto simp: pool_new_def split: if_splits)
qed

definition workers_in :: "'j pool \<Rightarrow> 'j worker_state set \<Rightarrow> nat set" where
  "workers_in p S = {i. i < length (workers p) \<and> worker_at p i \<in> S}"

lemma weigh_card:
  assumes "\<And>w. f w = (if w_state w \<in> S then 1 else 0 :: int)"
  shows "weigh f (workers p) = int (card (workers_in p S))"
proof -
  have "weigh f ws = int (card {i. i < length ws \<and> w_state (ws ! i) \<in> S})" for ws
  proof (induction ws rule: rev_induct)
    case (snoc w ws)
    have "{i. i < length (ws @ [w]) \<and> w_state ((ws @ [w]) ! i) \<in> S} =
        {i. i < length ws \<and> w_state (ws ! i) \<in> S} \<union> (if w_state w \<in> S then {length ws} else {})"
      by (auto simp: nth_append less_Suc_eq split: if_splits)
    then show ?case using snoc assms [of w] by (simp add: card_insert_if)
  qed simp
  then show ?thesis by (simp add: workers_in_def worker_at_def)
qed

lemma stagesD:
  assumes "stages ph p"
  shows "shut p \<longleftrightarrow> ph \<noteq> Sd_none" "ph \<notin> {Sd_none, Sd_notify} \<Longrightarrow> i < length (workers p) \<Longrightarrow> worker_at p i \<noteq> Waiting"
    "i < base_thread_count p \<Longrightarrow> worker_at p i = Exited \<Longrightarrow> shut p \<and> jobs p = []"
    "i < length (workers p) \<Longrightarrow> base_thread_count p \<le> i \<Longrightarrow> worker_at p i \<noteq> Exited \<Longrightarrow> ph \<noteq> Sd_returned \<Longrightarrow>
      i \<in> set (dynamic_threads p) \<union> set (joining ph)"
    "ph \<notin> {Sd_none, Sd_notify, Sd_join_base} \<Longrightarrow> dynamic_threads p = []"
    "ph \<notin> {Sd_none, Sd_notify, Sd_join_base} \<Longrightarrow> i < base_thread_count p \<Longrightarrow> worker_at p i = Exited"
    "i \<in> set (joining ph) \<Longrightarrow> i < length (workers p)" "base_thread_count p + length (joining ph) \<le> max_thread_count p"
    "ph = Sd_returned \<Longrightarrow> i < length (workers p) \<Longrightarrow> worker_at p i = Exited"
  using assms unfolding stages_def by blast+

lemma live_bound:
  assumes "pool_ok s"
  shows "card (workers_in (pl s) (- {Exited})) \<le> max_thread_count (pl s)"
proof -
  let ?p = "pl s" and ?D = "dynamic_threads (pl s)" and ?J = "joining (sd s)"
  have t: "threads_ok ?p" "stages (sd s) ?p" using assms by (simp_all add: pool_ok_def)
  have "i < base_thread_count ?p \<or> i \<in> set (?D @ ?J)" if "i < length (workers ?p)" "worker_at ?p i \<noteq> Exited" for i
    using stagesD(4,9) [OF t(2), of i] that by (cases "sd s = Sd_returned") auto
  then have sub: "workers_in ?p (- {Exited}) \<subseteq> {..<base_thread_count ?p} \<union> set (?D @ ?J)"
    by (auto simp: workers_in_def)
  have "?D = [] \<or> ?J = []" using stagesD(5) [OF t(2)] by (cases "sd s") auto
  moreover have "base_thread_count ?p + length ?D \<le> max_thread_count ?p" using t(1) by (simp add: threads_ok_def)
  ultimately have "base_thread_count ?p + length (?D @ ?J) \<le> max_thread_count ?p"
    using stagesD(8) [OF t(2)] by auto
  moreover have "card ({..<base_thread_count ?p} \<union> set (?D @ ?J)) \<le> base_thread_count ?p + length (?D @ ?J)"
    by (rule order.trans [OF card_Un_le]) (use card_length [of "?D @ ?J"] in simp)
  moreover have "card (workers_in ?p (- {Exited})) \<le> card ({..<base_thread_count ?p} \<union> set (?D @ ?J))"
    by (rule card_mono [OF _ sub]) simp
  ultimately show ?thesis by linarith
qed

text \<open>
  The pool keeps its bounds under every schedule. Never more threads than the maximum are in
  their loops, never more jobs than the configured number are queued, and the idle counter is
  exactly the number of workers asleep or woken and not yet running, so that it never wraps.
\<close>

theorem pool_is_bounded:
  assumes "pool_new n max_n mqr = Some p" "0 < n" "pool_step\<^sup>*\<^sup>* (pool_init p) s"
  shows "card (workers_in (pl s) (- {Exited})) \<le> (if max_n = 0 then n else max_n) \<and>
    (0 < mqr \<longrightarrow> length (jobs (pl s)) \<le> mqr) \<and>
    idle_thread_count (pl s) = card (workers_in (pl s) {Waiting, Notified})"
proof -
  have ok: "pool_ok s" by (rule pool_reach_ok [OF assms])
  have "int (idle_thread_count (pl s)) = int (card (workers_in (pl s) {Waiting, Notified}))"
    using ok weigh_card [of blocked "{Waiting, Notified}" "pl s"] by (auto simp: pool_ok_def threads_ok_def blocked_def)
  moreover have "0 < mqr \<longrightarrow> length (jobs (pl s)) \<le> mqr"
    using ok pool_limits(2) [OF assms(1,3)] by (simp add: pool_ok_def jobs_ok_def)
  ultimately show ?thesis using live_bound [OF ok] pool_limits(1) [OF assms(1,3)] by simp
qed

text \<open>A pool of one thread that serves one job and is shut down.\<close>

definition demo_pool :: "nat pool" where
  "demo_pool = the (pool_new 1 1 1)"

definition demo_with :: "nat \<Rightarrow> bool \<Rightarrow> nat list \<Rightarrow> nat worker_state \<Rightarrow> nat list \<Rightarrow> nat list \<Rightarrow> nat list \<Rightarrow> nat pool" where
  "demo_with n sh js st a t c = demo_pool
     \<lparr>idle_thread_count := n, shut := sh, jobs := js, workers := [\<lparr>w_dynamic = False, w_state = st\<rparr>],
      accepted := a, taken := t, completed := c\<rparr>"

lemma demo_pool_new: "pool_new 1 1 1 = Some demo_pool"
  by (simp add: demo_pool_def pool_new_def)

lemma demo_with_simps [simp]:
  "base_thread_count (demo_with n sh js st a t c) = 1" "max_thread_count (demo_with n sh js st a t c) = 1"
  "max_queued_requests (demo_with n sh js st a t c) = 1" "idle_thread_count (demo_with n sh js st a t c) = n"
  "shut (demo_with n sh js st a t c) = sh" "jobs (demo_with n sh js st a t c) = js"
  "workers (demo_with n sh js st a t c) = [\<lparr>w_dynamic = False, w_state = st\<rparr>]" "dynamic_threads (demo_with n sh js st a t c) = []"
  "accepted (demo_with n sh js st a t c) = a" "taken (demo_with n sh js st a t c) = t" "completed (demo_with n sh js st a t c) = c"
  by (simp_all add: demo_with_def demo_pool_def pool_new_def)

lemma demo_init: "pool_init demo_pool = \<lparr>pl = demo_with 0 False [] At_top [] [] [], owes = 0, sd = Sd_none\<rparr>"
  by (simp add: pool_init_def demo_with_def demo_pool_def pool_new_def)

lemma demo_asleep:
  "pool_step\<^sup>*\<^sup>* (pool_init demo_pool) \<lparr>pl = demo_with 1 False [7] Waiting [7] [] [], owes = 1, sd = Sd_none\<rparr>"
proof -
  let ?a = "\<lparr>pl = demo_with 0 False [] At_top [] [] [], owes = 0, sd = Sd_none\<rparr>"
  let ?b = "\<lparr>pl = demo_with 1 False [] Waiting [] [] [], owes = 0, sd = Sd_none\<rparr>"
  have "pool_step ?a ?b"
    using top [of 0 ?a] by (simp add: worker_at_def worker_top_def has_work_def set_worker_def demo_with_def demo_pool_def pool_new_def)
  moreover have "pool_step ?b \<lparr>pl = demo_with 1 False [7] Waiting [7] [] [], owes = 1, sd = Sd_none\<rparr>"
    using submit [of 7 ?b "demo_with 1 False [7] Waiting [7] [] []"]
    by (simp add: pool_enqueue_def demo_with_def demo_pool_def pool_new_def)
  ultimately show ?thesis unfolding demo_init by (meson converse_rtranclp_into_rtranclp rtranclp.rtrancl_refl)
qed

lemma demo_shutting:
  "\<exists>s. pool_step\<^sup>*\<^sup>* (pool_init demo_pool) s \<and> sd s = Sd_notify \<and> accepted (pl s) = [7]"
proof -
  let ?s = "\<lparr>pl = demo_with 1 False [7] Waiting [7] [] [], owes = 1, sd = Sd_none\<rparr>"
  have "pool_step ?s (?s\<lparr>pl := (pl ?s)\<lparr>shut := True\<rparr>, sd := Sd_notify\<rparr>)" by (rule sd_flag) simp
  then have "pool_step\<^sup>*\<^sup>* (pool_init demo_pool) (?s\<lparr>pl := (pl ?s)\<lparr>shut := True\<rparr>, sd := Sd_notify\<rparr>)"
    by (rule rtranclp.rtrancl_into_rtrancl [OF demo_asleep])
  moreover have "sd (?s\<lparr>pl := (pl ?s)\<lparr>shut := True\<rparr>, sd := Sd_notify\<rparr>) = Sd_notify"
    "accepted (pl (?s\<lparr>pl := (pl ?s)\<lparr>shut := True\<rparr>, sd := Sd_notify\<rparr>)) = [7]" by simp_all
  ultimately show ?thesis by blast
qed

theorem pool_is_bounded_witness:
  "length (jobs (demo_with 1 False [7] Waiting [7] [] [])) \<le> 1"
  using pool_is_bounded [OF demo_pool_new _ demo_asleep] by simp

text \<open>
  The jobs of a pool. They are begun in the order they were accepted, each at most once: the
  accepted jobs are those begun followed by those still queued, and those begun are exactly
  those ended and those a worker is running.
\<close>

theorem pool_runs_in_order:
  assumes "pool_new n max_n mqr = Some p" "0 < n" "pool_step\<^sup>*\<^sup>* (pool_init p) s"
  shows "accepted (pl s) = taken (pl s) @ jobs (pl s) \<and>
    mset (taken (pl s)) = mset (completed (pl s)) + labels running_job (workers (pl s))"
  using pool_reach_ok [OF assms] by (simp add: pool_ok_def jobs_ok_def)

theorem pool_runs_in_order_witness:
  "accepted (demo_with 1 False [7] Waiting [7] [] []) = taken (demo_with 1 False [7] Waiting [7] [] []) @ [7]"
  using pool_runs_in_order [OF demo_pool_new _ demo_asleep] by simp

text \<open>
  No wakeup is lost. While a worker sleeps, every queued job has a notification of its own
  still to come or a worker already woken: a job is never left to sleeping workers.
\<close>

theorem pool_loses_no_wakeup:
  assumes "pool_new n max_n mqr = Some p" "0 < n" "pool_step\<^sup>*\<^sup>* (pool_init p) s"
    "workers_in (pl s) {Waiting} \<noteq> {}"
  shows "length (jobs (pl s)) \<le> owes s + card (workers_in (pl s) {Notified})"
proof -
  have "\<exists>i < length (workers (pl s)). worker_at (pl s) i = Waiting" using assms(4) by (auto simp: workers_in_def)
  then have "int (length (jobs (pl s))) \<le> int (owes s) + weigh woken (workers (pl s))"
    using pool_reach_ok [OF assms(1-3)] by (simp add: pool_ok_def wakeups_ok_def)
  moreover have "weigh woken (workers (pl s)) = int (card (workers_in (pl s) {Notified}))"
    by (rule weigh_card) (simp add: woken_def)
  ultimately show ?thesis by linarith
qed

theorem pool_loses_no_wakeup_witness:
  "length (jobs (demo_with 1 False [7] Waiting [7] [] [])) \<le> 1 + card (workers_in (demo_with 1 False [7] Waiting [7] [] []) {Notified})"
proof -
  have "workers_in (demo_with 1 False [7] Waiting [7] [] []) {Waiting} \<noteq> {}" by (auto simp: workers_in_def worker_at_def)
  then show ?thesis using pool_loses_no_wakeup [OF demo_pool_new _ demo_asleep] by simp
qed

section \<open>The end of a shutdown\<close>

definition place_rank :: "'j worker \<Rightarrow> int" where
  "place_rank w = (case w_state w of Exited \<Rightarrow> 0 | At_top \<Rightarrow> 1 | Notified \<Rightarrow> 2 | Running _ \<Rightarrow> 2 | Waiting \<Rightarrow> 3)"

definition stage_rank :: "sd_phase \<Rightarrow> nat" where
  "stage_rank ph = (case ph of Sd_none \<Rightarrow> 4 | Sd_notify \<Rightarrow> 3 | Sd_join_base \<Rightarrow> 2 | Sd_join_dynamic _ \<Rightarrow> 1 | Sd_returned \<Rightarrow> 0)"

text \<open>The most steps a pool can still make once it is shut.\<close>

definition pool_rank :: "'j pool_sys \<Rightarrow> nat" where
  "pool_rank s = nat (3 * int (length (jobs (pl s))) + weigh place_rank (workers (pl s)) + int (owes s) + int (stage_rank (sd s)))"

lemma place_rank_nonneg: "0 \<le> weigh place_rank ws"
  by (induction ws) (simp_all add: place_rank_def add_nonneg_nonneg split: worker_state.split)

lemma pool_rank_less:
  assumes "3 * int (length (jobs (pl s'))) + weigh place_rank (workers (pl s')) + int (owes s') + int (stage_rank (sd s')) <
    3 * int (length (jobs (pl s))) + weigh place_rank (workers (pl s)) + int (owes s) + int (stage_rank (sd s))"
  shows "pool_rank s' < pool_rank s"
  using assms place_rank_nonneg [of "workers (pl s')"] place_rank_nonneg [of "workers (pl s)"] by (simp add: pool_rank_def)

definition rank_of :: "'j worker_state \<Rightarrow> int" where
  "rank_of st = place_rank \<lparr>w_dynamic = False, w_state = st\<rparr>"

lemma rank_of_simps [simp]:
  "rank_of Exited = 0" "rank_of At_top = 1" "rank_of Notified = 2" "rank_of (Running j) = 2" "rank_of Waiting = 3"
  by (simp_all add: rank_of_def place_rank_def)

lemma weigh_place_set [simp]:
  "i < length (workers p) \<Longrightarrow> weigh place_rank ((workers p)[i := (workers p ! i)\<lparr>w_state := st\<rparr>]) =
     weigh place_rank (workers p) - rank_of (worker_at p i) + rank_of st"
  by (simp add: weigh_update rank_of_def place_rank_def worker_at_def)

lemma weigh_place_notify_all: "weigh place_rank (workers (notify_all p)) \<le> weigh place_rank (workers p)"
proof -
  have "weigh place_rank (map (\<lambda>w. if w_state w = Waiting then w\<lparr>w_state := Notified\<rparr> else w) ws) \<le> weigh place_rank ws" for ws
    by (induction ws) (auto simp: place_rank_def intro: add_mono split: worker_state.splits)
  then show ?thesis by (simp add: notify_all_def)
qed

definition shutting :: "'j pool_sys \<Rightarrow> bool" where
  "shutting s \<longleftrightarrow> pool_ok s \<and> sd s \<noteq> Sd_none"

lemma shutting_shut: "shutting s \<Longrightarrow> shut (pl s)"
  using stagesD(1) [of "sd s" "pl s"] by (simp add: shutting_def pool_ok_def)

lemma shutting_step: "shutting s \<Longrightarrow> pool_step s s' \<Longrightarrow> shutting s'"
  using pool_ok_step [of s s'] by (auto simp: shutting_def elim!: pool_step.cases)

lemma rank_turn:
  assumes "shut p" "i < length (workers p)" "p' = worker_top i p \<and> worker_at p i = At_top \<or>
      p' = worker_woken t i p \<and> worker_at p i \<in> {Waiting, Notified}"
  shows "3 * int (length (jobs p')) + weigh place_rank (workers p') < 3 * int (length (jobs p)) + weigh place_rank (workers p)"
  using assms(3)
proof
  assume "p' = worker_top i p \<and> worker_at p i = At_top"
  then show ?thesis using assms(1,2) by (simp add: worker_top_eq split: list.split)
next
  assume "p' = worker_woken t i p \<and> worker_at p i \<in> {Waiting, Notified}"
  then show ?thesis using assms(1,2) by (auto simp: worker_woken_eq split: list.split)
qed

lemma shutting_uses_up:
  assumes "shutting s" "pool_step s s'"
  shows "pool_rank s' < pool_rank s"
proof (rule pool_rank_less)
  note sh = shutting_shut [OF assms(1)]
  let ?r = "\<lambda>s. 3 * int (length (jobs (pl s))) + weigh place_rank (workers (pl s)) + int (owes s) + int (stage_rank (sd s))"
  from assms(2) show "?r s' < ?r s"
  proof cases
    case (submit j p')
    then show ?thesis using sh pool_enqueue_simps(6) [OF submit(2)] by simp
  next
    case (top i)
    then show ?thesis using rank_turn [OF sh, of i "worker_top i (pl s)"] by simp
  next
    case (resume i)
    then show ?thesis using rank_turn [OF sh, of i "worker_woken False i (pl s)" False] by simp
  next
    case (time_out i)
    then show ?thesis using rank_turn [OF sh, of i "worker_woken True i (pl s)" True] by simp
  next
    case (finish i j)
    then show ?thesis
      using weigh_place_set [of i "(pl s)\<lparr>completed := completed (pl s) @ [j]\<rparr>" At_top] by (simp add: worker_done_def)
  next
    case sd_flag
    then show ?thesis using assms(1) by (simp add: shutting_def)
  next
    case sd_wake
    then show ?thesis using weigh_place_notify_all [of "pl s"] by (simp add: stage_rank_def)
  next
    case sd_base
    then show ?thesis by (simp add: stage_rank_def)
  next
    case (sd_dynamic ids)
    then show ?thesis by (simp add: stage_rank_def)
  qed simp_all
qed

text \<open>A worker still in its loop, but not asleep, can make a step.\<close>

lemma worker_can_step:
  assumes "i < length (workers (pl s))" "worker_at (pl s) i \<noteq> Exited" "worker_at (pl s) i \<noteq> Waiting"
  shows "\<exists>s'. pool_step s s'"
  using assms by (cases "worker_at (pl s) i") (blast intro: top resume finish)+

lemma shutting_progress:
  assumes "shutting s" "sd s \<noteq> Sd_returned"
  shows "\<exists>s'. pool_step s s'"
proof -
  have st: "stages (sd s) (pl s)" and b: "base_thread_count (pl s) \<le> length (workers (pl s))" and n: "sd s \<noteq> Sd_none"
    using assms(1) by (simp_all add: shutting_def pool_ok_def threads_ok_def)
  show ?thesis
  proof (cases "sd s")
    case Sd_notify
    then show ?thesis using sd_wake by blast
  next
    case Sd_join_base
    then show ?thesis
      using sd_base [of s] worker_can_step [of _ s] stagesD(2) [OF st] b by (metis less_le_trans empty_iff insert_iff sd_phase.distinct(1,3,9,11))
  next
    case (Sd_join_dynamic ids)
    then have "i < length (workers (pl s)) \<and> worker_at (pl s) i \<noteq> Waiting" if "i \<in> set ids" for i
      using stagesD(2,7) [OF st, of i] that by simp
    then show ?thesis using sd_dynamic [OF Sd_join_dynamic] worker_can_step [of _ s] by blast
  qed (use assms(2) n in simp_all)
qed

interpretation pool_end: ranked_steps pool_step shutting "\<lambda>s. sd s = Sd_returned" pool_rank
  by unfold_locales (fact shutting_step shutting_progress shutting_uses_up)+

text \<open>
  C4: \<open>shutdown\<close> ends if the jobs do. Once it has begun, no schedule, spurious wakeups and
  timeouts included, is longer than the rank of the state; until it has returned some thread
  can always make a step, where a running job is taken to be able to end; so that every
  maximal run ends with its return.
\<close>

theorem pool_shutdown_ends:
  assumes "pool_new n max_n mqr = Some p" "0 < n" "pool_step\<^sup>*\<^sup>* (pool_init p) s" "sd s \<noteq> Sd_none"
  shows "(\<forall>k s'. (pool_step ^^ k) s s' \<longrightarrow> k \<le> pool_rank s \<and> (sd s' = Sd_returned \<or> (\<exists>t. pool_step s' t))) \<and>
    (\<exists>k s'. (pool_step ^^ k) s s' \<and> sd s' = Sd_returned)"
proof -
  have s: "shutting s" using pool_reach_ok [OF assms(1-3)] assms(4) by (simp add: shutting_def)
  have "k \<le> pool_rank s" if "(pool_step ^^ k) s s'" for k s' using pool_end.run_bounded [OF that s] by linarith
  then show ?thesis using pool_end.stuck_is_done [OF _ s] pool_end.ends [OF s] by blast
qed

theorem pool_shutdown_ends_witness:
  "\<exists>s k s'. accepted (pl s) = [7 :: nat] \<and> (pool_step ^^ k) s s' \<and> k \<le> pool_rank s \<and> sd s' = Sd_returned"
proof -
  obtain s :: "nat pool_sys" where s: "pool_step\<^sup>*\<^sup>* (pool_init demo_pool) s" "sd s = Sd_notify" "accepted (pl s) = [7]"
    using demo_shutting by blast
  have n: "sd s \<noteq> Sd_none" using s(2) by simp
  have "0 < (1 :: nat)" by simp
  from pool_shutdown_ends [OF demo_pool_new this s(1) n] s(3) show ?thesis by blast
qed

lemma demo_returned:
  "\<exists>s. pool_step\<^sup>*\<^sup>* (pool_init demo_pool) s \<and> sd s = Sd_returned"
proof -
  obtain s :: "nat pool_sys" where s: "pool_step\<^sup>*\<^sup>* (pool_init demo_pool) s" "sd s = Sd_notify" using demo_shutting by blast
  have "shutting s" using pool_reach_ok [OF demo_pool_new _ s(1)] s(2) by (simp add: shutting_def)
  from pool_end.ends [OF this] obtain k s' where "(pool_step ^^ k) s s'" "sd s' = Sd_returned" by blast
  then show ?thesis using s(1) by (meson relpowp_imp_rtranclp rtranclp_trans)
qed

lemma returned_pool:
  assumes "pool_ok s" "sd s = Sd_returned"
  shows "jobs (pl s) = [] \<and> mset (completed (pl s)) = mset (accepted (pl s)) \<and> workers_in (pl s) (- {Exited}) = {}"
proof -
  have st: "stages (sd s) (pl s)" and j: "jobs_ok (pl s)" and b: "0 < base_thread_count (pl s)" "base_thread_count (pl s) \<le> length (workers (pl s))"
    using assms(1) by (simp_all add: pool_ok_def threads_ok_def)
  have x: "worker_at (pl s) i = Exited" if "i < length (workers (pl s))" for i using stagesD(9) [OF st assms(2) that] .
  have "0 < length (workers (pl s))" using b by linarith
  then have e: "jobs (pl s) = []" using stagesD(3) [OF st b(1)] x [of 0] by simp
  have "labels running_job ws = {#}" if "\<forall>w \<in> set ws. w_state w = Exited" for ws :: "'a worker list"
    using that by (induction ws) (simp_all add: running_job_def)
  then have "labels running_job (workers (pl s)) = {#}" using x by (simp add: all_set_conv_all_nth worker_at_def)
  then show ?thesis using e j x by (auto simp: jobs_ok_def workers_in_def)
qed

text \<open>
  C5: \<open>shutdown\<close> waits for every connection. When it has returned, every job ever accepted has
  been run to its end, none is queued and all workers are out of their loops; a job that does
  not end keeps it from returning.
\<close>

theorem pool_shutdown_waits:
  assumes "pool_new n max_n mqr = Some p" "0 < n" "pool_step\<^sup>*\<^sup>* (pool_init p) s" "sd s = Sd_returned"
  shows "jobs (pl s) = [] \<and> mset (completed (pl s)) = mset (accepted (pl s)) \<and> workers_in (pl s) (- {Exited}) = {}"
  by (rule returned_pool [OF pool_reach_ok [OF assms(1-3)] assms(4)])

theorem pool_shutdown_waits_witness:
  "\<exists>s. pool_step\<^sup>*\<^sup>* (pool_init demo_pool) s \<and> mset (completed (pl s)) = mset (accepted (pl s)) \<and> jobs (pl s) = []"
proof -
  obtain s where s: "pool_step\<^sup>*\<^sup>* (pool_init demo_pool) s" "sd s = Sd_returned" using demo_returned by blast
  from pool_shutdown_waits [OF demo_pool_new _ s] show ?thesis using s(1) by auto
qed

section \<open>A schedule that leaves a job waiting\<close>

text \<open>
  The idle counter counts a worker until it runs again, not until it is woken. With one base
  thread asleep and room for a second, two jobs accepted before it runs leave the pool with a
  job queued, its only thread busy with the other one, no notification to come and no thread
  started: the job waits until the first one ends, however long that takes.
\<close>

theorem pool_leaves_job_waiting:
  "\<exists>p s. pool_new 1 2 0 = Some p \<and> pool_step\<^sup>*\<^sup>* (pool_init p) s \<and> jobs (pl s) = [b] \<and> owes s = 0 \<and>
    workers (pl s) = [\<lparr>w_dynamic = False, w_state = Running a\<rparr>] \<and> length (workers (pl s)) < max_thread_count (pl s)"
proof -
  define p :: "'a pool" where "p = \<lparr>base_thread_count = 1, max_thread_count = 2, max_queued_requests = 0, idle_thread_count = 0,
    shut = False, jobs = [], workers = [\<lparr>w_dynamic = False, w_state = At_top\<rparr>], dynamic_threads = [], finished_threads = [],
    accepted = [], taken = [], completed = []\<rparr>"
  define p1 where "p1 = p\<lparr>idle_thread_count := 1, workers := [\<lparr>w_dynamic = False, w_state = Waiting\<rparr>]\<rparr>"
  define p2 where "p2 = p1\<lparr>jobs := [a], accepted := [a]\<rparr>"
  define p3 where "p3 = p1\<lparr>jobs := [a, b], accepted := [a, b]\<rparr>"
  define p4 where "p4 = p3\<lparr>workers := [\<lparr>w_dynamic = False, w_state = Notified\<rparr>]\<rparr>"
  define p5 where "p5 = p3\<lparr>idle_thread_count := 0, jobs := [b], taken := [a], workers := [\<lparr>w_dynamic = False, w_state = Running a\<rparr>]\<rparr>"
  let ?s = "\<lambda>q n. \<lparr>pl = q, owes = n, sd = Sd_none\<rparr>"
  note d = p_def p1_def p2_def p3_def p4_def p5_def worker_at_def
  have "pool_step (?s p 0) (?s p1 0)"
    using top [of 0 "?s p 0"] by (simp add: d worker_top_def has_work_def set_worker_def)
  moreover have "pool_step (?s p1 0) (?s p2 1)" using submit [of a "?s p1 0" p2] by (simp add: d pool_enqueue_def)
  moreover have "pool_step (?s p2 1) (?s p3 2)" using submit [of b "?s p2 1" p3] by (simp add: d pool_enqueue_def numeral_2_eq_2)
  moreover have "pool_step (?s p3 2) (?s p4 1)" using notify_one [of "?s p3 2" 0] by (simp add: d set_worker_def)
  moreover have "pool_step (?s p4 1) (?s p4 0)" using notify_none [of "?s p4 1"] by (simp add: d)
  moreover have "pool_step (?s p4 0) (?s p5 0)"
    using resume [of 0 "?s p4 0"] by (simp add: d worker_woken_def has_work_def take_or_exit_def set_worker_def)
  ultimately have "pool_step\<^sup>*\<^sup>* (pool_init p) (?s p5 0)"
    unfolding pool_init_def by (meson converse_rtranclp_into_rtranclp rtranclp.rtrancl_refl)
  moreover have "pool_new 1 2 0 = Some p" by (simp add: pool_new_def p_def)
  moreover have "jobs p5 = [b] \<and> workers p5 = [\<lparr>w_dynamic = False, w_state = Running a\<rparr>] \<and> length (workers p5) < max_thread_count p5"
    by (simp add: d)
  ultimately show ?thesis by (metis pool_sys.select_convs(1,2))
qed

end
