(* ===== verification/Listener.thy ===== *)
theory Listener
  imports Thread_Pool_Props
begin

text \<open>
  The listening thread of \<open>httplib::Server\<close>: binding, \<open>listen_internal\<close>, \<open>stop\<close> called by another
  thread, and \<open>process_and_close_socket\<close> as the job of a connection on the thread pool. What a
  connection does between its start and the closing of its socket is in \<open>Http_Serve\<close>; here
  connections are numbered in the order in which \<open>accept\<close> returned them. Accesses to the atomic
  members are separate steps where another thread can come in between.
\<close>

section \<open>State\<close>

text \<open>
  Where \<open>listen_internal\<close> is: before its first test, at the loop condition, in \<open>accept\<close>, with a
  connection to hand over, between the queueing of a job and its notification, behind a failed
  \<open>accept\<close>, about to close the listening socket, in the pool's \<open>shutdown\<close>, or returned.
\<close>

datatype listen_phase =
  L_bound | L_test | L_accept | L_socket nat | L_notify | L_failed | L_close | L_shutdown bool | L_returned bool

text \<open>Where \<open>stop\<close> is: not called, past its test of \<open>is_running_\<close>, or at its last statement.\<close>

datatype stop_phase = Stop_idle | Stop_seen | Stop_last

text \<open>
  \<open>svr_sock\<close> is whether the member holds a valid descriptor, \<open>svr_closes\<close> how often the descriptor
  it was bound with has been closed, and \<open>conn_closed\<close> the connections whose sockets were closed.
\<close>

record listener =
  svr_sock :: bool
  is_running :: bool
  is_decommissioned :: bool
  ls_phase :: listen_phase
  stop_at :: stop_phase
  ls_pool :: "nat pool_sys"
  next_conn :: nat
  conn_closed :: "nat list"
  svr_closes :: nat

section \<open>Binding\<close>

text \<open>
  \<open>created\<close> is whether a socket could be made, bound and listened on, \<open>port_of\<close> the port the system
  gave it where it can be found out. The second component is the new \<open>svr_sock_\<close>.
\<close>

definition bind_internal :: "int \<Rightarrow> bool \<Rightarrow> int option \<Rightarrow> bool \<Rightarrow> bool \<Rightarrow> int \<times> bool" where
  "bind_internal port created port_of decommissioned sock =
     (if decommissioned then (- 1, sock)
      else if \<not> created then (- 1, False)
      else if port = 0 then (case port_of of None \<Rightarrow> (- 1, True) | Some q \<Rightarrow> (q, True))
      else (port, True))"

definition bind_to_port :: "int \<Rightarrow> bool \<Rightarrow> int option \<Rightarrow> listener \<Rightarrow> bool \<times> listener" where
  "bind_to_port port created port_of s =
     (case bind_internal port created port_of (is_decommissioned s) (svr_sock s) of
        (ret, sock) \<Rightarrow>
          (0 \<le> ret, s\<lparr>svr_sock := sock, is_decommissioned := (is_decommissioned s \<or> ret = - 1)\<rparr>))"

definition listener_new :: "nat pool \<Rightarrow> listener" where
  "listener_new p =
     \<lparr>svr_sock = False, is_running = False, is_decommissioned = False, ls_phase = L_bound, stop_at = Stop_idle,
      ls_pool = pool_init p, next_conn = 0, conn_closed = [], svr_closes = 0\<rparr>"

text \<open>\<open>listen\<close> up to the loop: where \<open>bind_to_port\<close> fails it returns.\<close>

definition listen_start :: "int \<Rightarrow> bool \<Rightarrow> int option \<Rightarrow> listener \<Rightarrow> listener" where
  "listen_start port created port_of s =
     (case bind_to_port port created port_of s of
        (True, s') \<Rightarrow> s'\<lparr>ls_phase := L_bound\<rparr>
      | (False, s') \<Rightarrow> s'\<lparr>ls_phase := L_returned False\<rparr>)"

section \<open>The statements of the listening thread\<close>

definition listen_begin :: "listener \<Rightarrow> listener" where
  "listen_begin s =
     (if is_decommissioned s then s\<lparr>ls_phase := L_returned False\<rparr> else s\<lparr>is_running := True, ls_phase := L_test\<rparr>)"

definition listen_test :: "listener \<Rightarrow> listener" where
  "listen_test s = s\<lparr>ls_phase := (if svr_sock s then L_accept else L_shutdown True)\<rparr>"

definition listen_failed :: "listener \<Rightarrow> listener" where
  "listen_failed s = s\<lparr>ls_phase := (if svr_sock s then L_close else L_shutdown True)\<rparr>"

definition close_server_socket :: "listener \<Rightarrow> listener" where
  "close_server_socket s = s\<lparr>svr_closes := svr_closes s + (if svr_sock s then 1 else 0)\<rparr>"

text \<open>The connection is handed to the pool, or closed at once where the pool refuses it.\<close>

definition hand_over :: "nat \<Rightarrow> listener \<Rightarrow> listener" where
  "hand_over k s =
     (case pool_enqueue k (pl (ls_pool s)) of
        (True, p) \<Rightarrow> s\<lparr>ls_pool := (ls_pool s)\<lparr>pl := p, owes := owes (ls_pool s) + 1\<rparr>, ls_phase := L_notify\<rparr>
      | (False, p) \<Rightarrow> s\<lparr>conn_closed := conn_closed s @ [k], ls_phase := L_test\<rparr>)"

definition listen_end :: "bool \<Rightarrow> listener \<Rightarrow> listener" where
  "listen_end ret s = s\<lparr>is_decommissioned := \<not> ret, is_running := False, ls_phase := L_returned ret\<rparr>"

section \<open>The other threads\<close>

text \<open>A job comes to its end: the socket of its connection is closed, then the worker goes on.\<close>

definition end_connection :: "nat \<Rightarrow> nat \<Rightarrow> listener \<Rightarrow> listener" where
  "end_connection i k s =
     s\<lparr>ls_pool := (ls_pool s)\<lparr>pl := worker_done i k (pl (ls_pool s))\<rparr>, conn_closed := conn_closed s @ [k]\<rparr>"

text \<open>The three statements of \<open>stop\<close>.\<close>

definition stop_test :: "listener \<Rightarrow> listener" where
  "stop_test s = s\<lparr>stop_at := (if is_running s then Stop_seen else Stop_last)\<rparr>"

definition stop_close :: "listener \<Rightarrow> listener" where
  "stop_close s = (close_server_socket s)\<lparr>svr_sock := False, stop_at := Stop_last\<rparr>"

definition stop_end :: "listener \<Rightarrow> listener" where
  "stop_end s = s\<lparr>is_decommissioned := False, stop_at := Stop_idle\<rparr>"

text \<open>
  \<open>background\<close> is any step of the pool's threads other than the end of a job; only the listening
  thread submits jobs and shuts the pool down.
\<close>

inductive listen_step :: "listener \<Rightarrow> listener \<Rightarrow> bool" where
  begins: "ls_phase s = L_bound \<Longrightarrow> listen_step s (listen_begin s)"
| tests: "ls_phase s = L_test \<Longrightarrow> listen_step s (listen_test s)"
| retries: "ls_phase s = L_accept \<Longrightarrow> listen_step s (s\<lparr>ls_phase := L_test\<rparr>)"
| accepts: "ls_phase s = L_accept \<Longrightarrow> listen_step s (s\<lparr>ls_phase := L_socket (next_conn s), next_conn := next_conn s + 1\<rparr>)"
| fails: "ls_phase s = L_accept \<Longrightarrow> listen_step s (s\<lparr>ls_phase := L_failed\<rparr>)"
| hands_over: "ls_phase s = L_socket k \<Longrightarrow> listen_step s (hand_over k s)"
| notified: "ls_phase s = L_notify \<Longrightarrow> owes (ls_pool s) = 0 \<Longrightarrow> listen_step s (s\<lparr>ls_phase := L_test\<rparr>)"
| failed: "ls_phase s = L_failed \<Longrightarrow> listen_step s (listen_failed s)"
| closes_server: "ls_phase s = L_close \<Longrightarrow> listen_step s ((close_server_socket s)\<lparr>ls_phase := L_shutdown False\<rparr>)"
| shuts_pool: "ls_phase s = L_shutdown ret \<Longrightarrow> pool_step (ls_pool s) q \<Longrightarrow> sd q \<noteq> sd (ls_pool s) \<Longrightarrow>
    listen_step s (s\<lparr>ls_pool := q\<rparr>)"
| returns: "ls_phase s = L_shutdown ret \<Longrightarrow> sd (ls_pool s) = Sd_returned \<Longrightarrow> listen_step s (listen_end ret s)"
| background: "pool_step (ls_pool s) q \<Longrightarrow> sd q = sd (ls_pool s) \<Longrightarrow> accepted (pl q) = accepted (pl (ls_pool s)) \<Longrightarrow>
    completed (pl q) = completed (pl (ls_pool s)) \<Longrightarrow> listen_step s (s\<lparr>ls_pool := q\<rparr>)"
| closes_connection: "i < length (workers (pl (ls_pool s))) \<Longrightarrow> worker_at (pl (ls_pool s)) i = Running k \<Longrightarrow>
    listen_step s (end_connection i k s)"
| stop_call: "stop_at s = Stop_idle \<Longrightarrow> listen_step s (stop_test s)"
| stop_exchange: "stop_at s = Stop_seen \<Longrightarrow> listen_step s (stop_close s)"
| stop_last: "stop_at s = Stop_last \<Longrightarrow> listen_step s (stop_end s)"

lemmas listen_statements =
  listen_begin_def listen_test_def listen_failed_def close_server_socket_def listen_end_def end_connection_def
  stop_test_def stop_close_def stop_end_def

end
