(* ===== verification/Listener_Props.thy ===== *)
theory Listener_Props
  imports Listener
begin

text \<open>
  Properties of the listening thread with its pool: every connection is closed exactly once, a
  stop lets at most one more connection in and the loop can then always return, and two
  ways in which \<open>stop\<close> and the loop miss each other.
\<close>

section \<open>The pool below\<close>

lemma hand_over_pool:
  "pool_step\<^sup>*\<^sup>* (ls_pool s) (ls_pool (hand_over k s))"
proof (cases "pool_enqueue k (pl (ls_pool s))")
  case (Pair ok p)
  show ?thesis
  proof (cases ok)
    case True
    then have "pool_step (ls_pool s) ((ls_pool s)\<lparr>pl := p, owes := owes (ls_pool s) + 1\<rparr>)"
      using submit [of k "ls_pool s" p] Pair by simp
    then show ?thesis using True Pair by (simp add: hand_over_def r_into_rtranclp)
  qed (use Pair in \<open>simp add: hand_over_def\<close>)
qed

lemma listen_pool_step: "listen_step s s' \<Longrightarrow> pool_step\<^sup>*\<^sup>* (ls_pool s) (ls_pool s')"
proof (induction rule: listen_step.induct)
  case (hands_over s k)
  show ?case by (rule hand_over_pool)
next
  case (closes_connection i s k)
  then show ?case using finish [of i "ls_pool s" k] by (simp add: end_connection_def r_into_rtranclp)
qed (simp_all add: listen_statements r_into_rtranclp)

lemma listen_pool_steps: "listen_step\<^sup>*\<^sup>* s s' \<Longrightarrow> pool_step\<^sup>*\<^sup>* (ls_pool s) (ls_pool s')"
  by (induction rule: rtranclp_induct) (auto dest: listen_pool_step intro: rtranclp_trans)

text \<open>The pool of the server, which has a thread at least, when listening starts.\<close>

definition listening :: "nat \<Rightarrow> listener \<Rightarrow> bool" where
  "listening hw s \<longleftrightarrow> (\<exists>p port created port_of. new_task_queue hw = Some p \<and>
     listen_step\<^sup>*\<^sup>* (listen_start port created port_of (listener_new p)) s)"

lemma listen_start_pool [simp]: "ls_pool (listen_start port created port_of s) = ls_pool s"
  by (simp add: listen_start_def bind_to_port_def split: prod.split bool.split)

lemma listening_pool_ok:
  assumes "listening hw s"
  shows "pool_ok (ls_pool s)"
proof -
  obtain p port created port_of where p: "new_task_queue hw = Some p"
    "listen_step\<^sup>*\<^sup>* (listen_start port created port_of (listener_new p)) s" using assms by (auto simp: listening_def)
  have "pool_step\<^sup>*\<^sup>* (pool_init p) (ls_pool s)" using listen_pool_steps [OF p(2)] by (simp add: listener_new_def)
  moreover have "0 < thread_pool_count hw" by (simp add: thread_pool_count_def)
  ultimately show ?thesis using pool_reach_ok p(1) unfolding new_task_queue_def by blast
qed

lemma listening_step: "listening hw s \<Longrightarrow> listen_step s s' \<Longrightarrow> listening hw s'"
  unfolding listening_def by (meson rtranclp.rtrancl_into_rtrancl)

lemma listening_steps: "listening hw s \<Longrightarrow> listen_step\<^sup>*\<^sup>* s s' \<Longrightarrow> listening hw s'"
  unfolding listening_def by (meson rtranclp_trans)

section \<open>Every connection is closed once\<close>

definition held :: "listen_phase \<Rightarrow> nat multiset" where
  "held ph = (case ph of L_socket k \<Rightarrow> {#k#} | _ \<Rightarrow> {#})"

lemma held_simps [simp]:
  "held L_bound = {#}" "held L_test = {#}" "held L_accept = {#}" "held (L_socket k) = {#k#}" "held L_notify = {#}"
  "held L_failed = {#}" "held L_close = {#}" "held (L_shutdown ret) = {#}" "held (L_returned ret) = {#}"
  by (simp_all add: held_def)

text \<open>
  The connections ever accepted are those closed, those queued, those running and the one in
  the hands of the listening thread; those closed are those refused and those whose job has ended.
\<close>

definition conns_ok :: "listener \<Rightarrow> bool" where
  "conns_ok s \<longleftrightarrow> mset [0..<next_conn s] =
     mset (conn_closed s) + (mset (accepted (pl (ls_pool s))) - mset (completed (pl (ls_pool s)))) + held (ls_phase s)"

lemma completed_accepted: "pool_ok q \<Longrightarrow> mset (completed (pl q)) \<subseteq># mset (accepted (pl q))"
  by (simp add: pool_ok_def jobs_ok_def)

lemma sd_step_keeps_jobs:
  assumes "pool_step q q'" "sd q' \<noteq> sd q"
  shows "accepted (pl q') = accepted (pl q) \<and> completed (pl q') = completed (pl q)"
  using assms by (cases rule: pool_step.cases) simp_all

lemma conns_ok_step:
  assumes "listen_step s s'" "conns_ok s" "pool_ok (ls_pool s)" "pool_ok (ls_pool s')"
  shows "conns_ok s'"
  using assms(1)
proof cases
  case (hands_over k)
  obtain ok p where e: "pool_enqueue k (pl (ls_pool s)) = (ok, p)" by (metis surj_pair)
  show ?thesis
  proof (cases ok)
    case True
    have "mset (accepted (pl (ls_pool s))) + {#k#} - mset (completed (pl (ls_pool s))) =
        mset (accepted (pl (ls_pool s))) - mset (completed (pl (ls_pool s))) + {#k#}"
      using completed_accepted [OF assms(3)] by (rule subset_mset.diff_add_assoc2)
    then show ?thesis using assms(2) hands_over e True pool_enqueue_simps(8,10) [of k "pl (ls_pool s)" p]
      by (simp add: conns_ok_def hand_over_def)
  next
    case False
    then show ?thesis using assms(2) hands_over e by (simp add: conns_ok_def hand_over_def)
  qed
next
  case (closes_connection i k)
  have c: "completed (worker_done i k (pl (ls_pool s))) = completed (pl (ls_pool s)) @ [k]"
    "accepted (worker_done i k (pl (ls_pool s))) = accepted (pl (ls_pool s))"
    by (simp_all add: worker_done_def)
  have "mset (completed (pl (ls_pool s))) + {#k#} \<subseteq># mset (accepted (pl (ls_pool s)))"
    using completed_accepted [OF assms(4)] closes_connection(1) c by (simp add: end_connection_def)
  then obtain D where "mset (accepted (pl (ls_pool s))) = mset (completed (pl (ls_pool s))) + {#k#} + D"
    by (metis mset_subset_eq_exists_conv)
  then show ?thesis using assms(2) closes_connection(1) c by (simp add: conns_ok_def end_connection_def)
next
  case (shuts_pool ret q)
  then show ?thesis using assms(2) sd_step_keeps_jobs [of "ls_pool s" q] by (simp add: conns_ok_def)
qed (use assms(2) in \<open>simp_all add: conns_ok_def listen_statements\<close>)

lemma conns_ok_start: "new_task_queue hw = Some p \<Longrightarrow> conns_ok (listen_start port created port_of (listener_new p))"
  by (auto simp: conns_ok_def listen_start_def bind_to_port_def listener_new_def pool_init_def new_task_queue_def pool_new_def
      split: prod.split bool.split if_splits)

lemma listening_conns_ok:
  assumes "listening hw s"
  shows "conns_ok s"
proof -
  obtain p port created port_of where p: "new_task_queue hw = Some p"
    "listen_step\<^sup>*\<^sup>* (listen_start port created port_of (listener_new p)) s" using assms by (auto simp: listening_def)
  from p(2) show ?thesis
  proof (induction rule: rtranclp_induct)
    case base
    show ?case by (rule conns_ok_start [OF p(1)])
  next
    case (step t u)
    have "listening hw t" using p(1) step.hyps(1) by (auto simp: listening_def)
    from conns_ok_step [OF step.hyps(2) step.IH listening_pool_ok [OF this] listening_pool_ok [OF listening_step [OF this step.hyps(2)]]]
    show ?case .
  qed
qed

text \<open>The pool is shut down by the listening thread only, and has been when that returns.\<close>

definition phase_ok :: "listener \<Rightarrow> bool" where
  "phase_ok s \<longleftrightarrow>
     (case ls_phase s of
        L_shutdown ret \<Rightarrow> True
      | L_returned ret \<Rightarrow> sd (ls_pool s) = Sd_returned \<or> next_conn s = 0
      | _ \<Rightarrow> sd (ls_pool s) = Sd_none)"

lemma phase_ok_step:
  assumes "listen_step s s'" "phase_ok s" "ls_phase s = L_bound \<longrightarrow> next_conn s = 0"
  shows "phase_ok s' \<and> (ls_phase s' = L_bound \<longrightarrow> next_conn s' = 0)"
  using assms
  by cases (auto simp: phase_ok_def listen_statements hand_over_def split: listen_phase.splits prod.splits bool.splits)

lemma phase_ok_start:
  "phase_ok (listen_start port created port_of (listener_new p)) \<and> next_conn (listen_start port created port_of (listener_new p)) = 0"
  by (simp add: phase_ok_def listen_start_def bind_to_port_def listener_new_def pool_init_def split: prod.split bool.split)

lemma listening_phase_ok:
  assumes "listening hw s"
  shows "phase_ok s"
proof -
  obtain p port created port_of where "listen_step\<^sup>*\<^sup>* (listen_start port created port_of (listener_new p)) s"
    using assms by (auto simp: listening_def)
  then have "phase_ok s \<and> (ls_phase s = L_bound \<longrightarrow> next_conn s = 0)"
  proof (induction rule: rtranclp_induct)
    case base
    show ?case using phase_ok_start by simp
  next
    case (step t u)
    then show ?case using phase_ok_step by blast
  qed
  then show ?thesis ..
qed

lemma open_jobs: "pool_ok q \<Longrightarrow> mset (accepted (pl q)) - mset (completed (pl q)) = labels running_job (workers (pl q)) + mset (jobs (pl q))"
  by (simp add: pool_ok_def jobs_ok_def)

lemma running_label:
  assumes "i < length ws" "w_state (ws ! i) = Running k"
  shows "k \<in># labels running_job ws"
proof -
  have "w \<in> set ws \<Longrightarrow> running_job w = Some k \<Longrightarrow> k \<in># labels running_job ws" for w
    by (induction ws) (auto split: option.splits)
  moreover have "running_job (ws ! i) = Some k" by (simp add: running_job_def assms(2))
  ultimately show ?thesis using nth_mem [OF assms(1)] by blast
qed

text \<open>
  C1: the sockets of the connections. No socket is closed twice and none while its connection
  waits in the queue or is being served; when \<open>listen\<close> returns, by whatever way, every connection
  that \<open>accept\<close> ever returned has been closed.
\<close>

theorem connections_closed_once:
  assumes "listening hw s"
  shows "distinct (conn_closed s) \<and>
    (\<forall>k \<in> set (conn_closed s). k < next_conn s \<and> k \<notin> set (jobs (pl (ls_pool s))) \<and>
      (\<forall>i < length (workers (pl (ls_pool s))). worker_at (pl (ls_pool s)) i \<noteq> Running k)) \<and>
    (\<forall>ret. ls_phase s = L_returned ret \<longrightarrow> set (conn_closed s) = {..<next_conn s})"
proof -
  let ?q = "ls_pool s" and ?n = "next_conn s"
  note ok = listening_pool_ok [OF assms]
  have e: "mset [0..<?n] = mset (conn_closed s) + (labels running_job (workers (pl ?q)) + mset (jobs (pl ?q))) + held (ls_phase s)"
    using listening_conns_ok [OF assms] by (simp add: conns_ok_def open_jobs [OF ok])
  have "distinct [0..<?n]" by simp
  then have one: "count (mset [0..<?n]) k \<le> 1" for k by (simp add: distinct_count_atmost_1)
  have d: "count (mset (conn_closed s)) k \<le> 1" for k using one [of k] unfolding e by simp
  have "count (mset (conn_closed s)) k = (if k \<in> set (conn_closed s) then 1 else 0)" for k
    using d [of k] by (metis One_nat_def Suc_leI antisym count_greater_zero_iff not_in_iff set_mset_mset)
  then have "distinct (conn_closed s)" by (simp add: distinct_count_atmost_1)
  moreover have "k < ?n \<and> k \<notin> set (jobs (pl ?q)) \<and> (\<forall>i < length (workers (pl ?q)). worker_at (pl ?q) i \<noteq> Running k)"
    if "k \<in> set (conn_closed s)" for k
  proof -
    have "k \<in># mset [0..<?n]" unfolding e using that by simp
    moreover have "k \<notin># labels running_job (workers (pl ?q)) + mset (jobs (pl ?q))"
    proof
      assume "k \<in># labels running_job (workers (pl ?q)) + mset (jobs (pl ?q))"
      then have "0 < count (labels running_job (workers (pl ?q)) + mset (jobs (pl ?q))) k" by (simp only: count_greater_zero_iff)
      moreover have "0 < count (mset (conn_closed s)) k" using that by (simp only: count_greater_zero_iff set_mset_mset)
      ultimately have "1 < count (mset [0..<?n]) k" unfolding e count_union by linarith
      then show False using one [of k] by linarith
    qed
    ultimately show ?thesis using running_label [of _ "workers (pl ?q)" k] by (auto simp: worker_at_def)
  qed
  moreover have "set (conn_closed s) = {..<?n}" if "ls_phase s = L_returned ret" for ret
  proof (cases "next_conn s = 0")
    case True
    then show ?thesis using e by simp
  next
    case False
    then have "sd ?q = Sd_returned" using listening_phase_ok [OF assms] that by (simp add: phase_ok_def)
    from returned_pool [OF ok this] have "mset [0..<?n] = mset (conn_closed s)"
      using listening_conns_ok [OF assms] that by (simp add: conns_ok_def)
    then have "set_mset (mset [0..<?n]) = set_mset (mset (conn_closed s))" by (rule arg_cong)
    then show ?thesis by (simp add: atLeast0LessThan)
  qed
  ultimately show ?thesis by blast
qed

section \<open>A stop ends the loop\<close>

text \<open>Without a listening socket only an \<open>accept\<close> already begun can bring another connection.\<close>

definition in_flight :: "listener \<Rightarrow> nat" where
  "in_flight s = (if ls_phase s = L_accept then 1 else 0)"

lemma hand_over_keeps:
  "svr_sock (hand_over k s) = svr_sock s" "next_conn (hand_over k s) = next_conn s" "ls_phase (hand_over k s) \<noteq> L_accept"
  "ls_phase (hand_over k s) = L_notify \<or> ls_phase (hand_over k s) = L_test"
  by (cases "pool_enqueue k (pl (ls_pool s))"; cases "fst (pool_enqueue k (pl (ls_pool s)))"; simp add: hand_over_def)+

lemma stopped_step:
  assumes "listen_step s s'" "\<not> svr_sock s"
  shows "\<not> svr_sock s' \<and> next_conn s' + in_flight s' \<le> next_conn s + in_flight s"
  using assms(1)
proof cases
  case (hands_over k)
  then show ?thesis using assms(2) hand_over_keeps [of k s] by (simp add: in_flight_def)
qed (use assms(2) in \<open>simp_all add: in_flight_def listen_statements\<close>)

lemma stopped_steps:
  "listen_step\<^sup>*\<^sup>* s s' \<Longrightarrow> \<not> svr_sock s \<Longrightarrow> \<not> svr_sock s' \<and> next_conn s' + in_flight s' \<le> next_conn s + in_flight s"
  by (induction rule: rtranclp_induct) (use stopped_step in fastforce)+

text \<open>Whatever the pool does while it is shut down, the listening thread sees.\<close>

lemma pool_step_lifts:
  assumes "pool_step (ls_pool s) q" "shutting (ls_pool s)" "ls_phase s = L_shutdown ret"
  shows "\<exists>s'. listen_step s s' \<and> ls_pool s' = q \<and> ls_phase s' = L_shutdown ret"
proof (cases "sd q = sd (ls_pool s)")
  case False
  then show ?thesis using shuts_pool [OF assms(3,1)] assms(3) by fastforce
next
  case same: True
  show ?thesis
  proof (cases "accepted (pl q) = accepted (pl (ls_pool s)) \<and> completed (pl q) = completed (pl (ls_pool s))")
    case True
    then show ?thesis using background [OF assms(1) same] assms(3) by fastforce
  next
    case False
    have "\<exists>i k. i < length (workers (pl (ls_pool s))) \<and> worker_at (pl (ls_pool s)) i = Running k \<and>
        q = (ls_pool s)\<lparr>pl := worker_done i k (pl (ls_pool s))\<rparr>"
      using assms(1)
    proof cases
      case (submit j p')
      then show ?thesis using pool_enqueue_simps(6) [OF submit(2)] shutting_shut [OF assms(2)] by simp
    next
      case (top i)
      then show ?thesis using False by (simp add: worker_top_eq split: list.splits if_splits)
    next
      case (resume i)
      then show ?thesis using False by (simp add: worker_woken_eq split: list.splits if_splits)
    next
      case (time_out i)
      then show ?thesis using False by (simp add: worker_woken_eq split: list.splits if_splits)
    qed (use False in auto)
    then show ?thesis using closes_connection [of _ s] assms(3) by (fastforce simp: end_connection_def)
  qed
qed

lemma pool_steps_lift:
  "(pool_step ^^ n) (ls_pool s) q \<Longrightarrow> shutting (ls_pool s) \<Longrightarrow> ls_phase s = L_shutdown ret \<Longrightarrow>
     \<exists>s'. listen_step\<^sup>*\<^sup>* s s' \<and> ls_pool s' = q \<and> ls_phase s' = L_shutdown ret"
proof (induction n arbitrary: q)
  case 0
  then show ?case by auto
next
  case (Suc n)
  then obtain q1 where q1: "(pool_step ^^ n) (ls_pool s) q1" "pool_step q1 q" by auto
  obtain s1 where s1: "listen_step\<^sup>*\<^sup>* s s1" "ls_pool s1 = q1" "ls_phase s1 = L_shutdown ret"
    using Suc.IH [OF q1(1) Suc.prems(2,3)] by blast
  have "shutting q1" by (rule pool_end.ok_steps [OF q1(1) Suc.prems(2)])
  then obtain s' where "listen_step s1 s'" "ls_pool s' = q" "ls_phase s' = L_shutdown ret"
    using pool_step_lifts [of s1 q ret] s1 q1(2) by auto
  then show ?case using s1(1) rtranclp.rtrancl_into_rtrancl [of listen_step s s1 s'] by blast
qed

lemma shutdown_returns:
  assumes "listening hw s" "ls_phase s = L_shutdown ret"
  shows "\<exists>s'. listen_step\<^sup>*\<^sup>* s s' \<and> ls_phase s' = L_returned ret"
proof -
  have "\<exists>t. listen_step\<^sup>*\<^sup>* s t \<and> shutting (ls_pool t) \<and> ls_phase t = L_shutdown ret"
  proof (cases "sd (ls_pool s) = Sd_none")
    case False
    then show ?thesis using listening_pool_ok [OF assms(1)] assms(2) by (auto simp: shutting_def)
  next
    case True
    let ?q = "(ls_pool s)\<lparr>pl := (pl (ls_pool s))\<lparr>shut := True\<rparr>, sd := Sd_notify\<rparr>"
    have st: "listen_step s (s\<lparr>ls_pool := ?q\<rparr>)"
      by (rule shuts_pool [OF assms(2) sd_flag [OF True]]) (simp add: True)
    have "pool_ok ?q" using listening_pool_ok [OF listening_step [OF assms(1) st]] by simp
    then show ?thesis using st assms(2) by (intro exI [of _ "s\<lparr>ls_pool := ?q\<rparr>"]) (auto simp: shutting_def)
  qed
  then obtain t where t: "listen_step\<^sup>*\<^sup>* s t" "shutting (ls_pool t)" "ls_phase t = L_shutdown ret" by blast
  obtain n q where "(pool_step ^^ n) (ls_pool t) q" "sd q = Sd_returned" using pool_end.ends [OF t(2)] by blast
  then obtain u where u: "listen_step\<^sup>*\<^sup>* t u" "sd (ls_pool u) = Sd_returned" "ls_phase u = L_shutdown ret"
    using pool_steps_lift [OF _ t(2,3)] by blast
  have "listen_step u (listen_end ret u)" by (rule returns [OF u(3,2)])
  moreover have "ls_phase (listen_end ret u) = L_returned ret" by (simp add: listen_end_def)
  ultimately show ?thesis using t(1) u(1) by (meson rtranclp.rtrancl_into_rtrancl rtranclp_trans)
qed

text \<open>The notifications still owed can be sent.\<close>

lemma owed_can_be_sent:
  assumes "ls_phase s = L_notify"
  shows "\<exists>s'. listen_step\<^sup>*\<^sup>* s s' \<and> ls_phase s' = L_notify \<and> owes (ls_pool s') = 0 \<and> svr_sock s' = svr_sock s"
  using assms
proof (induction "owes (ls_pool s)" arbitrary: s)
  case 0
  then show ?case by auto
next
  case (Suc n)
  let ?q = "ls_pool s"
  have o: "0 < owes ?q" using Suc.hyps(2) by simp
  have "\<exists>q. pool_step ?q q \<and> owes q = n \<and> sd q = sd ?q \<and> accepted (pl q) = accepted (pl ?q) \<and> completed (pl q) = completed (pl ?q)"
  proof (cases "\<exists>i < length (workers (pl ?q)). worker_at (pl ?q) i = Waiting")
    case True
    then obtain i where i: "i < length (workers (pl ?q))" "worker_at (pl ?q) i = Waiting" by blast
    from notify_one [OF o i] show ?thesis using Suc.hyps(2) by (intro exI conjI) (assumption | simp)+
  next
    case False
    then have "\<forall>i < length (workers (pl ?q)). worker_at (pl ?q) i \<noteq> Waiting" by blast
    from notify_none [OF o this] show ?thesis using Suc.hyps(2) by (intro exI conjI) (assumption | simp)+
  qed
  then obtain q where q: "pool_step ?q q" "owes q = n" "sd q = sd ?q" "accepted (pl q) = accepted (pl ?q)"
    "completed (pl q) = completed (pl ?q)" by blast
  have "listen_step s (s\<lparr>ls_pool := q\<rparr>)" by (rule background [OF q(1,3-5)])
  moreover have "\<exists>s'. listen_step\<^sup>*\<^sup>* (s\<lparr>ls_pool := q\<rparr>) s' \<and> ls_phase s' = L_notify \<and> owes (ls_pool s') = 0 \<and>
      svr_sock s' = svr_sock (s\<lparr>ls_pool := q\<rparr>)"
    by (rule Suc.hyps(1)) (use q(2) Suc.prems in simp_all)
  ultimately show ?case by (metis converse_rtranclp_into_rtranclp listener.select_convs(1) listener.surjective listener.update_convs(6))
qed

lemma one_step: "listen_step s s' \<Longrightarrow> listen_step\<^sup>*\<^sup>* s' t \<Longrightarrow> listen_step\<^sup>*\<^sup>* s t"
  by (rule converse_rtranclp_into_rtranclp)

lemma test_stops: "ls_phase s = L_test \<Longrightarrow> \<not> svr_sock s \<Longrightarrow> \<exists>s'. listen_step\<^sup>*\<^sup>* s s' \<and> ls_phase s' = L_shutdown True"
  using tests [of s] by (auto simp: listen_test_def)

lemma stopped_reaches_shutdown:
  assumes "\<not> svr_sock s"
  shows "\<exists>s' ret. listen_step\<^sup>*\<^sup>* s s' \<and> (ls_phase s' = L_shutdown ret \<or> ls_phase s' = L_returned ret)"
proof (cases "ls_phase s")
  case L_bound
  show ?thesis
  proof (cases "is_decommissioned s")
    case True
    then show ?thesis using r_into_rtranclp [of listen_step, OF begins [OF L_bound]]
      by (intro exI [of _ "listen_begin s"] exI [of _ False]) (simp add: listen_begin_def)
  next
    case False
    then show ?thesis using one_step [OF begins [OF L_bound]] test_stops [of "listen_begin s"] assms
      by (auto simp: listen_begin_def)
  qed
next
  case L_test
  then show ?thesis using test_stops assms by blast
next
  case L_accept
  then show ?thesis using one_step [OF retries [OF L_accept]] test_stops [of "s\<lparr>ls_phase := L_test\<rparr>"] assms by auto
next
  case (L_socket k)
  note h = one_step [OF hands_over [OF L_socket]] and keep = hand_over_keeps [of k s]
  show ?thesis
  proof (cases "ls_phase (hand_over k s) = L_test")
    case True
    then show ?thesis using h test_stops [OF True] keep assms by auto
  next
    case False
    then obtain t where t: "listen_step\<^sup>*\<^sup>* (hand_over k s) t" "ls_phase t = L_notify" "owes (ls_pool t) = 0" "svr_sock t = svr_sock s"
      using owed_can_be_sent [of "hand_over k s"] keep by auto
    obtain u where "listen_step\<^sup>*\<^sup>* (t\<lparr>ls_phase := L_test\<rparr>) u" "ls_phase u = L_shutdown True"
      using test_stops [of "t\<lparr>ls_phase := L_test\<rparr>"] t(4) assms by auto
    then show ?thesis using h [OF rtranclp_trans [OF t(1) one_step [OF notified [OF t(2,3)]]]] by blast
  qed
next
  case L_notify
  then obtain t where t: "listen_step\<^sup>*\<^sup>* s t" "ls_phase t = L_notify" "owes (ls_pool t) = 0" "svr_sock t = svr_sock s"
    using owed_can_be_sent by blast
  obtain u where "listen_step\<^sup>*\<^sup>* (t\<lparr>ls_phase := L_test\<rparr>) u" "ls_phase u = L_shutdown True"
    using test_stops [of "t\<lparr>ls_phase := L_test\<rparr>"] t(4) assms by auto
  then show ?thesis using rtranclp_trans [OF t(1) one_step [OF notified [OF t(2,3)]]] by blast
next
  case L_failed
  then show ?thesis using r_into_rtranclp [of listen_step, OF failed [OF L_failed]] assms
    by (intro exI [of _ "listen_failed s"] exI [of _ True]) (simp add: listen_failed_def)
next
  case L_close
  have "ls_phase ((close_server_socket s)\<lparr>ls_phase := L_shutdown False\<rparr>) = L_shutdown False" by simp
  then show ?thesis using closes_server [OF L_close] by blast
qed auto

lemma stopped_returns:
  assumes "listening hw s" "\<not> svr_sock s"
  shows "\<exists>s' ret. listen_step\<^sup>*\<^sup>* s s' \<and> ls_phase s' = L_returned ret"
proof -
  obtain t ret where t: "listen_step\<^sup>*\<^sup>* s t" "ls_phase t = L_shutdown ret \<or> ls_phase t = L_returned ret"
    using stopped_reaches_shutdown [OF assms(2)] by blast
  from t(2) show ?thesis
  proof
    assume "ls_phase t = L_shutdown ret"
    from shutdown_returns [OF listening_steps [OF assms(1) t(1)] this] show ?thesis using t(1) by (meson rtranclp_trans)
  qed (use t(1) in blast)
qed

text \<open>A server that has accepted a connection, and was then stopped.\<close>

definition demo_bound :: listener where
  "demo_bound = listen_start 8080 True None (listener_new (the (new_task_queue 4)))"

lemma demo_bound_simps:
  "new_task_queue 4 = Some (the (new_task_queue 4) :: nat pool)" "svr_sock demo_bound" "ls_phase demo_bound = L_bound"
  "stop_at demo_bound = Stop_idle" "\<not> is_decommissioned demo_bound" "\<not> is_running demo_bound" "next_conn demo_bound = 0"
  "svr_closes demo_bound = 0"
  by (simp_all add: new_task_queue_def pool_new_def demo_bound_def listen_start_def bind_to_port_def bind_internal_def listener_new_def)

lemma demo_listening: "listening 4 demo_bound"
  unfolding listening_def demo_bound_def using demo_bound_simps(1) by blast

text \<open>The listening thread in \<open>accept\<close>.\<close>

definition demo_accepting :: listener where
  "demo_accepting = demo_bound\<lparr>is_running := True, ls_phase := L_accept\<rparr>"

lemma demo_accepts: "listening 4 demo_accepting"
proof -
  have b: "listen_step demo_bound (demo_bound\<lparr>is_running := True, ls_phase := L_test\<rparr>)"
    using begins [of demo_bound] demo_bound_simps by (simp add: listen_begin_def)
  have "listen_step (demo_bound\<lparr>is_running := True, ls_phase := L_test\<rparr>) demo_accepting"
    using tests [of "demo_bound\<lparr>is_running := True, ls_phase := L_test\<rparr>"] demo_bound_simps
    by (simp add: listen_test_def demo_accepting_def)
  from listening_step [OF listening_step [OF demo_listening b] this] show ?thesis .
qed

definition demo_stopped :: listener where
  "demo_stopped = demo_accepting\<lparr>ls_phase := L_socket 0, next_conn := 1, svr_closes := 1, svr_sock := False, stop_at := Stop_last\<rparr>"

lemma demo_stops: "listening 4 demo_stopped"
proof -
  let ?a = "demo_accepting\<lparr>ls_phase := L_socket 0, next_conn := 1\<rparr>"
  have a: "listen_step demo_accepting ?a"
    using accepts [of demo_accepting] demo_bound_simps by (simp add: demo_accepting_def)
  have c: "listen_step ?a (?a\<lparr>stop_at := Stop_seen\<rparr>)"
    using stop_call [of ?a] demo_bound_simps by (simp add: demo_accepting_def listen_statements)
  have "listen_step (?a\<lparr>stop_at := Stop_seen\<rparr>) demo_stopped"
    using stop_exchange [of "?a\<lparr>stop_at := Stop_seen\<rparr>"] demo_bound_simps
    by (simp add: demo_accepting_def demo_stopped_def listen_statements)
  from listening_step [OF listening_step [OF listening_step [OF demo_accepts a] c] this] show ?thesis .
qed

lemma listen_step_conns: "listen_step s s' \<Longrightarrow> next_conn s \<le> next_conn s'"
  by (induction rule: listen_step.induct)
    (simp_all add: listen_statements hand_over_keeps)

lemma demo_returns: "\<exists>s ret. listening 4 s \<and> ls_phase s = L_returned ret \<and> next_conn s = 1"
proof -
  have n: "\<not> svr_sock demo_stopped" "next_conn demo_stopped = 1" "in_flight demo_stopped = 0"
    by (simp_all add: demo_stopped_def in_flight_def)
  obtain s ret where s: "listen_step\<^sup>*\<^sup>* demo_stopped s" "ls_phase s = L_returned ret"
    using stopped_returns [OF demo_stops n(1)] by blast
  have "next_conn demo_stopped \<le> next_conn s" using s(1) by (induction rule: rtranclp_induct) (auto dest: listen_step_conns)
  moreover have "next_conn s + in_flight s \<le> next_conn demo_stopped + in_flight demo_stopped"
    using stopped_steps [OF s(1) n(1)] by blast
  ultimately have "next_conn s = 1" unfolding n by simp
  then show ?thesis using listening_steps [OF demo_stops s(1)] s(2) by blast
qed

theorem connections_closed_once_witness:
  "\<exists>s ret. listening 4 s \<and> ls_phase s = L_returned ret \<and> set (conn_closed s) = {0}"
proof -
  obtain s ret where s: "listening 4 s" "ls_phase s = L_returned ret" "next_conn s = 1" using demo_returns by blast
  from connections_closed_once [OF s(1)] s show ?thesis by (metis One_nat_def lessThan_0 lessThan_Suc)
qed

text \<open>
  C2: a stop ends the loop. Once the listening socket is gone, whatever the threads do, at most
  one more connection gets in, one that an \<open>accept\<close> already under way returns; and from every such
  state the threads can go on to the return of \<open>listen\<close>, so that nothing is waited for that
  cannot come, as long as the connections being served end.
\<close>

theorem stop_ends_listening:
  assumes "listening hw s" "\<not> svr_sock s"
  shows "(\<forall>s'. listen_step\<^sup>*\<^sup>* s s' \<longrightarrow> next_conn s' \<le> next_conn s + 1) \<and>
    (\<exists>s' ret. listen_step\<^sup>*\<^sup>* s s' \<and> ls_phase s' = L_returned ret)"
proof -
  have "next_conn s' \<le> next_conn s + 1" if "listen_step\<^sup>*\<^sup>* s s'" for s'
  proof -
    have "next_conn s' + in_flight s' \<le> next_conn s + in_flight s" using stopped_steps [OF that assms(2)] by blast
    moreover have "in_flight s \<le> 1" by (simp add: in_flight_def)
    ultimately show ?thesis by linarith
  qed
  then show ?thesis using stopped_returns [OF assms] by blast
qed

theorem stop_ends_listening_witness:
  "\<exists>s'. listen_step\<^sup>*\<^sup>* demo_stopped s' \<and> (\<exists>ret. ls_phase s' = L_returned ret) \<and> next_conn s' \<le> 2"
proof -
  have n: "\<not> svr_sock demo_stopped" "next_conn demo_stopped = 1" by (simp_all add: demo_stopped_def)
  note t = stop_ends_listening [OF demo_stops n(1)]
  then obtain s' ret where s': "listen_step\<^sup>*\<^sup>* demo_stopped s'" "ls_phase s' = L_returned ret" by blast
  moreover have "next_conn s' \<le> next_conn demo_stopped + 1" using t s'(1) by blast
  ultimately show ?thesis unfolding n(2) by auto
qed

section \<open>Where \<open>stop\<close> and the loop miss each other\<close>

text \<open>
  C3: the listening socket can be closed twice. When \<open>accept\<close> fails, the loop closes the socket
  but leaves its number in \<open>svr_sock_\<close>, and while the connections being served keep the loop from
  returning, \<open>stop\<close> closes the same number again, which may by then belong to something else.
\<close>

theorem listening_socket_closed_twice:
  "\<exists>s. listening 4 s \<and> svr_closes s = 2 \<and> ls_phase s = L_shutdown False"
proof -
  let ?f = "demo_accepting\<lparr>ls_phase := L_failed\<rparr>" and ?c = "demo_accepting\<lparr>ls_phase := L_close\<rparr>"
  let ?d = "demo_accepting\<lparr>svr_closes := 1, ls_phase := L_shutdown False\<rparr>"
  let ?e = "?d\<lparr>stop_at := Stop_seen\<rparr>"
  let ?g = "?e\<lparr>svr_closes := 2, svr_sock := False, stop_at := Stop_last\<rparr>"
  note d = demo_bound_simps demo_accepting_def
  have "listen_step demo_accepting ?f" using fails [of demo_accepting] by (simp add: d)
  moreover have "listen_step ?f ?c" using failed [of ?f] by (simp add: d listen_failed_def)
  moreover have "listen_step ?c ?d" using closes_server [of ?c] by (simp add: d listen_statements)
  moreover have "listen_step ?d ?e" using stop_call [of ?d] by (simp add: d listen_statements)
  moreover have "listen_step ?e ?g" using stop_exchange [of ?e] by (simp add: d listen_statements numeral_2_eq_2)
  ultimately have "listening 4 ?g" using listening_step demo_accepts by meson
  then show ?thesis by (intro exI [of _ ?g]) simp
qed

text \<open>
  A stop that comes before the loop is lost: called by a signal between \<open>bind\<close> and the first
  statements of \<open>listen_internal\<close>, it leaves the server exactly as it was, and the loop begins.
\<close>

theorem early_stop_is_lost:
  assumes "ls_phase s = L_bound" "stop_at s = Stop_idle" "\<not> is_running s" "\<not> is_decommissioned s"
  shows "listen_step s (s\<lparr>stop_at := Stop_last\<rparr>) \<and> listen_step (s\<lparr>stop_at := Stop_last\<rparr>) s \<and>
    listen_step s (s\<lparr>is_running := True, ls_phase := L_test\<rparr>)"
proof -
  have "s\<lparr>is_decommissioned := False, stop_at := Stop_idle\<rparr> = s" using assms(2,4) by (cases s) simp
  then have "listen_step (s\<lparr>stop_at := Stop_last\<rparr>) s" using stop_last [of "s\<lparr>stop_at := Stop_last\<rparr>"] by (simp add: stop_end_def)
  then show ?thesis using stop_call [OF assms(2)] begins [OF assms(1)] assms(3,4) by (simp add: listen_statements)
qed

theorem early_stop_is_lost_witness:
  "listen_step (demo_bound\<lparr>stop_at := Stop_last\<rparr>) demo_bound"
  using early_stop_is_lost [of demo_bound] demo_bound_simps by blast

text \<open>
  A second \<open>stop\<close> while the first one is still being waited for finds no listening socket, which
  an assertion in it excludes.
\<close>

theorem second_stop_finds_no_socket:
  "\<exists>s. listening 4 s \<and> stop_at s = Stop_seen \<and> \<not> svr_sock s"
proof -
  have i: "stop_at demo_stopped = Stop_last" "is_running demo_stopped" "\<not> svr_sock demo_stopped"
    by (simp_all add: demo_stopped_def demo_accepting_def)
  have "listen_step (stop_end demo_stopped) (stop_test (stop_end demo_stopped))"
    by (rule stop_call) (simp add: stop_end_def)
  from listening_step [OF listening_step [OF demo_stops stop_last [OF i(1)]] this]
  show ?thesis using i by (intro exI [of _ "stop_test (stop_end demo_stopped)"]) (simp add: stop_test_def stop_end_def)
qed

end
