(* ===== verification/Http_Route.thy ===== *)
theory Http_Route
  imports Http_Message
begin

text \<open>
  Route matchers in \<open>include/httplib.h\<close>: \<open>make_matcher\<close>, \<open>PathParamsMatcher\<close> and \<open>RegexMatcher\<close>.
  A pattern without a parameter is a regular expression; it is modelled for patterns without
  special characters, which match exactly themselves.
\<close>

section \<open>Patterns with parameters\<close>

text \<open>
  The loop of the constructor: \<open>last\<close> is one past the end of the last parameter, and a repeated
  parameter name is an exception.
\<close>

function pattern_loop :: "string \<Rightarrow> nat \<Rightarrow> string list \<Rightarrow> string list \<Rightarrow> (string list \<times> string list) option" where
  "pattern_loop pat lst frags names =
     (case str_find pat ''/:'' (if lst = 0 then 0 else lst - 1) of
        None \<Rightarrow> Some (frags @ (if lst < length pat then [drop lst pat] else []), names)
      | Some m \<Rightarrow>
          (let frag = substr pat lst (m + 1 - lst);
               sep = (case str_find pat ''/'' (m + 2) of Some p \<Rightarrow> p | None \<Rightarrow> length pat);
               name = substr pat (m + 2) (sep - (m + 2))
           in if name \<in> set names then None else pattern_loop pat (sep + 1) (frags @ [frag]) (names @ [name])))"
  by pat_completeness auto

lemma str_find_ge: "str_find s p pos = Some i \<Longrightarrow> pos \<le> i"
  by (auto simp: str_find_def split: if_splits)

lemma first_match_less: "first_match p s = Some i \<Longrightarrow> p \<noteq> [] \<Longrightarrow> i < length s"
  by (induction s arbitrary: i) (auto split: if_splits)

lemma str_find_less: "str_find s p pos = Some i \<Longrightarrow> p \<noteq> [] \<Longrightarrow> i < length s"
  by (auto simp: str_find_def dest!: first_match_less split: if_splits)

lemma marker_fits: "str_find s ''/:'' pos = Some i \<Longrightarrow> i + 2 \<le> length s"
proof -
  assume "str_find s ''/:'' pos = Some i"
  then obtain k where k: "first_match ''/:'' (drop pos s) = Some k" "i = pos + k" "pos \<le> length s"
    by (auto simp: str_find_def split: if_splits)
  have "first_match ''/:'' t = Some k \<Longrightarrow> k + 2 \<le> length t" for t
  proof (induction t arbitrary: k)
    case (Cons c t)
    then show ?case by (cases t) (auto simp: starts_with_def split: if_splits)
  qed simp
  then show ?thesis using k by fastforce
qed

termination pattern_loop
proof (relation "measure (\<lambda>(pat, lst, frags, names). length pat + 1 - lst)", simp, clarify)
  fix pat :: string and lst m sep :: nat and frags names :: "string list"
  assume m: "str_find pat ''/:'' (if lst = 0 then 0 else lst - 1) = Some m"
  have a: "lst \<le> m + 1" using str_find_ge [OF m] by (auto split: if_splits)
  have b: "m + 2 \<le> length pat" by (rule marker_fits [OF m])
  have "m + 2 \<le> (case str_find pat ''/'' (m + 2) of Some p \<Rightarrow> p | None \<Rightarrow> length pat)"
    using b by (auto split: option.splits dest: str_find_ge)
  then show "((pat, (case str_find pat ''/'' (m + 2) of Some p \<Rightarrow> p | None \<Rightarrow> length pat) + 1, f', n'), pat, lst, frags, names)
      \<in> measure (\<lambda>(pat, lst, frags, names). length pat + 1 - lst)" for f' n'
    using a b by auto
qed

declare pattern_loop.simps [simp del]

definition path_params_matcher :: "string \<Rightarrow> (string list \<times> string list) option" where
  "path_params_matcher pat = pattern_loop pat 0 [] []"

text \<open>The loop over the fragments; \<open>pos\<close> is one past what is matched, and parameters are bound on the way.\<close>

definition strncmp_eq :: "string \<Rightarrow> string \<Rightarrow> nat \<Rightarrow> bool" where
  "strncmp_eq a b n \<longleftrightarrow> take n (c_str a) = take n (c_str b)"

fun fragments_loop ::
    "string \<Rightarrow> string list \<Rightarrow> string list \<Rightarrow> nat \<Rightarrow> (string \<times> string) list \<Rightarrow> bool \<times> (string \<times> string) list" where
  "fragments_loop path [] names pos ps = (length path \<le> pos, ps)"
| "fragments_loop path (frag # frags) names pos ps =
     (if length path < pos + length frag then (False, ps)
      else if \<not> strncmp_eq (drop pos path) frag (length frag) then (False, ps)
      else (case names of
              [] \<Rightarrow> fragments_loop path frags [] (pos + length frag) ps
            | name # names' \<Rightarrow>
                (let start = pos + length frag;
                     sep = (case str_find path ''/'' start of Some p \<Rightarrow> p | None \<Rightarrow> length path);
                     ps' = (if map_of ps name = None then ps @ [(name, substr path start (sep - start))] else ps)
                 in fragments_loop path frags names' (sep + 1) ps')))"

section \<open>Matchers\<close>

datatype matcher = Path_params string "string list" "string list" | Regex string

text \<open>\<open>None\<close> is the exception of the constructor.\<close>

definition make_matcher :: "string \<Rightarrow> matcher option" where
  "make_matcher pat =
     (if str_find pat ''/:'' 0 \<noteq> None
      then map_option (\<lambda>(frags, names). Path_params pat frags names) (path_params_matcher pat)
      else Some (Regex pat))"

definition matcher_pattern :: "matcher \<Rightarrow> string" where
  "matcher_pattern m = (case m of Path_params pat _ _ \<Rightarrow> pat | Regex pat \<Rightarrow> pat)"

text \<open>The characters with a meaning in an ECMAScript expression.\<close>

definition is_literal_pattern :: "string \<Rightarrow> bool" where
  "is_literal_pattern pat \<longleftrightarrow> (\<forall>c \<in> set pat. c \<notin> set ''^$.*+?()[]{}|'' \<and> c \<noteq> CHR 0x5C)"

definition matcher_match :: "matcher \<Rightarrow> http_request \<Rightarrow> bool \<times> http_request" where
  "matcher_match m req =
     (case m of
        Regex pat \<Rightarrow> (rq_path req = pat, req\<lparr>rq_path_params := []\<rparr>)
      | Path_params _ frags names \<Rightarrow>
          (case fragments_loop (rq_path req) frags names 0 [] of (ok, ps) \<Rightarrow> (ok, req\<lparr>rq_path_params := ps\<rparr>)))"

end
