(* ===== verification/Http_Content.thy ===== *)
theory Http_Content
  imports Http_Message Fp64
begin

text \<open>
  Content negotiation in \<open>include/httplib.h\<close>: the media type of a file, what is worth
  compressing, quality values and the choice of an encoding, and the \<open>Accept\<close> header. The
  compiled-in encodings are a parameter; the server here is built without any.
\<close>

section \<open>Media types of files\<close>

text \<open>The expression \<open>\.([a-zA-Z0-9]+)$\<close>: letters and digits at the end, behind a dot.\<close>

definition file_extension :: "string \<Rightarrow> string" where
  "file_extension path =
     (let ext = rev (takeWhile is_alnum (rev path)); rest = dropWhile is_alnum (rev path)
      in case rest of c # _ \<Rightarrow> if c = CHR ''.'' then ext else [] | [] \<Rightarrow> [])"

definition content_type_table :: "(string \<times> string) list" where
  "content_type_table =
     [(''css'', ''text/css''), (''csv'', ''text/csv''), (''htm'', ''text/html''), (''html'', ''text/html''),
      (''js'', ''text/javascript''), (''mjs'', ''text/javascript''), (''txt'', ''text/plain''),
      (''vtt'', ''text/vtt''), (''apng'', ''image/apng''), (''avif'', ''image/avif''),
      (''bmp'', ''image/bmp''), (''gif'', ''image/gif''), (''png'', ''image/png''),
      (''svg'', ''image/svg+xml''), (''webp'', ''image/webp''), (''ico'', ''image/x-icon''),
      (''tif'', ''image/tiff''), (''tiff'', ''image/tiff''), (''jpg'', ''image/jpeg''),
      (''jpeg'', ''image/jpeg''), (''mp4'', ''video/mp4''), (''mpeg'', ''video/mpeg''),
      (''webm'', ''video/webm''), (''mp3'', ''audio/mp3''), (''mpga'', ''audio/mpeg''),
      (''weba'', ''audio/webm''), (''wav'', ''audio/wave''), (''otf'', ''font/otf''),
      (''ttf'', ''font/ttf''), (''woff'', ''font/woff''), (''woff2'', ''font/woff2''),
      (''7z'', ''application/x-7z-compressed''), (''atom'', ''application/atom+xml''),
      (''pdf'', ''application/pdf''), (''json'', ''application/json''), (''rss'', ''application/rss+xml''),
      (''tar'', ''application/x-tar''), (''xht'', ''application/xhtml+xml''),
      (''xhtml'', ''application/xhtml+xml''), (''xslt'', ''application/xslt+xml''),
      (''xml'', ''application/xml''), (''gz'', ''application/gzip''), (''zip'', ''application/zip''),
      (''wasm'', ''application/wasm'')]"

text \<open>The switch compares the hashes of the extensions.\<close>

definition find_content_type :: "string \<Rightarrow> (string \<times> string) list \<Rightarrow> string \<Rightarrow> string" where
  "find_content_type path user_data default_content_type =
     (let ext = file_extension path in
      case map_of user_data ext of
        Some t \<Rightarrow> t
      | None \<Rightarrow>
          (case List.find (\<lambda>row. str2tag (fst row) = str2tag ext) content_type_table of
             Some (_, t) \<Rightarrow> t
           | None \<Rightarrow> default_content_type))"

definition compressible_types :: "string list" where
  "compressible_types =
     [''image/svg+xml'', ''application/javascript'', ''application/x-javascript'', ''application/json'',
      ''application/ld+json'', ''application/xml'', ''application/xhtml+xml'', ''application/rss+xml'',
      ''application/atom+xml'', ''application/xslt+xml'', ''application/protobuf'']"

definition can_compress_content_type :: "string \<Rightarrow> bool" where
  "can_compress_content_type content_type =
     (let mime = media_type content_type; tag = str2tag mime
      in if tag \<in> str2tag ` set compressible_types then True
         else if tag = str2tag ''text/event-stream'' then False
         else starts_with mime ''text/'')"

section \<open>Numbers\<close>

text \<open>
  \<open>std::strtod\<close> without the end pointer: \<open>Fp_none\<close> when nothing is parsed, \<open>Fp_range\<close> when
  \<open>errno\<close> becomes \<open>ERANGE\<close>. Trailing characters are ignored.
\<close>

datatype fp = Fp_none | Fp_range | Fp_inf bool | Fp_nan | Fp_fin rat

definition hex_val :: "string \<Rightarrow> nat" where
  "hex_val s = fold (\<lambda>c v. v * 16 + the (is_hex c)) s 0"

text \<open>The exponent behind the marker \<open>e\<close> or \<open>p\<close>, or zero.\<close>

definition exponent :: "char list \<Rightarrow> string \<Rightarrow> int" where
  "exponent marks s =
     (case s of
        c # t \<Rightarrow>
          if c \<in> set marks then
            (let (sign, ds) = (case t of
                   d # u \<Rightarrow> if d = CHR ''-'' then (- 1, u) else if d = CHR ''+'' then (1, u) else (1, t)
                 | [] \<Rightarrow> (1, []));
                 digits = takeWhile is_digit_c ds
             in if digits = [] then 0 else sign * int (of_dec digits))
          else 0
      | [] \<Rightarrow> 0)"

definition round_fp :: "rat \<Rightarrow> fp" where
  "round_fp x =
     (let r = rnd64 x in
      if 2 ^ 1024 \<le> \<bar>r\<bar> then Fp_range
      else if x \<noteq> 0 \<and> \<bar>x\<bar> < 1 / 2 ^ 1022 \<and> x * 2 ^ 1074 \<notin> \<int> then Fp_range
      else Fp_fin r)"

definition mantissa :: "(char \<Rightarrow> bool) \<Rightarrow> string \<Rightarrow> string \<times> string \<times> string" where
  "mantissa digit s =
     (let ip = takeWhile digit s; r = dropWhile digit s
      in case r of
           c # t \<Rightarrow> if c = CHR ''.'' then (ip, takeWhile digit t, dropWhile digit t) else (ip, [], r)
         | [] \<Rightarrow> (ip, [], []))"

definition has_hex_digits :: "string \<Rightarrow> bool" where
  "has_hex_digits s = (let (ip, fp, _) = mantissa (\<lambda>c. is_hex c \<noteq> None) s in ip \<noteq> [] \<or> fp \<noteq> [])"

definition strtod :: "string \<Rightarrow> fp" where
  "strtod str =
     (let s1 = dropWhile is_space_c (c_str str);
          (sign, s2) = (case s1 of
             c # t \<Rightarrow> if c = CHR ''-'' then (- 1, t) else if c = CHR ''+'' then (1, t) else (1, s1)
           | [] \<Rightarrow> (1, []))
      in if equal_ci (take 3 s2) ''inf'' then Fp_inf (sign = 1)
         else if equal_ci (take 3 s2) ''nan'' then Fp_nan
         else if equal_ci (take 2 s2) ''0x'' \<and> has_hex_digits (drop 2 s2) then
           (let (ip, fp, r) = mantissa (\<lambda>c. is_hex c \<noteq> None) (drop 2 s2)
            in round_fp (sign * of_nat (hex_val (ip @ fp)) * 2 powi (exponent ''pP'' r - 4 * int (length fp))))
         else
           (let (ip, fp, r) = mantissa is_digit_c s2
            in if ip = [] \<and> fp = [] then Fp_none
               else round_fp (sign * of_nat (of_dec (ip @ fp)) * 10 powi (exponent ''eE'' r - int (length fp)))))"

section \<open>Quality values\<close>

text \<open>A quality is a number between 0 and 1, or, since both comparisons fail for it, not a number.\<close>

datatype quality = Quality rat | Quality_nan

definition quality_of :: "string \<Rightarrow> quality option" where
  "quality_of v =
     (case strtod v of
        Fp_fin r \<Rightarrow> if r < 0 \<or> 1 < r then None else Some (Quality r)
      | Fp_nan \<Rightarrow> Some Quality_nan
      | _ \<Rightarrow> None)"

definition is_quality_param :: "string \<Rightarrow> bool" where
  "is_quality_param p \<longleftrightarrow> 2 \<le> length p \<and> (p ! 0 = CHR ''q'' \<or> p ! 0 = CHR ''Q'') \<and> p ! 1 = CHR ''=''"

definition parse_quality :: "string \<Rightarrow> (string \<times> quality) option" where
  "parse_quality s =
     (let (l, params) = divide s (CHR '';''); token = trim_copy l in
      if token = [] then None
      else if params = [] then Some (token, Quality 1)
      else (case split_find params (CHR '';'') None is_quality_param of
              None \<Rightarrow> Some (token, Quality 1)
            | Some p \<Rightarrow>
                (let (a, b) = trim p 2 (length p) in
                 if b \<le> a then None else map_option (Pair token) (quality_of (substr p a (b - a))))))"

section \<open>The content encoding\<close>

datatype encoding = Enc_none | Enc_brotli | Enc_gzip | Enc_zstd

definition encoding_priority :: "encoding \<Rightarrow> nat" where
  "encoding_priority t = (case t of Enc_brotli \<Rightarrow> 0 | Enc_gzip \<Rightarrow> 1 | Enc_zstd \<Rightarrow> 2 | Enc_none \<Rightarrow> 3)"

text \<open>\<open>supported\<close> are the encodings compiled in.\<close>

definition token_encoding :: "encoding set \<Rightarrow> string \<Rightarrow> encoding" where
  "token_encoding supported name =
     (if Enc_brotli \<in> supported \<and> equal_ci name ''br'' then Enc_brotli
      else if Enc_gzip \<in> supported \<and> equal_ci name ''gzip'' then Enc_gzip
      else if Enc_zstd \<in> supported \<and> equal_ci name ''zstd'' then Enc_zstd
      else Enc_none)"

definition encoding_step :: "encoding set \<Rightarrow> string \<Rightarrow> encoding \<times> rat \<Rightarrow> encoding \<times> rat" where
  "encoding_step supported entry st =
     (case parse_quality entry of
        Some (name, Quality q) \<Rightarrow>
          (let t = token_encoding supported name; (best, best_q) = st in
           if q \<le> 0 \<or> t = Enc_none then st
           else if best_q < q \<or> q = best_q \<and> encoding_priority t < encoding_priority best then (t, q)
           else st)
      | _ \<Rightarrow> st)"

definition encoding_type :: "encoding set \<Rightarrow> http_request \<Rightarrow> http_response \<Rightarrow> encoding" where
  "encoding_type supported req res =
     (if \<not> can_compress_content_type (rs_header res ''Content-Type'') then Enc_none
      else (let s = rq_header req ''Accept-Encoding'' in
            if s = [] then Enc_none
            else fst (fold (encoding_step supported) (split s (CHR '','') None) (Enc_none, 0))))"

definition encoding_name :: "encoding \<Rightarrow> string" where
  "encoding_name t = (case t of Enc_gzip \<Rightarrow> ''gzip'' | Enc_brotli \<Rightarrow> ''br'' | Enc_zstd \<Rightarrow> ''zstd'' | Enc_none \<Rightarrow> [])"

section \<open>The \<open>Accept\<close> header\<close>

text \<open>
  The comparison handed to \<open>std::sort\<close> orders the entries by falling quality and, within a
  quality, by position. It is no ordering when an entry among several has a quality that is
  not a number; the outcome of the sort is then undetermined.
\<close>

datatype accepted = Accept_bad | Accept_types "string list" | Accept_undetermined

definition accept_entry :: "string \<Rightarrow> (string \<times> quality) option" where
  "accept_entry piece =
     (case parse_quality (trim_copy piece) of
        None \<Rightarrow> None
      | Some (token, q) \<Rightarrow>
          (let m = media_type token in
           if m = [] \<or> (m \<noteq> ''*'' \<and> CHR ''/'' \<notin> set m) then None else Some (m, q)))"

definition quality_key :: "quality \<Rightarrow> rat" where
  "quality_key q = (case q of Quality r \<Rightarrow> - r | Quality_nan \<Rightarrow> 0)"

definition parse_accept_header :: "string \<Rightarrow> accepted" where
  "parse_accept_header s =
     (if s = [] then Accept_types []
      else if hd s = CHR '','' \<or> last s = CHR '','' \<or> str_find s '',,'' 0 \<noteq> None then Accept_bad
      else (let entries = map accept_entry (split s (CHR '','') None) in
            if None \<in> set entries then Accept_bad
            else if Quality_nan \<in> snd ` the ` set entries \<and> 1 < length entries then Accept_undetermined
            else Accept_types (map fst (sort_key (\<lambda>e. quality_key (snd e)) (map the entries)))))"

end
