(* ===== verification/Http_Query_Props.thy ===== *)
theory Http_Query_Props
  imports Http_Query
begin

text \<open>
  Properties of percent encoding: every decoder undoes its encoder, on any bytes, and the
  query text of a parameter multimap is read back as that multimap.
\<close>

section \<open>One escape\<close>

lemma byte_div_16: "byte c div 16 < 16"
  by (rule less_mult_imp_div_less) simp

lemma is_hex_upper: "d < 16 \<Longrightarrow> is_hex (hex_upper d) = Some d"
proof -
  have "\<forall>d \<in> set [0 ..< 16]. is_hex (hex_upper d) = Some d" by code_simp
  then show "d < 16 \<Longrightarrow> is_hex (hex_upper d) = Some d" by simp
qed

lemma hex_digits: "is_hex (hex_upper (byte c div 16)) = Some (byte c div 16)"
  "is_hex (hex_upper (byte c mod 16)) = Some (byte c mod 16)"
  by (rule is_hex_upper, rule byte_div_16) (rule is_hex_upper, simp)

lemma chr_byte: "chr (byte c div 16 * 16 + byte c mod 16) = c"
  by simp

lemma from_hex_pct: "from_hex_to_i (hex_upper (byte c div 16) # hex_upper (byte c mod 16) # t) 0 2 = Some (byte c)"
  by (simp add: from_hex_to_i_def numeral_2_eq_2 hex_digits)

lemma decode_uri_pct: "decode_uri_component (pct c @ t) = c # decode_uri_component t"
  by (simp add: pct_def from_hex_pct)

lemma decode_query_pct: "decode_query_component (pct c @ t) b = c # decode_query_component t b"
  by (simp add: pct_def strtoul_hex2_def hex_digits)

lemma hex_upper_not_u: "d < 16 \<Longrightarrow> hex_upper d \<noteq> CHR ''u''"
  using is_hex_upper [of d] by (auto simp: is_hex_def is_digit_c_def)

lemma decode_path_pct: "decode_path_component (pct c @ t) = c # decode_path_component t"
  using hex_upper_not_u [OF byte_div_16 [of c]] by (simp add: pct_def from_hex_pct)

section \<open>Whole strings\<close>

lemma concat_decode:
  assumes "\<And>c t. D (E c @ t) = c # D t" "D [] = []"
  shows "D (concat (map E s)) = s"
  using assms by (induction s) simp_all

lemma decode_plain: "c \<noteq> CHR ''%'' \<Longrightarrow> decode_uri_component (c # t) = c # decode_uri_component t"
  "c \<noteq> CHR ''%'' \<Longrightarrow> decode_path_component (c # t) = c # decode_path_component t"
  "c \<noteq> CHR ''%'' \<Longrightarrow> c \<noteq> CHR ''+'' \<or> \<not> b \<Longrightarrow> decode_query_component (c # t) b = c # decode_query_component t b"
  by auto

lemma plain_not_percent: "component_plain c \<Longrightarrow> c \<noteq> CHR ''%''" "uri_plain c \<Longrightarrow> c \<noteq> CHR ''%''"
  "path_plain c \<Longrightarrow> c \<noteq> CHR ''%''"
  by (auto simp: component_plain_def uri_plain_def path_plain_def is_alnum_def)

lemma decode_query_char: "decode_query_component (query_char b c @ t) b = c # decode_query_component t b"
proof (cases "c = CHR ''%'' \<or> c = CHR '' '' \<or> c = CHR ''+''")
  case True
  have h: "is_hex (CHR ''0'') = Some 0" "is_hex (CHR ''2'') = Some 2" "is_hex (CHR ''B'') = Some 11"
    "\<not> is_alnum (CHR ''%'')" "\<not> is_alnum (CHR '' '')" "\<not> is_alnum (CHR ''+'')"
    by (simp_all add: is_hex_def is_digit_c_def is_alnum_def)
  have k: "chr 32 = CHR '' ''" "chr 43 = CHR ''+''" by code_simp+
  from True show ?thesis
    by (elim disjE) (simp_all add: query_char_def decode_query_pct strtoul_hex2_def h k)
next
  case False
  then have "query_char b c = [c] \<or> query_char b c = pct c" by (simp add: query_char_def)
  then show ?thesis using False by (elim disjE) (simp_all add: decode_query_pct decode_plain(3))
qed

lemma decode_encoded:
  "decode_uri_component (encode_uri_component s) = s" "decode_uri (encode_uri s) = s"
  "decode_path_component (encode_path_component s) = s" "decode_query_component (encode_query_component s b) b = s"
proof -
  show "decode_uri_component (encode_uri_component s) = s" unfolding encode_uri_component_def
    by (rule concat_decode) (use plain_not_percent(1) in \<open>auto simp: decode_uri_pct decode_plain\<close>)
  show "decode_uri (encode_uri s) = s" unfolding encode_uri_def decode_uri_def
    by (rule concat_decode) (use plain_not_percent(2) in \<open>auto simp: decode_uri_pct decode_plain\<close>)
  show "decode_path_component (encode_path_component s) = s" unfolding encode_path_component_def
    by (rule concat_decode) (use plain_not_percent(3) in \<open>auto simp: decode_path_pct decode_plain\<close>)
  show "decode_query_component (encode_query_component s b) b = s" unfolding encode_query_component_def
    by (rule concat_decode [where D = "\<lambda>s. decode_query_component s b"]) (simp_all add: decode_query_char)
qed

text \<open>
  Percent encoding loses nothing. Whatever bytes a text holds, each of the four decoders
  returns it from what the encoder of the same kind wrote.
\<close>

theorem percent_round_trips:
  "decode_uri_component (encode_uri_component s) = s \<and> decode_uri (encode_uri s) = s \<and>
   decode_path_component (encode_path_component s) = s \<and>
   decode_query_component (encode_query_component s b) b = s"
  by (simp only: decode_encoded simp_thms)

section \<open>Splitting what was joined\<close>

text \<open>A token that splitting leaves as it is.\<close>

definition plain_token :: "char \<Rightarrow> string \<Rightarrow> bool" where
  "plain_token d w \<longleftrightarrow> w \<noteq> [] \<and> (\<forall>c \<in> set w. c \<noteq> d \<and> \<not> is_space_or_tab c)"

lemma takeWhile_hd: "(xs \<noteq> [] \<Longrightarrow> \<not> P (hd xs)) \<Longrightarrow> takeWhile P xs = []"
  by (cases xs) auto

lemma emit_plain:
  assumes "plain_token d w"
  shows "emit_token (pre @ w @ suf) (length pre) (length pre + length w) = [w]"
proof -
  have w: "w \<noteq> []" "\<not> is_space_or_tab (hd w)" "\<not> is_space_or_tab (hd (rev w))"
    using assms by (auto simp: plain_token_def hd_rev)
  have "takeWhile is_space_or_tab (w @ suf) = []" by (rule takeWhile_hd) (use w in simp)
  moreover have "takeWhile is_space_or_tab (rev w @ rev pre) = []" by (rule takeWhile_hd) (use w in simp)
  ultimately show ?thesis using w(1) by (simp add: emit_token_def trim_def substr_def)
qed

lemma split_loop_skip:
  assumes "\<forall>c \<in> set w. c \<noteq> d"
  shows "split_loop (pre @ w @ suf) d m (length pre) beg cnt =
    split_loop (pre @ w @ suf) d m (length pre + length w) beg cnt"
  using assms
proof (induction w arbitrary: pre)
  case (Cons c w)
  have "split_loop (pre @ (c # w) @ suf) d m (length pre) beg cnt =
      split_loop ((pre @ [c]) @ w @ suf) d m (length (pre @ [c])) beg cnt"
    using Cons.prems by (subst split_loop.simps) (simp add: nth_append)
  also have "\<dots> = split_loop ((pre @ [c]) @ w @ suf) d m (length (pre @ [c]) + length w) beg cnt"
    by (rule Cons.IH) (use Cons.prems in simp)
  finally show ?case by simp
qed simp

lemma split_loop_join:
  assumes "ps \<noteq> []" "\<forall>p \<in> set ps. plain_token d p"
  shows "split_loop (pre @ join d ps) d None (length pre) (length pre) cnt = ps"
  using assms
proof (induction d ps arbitrary: pre cnt rule: join.induct)
  case (2 d p)
  then have p: "plain_token d p" by simp
  then have "split_loop (pre @ p @ []) d None (length pre) (length pre) cnt =
      split_loop (pre @ p @ []) d None (length pre + length p) (length pre) cnt"
    by (intro split_loop_skip) (simp add: plain_token_def)
  moreover have "p \<noteq> []" using p by (simp add: plain_token_def)
  ultimately show ?case using emit_plain [OF p, of pre "[]"] by (simp add: split_loop.simps [of _ _ _ "length pre + length p"])
next
  case (3 d p q ps)
  then have p: "plain_token d p" by simp
  let ?suf = "d # join d (q # ps)"
  have "split_loop (pre @ p @ ?suf) d None (length pre) (length pre) cnt =
      split_loop (pre @ p @ ?suf) d None (length pre + length p) (length pre) cnt"
    using p by (intro split_loop_skip) (simp add: plain_token_def)
  also have "\<dots> = p # split_loop ((pre @ p @ [d]) @ join d (q # ps)) d None (length (pre @ p @ [d])) (length (pre @ p @ [d])) (cnt + 1)"
    using emit_plain [OF p, of pre ?suf] by (subst split_loop.simps) (simp add: nth_append)
  also have "\<dots> = p # q # ps" by (subst "3.IH") (use "3.prems" in simp_all)
  finally show ?case by simp
qed simp

lemma split_join:
  assumes "\<forall>p \<in> set ps. plain_token d p"
  shows "split (join d ps) d None = ps"
proof (cases ps)
  case Nil
  then show ?thesis by (simp add: split_def split_loop.simps)
next
  case (Cons p qs)
  then show ?thesis using split_loop_join [of ps d "[]" 1] assms by (simp add: split_def)
qed

lemma divide_at: "d \<notin> set k \<Longrightarrow> divide (k @ d # v) d = (k, v)"
  by (auto simp: divide_def takeWhile_append Let_def)

section \<open>The multimap\<close>

lemma str_less_cut: "str_less k p \<Longrightarrow> \<not> str_less q p \<Longrightarrow> str_less k q"
proof (induction k p arbitrary: q rule: str_less.induct)
  case (2 d t)
  then show ?case by (cases q) auto
next
  case (3 c s d t)
  then show ?case by (cases q) (auto split: if_splits)
qed simp

lemma str_less_asym: "str_less a b \<Longrightarrow> \<not> str_less b a"
  by (induction a b rule: str_less.induct) auto

definition params_ok :: "(string \<times> string) list \<Rightarrow> bool" where
  "params_ok ps \<longleftrightarrow> sorted_wrt (\<lambda>p q. \<not> str_less (fst q) (fst p)) ps"

lemma params_emplace_ok: "params_ok ps \<Longrightarrow> params_ok (params_emplace kv ps)"
proof (induction ps)
  case (Cons p ps)
  show ?case
  proof (cases "str_less (fst kv) (fst p)")
    case True
    have "\<not> str_less (fst q) (fst kv)" if "q \<in> set (p # ps)" for q
      using str_less_cut [OF True, of "fst q"] str_less_asym that True Cons.prems by (auto simp: params_ok_def)
    then show ?thesis using Cons.prems True by (auto simp: params_emplace_def params_ok_def)
  next
    case False
    then have e: "params_emplace kv (p # ps) = p # params_emplace kv ps" by (simp add: params_emplace_def)
    have "set (params_emplace kv ps) = insert kv (set ps)"
      by (auto simp: params_emplace_def dest: set_takeWhileD set_dropWhileD)
         (metis (lifting) UnE set_append takeWhile_dropWhile_id)
    then show ?thesis using Cons False unfolding e by (auto simp: params_ok_def)
  qed
qed (simp add: params_emplace_def params_ok_def)

lemma params_emplace_last: "params_ok (ps @ [kv]) \<Longrightarrow> params_emplace kv ps = ps @ [kv]"
  by (simp add: params_emplace_def params_ok_def sorted_wrt_append)

lemma parse_query_piece_ok: "params_ok (snd st) \<Longrightarrow> params_ok (snd (parse_query_piece kv st))"
  by (auto simp: parse_query_piece_def params_emplace_ok split: prod.splits)



lemma query_char_set: "\<forall>x \<in> set (query_char True c). x \<noteq> CHR ''&'' \<and> x \<noteq> CHR ''='' \<and> \<not> is_space_or_tab x"
proof -
  have up: "\<forall>d \<in> set [0 ..< 16]. hex_upper d \<noteq> CHR ''&'' \<and> hex_upper d \<noteq> CHR ''='' \<and> \<not> is_space_or_tab (hex_upper d)"
    by code_simp
  have p: "\<forall>x \<in> set (pct c). x \<noteq> CHR ''&'' \<and> x \<noteq> CHR ''='' \<and> \<not> is_space_or_tab x"
    using up byte_div_16 [of c] by (simp add: pct_def is_space_or_tab_def)
  have q: "query_char True (CHR ''&'') = pct (CHR ''&'')" "query_char True (CHR ''='') = pct (CHR ''='')"
    "query_char True (CHR 0x20) = ''+''" "query_char True (CHR 0x09) = pct (CHR 0x09)"
    by (simp_all add: query_char_def is_alnum_def)
  have "query_char True c = [c] \<or> query_char True c = pct c \<or> set (query_char True c) \<subseteq> set ''+%2B''"
    by (simp add: query_char_def)
  then show ?thesis
  proof (elim disjE)
    assume e: "query_char True c = [c]"
    then have "c \<noteq> CHR ''&'' \<and> c \<noteq> CHR ''='' \<and> c \<noteq> CHR 0x20 \<and> c \<noteq> CHR 0x09" using q by (auto simp: pct_def)
    then show ?thesis by (simp add: e is_space_or_tab_def)
  next
    assume "query_char True c = pct c"
    with p show ?thesis by simp
  next
    assume "set (query_char True c) \<subseteq> set ''+%2B''"
    moreover have "\<forall>x \<in> set ''+%2B''. x \<noteq> CHR ''&'' \<and> x \<noteq> CHR ''='' \<and> \<not> is_space_or_tab x"
      by (simp add: is_space_or_tab_def)
    ultimately show ?thesis by blast
  qed
qed

lemma encoded_set:
  "x \<in> set (encode_query_component s True) \<Longrightarrow> x \<noteq> CHR ''&'' \<and> x \<noteq> CHR ''='' \<and> \<not> is_space_or_tab x"
  using query_char_set by (auto simp: encode_query_component_def)

lemma encode_nonempty: "s \<noteq> [] \<Longrightarrow> encode_query_component s b \<noteq> []"
  by (cases s) (auto simp: encode_query_component_def query_char_def pct_def)

lemma plain_query_pair: "plain_token (CHR ''&'') (query_pair kv)"
  using encoded_set by (auto simp: plain_token_def query_pair_def is_space_or_tab_def)

lemma divide_query_pair:
  "divide (query_pair kv) (CHR ''='') = (encode_query_component (fst kv) True, encode_query_component (snd kv) True)"
  unfolding query_pair_def using divide_at encoded_set by (metis append_Cons append_Nil)

lemma query_pair_inj: "query_pair a = query_pair b \<Longrightarrow> a = b"
proof -
  assume "query_pair a = query_pair b"
  then have "divide (query_pair a) (CHR ''='') = divide (query_pair b) (CHR ''='')" by simp
  then have "encode_query_component (fst a) True = encode_query_component (fst b) True"
    "encode_query_component (snd a) True = encode_query_component (snd b) True"
    by (simp_all add: divide_query_pair)
  then have "fst a = fst b" "snd a = snd b" by (metis decode_encoded)+
  then show "a = b" by (rule prod_eqI)
qed

lemma parse_pairs:
  assumes "distinct ps" "cache \<inter> query_pair ` set ps = {}" "params_ok (acc @ ps)" "\<forall>p \<in> set ps. fst p \<noteq> []"
  shows "snd (fold parse_query_piece (map query_pair ps) (cache, acc)) = acc @ ps"
  using assms
proof (induction ps arbitrary: cache acc)
  case (Cons p ps)
  have "params_ok (acc @ [p])" using Cons.prems(3) by (auto simp: params_ok_def sorted_wrt_append)
  then have e: "params_emplace p acc = acc @ [p]" by (rule params_emplace_last)
  have "query_pair p \<notin> cache" using Cons.prems(2) by auto
  then have "parse_query_piece (query_pair p) (cache, acc) = (insert (query_pair p) cache, acc @ [p])"
    using Cons.prems(4) encode_nonempty by (simp add: parse_query_piece_def divide_query_pair decode_encoded e)
  moreover have "insert (query_pair p) cache \<inter> query_pair ` set ps = {}"
    using Cons.prems(1,2) by (auto dest: query_pair_inj)
  ultimately show ?case using Cons.IH [of "insert (query_pair p) cache" "acc @ [p]"] Cons.prems by simp
qed simp

lemma parse_written_params:
  assumes "params_ok ps" "distinct ps" "\<forall>p \<in> set ps. fst p \<noteq> []"
  shows "parse_query_text (params_to_query_str ps) [] = ps"
proof -
  have "split (params_to_query_str ps) (CHR ''&'') None = map query_pair ps"
    unfolding params_to_query_str_def by (rule split_join) (use plain_query_pair in auto)
  then show ?thesis using parse_pairs [of ps "{}" "[]"] assms by (simp add: parse_query_text_def)
qed

text \<open>
  The query text of a well-formed multimap without repeated entries and without empty
  keys is parsed back to exactly that multimap, whatever bytes its keys and values hold.
\<close>

theorem query_text_round_trip:
  assumes "params_ok ps" "distinct ps" "\<forall>p \<in> set ps. fst p \<noteq> []"
  shows "parse_query_text (params_to_query_str ps) [] = ps"
  by (rule parse_written_params [OF assms])

theorem query_text_round_trip_witness:
  "parse_query_text (params_to_query_str [(''a'', ''1&2''), (''b'', []), (''b'', ''= ?'')]) [] =
     [(''a'', ''1&2''), (''b'', []), (''b'', ''= ?'')]"
  by (rule query_text_round_trip) (simp_all add: params_ok_def)

end
