(* ===== verification/Http_Server.thy ===== *)
theory Http_Server
  imports Http_Route Http_Multipart Http_Content Http_Query_Props
begin

text \<open>
  \<open>httplib::Server\<close>: the request line, reading the content, routing, the response and the loop
  over the requests of a connection. What the program leaves at its default is left out: no
  hooks, loggers, mount points, WebSocket or content-reader handlers, file responses or
  compression libraries. A handler runs on the state \<open>'w\<close> of the world outside the connection.
\<close>

section \<open>Configuration\<close>

text \<open>
  What a handler does: the response as it leaves it, whether it threw, and the world behind it.
\<close>

type_synonym 'w handler = "http_request \<Rightarrow> http_response \<Rightarrow> 'w \<Rightarrow> (http_response \<times> bool) \<times> 'w"

record 'w http_server =
  get_handlers :: "(matcher \<times> 'w handler) list"
  post_handlers :: "(matcher \<times> 'w handler) list"
  put_handlers :: "(matcher \<times> 'w handler) list"
  patch_handlers :: "(matcher \<times> 'w handler) list"
  delete_handlers :: "(matcher \<times> 'w handler) list"
  options_handlers :: "(matcher \<times> 'w handler) list"
  default_headers :: headers
  trusted_proxies :: "string list"
  keep_alive_max_count :: nat
  keep_alive_timeout_sec :: nat
  payload_max_length :: nat

definition new_http_server :: "'w http_server" where
  "new_http_server =
     \<lparr>get_handlers = [], post_handlers = [], put_handlers = [], patch_handlers = [], delete_handlers = [],
      options_handlers = [], default_headers = [], trusted_proxies = [], keep_alive_max_count = 100,
      keep_alive_timeout_sec = 5, payload_max_length = 100 * 1024 * 1024\<rparr>"

text \<open>Registration throws where the matcher's constructor does.\<close>

definition add_handler ::
    "(matcher \<times> 'w handler) list \<Rightarrow> string \<Rightarrow> 'w handler \<Rightarrow> (matcher \<times> 'w handler) list option" where
  "add_handler hs pat h = map_option (\<lambda>m. hs @ [(m, h)]) (make_matcher pat)"

definition sv_Get :: "string \<Rightarrow> 'w handler \<Rightarrow> 'w http_server \<Rightarrow> 'w http_server option" where
  "sv_Get pat h sv = map_option (\<lambda>hs. sv\<lparr>get_handlers := hs\<rparr>) (add_handler (get_handlers sv) pat h)"

definition sv_Post :: "string \<Rightarrow> 'w handler \<Rightarrow> 'w http_server \<Rightarrow> 'w http_server option" where
  "sv_Post pat h sv = map_option (\<lambda>hs. sv\<lparr>post_handlers := hs\<rparr>) (add_handler (post_handlers sv) pat h)"

definition sv_Put :: "string \<Rightarrow> 'w handler \<Rightarrow> 'w http_server \<Rightarrow> 'w http_server option" where
  "sv_Put pat h sv = map_option (\<lambda>hs. sv\<lparr>put_handlers := hs\<rparr>) (add_handler (put_handlers sv) pat h)"

definition sv_Patch :: "string \<Rightarrow> 'w handler \<Rightarrow> 'w http_server \<Rightarrow> 'w http_server option" where
  "sv_Patch pat h sv = map_option (\<lambda>hs. sv\<lparr>patch_handlers := hs\<rparr>) (add_handler (patch_handlers sv) pat h)"

definition sv_Delete :: "string \<Rightarrow> 'w handler \<Rightarrow> 'w http_server \<Rightarrow> 'w http_server option" where
  "sv_Delete pat h sv = map_option (\<lambda>hs. sv\<lparr>delete_handlers := hs\<rparr>) (add_handler (delete_handlers sv) pat h)"

definition sv_Options :: "string \<Rightarrow> 'w handler \<Rightarrow> 'w http_server \<Rightarrow> 'w http_server option" where
  "sv_Options pat h sv = map_option (\<lambda>hs. sv\<lparr>options_handlers := hs\<rparr>) (add_handler (options_handlers sv) pat h)"

section \<open>The request line\<close>

definition http_methods :: "string list" where
  "http_methods = [''GET'', ''HEAD'', ''POST'', ''PUT'', ''DELETE'', ''CONNECT'', ''OPTIONS'', ''TRACE'', ''PATCH'', ''PRI'']"

text \<open>The first three pieces are stored before their number is tested.\<close>

definition store_line :: "string list \<Rightarrow> http_request \<Rightarrow> http_request" where
  "store_line toks req =
     (let r1 = (if 0 < length toks then req\<lparr>rq_method := toks ! 0\<rparr> else req);
          r2 = (if 1 < length toks then r1\<lparr>rq_target := toks ! 1\<rparr> else r1)
      in if 2 < length toks then r2\<lparr>rq_version := toks ! 2\<rparr> else r2)"

definition parse_target :: "http_request \<Rightarrow> http_request" where
  "parse_target req =
     (let target = takeWhile (\<lambda>c. c \<noteq> CHR ''#'') (rq_target req); (lhs, rhs) = divide target (CHR ''?'')
      in req\<lparr>rq_target := target, rq_path := decode_path_component lhs, rq_params := parse_query_text rhs (rq_params req)\<rparr>)"

definition parse_request_line :: "string \<Rightarrow> http_request \<Rightarrow> bool \<times> http_request" where
  "parse_request_line line req =
     (let s = c_str line; len = length s in
      if len < 2 \<or> s ! (len - 2) \<noteq> CHR 0x0D \<or> s ! (len - 1) \<noteq> CHR 0x0A then (False, req)
      else (let toks = split (take (len - 2) s) (CHR '' '') None; r1 = store_line toks req in
            if length toks \<noteq> 3 then (False, r1)
            else if rq_method r1 \<notin> set http_methods then (False, r1)
            else if rq_version r1 \<noteq> ''HTTP/1.1'' \<and> rq_version r1 \<noteq> ''HTTP/1.0'' then (False, r1)
            else (True, parse_target r1)))"

section \<open>What the headers say about the body and the connection\<close>

definition has_framed_body :: "http_request \<Rightarrow> bool" where
  "has_framed_body req \<longleftrightarrow> is_chunked_transfer_encoding (rq_headers req) \<or> 0 < rq_header_u64 req ''Content-Length''"

definition is_connection_persistent :: "http_request \<Rightarrow> bool" where
  "is_connection_persistent req =
     (let conn = rq_header req ''Connection'' in
      if conn = ''close'' then False
      else if rq_version req = ''HTTP/1.0'' \<and> conn \<noteq> ''Keep-Alive'' then False
      else True)"

definition expect_content :: "http_request \<Rightarrow> bool" where
  "expect_content req \<longleftrightarrow> rq_method req \<in> {''POST'', ''PUT'', ''PATCH'', ''DELETE''} \<or> has_framed_body req"

definition get_client_ip :: "string \<Rightarrow> string list \<Rightarrow> string" where
  "get_client_ip x_forwarded_for proxies =
     (let ips = map trim_copy (split x_forwarded_for (CHR '','') None) in
      if ips = [] then []
      else (case List.find (\<lambda>i. ips ! i \<in> set proxies) [0 ..< length ips] of
              Some i \<Rightarrow> if i = 0 then ips ! 0 else ips ! (i - 1)
            | None \<Rightarrow> hd ips))"

section \<open>Reading the content\<close>

text \<open>
  Where the body goes: into \<open>body\<close>, or through the form parser into the form. \<open>readable\<close> is
  whether a \<open>select\<close> without waiting finds bytes.
\<close>

record content_sink =
  cs_body :: string
  cs_parser :: form_parser
  cs_form :: form_sink

definition body_receiver :: "nat \<Rightarrow> content_sink receiver" where
  "body_receiver payload_max d off len cs =
     (if 0 < payload_max \<and> (payload_max \<le> length (cs_body cs) \<or> payload_max - length (cs_body cs) < length d)
      then (False, cs)
      else (True, cs\<lparr>cs_body := cs_body cs @ d\<rparr>))"

definition form_receiver :: "content_sink receiver" where
  "form_receiver d off len cs =
     (case form_parse form_header form_content d (cs_parser cs) (cs_form cs) of
        (ok, p, st) \<Rightarrow> (ok, cs\<lparr>cs_parser := p, cs_form := st\<rparr>))"

text \<open>The verdict, the status where one is set, the request, the sink and the stream.\<close>

definition read_content_core ::
    "nat \<Rightarrow> bool \<Rightarrow> http_request \<Rightarrow> content_sink \<Rightarrow> stream \<Rightarrow> bool \<times> int option \<times> http_request \<times> content_sink \<times> stream" where
  "read_content_core payload_max readable req cs0 s =
     (let multi = is_multipart_form_data req; bd = parse_multipart_boundary (rq_header req ''Content-Type'') in
      if multi \<and> bd = None then (False, Some 400, req, cs0, s)
      else
        (let cs = (case bd of Some b \<Rightarrow> cs0\<lparr>cs_parser := new_form_parser b\<rparr> | None \<Rightarrow> cs0);
             out = (if multi then form_receiver else body_receiver payload_max) in
         if \<not> rq_has_header req ''Content-Length'' \<and> \<not> is_chunked_transfer_encoding (rq_headers req) then
           (if \<not> is_connection_persistent req \<and> 0 < payload_max \<and> payload_max < size_max \<and> (rbuf s \<noteq> [] \<or> readable) then
              (case read_content_without_length payload_max out cs s of
                 (Rc_PayloadTooLarge, cs', s') \<Rightarrow> (False, Some 413, req, cs', s')
               | (Rc_Success, cs', s') \<Rightarrow> (True, None, req, cs', s')
               | (_, cs', s') \<Rightarrow> (False, None, req, cs', s'))
            else (True, None, req, cs, s))
         else
           (case read_content (rq_headers req) (rq_trailers req) payload_max None out True cs s of
              ((ok, st), trailers, cs', s') \<Rightarrow>
                (let req1 = req\<lparr>rq_trailers := trailers\<rparr> in
                 if \<not> ok then (False, st, req1, cs', s')
                 else (let req2 = req1\<lparr>rq_body_consumed := True\<rparr> in
                       if multi \<and> \<not> fp_valid (cs_parser cs') then (False, Some 400, req2, cs', s')
                       else (True, st, req2, cs', s'))))))"

definition form_url_encoded_max :: nat where
  "form_url_encoded_max = 8192"

definition set_status :: "int option \<Rightarrow> http_response \<Rightarrow> http_response" where
  "set_status st res = (case st of Some v \<Rightarrow> res\<lparr>rs_status := v\<rparr> | None \<Rightarrow> res)"

definition server_read_content ::
    "nat \<Rightarrow> bool \<Rightarrow> http_request \<Rightarrow> http_response \<Rightarrow> stream \<Rightarrow> bool \<times> http_request \<times> http_response \<times> stream" where
  "server_read_content payload_max readable req res s =
     (case read_content_core payload_max readable req
         \<lparr>cs_body = rq_body req, cs_parser = new_form_parser [], cs_form = (rq_form req, False, 0)\<rparr> s of
        (ok, st, req1, cs, s') \<Rightarrow>
          (let req2 = req1\<lparr>rq_body := cs_body cs, rq_form := fst (cs_form cs)\<rparr>; res' = set_status st res in
           if \<not> ok then (False, req2, res', s')
           else if media_type (rq_header req2 ''Content-Type'') = ''application/x-www-form-urlencoded'' then
             (if form_url_encoded_max < length (rq_body req2) then (False, req2, res'\<lparr>rs_status := 413\<rparr>, s')
              else (True, req2\<lparr>rq_params := parse_query_text (rq_body req2) (rq_params req2)\<rparr>, res', s'))
           else (True, req2, res', s')))"

section \<open>Routing\<close>

datatype routed = Routed | Not_routed | Threw

fun dispatch_request ::
    "(matcher \<times> 'w handler) list \<Rightarrow> http_request \<Rightarrow> http_response \<Rightarrow> 'w \<Rightarrow> routed \<times> http_request \<times> http_response \<times> 'w" where
  "dispatch_request [] req res w = (Not_routed, req, res, w)"
| "dispatch_request ((m, h) # hs) req res w =
     (case matcher_match m req of
        (True, req1) \<Rightarrow>
          (let req2 = req1\<lparr>rq_matched_route := matcher_pattern m\<rparr> in
           case h req2 res w of ((res', thrown), w') \<Rightarrow> (if thrown then Threw else Routed, req2, res', w'))
      | (False, req1) \<Rightarrow> dispatch_request hs req1 res w)"

definition handlers_for :: "'w http_server \<Rightarrow> string \<Rightarrow> (matcher \<times> 'w handler) list option" where
  "handlers_for sv meth =
     (if meth = ''GET'' \<or> meth = ''HEAD'' then Some (get_handlers sv)
      else if meth = ''POST'' then Some (post_handlers sv)
      else if meth = ''PUT'' then Some (put_handlers sv)
      else if meth = ''DELETE'' then Some (delete_handlers sv)
      else if meth = ''OPTIONS'' then Some (options_handlers sv)
      else if meth = ''PATCH'' then Some (patch_handlers sv)
      else None)"

definition routing ::
    "'w http_server \<Rightarrow> bool \<Rightarrow> http_request \<Rightarrow> http_response \<Rightarrow> stream \<Rightarrow> 'w \<Rightarrow>
      routed \<times> http_request \<times> http_response \<times> stream \<times> 'w" where
  "routing sv readable req res s w =
     (case (if expect_content req then server_read_content (payload_max_length sv) readable req res s else (True, req, res, s)) of
        (False, req1, res1, s1) \<Rightarrow> (Not_routed, req1, res1, s1, w)
      | (True, req1, res1, s1) \<Rightarrow>
          (case handlers_for sv (rq_method req1) of
             Some hs \<Rightarrow> (case dispatch_request hs req1 res1 w of (rt, req2, res2, w') \<Rightarrow> (rt, req2, res2, s1, w'))
           | None \<Rightarrow> (Not_routed, req1, res1\<lparr>rs_status := 400\<rparr>, s1, w)))"

end
