(* ===== verification/Http_Serve.thy ===== *)
theory Http_Serve
  imports Http_Server
begin

text \<open>
  \<open>httplib::Server\<close>, second part: the response with its ranges, \<open>process_request\<close> and the loop
  over the requests of one connection.
\<close>

section \<open>The response\<close>

definition write_response_line :: "int \<Rightarrow> string" where
  "write_response_line status = ''HTTP/1.1 '' @ to_dec_int status @ '' '' @ status_message status @ crlf"

text \<open>
  \<open>apply_ranges\<close>: the headers that describe the content and, for a partial response, the cut.
  \<open>boundary\<close> is the random one of a multipart response. No encoding is compiled in, so that
  nothing is compressed.
\<close>

lemma no_encoding: "encoding_type {} req res = Enc_none"
proof -
  have st: "encoding_step {} e st = st" for e st
    by (auto simp: encoding_step_def token_encoding_def Let_def split: option.splits quality.splits prod.splits)
  have "fold (encoding_step {}) es st = st" for es st
    by (induction es arbitrary: st) (simp_all add: st)
  then show ?thesis by (simp add: encoding_type_def Let_def)
qed

definition partial :: "http_request \<Rightarrow> http_response \<Rightarrow> bool" where
  "partial req res \<longleftrightarrow> rq_ranges req \<noteq> [] \<and> rs_status res = 206"

definition multipart_ranges_headers :: "string \<Rightarrow> http_request \<Rightarrow> http_response \<Rightarrow> http_response \<times> string" where
  "multipart_ranges_headers boundary req res =
     (if 1 < length (rq_ranges req) \<and> rs_status res = 206 then
        (let (kept, ctype) = (case List.find (\<lambda>kv. equal_ci (fst kv) ''Content-Type'') (rs_headers res) of
                Some kv \<Rightarrow> (remove1 kv (rs_headers res), snd kv)
              | None \<Rightarrow> (rs_headers res, []))
         in (rs_set_header ''Content-Type'' (''multipart/byteranges; boundary='' @ boundary) (res\<lparr>rs_headers := kept\<rparr>), ctype))
      else (res, []))"

definition apply_ranges :: "string \<Rightarrow> http_request \<Rightarrow> http_response \<Rightarrow> http_response \<times> string" where
  "apply_ranges boundary req res0 =
     (let (res, ctype) = multipart_ranges_headers boundary req res0; rs = rq_ranges req;
          cl = rs_content_length res; body = rs_body res in
      (if body = [] then
         (if 0 < cl then
            (if \<not> partial req res then rs_set_header ''Content-Length'' (to_dec cl) res
             else if length rs = 1 then
               (let ol = get_range_offset_and_length (hd rs)
                in rs_set_header ''Content-Length'' (to_dec (snd ol))
                     (rs_set_header ''Content-Range'' (make_content_range_header_field ol cl) res))
             else rs_set_header ''Content-Length'' (to_dec (get_multipart_ranges_data_length rs boundary ctype cl)) res)
          else if rs_provider res \<noteq> None \<and> rs_chunked res then rs_set_header ''Transfer-Encoding'' ''chunked'' res
          else res)
       else
         (let res1 =
            (if \<not> partial req res then res
             else if length rs = 1 then
               (let ol = get_range_offset_and_length (hd rs)
                in (rs_set_header ''Content-Range'' (make_content_range_header_field ol (length body)) res)
                     \<lparr>rs_body := substr body (fst ol) (snd ol)\<rparr>)
             else res\<lparr>rs_body := make_multipart_ranges_data rs body boundary ctype (length body)\<rparr>)
          in rs_set_header ''Content-Length'' (to_dec (length (rs_body res1))) res1),
       ctype))"

definition write_content_with_provider ::
    "string \<Rightarrow> string \<Rightarrow> http_request \<Rightarrow> http_response \<Rightarrow> (nat \<Rightarrow> nat \<Rightarrow> provider_step list) \<Rightarrow> stream \<Rightarrow> bool \<times> stream" where
  "write_content_with_provider boundary ctype req res provider s =
     (let cl = rs_content_length res; rs = rq_ranges req in
      if 0 < cl then
        (if rs = [] then (case write_content 0 cl (provider 0 cl) s of (ok, _, s') \<Rightarrow> (ok, s'))
         else if length rs = 1 then
           (let (off, len) = get_range_offset_and_length (hd rs)
            in case write_content off len (provider off len) s of (ok, _, s') \<Rightarrow> (ok, s'))
         else write_multipart_ranges_data provider rs boundary ctype cl s)
      else if rs_chunked res then
        (case write_content_chunked (provider 0 0) s of (ok, _, s') \<Rightarrow> (ok, s'))
      else write_content_without_length (provider 0 0) s)"

text \<open>The headers \<open>write_response_core\<close> adds itself.\<close>

definition connection_headers :: "'w http_server \<Rightarrow> bool \<Rightarrow> http_request \<Rightarrow> http_response \<Rightarrow> http_response" where
  "connection_headers sv close req res =
     (if close \<or> rq_header req ''Connection'' = ''close'' \<or> 400 \<le> rs_status res
      then rs_set_header ''Connection'' ''close'' res
      else rs_set_header ''Keep-Alive''
             (''timeout='' @ to_dec (keep_alive_timeout_sec sv) @ '', max='' @ to_dec (keep_alive_max_count sv)) res)"

definition content_headers :: "http_request \<Rightarrow> http_response \<Rightarrow> http_response" where
  "content_headers req res =
     (let some = rs_body res \<noteq> [] \<or> 0 < rs_content_length res \<or> rs_provider res \<noteq> None;
          r1 = (if some \<and> \<not> rs_has_header res ''Content-Type'' then rs_set_header ''Content-Type'' ''text/plain'' res else res);
          r2 = (if \<not> some \<and> \<not> rs_has_header r1 ''Content-Length'' then rs_set_header ''Content-Length'' ''0'' r1 else r1)
      in if rq_method req = ''HEAD'' \<and> \<not> rs_has_header r2 ''Accept-Ranges'' then rs_set_header ''Accept-Ranges'' ''bytes'' r2 else r2)"

text \<open>The bytes of the response up to a streamed body.\<close>

definition response_bytes :: "http_request \<Rightarrow> http_response \<Rightarrow> string" where
  "response_bytes req res =
     write_response_line (rs_status res) @
     bs_buffer (snd (write_headers (rs_headers res) \<lparr>bs_buffer = [], bs_position = 0\<rparr>)) @
     (if rq_method req \<noteq> ''HEAD'' \<and> rs_body res \<noteq> [] \<and> rs_provider res = None then rs_body res else [])"

definition write_response_core ::
    "'w http_server \<Rightarrow> string \<Rightarrow> bool \<Rightarrow> bool \<Rightarrow> http_request \<Rightarrow> http_response \<Rightarrow> stream \<Rightarrow> bool \<times> http_response \<times> stream" where
  "write_response_core sv boundary close need_ranges req res0 s =
     (let (res1, ctype) = (if need_ranges then apply_ranges boundary req res0 else (res0, []));
          res = content_headers req (connection_headers sv close req res1)
      in case write_data (response_bytes req res) s of
           (False, s') \<Rightarrow> (False, res, s')
         | (True, s') \<Rightarrow>
             (case rs_provider res of
                Some provider \<Rightarrow>
                  if rq_method req = ''HEAD'' then (True, res, s')
                  else (case write_content_with_provider boundary ctype req res provider s' of (ok, s'') \<Rightarrow> (ok, res, s''))
              | None \<Rightarrow> (True, res, s')))"

text \<open>An error response is never cut to the ranges of the request.\<close>

definition write_response ::
    "'w http_server \<Rightarrow> string \<Rightarrow> bool \<Rightarrow> http_request \<Rightarrow> http_response \<Rightarrow> stream \<Rightarrow> bool \<times> http_response \<times> stream" where
  "write_response sv boundary close req res s = write_response_core sv boundary close False (req\<lparr>rq_ranges := []\<rparr>) res s"

definition write_response_with_content ::
    "'w http_server \<Rightarrow> string \<Rightarrow> bool \<Rightarrow> http_request \<Rightarrow> http_response \<Rightarrow> stream \<Rightarrow> bool \<times> http_response \<times> stream" where
  "write_response_with_content sv boundary close req res s = write_response_core sv boundary close True req res s"

section \<open>One request\<close>

text \<open>
  What a connection contributes: the peer's address, the random boundary and whether a \<open>select\<close>
  without waiting would find bytes.
\<close>

record conn_env =
  ce_remote_addr :: string
  ce_boundary :: string
  ce_readable :: bool

definition drop_content :: "http_response \<Rightarrow> http_response" where
  "drop_content res = res\<lparr>rs_body := [], rs_content_length := 0, rs_provider := None\<rparr>"

text \<open>The response to a routed request: its default status, the range check and the writing.\<close>

definition finish_routed ::
    "'w http_server \<Rightarrow> conn_env \<Rightarrow> bool \<Rightarrow> http_request \<Rightarrow> http_response \<Rightarrow> stream \<Rightarrow> bool \<times> http_response \<times> stream" where
  "finish_routed sv env close req res0 s =
     (let res = (if rs_status res0 = - 1 then res0\<lparr>rs_status := (if rq_ranges req = [] then 200 else 206)\<rparr> else res0) in
      case range_error (rq_ranges req) res of
        None \<Rightarrow> write_response sv (ce_boundary env) close req ((drop_content res)\<lparr>rs_status := 416\<rparr>) s
      | Some rs \<Rightarrow> write_response_with_content sv (ce_boundary env) close (req\<lparr>rq_ranges := rs\<rparr>) res s)"

definition finish_routing ::
    "'w http_server \<Rightarrow> conn_env \<Rightarrow> bool \<Rightarrow> routed \<Rightarrow> http_request \<Rightarrow> http_response \<Rightarrow> stream \<Rightarrow> bool \<times> http_response \<times> stream" where
  "finish_routing sv env close rt req res s =
     (case rt of
        Routed \<Rightarrow> finish_routed sv env close req res s
      | Threw \<Rightarrow> write_response sv (ce_boundary env) close req (res\<lparr>rs_status := 500\<rparr>) s
      | Not_routed \<Rightarrow>
          write_response sv (ce_boundary env) close req (if rs_status res = - 1 then res\<lparr>rs_status := 404\<rparr> else res) s)"

text \<open>A framed body nobody read is read and thrown away; the flag is whether that failed.\<close>

definition drain_body :: "'w http_server \<Rightarrow> http_request \<Rightarrow> stream \<Rightarrow> bool \<times> stream" where
  "drain_body sv req s =
     (if \<not> rq_body_consumed req \<and> has_framed_body req then
        (case read_content (rq_headers req) (rq_trailers req) (payload_max_length sv) None (\<lambda>_ _ _ u. (True, u)) False () s of
           ((ok, _), _, _, s') \<Rightarrow> (\<not> ok, s'))
      else (False, s))"

text \<open>The first objection to a request whose line and headers were read, or the request to route.\<close>

definition closes :: "http_request \<Rightarrow> bool" where
  "closes req \<longleftrightarrow> rq_header req ''Connection'' = ''close'' \<or>
     rq_version req = ''HTTP/1.0'' \<and> rq_header req ''Connection'' \<noteq> ''Keep-Alive''"

definition request_uri_max_length :: nat where
  "request_uri_max_length = 8192"

definition with_client_ip :: "'w http_server \<Rightarrow> conn_env \<Rightarrow> http_request \<Rightarrow> http_request" where
  "with_client_ip sv env req =
     (if trusted_proxies sv \<noteq> [] \<and> rq_has_header req ''X-Forwarded-For'' then
        (let derived = get_client_ip (rq_header req ''X-Forwarded-For'') (trusted_proxies sv)
         in req\<lparr>rq_remote_addr := if derived = [] then ce_remote_addr env else derived\<rparr>)
      else req\<lparr>rq_remote_addr := ce_remote_addr env\<rparr>)"

text \<open>The order of undetermined media types is left empty here; no handler of the program reads it.\<close>

definition accept_and_range :: "http_request \<Rightarrow> (int \<times> http_request) + http_request" where
  "accept_and_range req =
     (let (bad, r1) = (if rq_has_header req ''Accept'' then
            (case parse_accept_header (rq_header req ''Accept'') of
               Accept_bad \<Rightarrow> (True, req\<lparr>rq_accept := []\<rparr>)
             | Accept_types ts \<Rightarrow> (False, req\<lparr>rq_accept := ts\<rparr>)
             | Accept_undetermined \<Rightarrow> (False, req\<lparr>rq_accept := []\<rparr>))
          else (False, req)) in
      if bad then Inl (400, r1)
      else if rq_has_header r1 ''Range'' then
        (case parse_range_header (rq_header r1 ''Range'') (rq_ranges r1) of
           (True, rs) \<Rightarrow> Inr (r1\<lparr>rq_ranges := rs\<rparr>)
         | (False, rs) \<Rightarrow> Inl (416, r1\<lparr>rq_ranges := rs\<rparr>))
      else Inr r1)"

definition check_request :: "'w http_server \<Rightarrow> conn_env \<Rightarrow> http_request \<Rightarrow> (int \<times> http_request) + http_request" where
  "check_request sv env req =
     (if 0 < rq_header_u64 req ''Content-Length'' \<and> rq_has_header req ''Transfer-Encoding'' then Inl (400, req)
      else if request_uri_max_length < length (rq_target req) then Inl (414, req)
      else accept_and_range (with_client_ip sv env req))"

text \<open>\<open>Expect: 100-continue\<close>; the result of this write is not tested.\<close>

definition expect_continue :: "http_request \<Rightarrow> stream \<Rightarrow> stream" where
  "expect_continue req s =
     (if rq_header req ''Expect'' = ''100-continue''
      then snd (sock_write crlf (snd (sock_write (write_response_line 100) s))) else s)"

text \<open>
  What comes of a request: the verdict, whether the connection is closed, the response if one
  was written, the stream and the world.
\<close>

record 'w served =
  sd_ok :: bool
  sd_closed :: bool
  sd_response :: "http_response option"
  sd_stream :: stream
  sd_world :: 'w

definition reply_early ::
    "'w http_server \<Rightarrow> conn_env \<Rightarrow> bool \<Rightarrow> bool \<Rightarrow> int \<Rightarrow> http_request \<Rightarrow> http_response \<Rightarrow> stream \<Rightarrow> 'w \<Rightarrow> 'w served" where
  "reply_early sv env close closing status req res s w =
     (case write_response sv (ce_boundary env) close req (res\<lparr>rs_status := status\<rparr>) s of
        (ok, res', s') \<Rightarrow> \<lparr>sd_ok = ok, sd_closed = closing, sd_response = Some res', sd_stream = s', sd_world = w\<rparr>)"

definition process_request :: "'w http_server \<Rightarrow> conn_env \<Rightarrow> bool \<Rightarrow> stream \<Rightarrow> 'w \<Rightarrow> 'w served" where
  "process_request sv env close s w =
     (case getline (new_reader 2048) s of
        (False, _, s1) \<Rightarrow> \<lparr>sd_ok = False, sd_closed = False, sd_response = None, sd_stream = s1, sd_world = w\<rparr>
      | (True, r, s1) \<Rightarrow>
          (let res = new_response\<lparr>rs_version := ''HTTP/1.1'', rs_headers := default_headers sv\<rparr> in
           case parse_request_line (lr_ptr r) (new_request\<lparr>rq_remote_addr := ce_remote_addr env\<rparr>) of
             (False, req) \<Rightarrow> reply_early sv env close False 400 req res s1 w
           | (True, req) \<Rightarrow>
               (case read_headers (rq_headers req) s1 of
                  (False, hs, s2) \<Rightarrow> reply_early sv env close False 400 (req\<lparr>rq_headers := hs\<rparr>) res s2 w
                | (True, hs, s2) \<Rightarrow>
                    (case check_request sv env (req\<lparr>rq_headers := hs\<rparr>) of
                       Inl (status, req1) \<Rightarrow> reply_early sv env close True status req1 res s2 w
                     | Inr req1 \<Rightarrow>
                         (case routing sv (ce_readable env) req1 res (expect_continue req1 s2) w of
                            (rt, req2, res2, s3, w') \<Rightarrow>
                              (case finish_routing sv env close rt req2 res2 s3 of
                                 (ok, res3, s4) \<Rightarrow>
                                   (case drain_body sv req2 s4 of
                                      (failed, s5) \<Rightarrow>
                                        \<lparr>sd_ok = ok, sd_closed = closes req1 \<or> failed, sd_response = Some res3,
                                         sd_stream = s5, sd_world = w'\<rparr>)))))))"

section \<open>One connection\<close>

text \<open>
  Each request of a connection gets a stream object of its own, with an empty buffer, on the
  same socket. \<open>ready\<close> is what the wait for the next request says, \<open>left\<close> is how many more are served.
\<close>

definition fresh_stream :: "stream \<Rightarrow> stream" where
  "fresh_stream s = s\<lparr>s_error := Err_Success, rbuf := []\<rparr>"

fun process_server_socket ::
    "'w http_server \<Rightarrow> conn_env \<Rightarrow> bool list \<Rightarrow> nat \<Rightarrow> stream \<Rightarrow> 'w \<Rightarrow> http_response list \<times> stream \<times> 'w" where
  "process_server_socket sv env ready 0 s w = ([], s, w)"
| "process_server_socket sv env [] (Suc left) s w = ([], s, w)"
| "process_server_socket sv env (False # ready) (Suc left) s w = ([], s, w)"
| "process_server_socket sv env (True # ready) (Suc left) s w =
     (let d = process_request sv env (left = 0) (fresh_stream s) w;
          out = (case sd_response d of Some res \<Rightarrow> [res] | None \<Rightarrow> []) in
      if \<not> sd_ok d \<or> sd_closed d then (out, sd_stream d, sd_world d)
      else (case process_server_socket sv env ready left (sd_stream d) (sd_world d) of
              (outs, s', w') \<Rightarrow> (out @ outs, s', w')))"

definition serve_connection :: "'w http_server \<Rightarrow> conn_env \<Rightarrow> bool list \<Rightarrow> stream \<Rightarrow> 'w \<Rightarrow> http_response list \<times> stream \<times> 'w" where
  "serve_connection sv env ready s w = process_server_socket sv env ready (keep_alive_max_count sv) s w"

end
