(* ===== verification/Ws_Digest.thy ===== *)
theory Ws_Digest
  imports Http_Text "HOL-Library.Word"
begin

text \<open>
  The digests of the WebSocket handshake in \<open>include/httplib.h\<close>: \<open>base64_encode\<close>, \<open>sha1\<close> and
  \<open>websocket_accept_key\<close>, on machine words of the widths the code has. The encoder shifts its
  accumulator, an \<open>int\<close>, past its width; with the wrap-around of the usual compilers its output
  is that of the textbook encoding, and decoding gives the input back.
\<close>

unbundle bit_operations_syntax

section \<open>Base64\<close>

definition base64_lookup :: string where
  "base64_lookup = ''ABCDEFGHIJKLMNOPQRSTUVWXYZabcdefghijklmnopqrstuvwxyz0123456789+/''"

text \<open>\<open>lookup[x & 0x3F]\<close> for a word \<open>x\<close>; the right shift of the signed accumulator is arithmetic.\<close>

definition sextet :: "32 word \<Rightarrow> char" where
  "sextet x = base64_lookup ! unat (x AND 0x3F)"

function base64_emit :: "32 word \<Rightarrow> int \<Rightarrow> string \<Rightarrow> int \<times> string" where
  "base64_emit val valb out =
     (if 0 \<le> valb then base64_emit val (valb - 6) (out @ [sextet (signed_drop_bit (nat valb) val)])
      else (valb, out))"
  by pat_completeness auto
termination by (relation "measure (\<lambda>(val, valb, out). nat (valb + 6))") auto

declare base64_emit.simps [simp del]

fun base64_loop :: "string \<Rightarrow> 32 word \<Rightarrow> int \<Rightarrow> string \<Rightarrow> 32 word \<times> int \<times> string" where
  "base64_loop [] val valb out = (val, valb, out)"
| "base64_loop (c # cs) val valb out =
     (let val' = push_bit 8 val + of_nat (byte c)
      in case base64_emit val' (valb + 8) out of (valb', out') \<Rightarrow> base64_loop cs val' valb' out')"

function base64_fill :: "string \<Rightarrow> string" where
  "base64_fill out = (if length out mod 4 \<noteq> 0 then base64_fill (out @ ''='') else out)"
  by pat_completeness auto
termination
proof (relation "measure (\<lambda>out. (4 - length out mod 4) mod 4)")
  fix out :: string assume "length out mod 4 \<noteq> 0"
  then have "length out mod 4 \<in> {1, 2, 3}" by auto
  then show "(out @ ''='', out) \<in> measure (\<lambda>out. (4 - length out mod 4) mod 4)"
    by (auto simp: mod_Suc)
qed simp

declare base64_fill.simps [simp del]

definition base64_encode :: "string \<Rightarrow> string" where
  "base64_encode s =
     (case base64_loop s 0 (- 6) [] of (val, valb, out) \<Rightarrow>
        base64_fill (if - 6 < valb then out @ [sextet (signed_drop_bit (nat (valb + 8)) (push_bit 8 val))] else out))"

section \<open>SHA-1\<close>

definition left_rotate :: "32 word \<Rightarrow> nat \<Rightarrow> 32 word" where
  "left_rotate x n = push_bit n x OR drop_bit (32 - n) x"

text \<open>The message with its padding and its length in bits.\<close>

lemma pad_missing: "r < 64 \<Longrightarrow> (120 - r) mod 64 = (if r \<le> 56 then 56 - r else 120 - (r::nat))"
proof -
  assume "r < 64"
  moreover have "120 - r = 64 + (56 - r)" if "r \<le> 56" using that by simp
  ultimately show ?thesis by (cases "r \<le> 56") (simp_all only: mod_add_self1, simp_all)
qed

function zero_pad :: "string \<Rightarrow> string" where
  "zero_pad msg = (if length msg mod 64 \<noteq> 56 then zero_pad (msg @ [chr 0]) else msg)"
  by pat_completeness auto
termination
proof (relation "measure (\<lambda>msg. (120 - length msg mod 64) mod 64)")
  fix msg :: string assume a: "length msg mod 64 \<noteq> 56"
  define r where "r = length msg mod 64"
  have r: "r < 64" "r \<noteq> 56" "length (msg @ [chr 0]) mod 64 = (if r = 63 then 0 else Suc r)"
    using a by (simp_all add: r_def mod_Suc)
  show "(msg @ [chr 0], msg) \<in> measure (\<lambda>msg. (120 - length msg mod 64) mod 64)"
    using r by (cases "r = 63"; cases "r < 56") (simp_all add: r_def [symmetric] pad_missing)
qed simp

declare zero_pad.simps [simp del]

definition length_bytes :: "nat \<Rightarrow> string" where
  "length_bytes n = map (\<lambda>i. chr (unat (drop_bit i (of_nat n * 8 :: 64 word) AND 0xFF))) [56, 48, 40, 32, 24, 16, 8, 0]"

definition sha1_pad :: "string \<Rightarrow> string" where
  "sha1_pad input = zero_pad (input @ [chr 0x80]) @ length_bytes (length input)"

text \<open>One 64-byte chunk: the schedule of eighty words, then the rounds.\<close>

definition be_word :: "string \<Rightarrow> nat \<Rightarrow> 32 word" where
  "be_word msg k =
     push_bit 24 (of_nat (byte (msg ! k))) OR push_bit 16 (of_nat (byte (msg ! (k + 1)))) OR
     push_bit 8 (of_nat (byte (msg ! (k + 2)))) OR of_nat (byte (msg ! (k + 3)))"

definition schedule_step :: "nat \<Rightarrow> 32 word list \<Rightarrow> 32 word list" where
  "schedule_step i w = w @ [left_rotate (w ! (i - 3) XOR w ! (i - 8) XOR w ! (i - 14) XOR w ! (i - 16)) 1]"

definition sha1_schedule :: "string \<Rightarrow> nat \<Rightarrow> 32 word list" where
  "sha1_schedule msg offset = fold schedule_step [16..<80] (map (\<lambda>i. be_word msg (offset + i * 4)) [0..<16])"

type_synonym sha1_state = "32 word \<times> 32 word \<times> 32 word \<times> 32 word \<times> 32 word"

definition sha1_mix :: "nat \<Rightarrow> 32 word \<Rightarrow> 32 word \<Rightarrow> 32 word \<Rightarrow> 32 word \<times> 32 word" where
  "sha1_mix i b c d =
     (if i < 20 then ((b AND c) OR (NOT b AND d), 0x5A827999)
      else if i < 40 then (b XOR c XOR d, 0x6ED9EBA1)
      else if i < 60 then ((b AND c) OR (b AND d) OR (c AND d), 0x8F1BBCDC)
      else (b XOR c XOR d, 0xCA62C1D6))"

definition sha1_round :: "32 word list \<Rightarrow> nat \<Rightarrow> sha1_state \<Rightarrow> sha1_state" where
  "sha1_round w i = (\<lambda>(a, b, c, d, e). case sha1_mix i b c d of (f, k) \<Rightarrow>
     (left_rotate a 5 + f + e + k + w ! i, a, left_rotate b 30, c, d))"

definition sha1_chunk :: "string \<Rightarrow> nat \<Rightarrow> sha1_state \<Rightarrow> sha1_state" where
  "sha1_chunk msg offset = (\<lambda>(h0, h1, h2, h3, h4).
     case fold (sha1_round (sha1_schedule msg offset)) [0..<80] (h0, h1, h2, h3, h4) of (a, b, c, d, e) \<Rightarrow>
       (h0 + a, h1 + b, h2 + c, h3 + d, h4 + e))"

definition sha1_init :: sha1_state where
  "sha1_init = (0x67452301, 0xEFCDAB89, 0x98BADCFE, 0x10325476, 0xC3D2E1F0)"

definition hash_bytes :: "32 word \<Rightarrow> string" where
  "hash_bytes h = map (\<lambda>i. chr (unat (drop_bit (24 - i * 8) h AND 0xFF))) [0..<4]"

definition sha1 :: "string \<Rightarrow> string" where
  "sha1 input =
     (let msg = sha1_pad input in
      case fold (\<lambda>i. sha1_chunk msg (i * 64)) [0..<length msg div 64] sha1_init of (h0, h1, h2, h3, h4) \<Rightarrow>
        concat (map hash_bytes [h0, h1, h2, h3, h4]))"

definition websocket_accept_key :: "string \<Rightarrow> string" where
  "websocket_accept_key client_key = base64_encode (sha1 (client_key @ ''258EAFA5-E914-47DA-95CA-C5AB0DC85B11''))"

section \<open>The textbook encoding\<close>

definition b64_char :: "nat \<Rightarrow> char" where
  "b64_char n = base64_lookup ! (n mod 64)"

fun base64_spec :: "string \<Rightarrow> string" where
  "base64_spec (a # b # c # s) =
     [b64_char (byte a div 4), b64_char (byte a mod 4 * 16 + byte b div 16), b64_char (byte b mod 16 * 4 + byte c div 64), b64_char (byte c)] @
     base64_spec s"
| "base64_spec [a, b] = [b64_char (byte a div 4), b64_char (byte a mod 4 * 16 + byte b div 16), b64_char (byte b mod 16 * 4), CHR ''='']"
| "base64_spec [a] = [b64_char (byte a div 4), b64_char (byte a mod 4 * 16), CHR ''='', CHR ''='']"
| "base64_spec [] = []"

lemma signed_shift_low:
  "k \<le> 6 \<Longrightarrow> sextet (signed_drop_bit k x) = b64_char (unat x div 2 ^ k)" for x :: "32 word"
proof -
  assume k: "k \<le> 6"
  have m: "(0x3F :: 32 word) = mask 6" by (simp add: mask_eq_exp_minus_1)
  have "signed_drop_bit k x AND mask 6 = drop_bit k x AND mask 6"
    using k by (intro bit_word_eqI) (auto simp: bit_simps)
  then have "unat (signed_drop_bit k x AND 0x3F) = unat (take_bit 6 (drop_bit k x))"
    by (simp add: take_bit_eq_mask m)
  also have "\<dots> = take_bit 6 (drop_bit k (unat x))" by (simp only: unsigned_take_bit_eq unat_drop_bit_eq)
  also have "\<dots> = unat x div 2 ^ k mod 64" by (simp add: take_bit_eq_mod drop_bit_eq_div)
  finally show ?thesis by (simp add: sextet_def b64_char_def)
qed

text \<open>Only the low twelve bits of the accumulator are ever read.\<close>

definition low :: "32 word \<Rightarrow> nat" where
  "low x = unat x mod 4096"

lemma sextet_low: "k \<le> 6 \<Longrightarrow> sextet (signed_drop_bit k x) = b64_char (low x div 2 ^ k)"
proof -
  assume k: "k \<le> 6"
  have "unat x div 2 ^ k mod 64 = take_bit 6 (drop_bit k (unat x))" by (simp add: take_bit_eq_mod drop_bit_eq_div)
  also have "\<dots> = take_bit 6 (drop_bit k (take_bit 12 (unat x)))"
    using k by (intro bit_eqI) (auto simp: bit_simps)
  also have "\<dots> = low x div 2 ^ k mod 64" by (simp add: low_def take_bit_eq_mod drop_bit_eq_div)
  finally have "b64_char (unat x div 2 ^ k) = b64_char (low x div 2 ^ k)" by (simp add: b64_char_def)
  then show ?thesis using signed_shift_low [OF k] by simp
qed

lemma low_shift: "n < 256 \<Longrightarrow> low (push_bit 8 x + of_nat n) = low x mod 16 * 256 + n"
proof -
  assume n: "n < 256"
  have "unat (push_bit 8 x + of_nat n :: 32 word) = (unat x * 256 + n) mod 2 ^ 32"
    by (simp add: unat_word_ariths push_bit_eq_mult unat_of_nat mod_simps)
  then have "low (push_bit 8 x + of_nat n) = (unat x * 256 + n) mod 4096" by (simp add: low_def mod_mod_cancel)
  also have "\<dots> = (unat x * 256 mod (16 * 256) + n) mod 4096" by (simp add: mod_add_left_eq)
  also have "\<dots> = (unat x mod 16 * 256 + n) mod 4096" by (simp only: mod_mult_mult2)
  also have "\<dots> = unat x mod 16 * 256 + n"
  proof (rule mod_less)
    have "unat x mod 16 \<le> 15" by simp
    then show "unat x mod 16 * 256 + n < 4096" using n by linarith
  qed
  finally show ?thesis by (simp add: low_def mod_mod_cancel)
qed

lemma mod_16: "(k * 256 + n) mod 16 = (n::nat) mod 16"
  using mod_mult_self3 [of "k * 16" 16 n] by (simp add: mult.assoc)

lemma b64_char_low: "b64_char (k * 256 + n) = b64_char n"
  using mod_mult_self3 [of "k * 4" 64 n] by (simp add: b64_char_def mult.assoc)

lemma first_sextet: "n < 256 \<Longrightarrow> b64_char ((l * 256 + n) div 4) = b64_char (n div 4)"
proof -
  have "(l * 256 + n) div 4 = n div 4 + 64 * l" by simp
  then show ?thesis by (simp add: b64_char_def)
qed

lemma middle_sextet: "b64_char ((x mod 16 * 256 + n) div 16) = b64_char (x mod 4 * 16 + n div 16)"
proof -
  have "(x mod 16 * 256 + n) div 16 = x mod 16 * 16 + n div 16" by simp
  moreover have "x mod 16 * 16 mod 64 = x mod 4 * 16" using mod_mult_mult2 [of "x mod 16" 16 4] by (simp add: mod_mod_cancel)
  ultimately show ?thesis unfolding b64_char_def by (metis mod_add_left_eq mod_mod_trivial)
qed

lemma last_sextet: "(x * 256 + n) div 64 = x * 4 + n div (64::nat)"
proof -
  have "x * 256 + n = n + x * 4 * 64" by simp
  then show ?thesis by (simp only: div_mult_self1)
qed

lemma base64_emit_one:
  "base64_emit v 2 out = (- 4, out @ [sextet (signed_drop_bit 2 v)])"
  "base64_emit v 4 out = (- 2, out @ [sextet (signed_drop_bit 4 v)])"
  "base64_emit v 6 out = (- 6, out @ [sextet (signed_drop_bit 6 v), sextet (signed_drop_bit 0 v)])"
  by (simp_all add: base64_emit.simps)

definition base64_finish :: "32 word \<times> int \<times> string \<Rightarrow> string" where
  "base64_finish = (\<lambda>(val, valb, out).
     base64_fill (if - 6 < valb then out @ [sextet (signed_drop_bit (nat (valb + 8)) (push_bit 8 val))] else out))"

lemma base64_fill_once:
  "length out mod 4 = 0 \<Longrightarrow> base64_fill out = out"
  "length out mod 4 = 3 \<Longrightarrow> base64_fill out = out @ ''=''"
  "length out mod 4 = 2 \<Longrightarrow> base64_fill out = out @ ''==''"
  by (simp_all add: base64_fill.simps [of out] base64_fill.simps [of "out @ ''=''"] base64_fill.simps [of "out @ ''==''"] mod_Suc)

lemma base64_loop_is_spec:
  "length out mod 4 = 0 \<Longrightarrow> base64_finish (base64_loop s val (- 6) out) = out @ base64_spec s"
proof (induction s arbitrary: val out rule: base64_spec.induct)
  case (1 a b c s)
  let ?v1 = "push_bit 8 val + of_nat (byte a)"
  let ?v2 = "push_bit 8 ?v1 + of_nat (byte b)"
  let ?v3 = "push_bit 8 ?v2 + of_nat (byte c)"
  let ?o = "out @ [sextet (signed_drop_bit 2 ?v1), sextet (signed_drop_bit 4 ?v2), sextet (signed_drop_bit 6 ?v3), sextet (signed_drop_bit 0 ?v3)]"
  have l: "low ?v1 = low val mod 16 * 256 + byte a" "low ?v2 = byte a mod 16 * 256 + byte b" "low ?v3 = byte b mod 16 * 256 + byte c"
    by (simp_all add: low_shift mod_16)
  have "base64_loop (a # b # c # s) val (- 6) out = base64_loop s ?v3 (- 6) ?o"
    by (simp add: Let_def base64_emit_one)
  then have "base64_finish (base64_loop (a # b # c # s) val (- 6) out) = ?o @ base64_spec s"
    using "1.IH" [of ?o ?v3] "1.prems" by simp
  moreover have "sextet (signed_drop_bit 2 ?v1) = b64_char (byte a div 4)"
    using sextet_low [of 2 ?v1] l(1) by (simp add: first_sextet)
  moreover have "sextet (signed_drop_bit 4 ?v2) = b64_char (byte a mod 4 * 16 + byte b div 16)"
    using sextet_low [of 4 ?v2] l(2) by (simp add: middle_sextet)
  moreover have "sextet (signed_drop_bit 6 ?v3) = b64_char (byte b mod 16 * 4 + byte c div 64)"
    using sextet_low [of 6 ?v3] l(3) last_sextet [of "byte b mod 16" "byte c"] by simp
  moreover have "sextet (signed_drop_bit 0 ?v3) = b64_char (byte c)"
    using sextet_low [of 0 ?v3] l(3) by (simp add: b64_char_low)
  ultimately show ?case by simp
next
  case (2 a b)
  let ?v1 = "push_bit 8 val + of_nat (byte a)"
  let ?v2 = "push_bit 8 ?v1 + of_nat (byte b)"
  have l: "low ?v1 = low val mod 16 * 256 + byte a" "low ?v2 = byte a mod 16 * 256 + byte b"
    "low (push_bit 8 ?v2) = byte b mod 16 * 256"
    using low_shift [of 0 ?v2] by (simp_all add: low_shift mod_16)
  show ?case
    using "2.prems" sextet_low [of 2 ?v1] sextet_low [of 4 ?v2] sextet_low [of 6 "push_bit 8 ?v2"] l
    by (simp add: Let_def base64_emit_one base64_finish_def base64_fill_once first_sextet middle_sextet mod_Suc mult.commute)
next
  case (3 a)
  let ?v1 = "push_bit 8 val + of_nat (byte a)"
  have l: "low ?v1 = low val mod 16 * 256 + byte a" "low (push_bit 8 ?v1) = byte a mod 16 * 256"
    using low_shift [of 0 ?v1] by (simp_all add: low_shift mod_16)
  show ?case
    using "3.prems" sextet_low [of 2 ?v1] sextet_low [of 4 "push_bit 8 ?v1"] l middle_sextet [of "byte a" 0]
    by (simp add: Let_def base64_emit_one base64_finish_def base64_fill_once first_sextet mod_Suc)
next
  case 4
  then show ?case by (simp add: base64_finish_def base64_fill_once)
qed

text \<open>The encoder is the textbook encoding, for inputs of any length.\<close>

lemma base64_encode_spec: "base64_encode s = base64_spec s"
  using base64_loop_is_spec [of "[]" s 0] by (simp add: base64_encode_def base64_finish_def)

section \<open>Decoding\<close>

definition b64_value :: "char \<Rightarrow> nat" where
  "b64_value c = length (takeWhile (\<lambda>d. d \<noteq> c) base64_lookup)"

fun base64_decode :: "string \<Rightarrow> string option" where
  "base64_decode [] = Some []"
| "base64_decode (p # q # r # t # s) =
     (if t = CHR ''='' then
        (if s \<noteq> [] then None
         else if r = CHR ''='' then Some [chr (b64_value p * 4 + b64_value q div 16)]
         else Some [chr (b64_value p * 4 + b64_value q div 16), chr (b64_value q mod 16 * 16 + b64_value r div 4)])
      else map_option
        (\<lambda>d. chr (b64_value p * 4 + b64_value q div 16) # chr (b64_value q mod 16 * 16 + b64_value r div 4) # chr (b64_value r mod 4 * 64 + b64_value t) # d)
        (base64_decode s))"
| "base64_decode _ = None"

lemma length_lookup [simp]: "length base64_lookup = 64"
  by (simp add: base64_lookup_def)

lemma b64_char_in: "b64_char n \<in> set base64_lookup"
  unfolding b64_char_def by (rule nth_mem) simp

lemma b64_char_not_pad [simp]: "b64_char n \<noteq> CHR ''=''"
  using b64_char_in [of n] by (auto simp: base64_lookup_def)

lemma takeWhile_nth:
  "distinct xs \<Longrightarrow> i < length xs \<Longrightarrow> takeWhile (\<lambda>d. d \<noteq> xs ! i) xs = take i xs"
proof (induction xs arbitrary: i)
  case (Cons x xs)
  then show ?case by (cases i) auto
qed simp

lemma b64_value_char [simp]: "b64_value (b64_char n) = n mod 64"
proof -
  have "distinct base64_lookup" by (simp add: base64_lookup_def)
  then show ?thesis unfolding b64_value_def b64_char_def by (subst takeWhile_nth) simp_all
qed

lemma chr_parts:
  "chr (byte a div 4 * 4 + byte a mod 4) = a" "chr (byte a div 16 * 16 + byte a mod 16) = a" "chr (byte a div 64 * 64 + byte a mod 64) = a"
  by simp_all

lemma base64_groups:
  "(byte a mod 4 * 16 + byte b div 16) mod 64 = byte a mod 4 * 16 + byte b div 16"
  "(byte b mod 16 * 4 + byte c div 64) mod 64 = byte b mod 16 * 4 + byte c div 64"
  "byte a div 4 mod 64 = byte a div 4" "byte b div 16 mod 16 = byte b div 16" "byte c div 64 mod 4 = byte c div 64"
proof -
  have d: "byte a div 4 < 64" "byte b div 16 < 16" "byte c div 64 < 4"
    by (rule less_mult_imp_div_less, simp)+
  have m: "byte a mod 4 < 4" "byte b mod 16 < 16" by simp_all
  show "(byte a mod 4 * 16 + byte b div 16) mod 64 = byte a mod 4 * 16 + byte b div 16"
    "(byte b mod 16 * 4 + byte c div 64) mod 64 = byte b mod 16 * 4 + byte c div 64" "byte a div 4 mod 64 = byte a div 4"
    "byte b div 16 mod 16 = byte b div 16" "byte c div 64 mod 4 = byte c div 64"
    using d m by (intro mod_less; linarith)+
qed

lemma byte_div_16_div_16 [simp]: "byte b div 16 div 16 = 0" "byte c div 64 div 4 = 0" "byte b div 256 = 0"
  using byte_less [of b] byte_less [of c] by (simp_all add: div_mult2_eq [symmetric])

text \<open>
  Base64 is decoded to what was encoded, although the encoder's accumulator overflows after
  four bytes.
\<close>

theorem base64_round_trip:
  "base64_decode (base64_encode s) = Some s"
  unfolding base64_encode_spec
proof (induction s rule: base64_spec.induct)
  case (1 a b c s)
  then show ?case by (simp add: base64_groups)
next
  case (2 a b)
  show ?case by (simp add: base64_groups mod_less)
next
  case (3 a)
  show ?case by (simp add: base64_groups)
qed simp_all

lemma base64_encode_length: "length (base64_encode s) = 4 * ((length s + 2) div 3)"
proof -
  have "(length (a # b # c # s) + 2) div 3 = (length s + 2) div 3 + 1" for a b c :: char and s by simp
  then show ?thesis unfolding base64_encode_spec by (induction s rule: base64_spec.induct) simp_all
qed

section \<open>The digest and the accept key\<close>

lemma hash_bytes_length [simp]: "length (hash_bytes h) = 4"
  by (simp add: hash_bytes_def)

lemma sha1_length [simp]: "length (sha1 s) = 20"
  by (simp add: sha1_def Let_def split: prod.splits)

lemma zero_pad_length: "length (zero_pad s) mod 64 = 56"
  by (induction s rule: zero_pad.induct) (subst zero_pad.simps, simp)

lemma zero_pad_prefix: "take (length s) (zero_pad s) = s"
proof (induction s rule: zero_pad.induct)
  case (1 s)
  show ?case
  proof (cases "length s mod 64 = 56")
    case False
    then have "take (length s) (take (length (s @ [chr 0])) (zero_pad (s @ [chr 0]))) = s" using 1 by simp
    then show ?thesis using False by (simp add: zero_pad.simps [of s])
  qed (simp add: zero_pad.simps [of s])
qed

text \<open>The padded message is a sequence of whole chunks that starts with the message and the bit set.\<close>

lemma sha1_pad_chunks: "length (sha1_pad s) mod 64 = 0"
proof -
  have "length (sha1_pad s) = length (zero_pad (s @ [chr 0x80])) + 8" by (simp add: sha1_pad_def length_bytes_def)
  then show ?thesis using zero_pad_length [of "s @ [chr 0x80]"] by (simp add: mod_add_left_eq [symmetric] del: length_0_conv)
qed

lemma sha1_pad_prefix: "take (Suc (length s)) (sha1_pad s) = s @ [chr 0x80]"
proof -
  have "length (s @ [chr 0x80]) \<le> length (zero_pad (s @ [chr 0x80]))"
    using arg_cong [OF zero_pad_prefix [of "s @ [chr 0x80]"], of length] by simp
  then show ?thesis using zero_pad_prefix [of "s @ [chr 0x80]"] by (simp add: sha1_pad_def)
qed

lemma base64_chars: "set (base64_encode s) \<subseteq> insert (CHR ''='') (set base64_lookup)"
  unfolding base64_encode_spec by (induction s rule: base64_spec.induct) (auto simp: b64_char_in)

text \<open>An accept key has 28 characters, all of the alphabet.\<close>

lemma accept_key_length: "length (websocket_accept_key k) = 28"
  by (simp add: websocket_accept_key_def base64_encode_length)

end
