(* ===== verification/Http_Client.thy ===== *)
theory Http_Client
  imports Http_Serve Ws_Digest
begin

text \<open>
  The client of \<open>include/httplib.h\<close>, class \<open>ClientImpl\<close>, as the tests of the server use it: writing a
  request with its default headers, reading the response, connections and redirects. Callbacks
  on the request are left at their null defaults and no encryption or compression is compiled in.
\<close>

section \<open>The client and what it works on\<close>

record http_client =
  hc_host :: string
  hc_port :: int
  hc_default_headers :: headers
  hc_basic_user :: string
  hc_basic_password :: string
  hc_bearer :: string
  hc_keep_alive :: bool
  hc_follow_location :: bool
  hc_path_encode :: bool
  hc_decompress :: bool
  hc_payload_max :: nat
  hc_proxy_host :: string
  hc_proxy_port :: int
  hc_proxy_user :: string
  hc_proxy_password :: string
  hc_proxy_bearer :: string
  hc_socket :: "stream option"

definition client_new :: "string \<Rightarrow> int \<Rightarrow> http_client" where
  "client_new host port =
     \<lparr>hc_host = host, hc_port = port, hc_default_headers = [], hc_basic_user = [], hc_basic_password = [], hc_bearer = [],
      hc_keep_alive = False, hc_follow_location = False, hc_path_encode = True, hc_decompress = True,
      hc_payload_max = 100 * 1024 * 1024, hc_proxy_host = [], hc_proxy_port = - 1, hc_proxy_user = [], hc_proxy_password = [],
      hc_proxy_bearer = [], hc_socket = None\<rparr>"

text \<open>A request with its content provider, as it is handed to \<open>send\<close>; a response with its reason and location.\<close>

record client_request =
  cq_req :: http_request
  cq_length :: nat
  cq_provider :: "(nat \<Rightarrow> nat \<Rightarrow> provider_step list) option"
  cq_chunked :: bool

record client_response =
  cs_res :: http_response
  cs_reason :: string
  cs_location :: string

definition new_client_response :: client_response where
  "new_client_response = \<lparr>cs_res = new_response, cs_reason = [], cs_location = []\<rparr>"

text \<open>
  The network: what the next attempts to connect give, whether an open socket is found alive (behind
  the last entry it is), whether the answer to an announced body comes in time (behind the last entry it
  does not), the destinations of the attempts so far and the streams of closed sockets.
\<close>

record client_net =
  net_connects :: "(http_error + stream) list"
  net_alive :: "bool list"
  net_ready :: "bool list"
  net_opened :: "(string \<times> int) list"
  net_closed :: "stream list"

definition close_socket :: "http_client \<Rightarrow> client_net \<Rightarrow> http_client \<times> client_net" where
  "close_socket c net =
     (case hc_socket c of None \<Rightarrow> (c, net) | Some s \<Rightarrow> (c\<lparr>hc_socket := None\<rparr>, net\<lparr>net_closed := net_closed net @ [s]\<rparr>))"

section \<open>Headers\<close>

definition cq_headers :: "client_request \<Rightarrow> headers" where
  "cq_headers q = rq_headers (cq_req q)"

definition on_headers :: "(headers \<Rightarrow> headers) \<Rightarrow> client_request \<Rightarrow> client_request" where
  "on_headers f q = q\<lparr>cq_req := (cq_req q)\<lparr>rq_headers := f (rq_headers (cq_req q))\<rparr>\<rparr>"

text \<open>\<open>emplace\<close> takes any value, \<open>set_header\<close> only one within the grammar; \<open>find\<close> knows no reserved names.\<close>

definition add_missing :: "string \<times> string \<Rightarrow> headers \<Rightarrow> headers" where
  "add_missing kv hs = (if has_header hs (fst kv) then hs else hs @ [kv])"

definition insert_missing :: "string \<times> string \<Rightarrow> headers \<Rightarrow> headers" where
  "insert_missing kv hs = (if equal_range hs (fst kv) \<noteq> [] then hs else hs @ [kv])"

definition set_missing :: "string \<Rightarrow> string \<Rightarrow> headers \<Rightarrow> headers" where
  "set_missing key val hs = (if has_header hs key then hs else set_header hs key val)"

definition prepare_host_string :: "string \<Rightarrow> string" where
  "prepare_host_string host =
     (if CHR '':'' \<notin> set host \<or> host \<noteq> [] \<and> hd host = CHR ''['' then host else ''['' @ host @ '']'')"

definition make_host_and_port_string :: "string \<Rightarrow> int \<Rightarrow> bool \<Rightarrow> string" where
  "make_host_and_port_string host port is_ssl =
     (if \<not> is_ssl \<and> port = 80 \<or> is_ssl \<and> port = 443 then prepare_host_string host
      else prepare_host_string host @ '':'' @ to_dec_int port)"

definition make_basic_authentication_header :: "string \<Rightarrow> string \<Rightarrow> bool \<Rightarrow> string \<times> string" where
  "make_basic_authentication_header username password is_proxy =
     (if is_proxy then ''Proxy-Authorization'' else ''Authorization'', ''Basic '' @ base64_encode (username @ '':'' @ password))"

definition prepare_default_headers :: "http_client \<Rightarrow> string \<Rightarrow> client_request \<Rightarrow> client_request" where
  "prepare_default_headers c ct q =
     (let q1 = on_headers (fold add_missing (hc_default_headers c)) q;
          q2 = on_headers (add_missing (''Host'', make_host_and_port_string (hc_host c) (hc_port c) False)) q1;
          q3 = on_headers (add_missing (''Accept'', ''*/*'')) q2;
          q4 = on_headers (set_missing ''Accept-Encoding'' []) q3;
          q5 = on_headers (set_missing ''User-Agent'' ''cpp-httplib/0.45.0'') q4;
          body = rq_body (cq_req q)
      in if body = [] then q5
         else on_headers (add_missing (''Content-Length'', to_dec (length body)))
           (if ct \<noteq> [] then on_headers (add_missing (''Content-Type'', ct)) q5 else q5))"

definition authorization_headers :: "http_client \<Rightarrow> headers \<Rightarrow> headers" where
  "authorization_headers c hs0 =
     (let hs1 = (if hc_basic_password c \<noteq> [] \<or> hc_basic_user c \<noteq> []
                 then add_missing (make_basic_authentication_header (hc_basic_user c) (hc_basic_password c) False) hs0 else hs0);
          hs2 = (if hc_proxy_user c \<noteq> [] \<and> hc_proxy_password c \<noteq> []
                 then add_missing (make_basic_authentication_header (hc_proxy_user c) (hc_proxy_password c) True) hs1 else hs1);
          hs3 = (if hc_bearer c \<noteq> [] then add_missing (make_bearer_token_authentication_header (hc_bearer c) False) hs2 else hs2)
      in if hc_proxy_bearer c \<noteq> [] then add_missing (make_bearer_token_authentication_header (hc_proxy_bearer c) True) hs3 else hs3)"

section \<open>Writing a request\<close>

definition write_request_line :: "string \<Rightarrow> string \<Rightarrow> string" where
  "write_request_line meth path = meth @ '' '' @ path @ '' HTTP/1.1'' @ crlf"

definition encode_path_char :: "char \<Rightarrow> string" where
  "encode_path_char ch =
     (if ch = CHR '' '' then ''%20'' else if ch = CHR ''+'' then ''%2B'' else if ch = CHR 0x0D then ''%0D''
      else if ch = CHR 0x0A then ''%0A'' else if ch = CHR 0x27 then ''%27'' else if ch = CHR '','' then ''%2C''
      else if ch = CHR '';'' then ''%3B'' else if 0x80 \<le> byte ch then pct ch else [ch])"

definition encode_path :: "string \<Rightarrow> string" where
  "encode_path s = concat (map encode_path_char (c_str s))"

text \<open>The target of the request line, and the parameters as they are kept in the request.\<close>

definition target_of_path :: "http_client \<Rightarrow> string \<Rightarrow> params \<Rightarrow> string \<times> params" where
  "target_of_path c path ps =
     (let (path_part, query_part) = divide path (CHR ''?'');
          target = (if hc_path_encode c then encode_path path_part else path_part);
          ps' = parse_query_text query_part ps in
      if query_part \<noteq> [] then
        (let normalized = normalize_query_string query_part
         in (if normalized \<noteq> [] then target @ ''?'' @ normalized else target, ps'))
      else (if ps' \<noteq> [] then append_query_params target ps' else target, ps'))"

definition write_request_body :: "client_request \<Rightarrow> http_error \<Rightarrow> stream \<Rightarrow> bool \<times> http_error \<times> stream" where
  "write_request_body q err s =
     (if rq_body (cq_req q) = [] then
        (let provider = (case cq_provider q of Some p \<Rightarrow> p | None \<Rightarrow> (\<lambda>_ _. []))
         in if cq_chunked q then write_content_chunked (provider 0 0) s
            else write_content_with_progress None 0 (cq_length q) (provider 0 (cq_length q)) s)
      else (case write_data (rq_body (cq_req q)) s of
              (False, s') \<Rightarrow> (False, Err_Write, s')
            | (True, s') \<Rightarrow> (True, err, s')))"

definition final_headers :: "http_client \<Rightarrow> bool \<Rightarrow> client_request \<Rightarrow> client_request" where
  "final_headers c close q =
     (let q1 = (if close then on_headers (set_missing ''Connection'' ''close'') q else q);
          ct = (if \<not> has_header (cq_headers q1) ''Content-Type'' \<and> rq_body (cq_req q1) \<noteq> [] then ''text/plain'' else []);
          q2 = prepare_default_headers c ct q1;
          q3 = (if rq_body (cq_req q2) = [] then
                  (if cq_provider q2 \<noteq> None then
                     (if cq_chunked q2 then q2 else on_headers (set_missing ''Content-Length'' (to_dec (cq_length q2))) q2)
                   else if rq_method (cq_req q2) \<in> {''POST'', ''PUT'', ''PATCH''}
                     then on_headers (\<lambda>hs. set_header hs ''Content-Length'' ''0'') q2
                   else q2)
                else q2)
      in on_headers (authorization_headers c) q3)"

definition request_head :: "http_client \<Rightarrow> client_request \<Rightarrow> string \<times> client_request" where
  "request_head c q =
     (let (target, ps) = target_of_path c (rq_path (cq_req q)) (rq_params (cq_req q));
          q' = q\<lparr>cq_req := (cq_req q)\<lparr>rq_params := ps\<rparr>\<rparr>
      in (bs_buffer (snd (write_headers (cq_headers q)
            \<lparr>bs_buffer = write_request_line (rq_method (cq_req q)) target, bs_position = 0\<rparr>)), q'))"

definition write_request ::
    "http_client \<Rightarrow> bool \<Rightarrow> bool \<Rightarrow> client_request \<Rightarrow> http_error \<Rightarrow> stream \<Rightarrow> bool \<times> http_error \<times> client_request \<times> stream" where
  "write_request c close skip_body q0 err s =
     (let q = final_headers c close q0; (head, q') = request_head c q in
      if \<not> list_all (\<lambda>h. is_field_name (fst h) \<and> is_field_value (snd h)) (cq_headers q) then (False, Err_InvalidHeaders, q', s)
      else (case write_data head s of
              (False, s') \<Rightarrow> (False, Err_Write, q', s')
            | (True, s') \<Rightarrow>
                if skip_body then (True, err, q', s')
                else (case write_request_body q' err s' of (ok, err', s'') \<Rightarrow> (ok, err', q', s''))))"

section \<open>Reading a response\<close>

text \<open>The regular expression \<open>(HTTP/1\.[01]) (\d{3})(?: (.*?))?\r\n\<close>.\<close>

definition match_response_line :: "string \<Rightarrow> (string \<times> nat \<times> string) option" where
  "match_response_line line =
     (let version = take 8 line; digits = take 3 (drop 9 line); rest = drop 12 line; n = length rest in
      if version \<noteq> ''HTTP/1.0'' \<and> version \<noteq> ''HTTP/1.1'' then None
      else if take 1 (drop 8 line) \<noteq> '' '' then None
      else if length digits \<noteq> 3 \<or> \<not> list_all is_digit_c digits then None
      else if rest = crlf then Some (version, of_dec digits, [])
      else if n < 3 \<or> hd rest \<noteq> CHR '' '' \<or> drop (n - 2) rest \<noteq> crlf then None
      else (let reason = take (n - 3) (tl rest)
            in if list_all (\<lambda>ch. ch \<noteq> CHR 0x0A \<and> ch \<noteq> CHR 0x0D) reason then Some (version, of_dec digits, reason) else None))"

definition store_response_line :: "string \<times> nat \<times> string \<Rightarrow> client_response \<Rightarrow> client_response" where
  "store_response_line m res = (case m of (version, status, reason) \<Rightarrow>
     res\<lparr>cs_res := (cs_res res)\<lparr>rs_version := version, rs_status := int status\<rparr>, cs_reason := reason\<rparr>)"

function skip_continue :: "line_reader \<Rightarrow> client_response \<Rightarrow> stream \<Rightarrow> bool \<times> client_response \<times> stream" where
  "skip_continue r res s =
     (if rs_status (cs_res res) \<noteq> 100 then (True, res, s)
      else case getline r s of
        (False, r1, s1) \<Rightarrow> (False, res, s1)
      | (True, r1, s1) \<Rightarrow>
          (case getline r1 s1 of
             (False, r2, s2) \<Rightarrow> (False, res, s2)
           | (True, r2, s2) \<Rightarrow>
               (case match_response_line (c_str (lr_ptr r2)) of
                  None \<Rightarrow> (False, res, s2)
                | Some m \<Rightarrow> skip_continue r2 (store_response_line m res) s2)))"
  by pat_completeness auto
termination
  by (relation "measure (\<lambda>(r, res, s). to_come s)") (auto dest!: getline_to_come [OF sym])

declare skip_continue.simps [simp del]

definition read_response_line :: "bool \<Rightarrow> string \<Rightarrow> client_response \<Rightarrow> stream \<Rightarrow> bool \<times> client_response \<times> stream" where
  "read_response_line skip_100 meth res s =
     (case getline (new_reader 2048) s of
        (False, _, s1) \<Rightarrow> (False, res, s1)
      | (True, r, s1) \<Rightarrow>
          (case match_response_line (c_str (lr_ptr r)) of
             None \<Rightarrow> (meth = ''CONNECT'', res, s1)
           | Some m \<Rightarrow>
               if skip_100 then skip_continue r (store_response_line m res) s1
               else (True, store_response_line m res, s1)))"

text \<open>The status line and the headers; both conditions fail alike.\<close>

definition read_response_head :: "bool \<Rightarrow> string \<Rightarrow> client_response \<Rightarrow> stream \<Rightarrow> bool \<times> client_response \<times> stream" where
  "read_response_head skip_100 meth res s =
     (case read_response_line skip_100 meth res s of
        (False, res1, s1) \<Rightarrow> (False, res1, s1)
      | (True, res1, s1) \<Rightarrow>
          (case read_headers (rs_headers (cs_res res1)) s1 of
             (ok, hs, s2) \<Rightarrow> (ok, res1\<lparr>cs_res := (cs_res res1)\<lparr>rs_headers := hs\<rparr>\<rparr>, s2)))"

definition append_body :: "nat \<Rightarrow> string receiver" where
  "append_body payload_max d off whole body =
     (if 0 < payload_max \<and> (payload_max \<le> length body \<or> payload_max - length body < length d) then (False, body)
      else (True, body @ d))"

text \<open>\<open>std::string::max_size()\<close> of the GNU library on a 64-bit machine.\<close>

definition string_max_size :: nat where
  "string_max_size = 2 ^ 63 - 2"

definition read_response_body ::
    "http_client \<Rightarrow> string \<Rightarrow> client_response \<Rightarrow> http_error \<Rightarrow> stream \<Rightarrow> bool \<times> http_error \<times> client_response \<times> stream" where
  "read_response_body c meth res err s =
     (let rs = cs_res res in
      if rs_status rs = 204 \<or> meth = ''HEAD'' \<or> meth = ''CONNECT'' then (True, err, res, s)
      else if rs_has_header rs ''Content-Length'' \<and> string_max_size < rs_header_u64 rs ''Content-Length'' then (False, Err_Read, res, s)
      else if rs_status rs = 304 then (True, err, res, s)
      else (case read_content (rs_headers rs) (rs_trailers rs) (hc_payload_max c) None (append_body (hc_payload_max c)) (hc_decompress c)
                   (rs_body rs) s of
              ((ok, _), trailers, body, s') \<Rightarrow>
                (ok, if ok then err else Err_Read, res\<lparr>cs_res := rs\<lparr>rs_trailers := trailers, rs_body := body\<rparr>\<rparr>, s')))"

section \<open>One exchange\<close>

definition expect_threshold :: nat where
  "expect_threshold = 1024"

definition announce :: "client_request \<Rightarrow> client_request" where
  "announce q =
     (let size = (if rq_body (cq_req q) = [] then cq_length q else length (rq_body (cq_req q)))
      in if \<not> has_header (cq_headers q) ''Expect'' \<and> expect_threshold \<le> size
         then on_headers (\<lambda>hs. set_header hs ''Expect'' ''100-continue'') q else q)"

text \<open>
  \<open>ready\<close> is whether an answer to the announced body comes in time; without one the body is sent
  all the same and the response is read as usual.
\<close>

record exchange =
  ex_ok :: bool
  ex_error :: http_error
  ex_request :: client_request
  ex_response :: client_response
  ex_stream :: stream

definition finish_exchange ::
    "http_client \<Rightarrow> bool \<Rightarrow> bool \<Rightarrow> client_request \<Rightarrow> client_response \<Rightarrow> http_error \<Rightarrow> stream \<Rightarrow> exchange" where
  "finish_exchange c written waiting q res0 err s =
     (let meth = rq_method (cq_req q); failed = (\<lambda>e res s. \<lparr>ex_ok = False, ex_error = e, ex_request = q, ex_response = res, ex_stream = s\<rparr>);
          body = (\<lambda>e res s. case read_response_body c meth res e s of (ok, e', res', s') \<Rightarrow>
            \<lparr>ex_ok = ok, ex_error = e', ex_request = q, ex_response = res', ex_stream = s'\<rparr>) in
      case read_response_head (\<not> waiting) meth res0 s of
        (False, res1, s1) \<Rightarrow> failed (if written then Err_Read else err) res1 s1
      | (True, res1, s1) \<Rightarrow>
          if \<not> written then failed err res1 s1
          else if waiting \<and> rs_status (cs_res res1) = 100 then
            (case write_request_body q err s1 of
               (False, err2, s2) \<Rightarrow> failed err2 res1 s2
             | (True, err2, s2) \<Rightarrow>
                 (case read_response_head True meth (res1\<lparr>cs_res := (cs_res res1)\<lparr>rs_headers := [], rs_body := []\<rparr>\<rparr>) s2 of
                    (False, res3, s3) \<Rightarrow> failed Err_Read res3 s3
                  | (True, res3, s3) \<Rightarrow> body err2 res3 s3))
          else body err res1 s1)"

definition client_exchange ::
    "http_client \<Rightarrow> bool \<Rightarrow> bool \<Rightarrow> client_request \<Rightarrow> client_response \<Rightarrow> http_error \<Rightarrow> stream \<Rightarrow> exchange" where
  "client_exchange c close ready q0 res err s =
     (let q = announce q0; expect = (header_value (cq_headers q) ''Expect'' = ''100-continue'') in
      case write_request c close expect q err s of
        (written, err1, q1, s1) \<Rightarrow>
          if expect \<and> \<not> ready then
            (case write_request_body q1 err1 s1 of
               (False, err2, s2) \<Rightarrow> \<lparr>ex_ok = False, ex_error = err2, ex_request = q1, ex_response = res, ex_stream = s2\<rparr>
             | (True, err2, s2) \<Rightarrow> finish_exchange c written False q1 res err2 s2)
          else finish_exchange c written expect q1 res err1 s1)"

section \<open>Connections\<close>

definition uses_proxy :: "http_client \<Rightarrow> bool" where
  "uses_proxy c \<longleftrightarrow> hc_proxy_host c \<noteq> [] \<and> hc_proxy_port c \<noteq> - 1"

definition connect_target :: "http_client \<Rightarrow> string \<times> int" where
  "connect_target c = (if uses_proxy c then (hc_proxy_host c, hc_proxy_port c) else (hc_host c, hc_port c))"

definition create_and_connect_socket ::
    "http_client \<Rightarrow> client_net \<Rightarrow> http_error \<Rightarrow> bool \<times> http_error \<times> http_client \<times> client_net" where
  "create_and_connect_socket c net err =
     (let net1 = net\<lparr>net_opened := net_opened net @ [connect_target c]\<rparr> in
      case net_connects net of
        [] \<Rightarrow> (False, if err = Err_Success then Err_Connection else err, c, net1)
      | Inl e # rest \<Rightarrow> (False, if e = Err_Success then Err_Connection else e, c, net1\<lparr>net_connects := rest\<rparr>)
      | Inr s # rest \<Rightarrow> (True, Err_Success, c\<lparr>hc_socket := Some s\<rparr>, net1\<lparr>net_connects := rest\<rparr>))"

text \<open>An open socket is probed, and a dead one closed, before it is used again.\<close>

definition probe_socket :: "http_client \<Rightarrow> client_net \<Rightarrow> bool \<times> http_client \<times> client_net" where
  "probe_socket c net =
     (if hc_socket c = None then (False, c, net)
      else case net_alive net of
        [] \<Rightarrow> (True, c, net)
      | True # rest \<Rightarrow> (True, c, net\<lparr>net_alive := rest\<rparr>)
      | False # rest \<Rightarrow> (False, close_socket c (net\<lparr>net_alive := rest\<rparr>)))"

definition open_connection ::
    "http_client \<Rightarrow> client_net \<Rightarrow> http_error \<Rightarrow> bool \<times> http_error \<times> http_client \<times> client_net" where
  "open_connection c net err =
     (case probe_socket c net of
        (True, c1, net1) \<Rightarrow> (True, err, c1, net1)
      | (False, c1, net1) \<Rightarrow> create_and_connect_socket c1 net1 err)"

section \<open>Requests and redirects\<close>

text \<open>What a call leaves behind: its value, the error, the client, the network, the request, the response.\<close>

record outcome =
  oc_ok :: bool
  oc_error :: http_error
  oc_client :: http_client
  oc_net :: client_net
  oc_request :: client_request
  oc_response :: client_response

type_synonym sender =
  "http_client \<Rightarrow> client_net \<Rightarrow> client_request \<Rightarrow> client_response \<Rightarrow> http_error \<Rightarrow> outcome"

definition refused :: "http_error \<Rightarrow> http_client \<Rightarrow> client_net \<Rightarrow> client_request \<Rightarrow> client_response \<Rightarrow> outcome" where
  "refused e c net q res =
     \<lparr>oc_ok = False, oc_error = e, oc_client = c, oc_net = net, oc_request = q, oc_response = res\<rparr>"

definition with_path :: "string \<Rightarrow> client_request \<Rightarrow> client_request" where
  "with_path path q = q\<lparr>cq_req := (cq_req q)\<lparr>rq_path := path\<rparr>\<rparr>"

definition proxied_path :: "http_client \<Rightarrow> string \<Rightarrow> string" where
  "proxied_path c path =
     (if uses_proxy c then ''http://'' @ make_host_and_port_string (hc_host c) (hc_port c) False @ path else path)"

definition server_closes :: "client_response \<Rightarrow> bool" where
  "server_closes res \<longleftrightarrow> header_value (rs_headers (cs_res res)) ''Connection'' = ''close'' \<or>
     rs_version (cs_res res) = ''HTTP/1.0'' \<and> cs_reason res \<noteq> ''Connection established''"

text \<open>
  \<open>follow\<close> is what a redirect does. Each use of the socket begins with a \<open>SocketStream\<close> of its own,
  whose read buffer is empty.
\<close>

definition announces :: "client_request \<Rightarrow> bool" where
  "announces q \<longleftrightarrow> header_value (cq_headers (announce q)) ''Expect'' = ''100-continue''"

definition take_ready :: "client_request \<Rightarrow> client_net \<Rightarrow> bool \<times> client_net" where
  "take_ready q net =
     (if announces q then
        (case net_ready net of [] \<Rightarrow> (False, net) | r # rs \<Rightarrow> (r, net\<lparr>net_ready := rs\<rparr>))
      else (False, net))"

definition handle_request ::
    "sender \<Rightarrow> http_client \<Rightarrow> client_net \<Rightarrow> stream \<Rightarrow> client_request \<Rightarrow> client_response \<Rightarrow> bool \<Rightarrow> http_error \<Rightarrow> outcome" where
  "handle_request follow c net s q res close err =
     (let path = rq_path (cq_req q) in
      if path = [] then refused Err_Connection c net q res
      else
        (let q1 = with_path (proxied_path c path) q; (ready, net1) = take_ready q1 net;
             x = client_exchange c close ready q1 res err (fresh_stream s);
             c1 = c\<lparr>hc_socket := Some (ex_stream x)\<rparr>; q2 = with_path path (ex_request x); res1 = ex_response x in
         if \<not> ex_ok x then refused (ex_error x) c1 net1 q2 res1
         else
           (let (c2, net2) = (if server_closes res1 then close_socket c1 net1 else (c1, net1)); st = rs_status (cs_res res1) in
            if 300 < st \<and> st < 400 \<and> hc_follow_location c then follow c2 net2 q res1 (ex_error x)
            else \<lparr>oc_ok = True, oc_error = ex_error x, oc_client = c2, oc_net = net2, oc_request = q2, oc_response = res1\<rparr>)))"

definition leave_send :: "bool \<Rightarrow> outcome \<Rightarrow> outcome" where
  "leave_send close x =
     (let (c, net) = (if close \<or> \<not> oc_ok x then close_socket (oc_client x) (oc_net x) else (oc_client x, oc_net x))
      in x\<lparr>oc_client := c, oc_net := net,
           oc_error := (if \<not> oc_ok x \<and> oc_error x = Err_Success then Err_Unknown else oc_error x)\<rparr>)"

definition send_once :: "sender \<Rightarrow> sender" where
  "send_once follow c net q res err =
     (case open_connection c net err of
        (False, err1, c1, net1) \<Rightarrow> refused err1 c1 net1 q res
      | (True, err1, c1, net1) \<Rightarrow>
          (case hc_socket c1 of
             None \<Rightarrow> refused err1 c1 net1 q res
           | Some s \<Rightarrow>
               leave_send (\<not> hc_keep_alive c)
                 (handle_request follow c1 net1 s (on_headers (fold insert_missing (hc_default_headers c)) q) res
                   (\<not> hc_keep_alive c) err1)))"

text \<open>\<open>detail::redirect\<close>: a fresh response; the request and the response change only when the new send succeeds.\<close>

definition redirected_request :: "client_request \<Rightarrow> int \<Rightarrow> string \<Rightarrow> client_request" where
  "redirected_request q status path =
     (let q1 = with_path path q; meth = rq_method (cq_req q) in
      if status = 303 \<and> meth \<noteq> ''GET'' \<and> meth \<noteq> ''HEAD''
      then q1\<lparr>cq_req := (cq_req q1)\<lparr>rq_method := ''GET'', rq_headers := [], rq_body := []\<rparr>\<rparr> else q1)"

definition detail_redirect ::
    "sender \<Rightarrow> http_client \<Rightarrow> client_net \<Rightarrow> client_request \<Rightarrow> client_response \<Rightarrow> string \<Rightarrow> string \<Rightarrow> http_error \<Rightarrow> outcome" where
  "detail_redirect send c net q res path location err =
     (let x = send c net (redirected_request q (rs_status (cs_res res)) path) new_client_response err; res1 = oc_response x in
      if oc_ok x then x\<lparr>oc_response := (if cs_location res1 = [] then res1\<lparr>cs_location := location\<rparr> else res1)\<rparr>
      else x\<lparr>oc_request := q, oc_response := res\<rparr>)"

definition setup_redirect_client :: "http_client \<Rightarrow> http_client \<Rightarrow> http_client" where
  "setup_redirect_client c client =
     (let client1 = client\<lparr>hc_keep_alive := hc_keep_alive c, hc_follow_location := True, hc_path_encode := hc_path_encode c,
            hc_decompress := hc_decompress c\<rparr> in
      if uses_proxy c then
        (let client2 = client1\<lparr>hc_proxy_host := hc_proxy_host c, hc_proxy_port := hc_proxy_port c\<rparr>;
             client3 = (if hc_proxy_user c \<noteq> []
                        then client2\<lparr>hc_proxy_user := hc_proxy_user c, hc_proxy_password := hc_proxy_password c\<rparr> else client2)
         in if hc_proxy_bearer c \<noteq> [] then client3\<lparr>hc_proxy_bearer := hc_proxy_bearer c\<rparr> else client3)
      else client1)"

definition host_specific :: "string list" where
  "host_specific = [''Host'', ''Proxy-Authorization'', ''Authorization'']"

definition create_redirect_client ::
    "sender \<Rightarrow> string \<Rightarrow> string \<Rightarrow> int \<Rightarrow> http_client \<Rightarrow> client_net \<Rightarrow> client_request \<Rightarrow> client_response \<Rightarrow> string \<Rightarrow> string \<Rightarrow>
      http_error \<Rightarrow> outcome" where
  "create_redirect_client send scheme host port c net q res path location err =
     (let q1 = on_headers (fold erase_header host_specific) q in
      if scheme = ''https'' then refused Err_SSLConnection c net q1 res
      else
        (let x = detail_redirect send (setup_redirect_client c (client_new host port)) net q1 res path location err;
             (gone, net1) = close_socket (oc_client x) (oc_net x)
         in x\<lparr>oc_client := c, oc_net := net1\<rparr>))"

text \<open>Where a location leads: scheme, host, port and path; \<open>None\<close> where it is not followed.\<close>

definition redirect_target :: "http_client \<Rightarrow> string \<Rightarrow> (string \<times> string \<times> int \<times> string) option" where
  "redirect_target c location =
     (case parse_url location of
        None \<Rightarrow> None
      | Some uc \<Rightarrow>
          if uc_scheme uc \<notin> {[], ''http'', ''https''} then None
          else
            (case (if uc_port uc \<noteq> [] then parse_port (uc_port uc)
                   else Some (if uc_scheme uc = [] then hc_port c else if uc_scheme uc = ''https'' then 443 else 80)) of
               None \<Rightarrow> None
             | Some port \<Rightarrow>
                 Some (if uc_scheme uc = [] then ''http'' else uc_scheme uc,
                       if uc_host uc = [] then hc_host c else uc_host uc, port,
                       decode_path_component (if uc_path uc = [] then ''/'' else uc_path uc) @ uc_query uc)))"

definition redirect :: "sender \<Rightarrow> sender" where
  "redirect send c net q res err =
     (let location = header_value (rs_headers (cs_res res)) ''location'' in
      if location = [] then refused err c net q res
      else case redirect_target c location of
        None \<Rightarrow> refused err c net q res
      | Some (scheme, host, port, path) \<Rightarrow>
          if scheme = ''http'' \<and> host = hc_host c \<and> port = hc_port c
          then detail_redirect send c net q res path location err
          else create_redirect_client send scheme host port c net q res path location err)"

text \<open>\<open>send\<close>, by recursion on the redirects the request may still follow.\<close>

definition redirect_max_count :: nat where
  "redirect_max_count = 20"

primrec client_send :: "nat \<Rightarrow> sender" where
  "client_send 0 = send_once (\<lambda>c net q res err. refused Err_ExceedRedirectCount c net q res)"
| "client_send (Suc n) = send_once (redirect (client_send n))"

section \<open>The interface\<close>

text \<open>A result: the response of a request that succeeded, the error, and the headers that were sent.\<close>

record client_result =
  cr_response :: "client_response option"
  cr_error :: http_error
  cr_headers :: headers

definition result_of :: "outcome \<Rightarrow> client_result \<times> http_client \<times> client_net" where
  "result_of x =
     (\<lparr>cr_response = (if oc_ok x then Some (oc_response x) else None), cr_error = oc_error x,
       cr_headers = cq_headers (oc_request x)\<rparr>, oc_client x, oc_net x)"

definition send_request :: "http_client \<Rightarrow> client_net \<Rightarrow> client_request \<Rightarrow> client_result \<times> http_client \<times> client_net" where
  "send_request c net q = result_of (client_send redirect_max_count c net q new_client_response Err_Success)"

definition plain_request :: "string \<Rightarrow> string \<Rightarrow> headers \<Rightarrow> client_request" where
  "plain_request meth path hs =
     \<lparr>cq_req = new_request\<lparr>rq_method := meth, rq_path := path, rq_headers := hs\<rparr>,
      cq_length = 0, cq_provider = None, cq_chunked = False\<rparr>"

definition client_get :: "http_client \<Rightarrow> client_net \<Rightarrow> string \<Rightarrow> headers \<Rightarrow> client_result \<times> http_client \<times> client_net" where
  "client_get c net path hs = send_request c net (plain_request ''GET'' path hs)"

definition client_get_params ::
    "http_client \<Rightarrow> client_net \<Rightarrow> string \<Rightarrow> params \<Rightarrow> headers \<Rightarrow> client_result \<times> http_client \<times> client_net" where
  "client_get_params c net path ps hs =
     (if ps = [] then client_get c net path hs else client_get c net (append_query_params path ps) hs)"

text \<open>A body as text, as a provider of a known length, or as a provider that says when it is done.\<close>

datatype upload = Upload_Text string | Upload_Sized nat "nat \<Rightarrow> nat \<Rightarrow> provider_step list" | Upload_Chunked "provider_step list"

definition upload_request :: "string \<Rightarrow> string \<Rightarrow> headers \<Rightarrow> upload \<Rightarrow> string \<Rightarrow> client_request" where
  "upload_request meth path hs up ctype =
     (let q0 = plain_request meth path hs;
          q = (if ctype \<noteq> [] then on_headers (\<lambda>hs. set_header hs ''Content-Type'' ctype) q0 else q0) in
      case up of
        Upload_Text body \<Rightarrow> q\<lparr>cq_req := (cq_req q)\<lparr>rq_body := body\<rparr>\<rparr>
      | Upload_Sized n p \<Rightarrow> q\<lparr>cq_length := n, cq_provider := Some p, cq_chunked := False\<rparr>
      | Upload_Chunked sts \<Rightarrow>
          on_headers (\<lambda>hs. set_header hs ''Transfer-Encoding'' ''chunked'')
            (q\<lparr>cq_length := 0, cq_provider := Some (\<lambda>_ _. sts), cq_chunked := True\<rparr>))"

definition client_upload ::
    "http_client \<Rightarrow> client_net \<Rightarrow> string \<Rightarrow> string \<Rightarrow> headers \<Rightarrow> upload \<Rightarrow> string \<Rightarrow> client_result \<times> http_client \<times> client_net" where
  "client_upload c net meth path hs up ctype = send_request c net (upload_request meth path hs up ctype)"

definition client_post ::
    "http_client \<Rightarrow> client_net \<Rightarrow> string \<Rightarrow> headers \<Rightarrow> string \<Rightarrow> string \<Rightarrow> client_result \<times> http_client \<times> client_net" where
  "client_post c net path hs body ctype = client_upload c net ''POST'' path hs (Upload_Text body) ctype"

definition client_put ::
    "http_client \<Rightarrow> client_net \<Rightarrow> string \<Rightarrow> headers \<Rightarrow> string \<Rightarrow> string \<Rightarrow> client_result \<times> http_client \<times> client_net" where
  "client_put c net path hs body ctype = client_upload c net ''PUT'' path hs (Upload_Text body) ctype"

definition client_patch ::
    "http_client \<Rightarrow> client_net \<Rightarrow> string \<Rightarrow> headers \<Rightarrow> string \<Rightarrow> string \<Rightarrow> client_result \<times> http_client \<times> client_net" where
  "client_patch c net path hs body ctype = client_upload c net ''PATCH'' path hs (Upload_Text body) ctype"

definition client_delete ::
    "http_client \<Rightarrow> client_net \<Rightarrow> string \<Rightarrow> headers \<Rightarrow> string \<Rightarrow> string \<Rightarrow> client_result \<times> http_client \<times> client_net" where
  "client_delete c net path hs body ctype = client_upload c net ''DELETE'' path hs (Upload_Text body) ctype"

definition client_post_params ::
    "http_client \<Rightarrow> client_net \<Rightarrow> string \<Rightarrow> headers \<Rightarrow> params \<Rightarrow> client_result \<times> http_client \<times> client_net" where
  "client_post_params c net path hs ps =
     client_post c net path hs (params_to_query_str ps) ''application/x-www-form-urlencoded''"

definition client_head :: "http_client \<Rightarrow> client_net \<Rightarrow> string \<Rightarrow> headers \<Rightarrow> client_result \<times> http_client \<times> client_net" where
  "client_head c net path hs = send_request c net (plain_request ''HEAD'' path hs)"

definition client_options :: "http_client \<Rightarrow> client_net \<Rightarrow> string \<Rightarrow> headers \<Rightarrow> client_result \<times> http_client \<times> client_net" where
  "client_options c net path hs = send_request c net (plain_request ''OPTIONS'' path hs)"

text \<open>\<open>stop\<close> while no request is on its way.\<close>

definition client_stop :: "http_client \<Rightarrow> client_net \<Rightarrow> http_client \<times> client_net" where
  "client_stop c net = close_socket c net"

end
