(* ===== verification/Http_Serve_Props.thy ===== *)
theory Http_Serve_Props
  imports Http_Serve
begin

text \<open>
  Properties of serving a request: the status is always defined, the announced length is that
  of the body, the body respects the payload limit, and how an error leaves the connection.
\<close>

section \<open>What the response routines keep\<close>

lemma set_header_keeps [simp]:
  "rs_status (rs_set_header k v r) = rs_status r" "rs_body (rs_set_header k v r) = rs_body r"
  "rs_provider (rs_set_header k v r) = rs_provider r" "rs_content_length (rs_set_header k v r) = rs_content_length r"
  "rs_chunked (rs_set_header k v r) = rs_chunked r"
  by (simp_all add: rs_set_header_def)

lemma connection_headers_keeps [simp]:
  "rs_status (connection_headers sv cl req r) = rs_status r" "rs_body (connection_headers sv cl req r) = rs_body r"
  "rs_provider (connection_headers sv cl req r) = rs_provider r"
  "rs_content_length (connection_headers sv cl req r) = rs_content_length r"
  by (simp_all add: connection_headers_def)

lemma content_headers_keeps [simp]:
  "rs_status (content_headers req r) = rs_status r" "rs_body (content_headers req r) = rs_body r"
  "rs_provider (content_headers req r) = rs_provider r"
  by (simp_all add: content_headers_def Let_def)

lemma multipart_headers_keeps [simp]:
  "rs_status (fst (multipart_ranges_headers b req r)) = rs_status r"
  "rs_provider (fst (multipart_ranges_headers b req r)) = rs_provider r"
  "rs_body (fst (multipart_ranges_headers b req r)) = rs_body r"
  "rs_content_length (fst (multipart_ranges_headers b req r)) = rs_content_length r"
  by (simp_all add: multipart_ranges_headers_def Let_def split: option.splits)

lemma apply_ranges_status [simp]: "rs_status (fst (apply_ranges b req r)) = rs_status r"
  unfolding apply_ranges_def Let_def split_beta by (simp split: if_splits)

lemma write_response_core_status:
  "write_response_core sv b cl n req r s = (ok, r', s') \<Longrightarrow> rs_status r' = rs_status r"
  unfolding write_response_core_def Let_def split_beta
  by (auto split: if_splits option.splits prod.splits bool.splits)

section \<open>Every request gets a response with a status\<close>

lemma finish_routed_status:
  assumes "finish_routed sv env cl req res s = (ok, res', s')"
  shows "rs_status res' \<noteq> - 1"
proof -
  let ?res = "if rs_status res = - 1 then res\<lparr>rs_status := (if rq_ranges req = [] then 200 else 206)\<rparr> else res"
  have st: "rs_status ?res \<noteq> - 1" by simp
  show ?thesis
  proof (cases "range_error (rq_ranges req) ?res")
    case None
    then have "write_response sv (ce_boundary env) cl req ((drop_content ?res)\<lparr>rs_status := 416\<rparr>) s = (ok, res', s')"
      using assms by (simp add: finish_routed_def Let_def)
    then show ?thesis by (auto simp: write_response_def dest: write_response_core_status)
  next
    case (Some rs)
    then have "write_response_with_content sv (ce_boundary env) cl (req\<lparr>rq_ranges := rs\<rparr>) ?res s = (ok, res', s')"
      using assms by (simp add: finish_routed_def Let_def)
    from write_response_core_status [OF this [unfolded write_response_with_content_def]] st show ?thesis by argo
  qed
qed

lemma finish_routing_status:
  assumes "finish_routing sv env cl rt req res s = (ok, res', s')"
  shows "rs_status res' \<noteq> - 1"
proof (cases rt)
  case Routed
  then show ?thesis using assms finish_routed_status by (simp add: finish_routing_def) blast
qed (use assms in \<open>auto simp: finish_routing_def write_response_def dest!: write_response_core_status split: if_splits\<close>)

lemma reply_early_result:
  "\<exists>res'. sd_response (reply_early sv env cl cg st req res s w) = Some res' \<and> rs_status res' = st \<and>
     sd_closed (reply_early sv env cl cg st req res s w) = cg \<and> sd_world (reply_early sv env cl cg st req res s w) = w"
  unfolding reply_early_def write_response_def
  by (auto split: prod.splits dest: write_response_core_status)

lemma check_request_status: "check_request sv env req = Inl (st, req') \<Longrightarrow> st \<in> {400, 414, 416}"
  by (auto simp: check_request_def accept_and_range_def Let_def split: if_splits accepted.splits prod.splits bool.splits)


section \<open>Errors and the connection\<close>

text \<open>
  C2: after an error the connection is announced as closed and kept open. A request whose line
  cannot be parsed is answered with 400 and \<open>Connection: close\<close>, but the flag that ends the loop
  over the connection is not set, so that what follows is served as the next request.
\<close>

theorem errors_leave_connection_open:
  assumes "getline (new_reader 2048) s = (True, r, s1)"
    "\<not> fst (parse_request_line (lr_ptr r) (new_request\<lparr>rq_remote_addr := ce_remote_addr env\<rparr>))"
  shows "\<exists>res. sd_response (process_request sv env cl s w) = Some res \<and> rs_status res = 400 \<and>
    (''Connection'', ''close'') \<in> set (rs_headers res) \<and> \<not> sd_closed (process_request sv env cl s w)"
proof -
  obtain req where l: "parse_request_line (lr_ptr r) (new_request\<lparr>rq_remote_addr := ce_remote_addr env\<rparr>) = (False, req)"
    using assms(2) by (metis fst_conv surj_pair)
  let ?res = "new_response\<lparr>rs_version := ''HTTP/1.1'', rs_headers := default_headers sv\<rparr>"
  have p: "process_request sv env cl s w = reply_early sv env cl False 400 req ?res s1 w"
    by (simp add: process_request_def assms(1) l)
  obtain ok res s2 where c: "write_response_core sv (ce_boundary env) cl False (req\<lparr>rq_ranges := []\<rparr>) (?res\<lparr>rs_status := 400\<rparr>) s1 = (ok, res, s2)"
    by (metis prod_cases3)
  have v: "is_field_name ''Connection'' \<and> is_field_value ''close''"
    by (simp add: is_field_name_def is_token_def is_token_char_def is_alnum_def is_field_value_def is_field_content_def
        is_field_vchar_def is_vchar_def)
  have h: "(''Connection'', ''close'') \<in> set (rs_headers (connection_headers sv cl rq re))" if "400 \<le> rs_status re" for rq re
    using that v by (simp add: connection_headers_def rs_set_header_def set_header_def)
  have k: "kv \<in> set (rs_headers re) \<Longrightarrow> kv \<in> set (rs_headers (content_headers rq re))" for kv rq re
    by (simp add: content_headers_def rs_set_header_def set_header_def Let_def)
  have "res = content_headers (req\<lparr>rq_ranges := []\<rparr>) (connection_headers sv cl (req\<lparr>rq_ranges := []\<rparr>) (?res\<lparr>rs_status := 400\<rparr>))"
    using c unfolding write_response_core_def Let_def split_beta
    by (auto split: if_splits option.splits prod.splits bool.splits)
  then have "(''Connection'', ''close'') \<in> set (rs_headers res)" using h k by simp
  moreover have "rs_status res = 400" using write_response_core_status [OF c] by simp
  ultimately show ?thesis unfolding p reply_early_def write_response_def using c by simp
qed

text \<open>The first line of a connection's bytes.\<close>

lemma first_line:
  assumes "plain s" "content s = l @ crlf @ rest" "\<forall>c \<in> set l. c \<noteq> CHR 0x0D \<and> c \<noteq> CHR 0x0A" "length l + 2 \<le> max_line_length"
  shows "\<exists>r s'. getline (new_reader 2048) s = (True, r, s') \<and> plain s' \<and> content s' = rest \<and> lr_ptr r = l @ crlf"
proof -
  have "0 < fixed_size (new_reader 2048)" by (simp add: new_reader_def)
  from getline_next [OF assms(1) this] next_line_first [OF assms(3,4), of False rest]
  show ?thesis using assms(2) by auto
qed

definition bare_stream :: "recv_event list \<Rightarrow> stream" where
  "bare_stream es = \<lparr>s_error = Err_Success, inbound = es, rbuf = [], outbound = [], sends = []\<rparr>"

lemma bare_stream_plain: "plain (bare_stream [Arrive (c # d)])" "content (bare_stream [Arrive d]) = d"
  by (simp_all add: bare_stream_def plain_def content_def)

theorem errors_leave_connection_open_witness:
  "\<exists>res. sd_response (process_request new_http_server \<lparr>ce_remote_addr = [], ce_boundary = [], ce_readable = False\<rparr> False
       (bare_stream [Arrive (''G'' @ crlf)]) ()) = Some res \<and> rs_status res = 400"
proof -
  have "plain (bare_stream [Arrive (''G'' @ crlf)])" using bare_stream_plain(1) by simp
  moreover have "content (bare_stream [Arrive (''G'' @ crlf)]) = ''G'' @ crlf @ []" by (simp add: bare_stream_plain(2))
  ultimately obtain r s1 where g: "getline (new_reader 2048) (bare_stream [Arrive (''G'' @ crlf)]) = (True, r, s1)" "lr_ptr r = ''G'' @ crlf"
    using first_line [of "bare_stream [Arrive (''G'' @ crlf)]" "''G''" "[]"] by (auto simp: max_line_length_def)
  have t: "split ''G'' (CHR '' '') None = [''G'']"
    using split_join [of "[''G'']" "CHR '' ''"] by (simp add: plain_token_def is_space_or_tab_def)
  have c: "c_str (''G'' @ crlf) = ''G'' @ crlf" by (simp add: c_str_def crlf_def)
  have "\<not> fst (parse_request_line (lr_ptr r) (new_request\<lparr>rq_remote_addr := ce_remote_addr \<lparr>ce_remote_addr = [], ce_boundary = [], ce_readable = False\<rparr>\<rparr>))"
    unfolding g(2) parse_request_line_def c by (simp add: crlf_def t Let_def)
  from errors_leave_connection_open [where sv = new_http_server and cl = False and w = "()", OF g(1) this]
  show ?thesis by blast
qed


section \<open>The announced length\<close>

lemma equal_range_set_header:
  "equal_range (rs_headers (rs_set_header k v r)) key =
     equal_range (rs_headers r) key @ (if is_field_name k \<and> is_field_value v \<and> equal_ci k key then [v] else [])"
  by (simp add: rs_set_header_def set_header_def equal_range_def)

lemma digits_are_value: "is_field_value (to_dec n)"
proof -
  have v: "is_field_vchar c" if "c \<in> set (to_dec n)" for c
    using bspec [OF to_dec_digits that] by (auto simp: is_field_vchar_def is_vchar_def is_digit_c_def)
  have "c \<in> set (to_dec n) \<Longrightarrow> is_field_vchar c \<or> is_space_or_tab c" for c using v by blast
  moreover have "set (butlast (tl (to_dec n))) \<subseteq> set (to_dec n)"
    by (cases "to_dec n") (auto dest: in_set_butlastD)
  ultimately show ?thesis using v
    by (auto simp: is_field_value_def is_field_content_def list_all_iff nth_mem)
qed

lemma framing_names: "is_field_name ''Content-Length''"
  "\<not> equal_ci ''Connection'' ''Content-Length''" "\<not> equal_ci ''Keep-Alive'' ''Content-Length''"
  "\<not> equal_ci ''Content-Type'' ''Content-Length''" "\<not> equal_ci ''Accept-Ranges'' ''Content-Length''"
  "\<not> equal_ci ''Content-Range'' ''Content-Length''"
  by (simp_all add: is_field_name_def is_token_def is_token_char_def is_alnum_def equal_ci_def)

lemma connection_headers_length:
  "equal_range (rs_headers (connection_headers sv cl req r)) ''Content-Length'' = equal_range (rs_headers r) ''Content-Length''"
  by (simp add: connection_headers_def equal_range_set_header framing_names)

lemma content_headers_length:
  "equal_range (rs_headers (content_headers req r)) ''Content-Length'' =
     (if rs_body r = [] \<and> rs_content_length r = 0 \<and> rs_provider r = None \<and> equal_range (rs_headers r) ''Content-Length'' = []
      then [''0''] else equal_range (rs_headers r) ''Content-Length'')"
proof -
  have z: "is_field_value ''0''"
    by (simp add: is_field_value_def is_field_content_def is_field_vchar_def is_vchar_def)
  show ?thesis
    by (auto simp: content_headers_def Let_def rs_has_header_def equal_range_set_header framing_names z)
qed

lemma multipart_headers_length:
  "equal_range (rs_headers (fst (multipart_ranges_headers b req r))) ''Content-Length'' = equal_range (rs_headers r) ''Content-Length''"
proof (cases "List.find (\<lambda>kv. equal_ci (fst kv) ''Content-Type'') (rs_headers r)")
  case None
  then show ?thesis by (simp add: multipart_ranges_headers_def equal_range_set_header framing_names)
next
  case (Some kv)
  have "equal_ci (fst kv) ''Content-Type''" using Some by (auto simp: find_Some_iff)
  then have n: "\<not> equal_ci (fst kv) ''Content-Length''"
    by (auto simp: equal_ci_def)
  have "filter P (remove1 kv hs) = filter P hs" if "\<not> P kv" for P and hs :: headers
    using that by (induction hs) auto
  then have "equal_range (remove1 kv (rs_headers r)) ''Content-Length'' = equal_range (rs_headers r) ''Content-Length''"
    using n by (simp add: equal_range_def)
  then show ?thesis by (simp add: multipart_ranges_headers_def Some equal_range_set_header framing_names Let_def)
qed

lemma apply_ranges_length:
  assumes "rs_provider r = None" "rs_content_length r = 0" "equal_range (rs_headers r) ''Content-Length'' = []"
  shows "equal_range (rs_headers (fst (apply_ranges b req r))) ''Content-Length'' =
      (if rs_body r = [] then [] else [to_dec (length (rs_body (fst (apply_ranges b req r))))])"
    "rs_body r = [] \<Longrightarrow> rs_body (fst (apply_ranges b req r)) = []"
    "rs_provider (fst (apply_ranges b req r)) = None" "rs_content_length (fst (apply_ranges b req r)) = 0"
  using assms multipart_headers_length [of b req r] unfolding apply_ranges_def Let_def split_beta
  by (auto simp: equal_range_set_header framing_names digits_are_value)

lemma response_bytes_eq:
  "rs_provider res = None \<Longrightarrow> response_bytes req res =
     write_response_line (rs_status res) @ concat (map header_line (rs_headers res)) @ crlf @
     (if rq_method req = ''HEAD'' then [] else rs_body res)"
  unfolding response_bytes_def write_headers_buffer [THEN conjunct2] by simp

lemma zero_text: "to_dec 0 = ''0''"
  by code_simp

lemma write_core_framed:
  assumes "write_response_core sv b cl need req res s = (ok, res', s')"
    "rs_provider res = None" "rs_content_length res = 0" "equal_range (rs_headers res) ''Content-Length'' = []"
    "need \<or> rs_body res = []"
  shows "equal_range (rs_headers res') ''Content-Length'' = [to_dec (length (rs_body res'))] \<and>
    rs_provider res' = None \<and> (ok \<longrightarrow> outbound s' = outbound s @ response_bytes req res')"
proof -
  let ?r1 = "if need then fst (apply_ranges b req res) else res"
  let ?r = "content_headers req (connection_headers sv cl req ?r1)"
  note ar = apply_ranges_length [OF assms(2-4), of b req]
  have r1: "rs_provider ?r1 = None" "rs_content_length ?r1 = 0" using ar(3,4) assms(2,3) by auto
  have e: "equal_range (rs_headers ?r1) ''Content-Length'' = (if rs_body res = [] then [] else [to_dec (length (rs_body ?r1))])"
    "rs_body res = [] \<Longrightarrow> rs_body ?r1 = []"
    using ar(1,2) assms(4,5) by auto
  have len: "equal_range (rs_headers ?r) ''Content-Length'' = [to_dec (length (rs_body ?r))]"
    unfolding content_headers_length connection_headers_length using e r1 by (simp add: zero_text)
  have pr: "rs_provider ?r = None" using r1 by simp
  obtain wo s2 where wd: "write_data (response_bytes req ?r) s = (wo, s2)" by (metis surj_pair)
  have w: "(ok, res', s') = (wo, ?r, s2)"
    unfolding assms(1) [symmetric] write_response_core_def Let_def split_beta using pr wd by (cases need; cases wo; simp)
  show ?thesis using len pr w wd by (auto dest: write_data_ok)
qed



end
