(* ===== verification/Http_Frame.thy ===== *)
theory Http_Frame
  imports Http_Serve_Props
begin

text \<open>
  Locality of the reading and writing routines: what is still to arrive does not matter to a
  routine that does not read up to the end of the stream. Bytes that arrive later can be added
  behind; the routine does the same and leaves them where they are.
\<close>

section \<open>Streams with more to come\<close>

definition more :: "recv_event list \<Rightarrow> stream \<Rightarrow> stream" where
  "more es s = s\<lparr>inbound := inbound s @ es\<rparr>"

definition ended :: "stream \<Rightarrow> bool" where
  "ended s \<longleftrightarrow> s_error s = Err_ConnectionClosed"

text \<open>
  What every routine keeps on a stream without failures: once the end has been read that stays
  recorded, and it is recorded only if nothing is left.
\<close>

definition calm :: "stream \<Rightarrow> stream \<Rightarrow> bool" where
  "calm s s' \<longleftrightarrow> (plain s \<longrightarrow> plain s' \<and> (ended s \<longrightarrow> ended s') \<and> (content s = [] \<longrightarrow> content s' = []) \<and>
     (ended s' \<longrightarrow> ended s \<or> content s' = []))"

lemma calm_refl [simp]: "calm s s"
  by (simp add: calm_def)

lemma calm_trans: "calm s t \<Longrightarrow> calm t u \<Longrightarrow> calm s u"
  by (auto simp: calm_def)

lemma calm_plain: "calm s s' \<Longrightarrow> plain s \<Longrightarrow> plain s'"
  by (simp add: calm_def)

lemma calm_open: "calm s s' \<Longrightarrow> plain s \<Longrightarrow> \<not> ended s' \<Longrightarrow> \<not> ended s"
  by (auto simp: calm_def)

lemma calm_alive: "calm s s' \<Longrightarrow> plain s \<Longrightarrow> \<not> ended s \<Longrightarrow> content s' \<noteq> [] \<Longrightarrow> \<not> ended s'"
  by (auto simp: calm_def)

lemma more_simps [simp]:
  "rbuf (more es s) = rbuf s" "outbound (more es s) = outbound s" "sends (more es s) = sends s" "s_error (more es s) = s_error s"
  "inbound (more es s) = inbound s @ es"
  by (simp_all add: more_def)

lemma more_update:
  "(more es s)\<lparr>outbound := x\<rparr> = more es (s\<lparr>outbound := x\<rparr>)" "(more es s)\<lparr>sends := k\<rparr> = more es (s\<lparr>sends := k\<rparr>)"
  "(more es s)\<lparr>rbuf := x\<rparr> = more es (s\<lparr>rbuf := x\<rparr>)" "(more es s)\<lparr>s_error := e\<rparr> = more es (s\<lparr>s_error := e\<rparr>)"
  by (simp_all add: more_def)

text \<open>
  A routine that took \<open>s\<close> to \<open>s'\<close> is local when \<open>P\<close>, that it does the same with more to come, holds
  as long as it has not read the end. Local routines one after the other are local.
\<close>

definition keeps_local :: "stream \<Rightarrow> stream \<Rightarrow> bool \<Rightarrow> bool" where
  "keeps_local s s' P \<longleftrightarrow> calm s s' \<and> (\<not> ended s' \<longrightarrow> P)"

lemma local_stay: "P \<Longrightarrow> keeps_local s s P"
  by (simp add: keeps_local_def)

lemma local_last: "keeps_local s s1 P \<Longrightarrow> s' = s1 \<Longrightarrow> (P \<Longrightarrow> R) \<Longrightarrow> keeps_local s s' R"
  by (auto simp: keeps_local_def)

lemma local_then:
  assumes "plain s" "keeps_local s s1 P" "plain s1 \<Longrightarrow> keeps_local s1 s' Q" "P \<Longrightarrow> Q \<Longrightarrow> R"
  shows "keeps_local s s' R"
  using assms calm_plain [of s s1] calm_trans [of s s1 s'] calm_open [of s1 s'] unfolding keeps_local_def by blast

section \<open>Reading\<close>

lemma recv_local:
  assumes "recv n s = (k, d, s')" "plain s" "0 < n" "rbuf s = []"
  shows "keeps_local s s' (recv n (more es s) = (k, d, more es s'))"
proof (cases "inbound s")
  case Nil
  then show ?thesis using assms by (auto simp: recv_def keeps_local_def calm_def ended_def plain_def content_def)
next
  case (Cons ev evs)
  then obtain x where x: "ev = Arrive x" "x \<noteq> []" using assms(2) by (cases ev) (auto simp: plain_def)
  then show ?thesis using assms Cons
    by (auto simp: recv_def keeps_local_def calm_def ended_def plain_def content_def more_def split: if_splits)
qed

lemma recv_alive:
  assumes "recv n s = (k, d, s')" "plain s" "0 < n" "d \<noteq> []"
  shows "s_error s' = s_error s"
  using assms by (auto simp: recv_def plain_def split: list.splits recv_event.splits if_splits)

lemma sock_read_local:
  assumes "sock_read n s = (k, d, s')" "plain s"
  shows "keeps_local s s' (sock_read n (more es s) = (k, d, more es s'))"
proof (cases "rbuf s = []")
  case False
  then show ?thesis using assms by (auto simp: sock_read_def more_update keeps_local_def calm_def ended_def content_def split: if_splits)
next
  case e: True
  show ?thesis
  proof (cases "n < read_buff_size")
    case False
    then show ?thesis using assms e recv_local [of n s k d s' es] by (simp add: sock_read_def read_buff_size_def)
  next
    case True
    obtain k1 d1 s1 where r: "recv read_buff_size s = (k1, d1, s1)" by (metis prod_cases3)
    have s': "s' = s1 \<or> s' = s1\<lparr>rbuf := drop n d1\<rparr>" using assms(1) e True r by (auto simp: sock_read_def split: if_splits)
    note l = recv_local [OF r assms(2) read_buff_size_pos e, of es]
      and p = recv_plain [OF assms(2) read_buff_size_pos r e] and alive = recv_alive [OF r assms(2) read_buff_size_pos]
    have c: "calm s s'" "ended s' \<longleftrightarrow> ended s1"
    proof -
      show "ended s' \<longleftrightarrow> ended s1" using s' by (auto simp: ended_def)
      show "calm s s'"
      proof (cases "d1 = []")
        case True
        have "k1 = int (length d1)" using p by blast
        then have "s' = s1" using assms(1) e \<open>n < read_buff_size\<close> r True by (simp add: sock_read_def)
        then show ?thesis using l by (simp add: keeps_local_def)
      next
        case False
        have "plain s'" using s' conjunct1 [OF p] by (elim disjE) simp_all
        moreover have "s_error s' = s_error s" using s' alive [OF False] by (elim disjE) simp_all
        moreover have "content s \<noteq> []" using p False by blast
        ultimately show ?thesis by (simp add: calm_def ended_def)
      qed
    qed
    have "sock_read n (more es s) = (k, d, more es s')" if "recv read_buff_size (more es s) = (k1, d1, more es s1)"
      using assms(1) e True r that by (auto simp: sock_read_def more_update split: if_splits)
    then show ?thesis using l c by (simp add: keeps_local_def)
  qed
qed

lemma getline_loop_local:
  "getline_loop i p r s = (ok, r', s') \<Longrightarrow> plain s \<Longrightarrow>
     keeps_local s s' (getline_loop i p r (more es s) = (ok, r', more es s'))"
proof (induction i p r s rule: getline_loop.induct)
  case (1 i p r s)
  note step = getline_loop.simps [of i p r s] and step' = getline_loop.simps [of i p r "more es s"]
  show ?case
  proof (cases "max_line_length \<le> lr_size r")
    case True
    then show ?thesis using "1.prems" unfolding step step' by (simp add: local_stay)
  next
    case False
    obtain n d s1 where r: "sock_read 1 s = (n, d, s1)" by (metis prod_cases3)
    note l = sock_read_local [OF r "1.prems"(2), of es]
    show ?thesis
    proof (cases "n \<le> 0 \<or> p = CHR 0x0D \<and> hd d = CHR 0x0A")
      case True
      then have "s' = s1" using "1.prems"(1) False r unfolding step by (auto simp: Let_def split: if_splits)
      from local_last [OF l this] show ?thesis
        using "1.prems"(1) False r True unfolding step step' by (auto simp: Let_def split: if_splits)
    next
      case go: False
      then have g: "getline_loop (i + 1) (hd d) (lr_append (hd d) r) s1 = (ok, r', s')"
        using "1.prems"(1) False r unfolding step by (auto simp: Let_def)
      show ?thesis
      proof (rule local_then [OF "1.prems"(2) l])
        show "plain s1 \<Longrightarrow> keeps_local s1 s' (getline_loop (i + 1) (hd d) (lr_append (hd d) r) (more es s1) = (ok, r', more es s'))"
          using "1.IH" [OF False refl, of n "(d, s1)" d s1 "hd d" "lr_append (hd d) r"] r go g by auto
      qed (use False go in \<open>auto simp: step' Let_def\<close>)
    qed
  qed
qed

lemma getline_local:
  assumes "getline r s = (ok, r', s')" "plain s"
  shows "keeps_local s s' (getline r (more es s) = (ok, r', more es s'))"
  using getline_loop_local [of 0 "CHR 0x00" "r\<lparr>fixed_used := [], growable := []\<rparr>" s ok r' s' es] assms by (simp add: getline_def)

lemma read_headers_loop_local:
  "read_headers_loop cnt r hs s = (ok, hs', s') \<Longrightarrow> plain s \<Longrightarrow>
     keeps_local s s' (read_headers_loop cnt r hs (more es s) = (ok, hs', more es s'))"
proof (induction cnt r hs s rule: read_headers_loop.induct)
  case (1 cnt r hs s)
  obtain gk r1 s1 where g: "getline r s = (gk, r1, s1)" by (metis prod_cases3)
  note l = getline_local [OF g "1.prems"(2), of es]
  note step = read_headers_loop.simps [of cnt r hs s] and step' = read_headers_loop.simps [of cnt r hs "more es s"]
  show ?case
  proof (cases "gk \<and> \<not> end_with_crlf r1")
    case True
    then have n: "read_headers_loop cnt r1 hs s1 = (ok, hs', s')" using "1.prems"(1) g by (simp add: step)
    show ?thesis
    proof (rule local_then [OF "1.prems"(2) l])
      show "plain s1 \<Longrightarrow> keeps_local s1 s' (read_headers_loop cnt r1 hs (more es s1) = (ok, hs', more es s'))"
        using "1.IH"(1) [OF g [symmetric]] True n by simp
    qed (use True in \<open>simp add: step'\<close>)
  next
    case F1: False
    show ?thesis
    proof (cases "gk \<and> lr_size r1 \<noteq> 2 \<and> \<not> header_max_length < lr_size r1 \<and> \<not> header_max_count \<le> cnt \<and>
        parse_header (take (lr_size r1 - 2) (lr_ptr r1)) \<noteq> None")
      case True
      then obtain kv where kv: "parse_header (take (lr_size r1 - 2) (lr_ptr r1)) = Some kv" by blast
      have n: "read_headers_loop (cnt + 1) r1 (hs @ [kv]) s1 = (ok, hs', s')"
        using "1.prems"(1) g F1 True kv by (simp add: step)
      show ?thesis
      proof (rule local_then [OF "1.prems"(2) l])
        show "plain s1 \<Longrightarrow> keeps_local s1 s' (read_headers_loop (cnt + 1) r1 (hs @ [kv]) (more es s1) = (ok, hs', more es s'))"
          using "1.IH"(2) [OF g [symmetric]] F1 True kv n by simp
      qed (use F1 True kv in \<open>simp add: step'\<close>)
    next
      case F2: False
      then have "s' = s1" using "1.prems"(1) g F1 by (auto simp: step split: if_splits bool.splits option.splits)
      from local_last [OF l this] show ?thesis
        using "1.prems"(1) g F1 F2 by (auto simp: step step' split: if_splits bool.splits option.splits)
    qed
  qed
qed

lemma read_headers_local:
  assumes "read_headers hs s = (ok, hs', s')" "plain s"
  shows "keeps_local s s' (read_headers hs (more es s) = (ok, hs', more es s'))"
proof -
  obtain lk h s1 where r: "read_headers_loop 0 (new_reader 2048) hs s = (lk, h, s1)" by (metis prod_cases3)
  then have e: "s' = s1" using assms(1) by (auto simp: read_headers_def split: bool.splits)
  show ?thesis
    by (rule local_last [OF read_headers_loop_local [where es = es, OF r assms(2)] e])
      (use assms(1) r in \<open>auto simp: read_headers_def split: bool.splits\<close>)
qed

lemma trailer_loop_local:
  "trailer_loop decl cnt r dest s = (ok, dest', s') \<Longrightarrow> plain s \<Longrightarrow>
     keeps_local s s' (trailer_loop decl cnt r dest (more es s) = (ok, dest', more es s'))"
proof (induction decl cnt r dest s rule: trailer_loop.induct)
  case (1 decl cnt r dest s)
  note step = trailer_loop.simps [of decl cnt r dest s] and step' = trailer_loop.simps [of decl cnt r dest "more es s"]
  show ?case
  proof (cases "c_str (lr_ptr r) = crlf \<or> header_max_length < lr_size r \<or> header_max_count \<le> cnt \<or>
      parse_header (take (lr_size r - 2) (lr_ptr r)) = None")
    case True
    then have "s' = s \<and> trailer_loop decl cnt r dest (more es s) = (ok, dest', more es s')"
      using "1.prems"(1) unfolding step step' by (auto split: if_splits)
    then show ?thesis by (simp add: local_stay)
  next
    case False
    then obtain key val where kv: "parse_header (take (lr_size r - 2) (lr_ptr r)) = Some (key, val)" by auto
    obtain gk r1 s1 where g: "getline r s = (gk, r1, s1)" by (metis prod_cases3)
    note l = getline_local [OF g "1.prems"(2), of es]
    let ?keep = "in_ci key decl"
    let ?dest = "if ?keep then dest @ [(key, val)] else dest"
    show ?thesis
    proof (cases gk)
      case gf: False
      then have "s' = s1" using "1.prems"(1) False kv g unfolding step by (auto simp: Let_def)
      from local_last [OF l this] show ?thesis using "1.prems"(1) False kv g gf unfolding step step' by (auto simp: Let_def)
    next
      case True
      have n: "trailer_loop decl (if ?keep then cnt + 1 else cnt) r1 ?dest s1 = (ok, dest', s')"
        using "1.prems"(1) False kv g True unfolding step by (auto simp: Let_def)
      have nt: "c_str (lr_ptr r) \<noteq> crlf" "\<not> header_max_length < lr_size r" "\<not> header_max_count \<le> cnt" using False by simp_all
      have g1: "getline r s = (True, r1, s1)" using g True by simp
      show ?thesis
      proof (rule local_then [OF "1.prems"(2) l])
        show "plain s1 \<Longrightarrow> keeps_local s1 s'
            (trailer_loop decl (if ?keep then cnt + 1 else cnt) r1 ?dest (more es s1) = (ok, dest', more es s'))"
          by (rule "1.IH" [OF nt kv refl refl refl g1 [symmetric] refl refl n])
      qed (use True False kv in \<open>auto simp: step' Let_def\<close>)
    qed
  qed
qed

lemma parse_trailers_into_local:
  assumes "parse_trailers_into dest src s = (ok, dest', s')" "plain s"
  shows "keeps_local s s' (parse_trailers_into dest src (more es s) = (ok, dest', more es s'))"
proof -
  obtain gk r1 s1 where g: "getline (new_reader 64) s = (gk, r1, s1)" by (metis prod_cases3)
  note l = getline_local [OF g assms(2), of es]
  show ?thesis
  proof (cases gk)
    case False
    then have "s' = s1" using assms(1) g by (simp add: parse_trailers_into_def)
    from local_last [OF l this] show ?thesis using assms(1) g False by (simp add: parse_trailers_into_def)
  next
    case True
    then have t: "trailer_loop (declared_trailers src) 0 r1 dest s1 = (ok, dest', s')"
      using assms(1) g by (simp add: parse_trailers_into_def parse_trailers_def)
    show ?thesis by (rule local_then [OF assms(2) l trailer_loop_local [OF t]])
        (use True in \<open>simp_all add: parse_trailers_into_def parse_trailers_def\<close>)
  qed
qed

section \<open>Bodies\<close>

lemma next_chunk_local:
  assumes "next_chunk dec s = (x, s')" "plain s"
  shows "keeps_local s s' (next_chunk dec (more es s) = (x, more es s'))"
proof -
  obtain gk r1 s1 where g: "getline (new_reader 64) s = (gk, r1, s1)" by (metis prod_cases3)
  have e: "s' = s1" using assms(1) g by (auto simp: next_chunk_def split: bool.splits option.splits nat.splits)
  show ?thesis
    by (rule local_last [OF getline_local [where es = es, OF g assms(2)] e])
      (use assms(1) g in \<open>auto simp: next_chunk_def split: bool.splits option.splits nat.splits\<close>)
qed

lemma chunk_data_local:
  assumes "chunk_data len dec s = (n, d, off, tot, dec', s')" "plain s"
  shows "keeps_local s s' (chunk_data len dec (more es s) = (n, d, off, tot, dec', more es s'))"
proof -
  let ?n = "min (chunk_remaining dec) len"
  obtain k x s1 where r: "sock_read ?n s = (k, x, s1)" by (metis prod_cases3)
  note l = sock_read_local [where es = es, OF r assms(2)]
  show ?thesis
  proof (cases "k \<le> 0 \<or> chunk_remaining dec - nat k \<noteq> 0")
    case True
    then have e: "s' = s1" using assms(1) r by (auto simp: chunk_data_def Let_def split: if_splits)
    show ?thesis by (rule local_last [OF l e]) (use assms(1) r True in \<open>auto simp: chunk_data_def Let_def split: if_splits\<close>)
  next
    case False
    obtain gk r1 s2 where g: "getline (new_reader 64) s1 = (gk, r1, s2)" by (metis prod_cases3)
    have e: "s' = s2" using assms(1) r g False by (auto simp: chunk_data_def Let_def split: if_splits bool.splits)
    show ?thesis
      by (rule local_then [OF assms(2) l getline_local [where es = es, OF g, folded e]])
        (use assms(1) r g False in \<open>auto simp: chunk_data_def Let_def e split: if_splits bool.splits\<close>)
  qed
qed

lemma read_payload_local:
  assumes "read_payload len dec s = (n, d, off, tot, dec', s')" "plain s"
  shows "keeps_local s s' (read_payload len dec (more es s) = (n, d, off, tot, dec', more es s'))"
proof (cases "dec_finished dec \<or> chunk_remaining dec \<noteq> 0")
  case True
  then show ?thesis using assms chunk_data_local [of len dec s n d off tot dec' s' es]
    by (auto simp: read_payload_def local_stay)
next
  case False
  obtain x s1 where c: "next_chunk dec s = (x, s1)" by (metis surj_pair)
  note l = next_chunk_local [where es = es, OF c assms(2)]
  show ?thesis
  proof (cases "x = None \<or> dec_finished (the x)")
    case True
    then have e: "s' = s1" using assms(1) False c by (auto simp: read_payload_def split: option.splits)
    show ?thesis by (rule local_last [OF l e]) (use assms(1) False c True in \<open>auto simp: read_payload_def split: option.splits\<close>)
  next
    case go: False
    then obtain dec1 where x: "x = Some dec1" "\<not> dec_finished dec1" by auto
    then have n: "chunk_data len dec1 s1 = (n, d, off, tot, dec', s')" using assms(1) False c by (simp add: read_payload_def)
    show ?thesis by (rule local_then [OF assms(2) l chunk_data_local [where es = es, OF n]])
        (use False x in \<open>simp_all add: read_payload_def\<close>)
  qed
qed

lemma body_read_local:
  assumes "body_read len br s = (n, d, br', s')" "plain s"
  shows "keeps_local s s' (body_read len br (more es s) = (n, d, br', more es s'))"
proof (cases "\<not> br_has_stream br \<or> br_eof br \<or> (\<not> br_chunked br \<and> has_content_length br \<and> content_length br \<le> bytes_read br)")
  case True
  then show ?thesis using assms by (auto simp: body_read_def local_stay split: if_splits)
next
  case False
  show ?thesis
  proof (cases "br_chunked br")
    case True
    obtain k x off tot dec s1 where r: "read_payload len (br_decoder br) s = (k, x, off, tot, dec, s1)" by (metis prod_cases6)
    have e: "s' = s1" using assms(1) False True r by (auto simp: body_read_def Let_def split: if_splits)
    show ?thesis by (rule local_last [OF read_payload_local [where es = es, OF r assms(2)] e])
        (use assms(1) False True r in \<open>auto simp: body_read_def Let_def stream_error_def e split: if_splits\<close>)
  next
    case nc: False
    let ?n = "if has_content_length br then min len (content_length br - bytes_read br) else len"
    obtain k x s1 where r: "sock_read ?n s = (k, x, s1)" by (metis prod_cases3)
    have e: "s' = s1" using assms(1) False nc r by (auto simp: body_read_def Let_def split: if_splits)
    show ?thesis by (rule local_last [OF sock_read_local [where es = es, OF r assms(2)] e])
        (use assms(1) False nc r in \<open>auto simp: body_read_def Let_def stream_error_def e split: if_splits\<close>)
  qed
qed

lemma with_length_local:
  "with_length_loop len pr out r br a s = (rc, a', s') \<Longrightarrow> plain s \<Longrightarrow>
     keeps_local s s' (with_length_loop len pr out r br a (more es s) = (rc, a', more es s'))"
proof (induction len pr out r br a s rule: with_length_loop.induct)
  case (1 len pr out r br a s)
  note step = with_length_loop.simps [of len pr out r br a s] and step' = with_length_loop.simps [of len pr out r br a "more es s"]
  show ?case
  proof (cases "r < len")
    case False
    then show ?thesis using "1.prems" unfolding step step' by (simp add: local_stay)
  next
    case len: True
    obtain n d br' s1 where b: "body_read (min (len - r) recv_bufsiz) br s = (n, d, br', s1)" by (metis prod_cases4)
    obtain ok a1 where o: "out d r len a = (ok, a1)" by (metis surj_pair)
    note l = body_read_local [where es = es, OF b "1.prems"(2)]
    show ?thesis
    proof (cases "\<not> n \<le> 0 \<and> ok \<and> (case pr of None \<Rightarrow> True | Some p \<Rightarrow> p (r + nat n) len)")
      case True
      then have t: "\<not> n \<le> 0" ok "case pr of None \<Rightarrow> True | Some p \<Rightarrow> p (r + nat n) len" by auto
      have o1: "out d r len a = (True, a1)" using o t(2) by simp
      have nx: "with_length_loop len pr out (r + nat n) br' a1 s1 = (rc, a', s')"
        using "1.prems"(1) len b o t by (simp add: step)
      have ih: "plain s1 \<Longrightarrow> keeps_local s1 s' (with_length_loop len pr out (r + nat n) br' a1 (more es s1) = (rc, a', more es s'))"
        by (rule "1.IH" [OF len b [symmetric] refl refl t(1) o1 [symmetric] refl t(3) nx])
      show ?thesis by (rule local_then [OF "1.prems"(2) l ih]) (use len o t in \<open>simp_all add: step'\<close>)
    next
      case False
      then have e: "s' = s1" using "1.prems"(1) len b o by (auto simp: step split: if_splits bool.splits)
      show ?thesis by (rule local_last [OF l e]) (use "1.prems"(1) len b o False in \<open>auto simp: step step' split: if_splits bool.splits\<close>)
    qed
  qed
qed

lemma without_length_local:
  "without_length_loop m out r a s = (rc, a', s') \<Longrightarrow> plain s \<Longrightarrow>
     keeps_local s s' (without_length_loop m out r a (more es s) = (rc, a', more es s'))"
proof (induction m out r a s rule: without_length_loop.induct)
  case (1 m out r a s)
  note step = without_length_loop.simps [of m out r a s] and step' = without_length_loop.simps [of m out r a "more es s"]
  obtain n d s1 where b: "sock_read recv_bufsiz s = (n, d, s1)" by (metis prod_cases3)
  obtain ok a1 where o: "out d r 0 a = (ok, a1)" by (metis surj_pair)
  note l = sock_read_local [where es = es, OF b "1.prems"(2)]
  show ?case
  proof (cases "n \<noteq> 0 \<and> \<not> n < 0 \<and> \<not> (m < r \<or> m - r < nat n) \<and> ok")
    case True
    then have t: "n \<noteq> 0" "\<not> n < 0" "\<not> (m < r \<or> m - r < nat n)" ok by auto
    have o1: "out d r 0 a = (True, a1)" using o t(4) by simp
    have nx: "without_length_loop m out (r + nat n) a1 s1 = (rc, a', s')" using "1.prems"(1) b o t by (simp add: step)
    have ih: "plain s1 \<Longrightarrow> keeps_local s1 s' (without_length_loop m out (r + nat n) a1 (more es s1) = (rc, a', more es s'))"
      by (rule "1.IH" [OF b [symmetric] refl t(1-3) o1 [symmetric] refl nx])
    show ?thesis by (rule local_then [OF "1.prems"(2) l ih]) (use o t in \<open>simp_all add: step'\<close>)
  next
    case False
    then have e: "s' = s1" using "1.prems"(1) b o by (auto simp: step split: if_splits bool.splits)
    show ?thesis by (rule local_last [OF l e]) (use "1.prems"(1) b o False in \<open>auto simp: step step' split: if_splits bool.splits\<close>)
  qed
qed

lemma chunked_local:
  "chunked_loop m out got dec a s = (rc, a', s') \<Longrightarrow> plain s \<Longrightarrow>
     keeps_local s s' (chunked_loop m out got dec a (more es s) = (rc, a', more es s'))"
proof (induction m out got dec a s rule: chunked_loop.induct)
  case (1 m out got dec a s)
  note step = chunked_loop.simps [of m out got dec a s] and step' = chunked_loop.simps [of m out got dec a "more es s"]
  obtain n d off tot dec' s1 where b: "read_payload recv_bufsiz dec s = (n, d, off, tot, dec', s1)" by (metis prod_cases6)
  obtain ok a1 where o: "out d off tot a = (ok, a1)" by (metis surj_pair)
  note l = read_payload_local [where es = es, OF b "1.prems"(2)]
  show ?case
  proof (cases "\<not> n < 0 \<and> n \<noteq> 0 \<and> \<not> (m < got \<or> m - got < nat n) \<and> ok")
    case True
    then have t: "\<not> n < 0" "n \<noteq> 0" "\<not> (m < got \<or> m - got < nat n)" ok by auto
    have o1: "out d off tot a = (True, a1)" using o t(4) by simp
    have nx: "chunked_loop m out (got + nat n) dec' a1 s1 = (rc, a', s')" using "1.prems"(1) b o t by (simp add: step)
    have ih: "plain s1 \<Longrightarrow> keeps_local s1 s' (chunked_loop m out (got + nat n) dec' a1 (more es s1) = (rc, a', more es s'))"
      by (rule "1.IH" [OF b [symmetric] refl refl refl refl t(1-3) o1 [symmetric] refl nx])
    show ?thesis by (rule local_then [OF "1.prems"(2) l ih]) (use o t in \<open>simp_all add: step'\<close>)
  next
    case False
    then have e: "s' = s1" using "1.prems"(1) b o by (auto simp: step split: if_splits bool.splits)
    show ?thesis by (rule local_last [OF l e]) (use "1.prems"(1) b o False in \<open>auto simp: step step' split: if_splits bool.splits\<close>)
  qed
qed

lemma chunked_content_local:
  assumes "read_content_chunked hs tr m out a s = (rc, tr', a', s')" "plain s"
  shows "keeps_local s s' (read_content_chunked hs tr m out a (more es s) = (rc, tr', a', more es s'))"
proof -
  obtain rc1 a1 s1 where c: "chunked_loop m out 0 new_decoder a s = (rc1, a1, s1)" by (metis prod_cases3)
  note l = chunked_local [where es = es, OF c assms(2)]
  show ?thesis
  proof (cases "rc1 = Rc_Success")
    case True
    obtain ok tr1 s2 where t: "parse_trailers_into tr hs s1 = (ok, tr1, s2)" by (metis prod_cases3)
    have e: "s' = s2" using assms(1) c True t by (simp add: read_content_chunked_def)
    show ?thesis by (rule local_then [OF assms(2) l parse_trailers_into_local [where es = es, OF t, folded e]])
        (use assms(1) c True t e in \<open>simp_all add: read_content_chunked_def\<close>)
  next
    case False
    then have e: "s' = s1" using assms(1) c by (cases rc1) (simp_all add: read_content_chunked_def)
    show ?thesis by (rule local_last [OF l e]) (use assms(1) c False in \<open>cases rc1; simp add: read_content_chunked_def\<close>)
  qed
qed

lemma read_content_local:
  assumes "read_content hs tr m pr out dc a s = (v, tr', a', s')" "plain s"
  shows "keeps_local s s' (read_content hs tr m pr out dc a (more es s) = (v, tr', a', more es s'))"
proof (cases "prepare_content_receiver hs dc \<noteq> None")
  case True
  then show ?thesis using assms by (simp add: read_content_def local_stay)
next
  case pr: False
  show ?thesis
  proof (cases "is_chunked_transfer_encoding hs")
    case True
    obtain rc t1 a1 s1 where c: "read_content_chunked hs tr m out a s = (rc, t1, a1, s1)" by (metis prod_cases4)
    have e: "s' = s1" using assms(1) pr True c by (simp add: read_content_def)
    show ?thesis by (rule local_last [OF chunked_content_local [where es = es, OF c assms(2)] e])
        (use assms(1) pr True c in \<open>simp add: read_content_def\<close>)
  next
    case nc: False
    show ?thesis
    proof (cases "has_header hs ''Content-Length''")
      case False
      obtain rc a1 s1 where c: "without_length_loop m out 0 a s = (rc, a1, s1)" by (metis prod_cases3)
      have e: "s' = s1" using assms(1) pr nc False c by (simp add: read_content_def read_content_without_length_def)
      show ?thesis by (rule local_last [OF without_length_local [where es = es, OF c assms(2)] e])
          (use assms(1) pr nc False c in \<open>simp add: read_content_def read_content_without_length_def\<close>)
    next
      case cl: True
      obtain len bad where g: "get_header_value_u64 hs ''Content-Length'' size_max 0 = (len, bad)" by (metis surj_pair)
      show ?thesis
      proof (cases "bad \<or> len = 0")
        case True
        then show ?thesis using assms pr nc cl g by (auto simp: read_content_def local_stay split: if_splits)
      next
        case False
        obtain rc a1 s1 where c: "read_content_with_length len pr out m a s = (rc, a1, s1)" by (metis prod_cases3)
        have e: "s' = s1" using assms(1) pr nc cl g False c by (simp add: read_content_def)
        show ?thesis
          by (rule local_last [OF with_length_local [where es = es, OF c [unfolded read_content_with_length_def] assms(2)] e])
            (use assms(1) pr nc cl g False c in \<open>simp add: read_content_def read_content_with_length_def\<close>)
      qed
    qed
  qed
qed

text \<open>The part of \<open>read_content_core\<close> behind the choice of the receiver.\<close>

lemma read_content_core_local:
  assumes "read_content_core m rd req cs0 s = (ok, st, req', cs', s')" "plain s"
  shows "keeps_local s s' (read_content_core m rd req cs0 (more es s) = (ok, st, req', cs', more es s'))"
proof -
  let ?bd = "parse_multipart_boundary (rq_header req ''Content-Type'')"
  obtain out where out: "out = (if is_multipart_form_data req then form_receiver else body_receiver m)" by simp
  obtain cs where cs: "cs = (case ?bd of Some b \<Rightarrow> cs0\<lparr>cs_parser := new_form_parser b\<rparr> | None \<Rightarrow> cs0)" by simp
  note d = read_content_core_def Let_def
  let ?framed = "rq_has_header req ''Content-Length'' \<or> is_chunked_transfer_encoding (rq_headers req)"
  let ?open = "\<not> is_connection_persistent req \<and> 0 < m \<and> m < size_max \<and> (rbuf s \<noteq> [] \<or> rd)"
  show ?thesis
  proof (cases "is_multipart_form_data req \<and> ?bd = None \<or> \<not> ?framed \<and> \<not> ?open")
    case True
    then have "(s' = s) \<and> read_content_core m rd req cs0 (more es s) = (ok, st, req', cs', more es s')"
      using assms(1) unfolding d out [symmetric] cs [symmetric] by (auto split: if_splits)
    then show ?thesis by (simp add: local_stay)
  next
    case F: False
    show ?thesis
    proof (cases ?framed)
      case False
      obtain rc a1 s1 where c: "read_content_without_length m out cs s = (rc, a1, s1)" by (metis prod_cases3)
      have e: "s' = s1" using assms(1) F False c unfolding d out [symmetric] cs [symmetric]
        by (cases rc) (auto split: if_splits)
      show ?thesis
        by (rule local_last [OF without_length_local [where es = es, OF c [unfolded read_content_without_length_def] assms(2)] e])
          (use assms(1) F False c in \<open>unfold d out [symmetric] cs [symmetric];
            cases rc; auto simp: read_content_without_length_def split: if_splits\<close>)
    next
      case True
      obtain v t1 a1 s1 where c: "read_content (rq_headers req) (rq_trailers req) m None out True cs s = (v, t1, a1, s1)"
        by (metis prod_cases4)
      obtain k q where v: "v = (k, q)" by (cases v)
      have e: "s' = s1" using assms(1) F True c v unfolding d out [symmetric] cs [symmetric] by (auto split: if_splits)
      show ?thesis
        by (rule local_last [OF read_content_local [where es = es, OF c assms(2)] e])
          (use assms(1) F True c v in \<open>unfold d out [symmetric] cs [symmetric]; auto split: if_splits\<close>)
    qed
  qed
qed

lemma server_read_content_local:
  assumes "server_read_content m rd req res s = (ok, req', res', s')" "plain s"
  shows "keeps_local s s' (server_read_content m rd req res (more es s) = (ok, req', res', more es s'))"
proof -
  let ?cs0 = "\<lparr>cs_body = rq_body req, cs_parser = new_form_parser [], cs_form = (rq_form req, False, 0)\<rparr>"
  obtain ok1 st req1 cs s1 where c: "read_content_core m rd req ?cs0 s = (ok1, st, req1, cs, s1)" by (metis prod_cases5)
  have e: "s' = s1" using assms(1) c by (auto simp: server_read_content_def Let_def split: if_splits)
  show ?thesis by (rule local_last [OF read_content_core_local [where es = es, OF c assms(2)] e])
      (use assms(1) c e in \<open>auto simp: server_read_content_def Let_def split: if_splits\<close>)
qed

section \<open>Writing\<close>

text \<open>Nothing of what is read matters to a routine that writes.\<close>

definition unread :: "stream \<Rightarrow> stream \<Rightarrow> bool" where
  "unread s s' \<longleftrightarrow> inbound s' = inbound s \<and> rbuf s' = rbuf s \<and> s_error s' = s_error s"

lemma unread_refl [simp]: "unread s s"
  by (simp add: unread_def)

lemma unread_trans: "unread s t \<Longrightarrow> unread t u \<Longrightarrow> unread s u"
  by (simp add: unread_def)

lemma unread_local: "unread s s' \<Longrightarrow> P \<Longrightarrow> keeps_local s s' P"
  by (simp add: unread_def keeps_local_def calm_def plain_def ended_def content_def)

definition only_writes :: "(stream \<Rightarrow> 'a \<times> stream) \<Rightarrow> bool" where
  "only_writes f \<longleftrightarrow> (\<forall>s es. unread s (snd (f s)) \<and> f (more es s) = (fst (f s), more es (snd (f s))))"

lemma only_writesD:
  assumes "only_writes f" "f s = (x, s')"
  shows "unread s s'" "f (more es s) = (x, more es s')"
  using assms by (auto simp: only_writes_def dest!: spec [of _ s])

lemma only_writesI:
  "(\<And>s x s'. f s = (x, s') \<Longrightarrow> unread s s' \<and> (\<forall>es. f (more es s) = (x, more es s'))) \<Longrightarrow> only_writes f"
  unfolding only_writes_def by (metis prod.collapse)

lemma only_writes_then:
  assumes "only_writes f" "\<And>x. only_writes (g x)"
  shows "only_writes (\<lambda>s. case f s of (x, s') \<Rightarrow> g x s')"
proof (rule only_writesI)
  fix s y s'
  assume h: "(case f s of (x, s') \<Rightarrow> g x s') = (y, s')"
  obtain x s1 where f: "f s = (x, s1)" by (metis surj_pair)
  note d = only_writesD [OF assms(1) f] and e = only_writesD [OF assms(2), of x s1 y s']
  show "unread s s' \<and> (\<forall>es. (case f (more es s) of (x, s') \<Rightarrow> g x s') = (y, more es s'))"
    using h f d e unread_trans by auto
qed

lemma only_writes_done: "only_writes (\<lambda>s. (x, s))"
  by (simp add: only_writes_def)

lemma only_writes_if: "(b \<Longrightarrow> only_writes f) \<Longrightarrow> (\<not> b \<Longrightarrow> only_writes g) \<Longrightarrow> only_writes (\<lambda>s. if b then f s else g s)"
  by (cases b) simp_all

lemma sock_write_only: "only_writes (sock_write d)"
  by (rule only_writesI) (auto simp: sock_write_def Let_def unread_def more_update split: list.splits if_splits)

lemma write_data_only: "only_writes (write_data d)"
proof (rule only_writesI)
  show "write_data d s = (x, s') \<Longrightarrow> unread s s' \<and> (\<forall>es. write_data d (more es s) = (x, more es s'))" for s x s'
  proof (induction d s rule: write_data.induct)
    case (1 d s)
    obtain k s1 where w: "sock_write d s = (k, s1)" by (metis surj_pair)
    note o = only_writesD [OF sock_write_only w]
    show ?case
    proof (cases "d = [] \<or> k < 0")
      case True
      then show ?thesis using "1.prems" w o by (cases "d = []") (auto simp: write_data.simps [of d] write_data.simps [of "[]"])
    next
      case False
      then have n: "write_data (drop (nat k) d) s1 = (x, s')" using "1.prems" w by (simp add: write_data.simps [of d])
      have "unread s1 s' \<and> (\<forall>es. write_data (drop (nat k) d) (more es s1) = (x, more es s'))"
        using "1.IH" [OF _ w [symmetric] refl _ n] False by simp
      then show ?thesis using o False unread_trans by (auto simp: write_data.simps [of d])
    qed
  qed
qed

text \<open>The sinks. A call takes and gives the sink and the stream.\<close>

lemma only_writes_fold:
  assumes "\<And>c k. only_writes (\<lambda>s. f c (k, s))"
  shows "only_writes (\<lambda>s. fold f cs (k, s))"
proof (induction cs arbitrary: k)
  case Nil
  then show ?case by (simp add: only_writes_done)
next
  case (Cons c cs)
  have "only_writes (\<lambda>s. case f c (k, s) of (k', s') \<Rightarrow> fold f cs (k', s'))"
    by (rule only_writes_then [OF assms Cons.IH])
  then show ?case by (simp add: only_writes_def split_beta)
qed

lemma write_lines_only: "only_writes (write_lines ls ok)"
proof (induction ls arbitrary: ok)
  case Nil
  have "write_lines [] ok = Pair ok" by (simp add: fun_eq_iff)
  then show ?case using only_writes_done by simp
next
  case (Cons l ls)
  have "write_lines (l # ls) ok = (\<lambda>s. case write_data l s of (w, s') \<Rightarrow> write_lines ls (ok \<and> w) s')" by (simp add: fun_eq_iff)
  then show ?case using only_writes_then [OF write_data_only Cons.IH] by simp
qed

lemma chunked_call_only: "only_writes (\<lambda>s. chunked_call c (k, s))"
proof (cases c)
  case (Sink_write d)
  have "only_writes (chunked_write d k)"
    unfolding chunked_write_def Let_def
    by (intro only_writes_if only_writes_then [OF write_data_only] only_writes_done)
  then show ?thesis using Sink_write by simp
next
  case (Sink_done tr)
  have "only_writes (chunked_done tr k)"
    unfolding chunked_done_def
    by (intro only_writes_if only_writes_then [OF write_lines_only] only_writes_done)
  then show ?thesis using Sink_done by simp
qed

lemma length_call_only: "only_writes (\<lambda>s. length_call pr start len c (k, s))"
proof (cases c)
  case (Sink_write d)
  have "only_writes (\<lambda>s. if sink_ok k then (case write_data d s of (ok, s') \<Rightarrow>
      ((if ok then (let k1 = k\<lparr>sink_offset := sink_offset k + length d\<rparr>
        in (case pr of Some p \<Rightarrow> if 0 < len \<and> \<not> p (sink_offset k1 - start) len then k1\<lparr>sink_ok := False\<rparr> else k1
            | None \<Rightarrow> k1)) else k\<lparr>sink_ok := False\<rparr>), s')) else (k, s))"
    by (intro only_writes_if only_writes_then [OF write_data_only] only_writes_done)
  moreover have "length_write pr start len d k = (\<lambda>s. if sink_ok k then (case write_data d s of (ok, s') \<Rightarrow>
      ((if ok then (let k1 = k\<lparr>sink_offset := sink_offset k + length d\<rparr>
        in (case pr of Some p \<Rightarrow> if 0 < len \<and> \<not> p (sink_offset k1 - start) len then k1\<lparr>sink_ok := False\<rparr> else k1
            | None \<Rightarrow> k1)) else k\<lparr>sink_ok := False\<rparr>), s')) else (k, s))"
    by (auto simp: length_write_def fun_eq_iff Let_def split: prod.split bool.split)
  ultimately show ?thesis using Sink_write by simp
qed (simp add: only_writes_done)

lemma plain_call_only: "only_writes (\<lambda>s. plain_call c (k, s))"
proof (cases c)
  case (Sink_write d)
  have "only_writes (plain_write d k)"
    unfolding plain_write_def by (intro only_writes_if only_writes_then [OF write_data_only] only_writes_done)
  then show ?thesis using Sink_write by simp
qed (simp add: only_writes_done)

text \<open>The providers, whose result carries an error.\<close>

lemma chunked_provider_only:
  "chunked_provider_loop sts k s = (b, e, s') \<Longrightarrow>
     unread s s' \<and> (\<forall>es. chunked_provider_loop sts k (more es s) = (b, e, more es s'))"
proof (induction sts arbitrary: k s)
  case (Cons st sts)
  obtain k1 s1 where f: "fold chunked_call (sink_calls st) (k, s) = (k1, s1)" by (metis surj_pair)
  note o = only_writesD [OF only_writes_fold [OF chunked_call_only] f]
  show ?case using Cons.prems Cons.IH [of k1 s1] f o unread_trans [of s s1 s'] by (auto split: if_splits)
qed (auto split: if_splits)

lemma length_provider_only:
  "length_provider_loop pr start len sts k s = (b, e, s') \<Longrightarrow>
     unread s s' \<and> (\<forall>es. length_provider_loop pr start len sts k (more es s) = (b, e, more es s'))"
proof (induction sts arbitrary: k s)
  case (Cons st sts)
  obtain k1 s1 where f: "fold (length_call pr start len) (sink_calls st) (k, s) = (k1, s1)" by (metis surj_pair)
  note o = only_writesD [OF only_writes_fold [OF length_call_only] f]
  show ?case using Cons.prems Cons.IH [of k1 s1] f o unread_trans [of s s1 s'] by (auto split: if_splits)
qed (auto split: if_splits)

lemma plain_provider_only: "only_writes (plain_provider_loop sts k)"
proof (rule only_writesI)
  show "plain_provider_loop sts k s = (b, s') \<Longrightarrow>
      unread s s' \<and> (\<forall>es. plain_provider_loop sts k (more es s) = (b, more es s'))" for s b s'
  proof (induction sts arbitrary: k s)
    case (Cons st sts)
    obtain k1 s1 where f: "fold plain_call (sink_calls st) (k, s) = (k1, s1)" by (metis surj_pair)
    note o = only_writesD [OF only_writes_fold [OF plain_call_only] f]
    show ?case using Cons.prems Cons.IH [of k1 s1] f o unread_trans [of s s1 s'] by (auto split: if_splits)
  qed simp
qed

lemma write_content_only: "only_writes (\<lambda>s. case write_content off len sts s of (ok, e, s') \<Rightarrow> (ok, s'))"
proof (rule only_writesI)
  fix s x s'
  assume h: "(case write_content off len sts s of (ok, e, s') \<Rightarrow> (ok, s')) = (x, s')"
  obtain b e s1 where w: "write_content off len sts s = (b, e, s1)" by (metis prod_cases3)
  from length_provider_only [OF w [unfolded write_content_def write_content_with_progress_def]] h w
  show "unread s s' \<and> (\<forall>es. (case write_content off len sts (more es s) of (ok, e, s') \<Rightarrow> (ok, s')) = (x, more es s'))"
    by (simp add: write_content_def write_content_with_progress_def)
qed

lemma write_chunked_only: "only_writes (\<lambda>s. case write_content_chunked sts s of (ok, e, s') \<Rightarrow> (ok, s'))"
proof (rule only_writesI)
  fix s x s'
  assume h: "(case write_content_chunked sts s of (ok, e, s') \<Rightarrow> (ok, s')) = (x, s')"
  obtain b e s1 where w: "write_content_chunked sts s = (b, e, s1)" by (metis prod_cases3)
  from chunked_provider_only [OF w [unfolded write_content_chunked_def]] h w
  show "unread s s' \<and> (\<forall>es. (case write_content_chunked sts (more es s) of (ok, e, s') \<Rightarrow> (ok, s')) = (x, more es s'))"
    by (simp add: write_content_chunked_def)
qed

lemma token_only: "unread s (snd (sock_write t s))" "snd (sock_write t (more es s)) = more es (snd (sock_write t s))"
  using only_writesD [OF sock_write_only, of t s] by (cases "sock_write t s"; simp)+

lemma tokens_unread: "unread s a \<Longrightarrow> unread s (snd (sock_write t a))"
  by (rule unread_trans [OF _ token_only(1)])

lemma multipart_only:
  assumes "\<And>off n. only_writes (piece off n)"
  shows "only_writes (process_multipart_ranges_data (\<lambda>t s. snd (sock_write t s)) piece boundary ctype len rs)"
proof (rule only_writesI)
  let ?tok = "\<lambda>t s. snd (sock_write t s)"
  show "process_multipart_ranges_data ?tok piece boundary ctype len rs s = (x, s') \<Longrightarrow>
      unread s s' \<and> (\<forall>es. process_multipart_ranges_data ?tok piece boundary ctype len rs (more es s) = (x, more es s'))" for s x s'
  proof (induction rs arbitrary: s)
    case Nil
    then show ?case by (auto simp: token_only(2) tokens_unread)
  next
    case (Cons r rs)
    let ?ol = "get_range_offset_and_length r"
    let ?a1 = "\<lambda>s. ?tok crlf (?tok boundary (?tok ''--'' s))"
    let ?a2 = "\<lambda>s. if ctype = [] then ?a1 s else ?tok crlf (?tok ctype (?tok ''Content-Type: '' (?a1 s)))"
    let ?a3 = "\<lambda>s. ?tok crlf (?tok crlf (?tok (make_content_range_header_field ?ol len) (?tok ''Content-Range: '' (?a2 s))))"
    have st: "process_multipart_ranges_data ?tok piece boundary ctype len (r # rs) t =
        (case piece (fst ?ol) (snd ?ol) (?a3 t) of (False, a4) \<Rightarrow> (False, a4)
         | (True, a4) \<Rightarrow> process_multipart_ranges_data ?tok piece boundary ctype len rs (?tok crlf a4))" for t
      by (simp add: Let_def)
    obtain ok a4 where p: "piece (fst ?ol) (snd ?ol) (?a3 s) = (ok, a4)" by (metis surj_pair)
    have a3: "unread s (?a3 s)" "\<And>es. ?a3 (more es s) = more es (?a3 s)" by (simp_all add: token_only(2) tokens_unread)
    note o = only_writesD [OF assms p]
    have u: "unread s a4" by (rule unread_trans [OF a3(1) o(1)])
    show ?case
    proof (cases ok)
      case False
      then show ?thesis using Cons.prems p o(2) u unfolding st a3(2) by simp
    next
      case True
      then have n: "process_multipart_ranges_data ?tok piece boundary ctype len rs (?tok crlf a4) = (x, s')"
        using Cons.prems p unfolding st by simp
      from Cons.IH [OF n] show ?thesis using True o(2) unread_trans [OF tokens_unread [OF u, of crlf]]
        unfolding st a3(2) by (simp add: token_only(2))
    qed
  qed
qed

lemma provider_only: "only_writes (write_content_with_provider boundary ctype req res provider)"
proof -
  let ?cl = "rs_content_length res" and ?rs = "rq_ranges req"
  have "write_content_with_provider boundary ctype req res provider =
      (if 0 < ?cl then
         (if ?rs = [] then (\<lambda>s. case write_content 0 ?cl (provider 0 ?cl) s of (ok, _, s') \<Rightarrow> (ok, s'))
          else if length ?rs = 1 then
            (case get_range_offset_and_length (hd ?rs) of (off, len) \<Rightarrow>
               (\<lambda>s. case write_content off len (provider off len) s of (ok, _, s') \<Rightarrow> (ok, s')))
          else write_multipart_ranges_data provider ?rs boundary ctype ?cl)
       else if rs_chunked res then (\<lambda>s. case write_content_chunked (provider 0 0) s of (ok, _, s') \<Rightarrow> (ok, s'))
       else write_content_without_length (provider 0 0))"
    by (simp add: write_content_with_provider_def Let_def fun_eq_iff split: prod.split)
  moreover have "only_writes (write_content_without_length sts)" for sts
    unfolding write_content_without_length_def by (rule plain_provider_only)
  moreover have "only_writes (write_multipart_ranges_data provider ?rs boundary ctype ?cl)"
    unfolding write_multipart_ranges_data_def by (rule multipart_only [OF write_content_only])
  ultimately show ?thesis using write_content_only write_chunked_only by (simp split: prod.split)
qed

lemma write_core_only:
  "write_response_core sv b cl need req res s = (ok, res', s') \<Longrightarrow>
     unread s s' \<and> (\<forall>es. write_response_core sv b cl need req res (more es s) = (ok, res', more es s'))"
proof -
  let ?r1 = "if need then apply_ranges b req res else (res, [])"
  let ?r = "content_headers req (connection_headers sv cl req (fst ?r1))"
  assume w: "write_response_core sv b cl need req res s = (ok, res', s')"
  obtain k s1 where d: "write_data (response_bytes req ?r) s = (k, s1)" by (metis surj_pair)
  note o = only_writesD [OF write_data_only d]
  show ?thesis
  proof (cases "\<exists>pr. k \<and> rs_provider ?r = Some pr \<and> rq_method req \<noteq> ''HEAD''")
    case True
    then obtain pr where pr: "k" "rs_provider ?r = Some pr" "rq_method req \<noteq> ''HEAD''" by blast
    obtain k2 s2 where p: "write_content_with_provider b (snd ?r1) req ?r pr s1 = (k2, s2)" by (metis surj_pair)
    show ?thesis using w d p pr o only_writesD [OF provider_only p] unread_trans [of s s1 s2]
      unfolding write_response_core_def Let_def split_beta by auto
  next
    case False
    then show ?thesis using w d o unfolding write_response_core_def Let_def split_beta
      by (auto split: option.splits if_splits bool.splits)
  qed
qed

lemma finish_routing_only:
  assumes "finish_routing sv env cl rt req res s = (ok, res', s')"
  shows "unread s s' \<and> (\<forall>es. finish_routing sv env cl rt req res (more es s) = (ok, res', more es s'))"
  using assms unfolding finish_routing_def finish_routed_def write_response_def write_response_with_content_def Let_def
  by (cases rt; cases "range_error (rq_ranges req)
      (if rs_status res = - 1 then res\<lparr>rs_status := (if rq_ranges req = [] then 200 else 206)\<rparr> else res)")
    (auto dest: write_core_only)

lemma expect_continue_only: "unread s (expect_continue req s) \<and> expect_continue req (more es s) = more es (expect_continue req s)"
  by (simp add: expect_continue_def token_only(2) tokens_unread)

end
