(* ===== verification/Ws_Frame.thy ===== *)
theory Ws_Frame
  imports Http_Frame Http_Utf8 Ws_Digest
begin

text \<open>
  The frames of the WebSocket protocol in \<open>include/httplib.h\<close>: \<open>write_websocket_frame\<close> and
  \<open>read_websocket_frame\<close>. A frame that was written is read back, whatever its length, its masking
  and the fragmentation of its payload, provided its header arrives in one piece; a header that
  does not is refused.
\<close>

section \<open>Writing\<close>

text \<open>\<open>Opcode\<close> is a byte, of which four bits are sent; not every value has a name.\<close>

abbreviation (input) op_continuation :: nat where "op_continuation \<equiv> 0x0"
abbreviation (input) op_text :: nat where "op_text \<equiv> 0x1"
abbreviation (input) op_binary :: nat where "op_binary \<equiv> 0x2"
abbreviation (input) op_close :: nat where "op_close \<equiv> 0x8"
abbreviation (input) op_ping :: nat where "op_ping \<equiv> 0x9"
abbreviation (input) op_pong :: nat where "op_pong \<equiv> 0xA"

definition frame_head :: "nat \<Rightarrow> nat \<Rightarrow> bool \<Rightarrow> bool \<Rightarrow> string list" where
  "frame_head op len fin masked =
     (let h0 = chr ((if fin then 0x80 else 0) OR (op AND 0x0F)); m = (if masked then 0x80 else 0) in
      if len < 126 then [[h0, chr (len OR m)]]
      else if len \<le> 0xFFFF then [[h0, chr (126 OR m)], [chr (drop_bit 8 len AND 0xFF), chr (len AND 0xFF)]]
      else [[h0, chr (127 OR m)], map (\<lambda>i. chr (drop_bit (i * 8) len AND 0xFF)) [7, 6, 5, 4, 3, 2, 1, 0]])"

text \<open>The mask key: \<open>memcpy\<close> of a random 32-bit number.\<close>

definition mask_bytes :: "32 word \<Rightarrow> string" where
  "mask_bytes r = map (\<lambda>i. chr (unat (drop_bit (8 * i) r AND 0xFF))) [0..<4]"

definition xor_char :: "char \<Rightarrow> char \<Rightarrow> char" where
  "xor_char a b = chr (byte a XOR byte b)"

definition apply_mask :: "string \<Rightarrow> nat \<Rightarrow> string \<Rightarrow> string" where
  "apply_mask key off d = map (\<lambda>i. xor_char (d ! i) (key ! ((off + i) mod 4))) [0..<length d]"

function masked_chunks :: "string \<Rightarrow> nat \<Rightarrow> string \<Rightarrow> string list" where
  "masked_chunks key off d =
     (if d = [] then [] else apply_mask key off (take 4096 d) # masked_chunks key (off + 4096) (drop 4096 d))"
  by pat_completeness auto
termination by (relation "measure (\<lambda>(key, off, d). length d)") auto

declare masked_chunks.simps [simp del]

definition frame_pieces :: "nat \<Rightarrow> string \<Rightarrow> bool \<Rightarrow> 32 word option \<Rightarrow> string list" where
  "frame_pieces op d fin mk =
     frame_head op (length d) fin (mk \<noteq> None) @
     (case mk of Some r \<Rightarrow> mask_bytes r # masked_chunks (mask_bytes r) 0 d | None \<Rightarrow> if d \<noteq> [] then [d] else [])"

text \<open>A piece is given to the stream once; only a negative result counts as a failure.\<close>

fun write_pieces :: "string list \<Rightarrow> stream \<Rightarrow> bool \<times> stream" where
  "write_pieces [] s = (True, s)"
| "write_pieces (d # ds) s = (case sock_write d s of (k, s') \<Rightarrow> if k < 0 then (False, s') else write_pieces ds s')"

definition write_websocket_frame :: "nat \<Rightarrow> string \<Rightarrow> bool \<Rightarrow> 32 word option \<Rightarrow> stream \<Rightarrow> bool \<times> stream" where
  "write_websocket_frame op d fin mk s = write_pieces (frame_pieces op d fin mk) s"

section \<open>Reading\<close>

record ws_frame =
  fr_opcode :: nat
  fr_payload :: string
  fr_fin :: bool

text \<open>A read that is expected to yield all the bytes at once.\<close>

definition read_exactly :: "nat \<Rightarrow> stream \<Rightarrow> string option \<times> stream" where
  "read_exactly n s = (case sock_read n s of (k, d, s') \<Rightarrow> (if k = int n then Some d else None, s'))"

definition be_value :: "string \<Rightarrow> nat" where
  "be_value ext = fold (\<lambda>c n. push_bit 8 n OR byte c) ext 0"

definition read_extended :: "nat \<Rightarrow> stream \<Rightarrow> nat option \<times> stream" where
  "read_extended len s =
     (if len = 126 then
        (case read_exactly 2 s of
           (None, s') \<Rightarrow> (None, s')
         | (Some ext, s') \<Rightarrow> (Some (push_bit 8 (byte (ext ! 0)) OR byte (ext ! 1)), s'))
      else if len = 127 then
        (case read_exactly 8 s of
           (None, s') \<Rightarrow> (None, s')
         | (Some ext, s') \<Rightarrow> (if byte (ext ! 0) AND 0x80 \<noteq> 0 then None else Some (be_value ext), s'))
      else (Some len, s))"

function read_rest :: "nat \<Rightarrow> stream \<Rightarrow> bool \<times> string \<times> stream" where
  "read_rest n s =
     (if n = 0 then (True, [], s)
      else let (k, d, s') = sock_read n s
        in if k \<le> 0 then (False, [], s')
           else case read_rest (n - nat k) s' of (ok, d', s'') \<Rightarrow> (ok, d @ d', s''))"
  by pat_completeness auto
termination by (relation "measure fst") auto

declare read_rest.simps [simp del]

definition read_websocket_frame :: "bool \<Rightarrow> nat \<Rightarrow> stream \<Rightarrow> ws_frame option \<times> stream" where
  "read_websocket_frame expect_masked max_len s =
     (case read_exactly 2 s of
        (None, s1) \<Rightarrow> (None, s1)
      | (Some h, s1) \<Rightarrow>
          (let b0 = byte (h ! 0); b1 = byte (h ! 1); fin = (b0 AND 0x80 \<noteq> 0); op = b0 AND 0x0F;
               masked = (b1 AND 0x80 \<noteq> 0); len = b1 AND 0x7F in
           if b0 AND 0x70 \<noteq> 0 then (None, s1)
           else if op AND 0x08 \<noteq> 0 \<and> (\<not> fin \<or> 125 < len) then (None, s1)
           else if masked \<noteq> expect_masked then (None, s1)
           else (case read_extended len s1 of
                   (None, s2) \<Rightarrow> (None, s2)
                 | (Some n, s2) \<Rightarrow>
                     if max_len < n then (None, s2)
                     else (case (if masked then read_exactly 4 s2 else (Some (replicate 4 (chr 0)), s2)) of
                             (None, s3) \<Rightarrow> (None, s3)
                           | (Some key, s3) \<Rightarrow>
                               (case read_rest n s3 of
                                  (False, _, s4) \<Rightarrow> (None, s4)
                                | (True, d, s4) \<Rightarrow>
                                    (Some \<lparr>fr_opcode = op, fr_payload = (if masked then apply_mask key 0 d else d), fr_fin = fin\<rparr>,
                                     s4))))))"

section \<open>The bytes of a frame\<close>

definition frame_bytes :: "nat \<Rightarrow> string \<Rightarrow> bool \<Rightarrow> 32 word option \<Rightarrow> string" where
  "frame_bytes op d fin mk = concat (frame_pieces op d fin mk)"

lemma write_pieces_all: "sends s = [] \<Longrightarrow> write_pieces ds s = (True, s\<lparr>outbound := outbound s @ concat ds\<rparr>)"
  by (induction ds arbitrary: s) (simp_all add: sock_write_def)

lemma write_frame_all:
  "sends s = [] \<Longrightarrow> write_websocket_frame op d fin mk s = (True, s\<lparr>outbound := outbound s @ frame_bytes op d fin mk\<rparr>)"
  by (simp add: write_websocket_frame_def write_pieces_all frame_bytes_def)

lemma xor_char_cancel [simp]: "xor_char (xor_char a b) b = a"
proof -
  have "byte a XOR byte b < 2 ^ 8"
  proof -
    have "take_bit 8 (byte a XOR byte b) = byte a XOR byte b"
      using byte_less [of a] byte_less [of b] by (simp add: take_bit_nat_eq_self)
    then show ?thesis by (metis take_bit_nat_less_exp)
  qed
  then show ?thesis by (simp add: xor_char_def xor.assoc)
qed

lemma length_apply_mask [simp]: "length (apply_mask key off d) = length d"
  by (simp add: apply_mask_def)

lemma apply_mask_twice: "apply_mask key off (apply_mask key off d) = d"
  by (rule nth_equalityI) (simp_all add: apply_mask_def)

lemma apply_mask_append: "apply_mask key off (a @ b) = apply_mask key off a @ apply_mask key (off + length a) b"
  by (rule nth_equalityI) (auto simp: apply_mask_def nth_append algebra_simps)

lemma concat_masked_chunks: "concat (masked_chunks key off d) = apply_mask key off d"
proof (induction key off d rule: masked_chunks.induct)
  case (1 key off d)
  show ?case
  proof (cases "d = []")
    case True
    then show ?thesis by (simp add: masked_chunks.simps [of key off "[]"] apply_mask_def)
  next
    case False
    have "apply_mask key off d = apply_mask key off (take 4096 d) @ apply_mask key (off + length (take 4096 d)) (drop 4096 d)"
      using apply_mask_append [of key off "take 4096 d" "drop 4096 d"] by simp
    moreover have "apply_mask key (off + length (take 4096 d)) (drop 4096 d) = apply_mask key (off + 4096) (drop 4096 d)"
      by (cases "length d \<le> 4096") (simp_all add: apply_mask_def)
    ultimately show ?thesis using 1 False by (simp add: masked_chunks.simps [of key off d])
  qed
qed

definition head_bytes :: "nat \<Rightarrow> nat \<Rightarrow> bool \<Rightarrow> 32 word option \<Rightarrow> string" where
  "head_bytes op len fin mk = concat (frame_head op len fin (mk \<noteq> None)) @ (case mk of Some r \<Rightarrow> mask_bytes r | None \<Rightarrow> [])"

definition body_bytes :: "string \<Rightarrow> 32 word option \<Rightarrow> string" where
  "body_bytes d mk = (case mk of Some r \<Rightarrow> apply_mask (mask_bytes r) 0 d | None \<Rightarrow> d)"

lemma frame_bytes_split: "frame_bytes op d fin mk = head_bytes op (length d) fin mk @ body_bytes d mk"
  by (simp add: frame_bytes_def frame_pieces_def head_bytes_def body_bytes_def concat_masked_chunks split: option.split)

lemma length_body_bytes [simp]: "length (body_bytes d mk) = length d"
  by (simp add: body_bytes_def split: option.split)

lemma length_mask_bytes [simp]: "length (mask_bytes r) = 4"
  by (simp add: mask_bytes_def)

section \<open>The bits of the header\<close>

definition first_byte :: "nat \<Rightarrow> bool \<Rightarrow> nat" where
  "first_byte op fin = byte (chr ((if fin then 0x80 else 0) OR (op AND 0x0F)))"

definition second_byte :: "nat \<Rightarrow> bool \<Rightarrow> nat" where
  "second_byte n masked = byte (chr (n OR (if masked then 0x80 else 0)))"

lemma first_byte_sum: "op < 16 \<Longrightarrow> first_byte op fin = (if fin then 128 + op else op)"
  using or_mod_nat [of 7 1 op] by (simp add: first_byte_def and_mask_nat)

lemma second_byte_sum: "n < 128 \<Longrightarrow> second_byte n masked = (if masked then 128 + n else n)"
  using or_mod_nat [of 7 1 n] by (simp add: second_byte_def or.commute)

lemma first_byte_bits:
  assumes "op < 16"
  shows "first_byte op fin AND 0x80 \<noteq> 0 \<longleftrightarrow> fin" "first_byte op fin AND 0x70 = 0" "first_byte op fin AND 0x0F = op"
    "op AND 0x08 \<noteq> 0 \<longleftrightarrow> 8 \<le> op"
proof -
  have d: "(128 + op) div 128 = 1" "(128 + op) div 16 = 8" "op div 16 = 0" "op div 128 = 0" "op div 8 = (if op < 8 then 0 else 1)"
    using assms by (simp_all add: div_window)
  show "first_byte op fin AND 0x80 \<noteq> 0 \<longleftrightarrow> fin" using d by (simp add: first_byte_sum [OF assms] and_high)
  show "first_byte op fin AND 0x70 = 0" using d by (simp add: first_byte_sum [OF assms] and_high)
  show "first_byte op fin AND 0x0F = op" using assms mod_mult_self3 [of 8 16 op]
    by (simp add: first_byte_sum [OF assms] and_mask_nat)
  show "op AND 0x08 \<noteq> 0 \<longleftrightarrow> 8 \<le> op" by (simp add: and_high d)
qed

lemma second_byte_bits:
  assumes "n < 128"
  shows "second_byte n masked AND 0x80 \<noteq> 0 \<longleftrightarrow> masked" "second_byte n masked AND 0x7F = n" "n AND 0x80 = 0"
proof -
  have d: "(128 + n) div 128 = 1" "n div 128 = 0" using assms by (simp_all add: div_window)
  show "second_byte n masked AND 0x80 \<noteq> 0 \<longleftrightarrow> masked" using d by (simp add: second_byte_sum [OF assms] and_high)
  show "second_byte n masked AND 0x7F = n" using assms by (simp add: second_byte_sum [OF assms] and_mask_nat)
  show "n AND 0x80 = 0" by (simp add: and_high d)
qed

lemma two_bytes: "len \<le> 0xFFFF \<Longrightarrow> push_bit 8 (byte (chr (drop_bit 8 len AND 0xFF))) OR byte (chr (len AND 0xFF)) = len"
  using or_mod_nat [of 8 "len div 256" len] by (simp add: and_mask_nat drop_bit_eq_div)

lemma be_step: "push_bit 8 (len div 256 ^ Suc k) OR byte (chr (drop_bit (k * 8) len AND 0xFF)) = len div 256 ^ k"
proof -
  have p: "(2::nat) ^ (k * 8) = 256 ^ k" using power_mult [of "2::nat" 8 k] by (simp add: mult.commute)
  have "byte (chr (drop_bit (k * 8) len AND 0xFF)) = len div 256 ^ k mod 2 ^ 8"
    by (simp add: and_mask_nat drop_bit_eq_div p)
  moreover have "len div 256 ^ Suc k = len div 256 ^ k div 256" by (simp add: div_mult2_eq [symmetric] mult.commute)
  ultimately show ?thesis using or_mod_nat [of 8 "len div 256 ^ k div 256" "len div 256 ^ k"] by simp
qed

lemma eight_bytes:
  assumes "len < 2 ^ 63"
  shows "be_value (map (\<lambda>i. chr (drop_bit (i * 8) len AND 0xFF)) [7, 6, 5, 4, 3, 2, 1, 0]) = len"
    "byte (chr (drop_bit (7 * 8) len AND 0xFF)) AND 0x80 = 0"
proof -
  let ?b = "\<lambda>k. byte (chr (drop_bit (k * 8) len AND 0xFF))"
  have s: "push_bit 8 (len div 256 ^ k') OR ?b k = len div 256 ^ k" if "k' = Suc k" for k k' using be_step [of len k] that by simp
  have z: "len div 256 ^ 8 = 0" using assms by simp
  have "push_bit 8 0 OR ?b 7 = len div 256 ^ 7" using s [of 8 7] z by simp
  then have "be_value (map (\<lambda>i. chr (drop_bit (i * 8) len AND 0xFF)) [7, 6, 5, 4, 3, 2, 1, 0]) = len div 256 ^ 0"
    unfolding be_value_def using s [of 7 6] s [of 6 5] s [of 5 4] s [of 4 3] s [of 3 2] s [of 2 1] s [of 1 0]
    by (simp del: byte_chr)
  then show "be_value (map (\<lambda>i. chr (drop_bit (i * 8) len AND 0xFF)) [7, 6, 5, 4, 3, 2, 1, 0]) = len" by simp
  have "len div 2 ^ 56 < 128" using assms by (simp add: div_less_iff_less_mult)
  then show "byte (chr (drop_bit (7 * 8) len AND 0xFF)) AND 0x80 = 0"
    by (simp add: and_mask_nat drop_bit_eq_div and_high)
qed

section \<open>Reading what has arrived\<close>

text \<open>What the next read can get, and streams that differ in what was read only.\<close>

definition at_hand :: "stream \<Rightarrow> string" where
  "at_hand s = (if rbuf s \<noteq> [] then rbuf s else case inbound s of Arrive d # _ \<Rightarrow> take read_buff_size d | _ \<Rightarrow> [])"

definition same_rest :: "stream \<Rightarrow> stream \<Rightarrow> bool" where
  "same_rest s s' \<longleftrightarrow> s_error s' = s_error s \<and> outbound s' = outbound s \<and> sends s' = sends s"

lemma same_rest_refl [simp]: "same_rest s s"
  by (simp add: same_rest_def)

lemma same_rest_trans: "same_rest s t \<Longrightarrow> same_rest t u \<Longrightarrow> same_rest s u"
  by (simp add: same_rest_def)

lemma sock_read_same_rest: "sock_read n s = (k, d, s') \<Longrightarrow> 0 < k \<Longrightarrow> same_rest s s'"
  by (auto simp: sock_read_def recv_def same_rest_def Let_def split: if_splits list.splits recv_event.splits)

lemma sock_read_at_hand:
  assumes "plain s" "0 < n" "n < read_buff_size" "n \<le> length (at_hand s)" "sock_read n s = (k, d, s')"
  shows "k = int n \<and> length (at_hand s) - n \<le> length (at_hand s')"
proof (cases "rbuf s = []")
  case False
  then show ?thesis using assms by (auto simp: sock_read_def at_hand_def)
next
  case e: True
  then obtain x es where x: "inbound s = Arrive x # es" "n \<le> length (take read_buff_size x)" "at_hand s = take read_buff_size x"
    using assms(2,4) by (auto simp: at_hand_def split: list.splits recv_event.splits)
  let ?d = "take read_buff_size x"
  have "?d \<noteq> []" using x(2) assms(2) by auto
  then have r: "recv read_buff_size s = (int (length ?d), ?d,
      s\<lparr>inbound := (if drop read_buff_size x = [] then es else Arrive (drop read_buff_size x) # es)\<rparr>)"
    using x(1) by (simp add: recv_def)
  show ?thesis
  proof (cases "length ?d \<le> n")
    case True
    then have "k = int (length ?d)" using assms(3,5) e r x(2) by (auto simp: sock_read_def Let_def split: if_splits)
    moreover have "length ?d = n" using True x(2) by (rule le_antisym)
    ultimately show ?thesis using x(3) by simp
  next
    case False
    then have "(k, d, s') = (int n, take n ?d, (s\<lparr>inbound := (if drop read_buff_size x = [] then es else Arrive (drop read_buff_size x) # es)\<rparr>)
        \<lparr>rbuf := drop n ?d\<rparr>)"
      unfolding assms(5) [symmetric] using assms(2,3) e r by (simp add: sock_read_def Let_def)
    moreover have "drop n ?d \<noteq> []" using False by simp
    ultimately show ?thesis using x(3) by (auto simp: at_hand_def)
  qed
qed

lemma read_exactly_at_hand:
  assumes "plain s" "0 < n" "n < read_buff_size" "n \<le> length (at_hand s)" "content s = x @ t" "length x = n"
  shows "\<exists>s'. read_exactly n s = (Some x, s') \<and> plain s' \<and> content s' = t \<and> same_rest s s' \<and>
    length (at_hand s) - n \<le> length (at_hand s')"
proof -
  obtain k d s' where r: "sock_read n s = (k, d, s')" by (metis prod_cases3)
  note p = sock_read_plain [OF assms(1,2) r] and h = sock_read_at_hand [OF assms(1-4) r]
  have "length d = n" using p(3) h by simp
  then have "d = x" "content s' = t" using p(2) assms(5,6) by simp_all
  then show ?thesis using p(1) h r sock_read_same_rest [OF r] assms(2) by (auto simp: read_exactly_def)
qed

lemma read_rest_content:
  "plain s \<Longrightarrow> content s = x @ t \<Longrightarrow> length x = n \<Longrightarrow>
     \<exists>s'. read_rest n s = (True, x, s') \<and> plain s' \<and> content s' = t \<and> same_rest s s'"
proof (induction n s arbitrary: x rule: read_rest.induct)
  case (1 n s)
  show ?case
  proof (cases "n = 0")
    case True
    then show ?thesis using "1.prems" by (simp add: read_rest.simps [of 0 s])
  next
    case False
    obtain k d s1 where r: "sock_read n s = (k, d, s1)" by (metis prod_cases3)
    note p = sock_read_plain [OF "1.prems"(1) _ r]
    have d: "d \<noteq> []" "length d \<le> n" "k = int (length d)" "content s = d @ content s1" "plain s1"
      using p False "1.prems" by auto
    then have x: "x = d @ drop (length d) x" "content s1 = drop (length d) x @ t"
      using "1.prems"(2,3) by (metis append_eq_append_conv_if append_take_drop_id)+
    have k: "\<not> k \<le> 0" "0 < k" using d(1,3) by simp_all
    have l: "length (drop (length d) x) = n - nat k" using "1.prems"(3) d(3) by simp
    obtain s' where s': "read_rest (n - nat k) s1 = (True, drop (length d) x, s')" "plain s'" "content s' = t" "same_rest s1 s'"
      using "1.IH" [OF False r [symmetric] refl refl k(1) d(5) x(2) l] by blast
    have "read_rest n s = (True, d @ drop (length d) x, s')"
      using False r k s'(1) by (simp add: read_rest.simps [of n s])
    then show ?thesis using x(1) s' same_rest_trans [OF sock_read_same_rest [OF r k(2)]] by metis
  qed
qed

section \<open>A frame is read back\<close>

text \<open>What a peer may send: known bits, control frames short and in one piece, a length below 2^63.\<close>

definition sendable :: "nat \<Rightarrow> string \<Rightarrow> bool \<Rightarrow> bool" where
  "sendable op d fin \<longleftrightarrow> op < 16 \<and> (8 \<le> op \<longrightarrow> fin \<and> length d \<le> 125) \<and> length d < 2 ^ 63"

definition short_length :: "nat \<Rightarrow> nat" where
  "short_length len = (if len < 126 then len else if len \<le> 0xFFFF then 126 else 127)"

definition long_length :: "nat \<Rightarrow> string" where
  "long_length len =
     (if len < 126 then [] else if len \<le> 0xFFFF then [chr (drop_bit 8 len AND 0xFF), chr (len AND 0xFF)]
      else map (\<lambda>i. chr (drop_bit (i * 8) len AND 0xFF)) [7, 6, 5, 4, 3, 2, 1, 0])"

lemma head_bytes_eq:
  "head_bytes op len fin mk =
     [chr (first_byte op fin), chr (second_byte (short_length len) (mk \<noteq> None))] @ long_length len @
     (case mk of Some r \<Rightarrow> mask_bytes r | None \<Rightarrow> [])"
  by (simp add: head_bytes_def frame_head_def Let_def first_byte_def second_byte_def short_length_def long_length_def)

lemma read_extended_back:
  assumes "plain s" "content s = long_length len @ t" "length (long_length len) \<le> length (at_hand s)" "len < 2 ^ 63"
  shows "\<exists>s'. read_extended (short_length len) s = (Some len, s') \<and> plain s' \<and> content s' = t \<and> same_rest s s' \<and>
    length (at_hand s) - length (long_length len) \<le> length (at_hand s')"
proof -
  consider "len < 126" | "126 \<le> len" "len \<le> 0xFFFF" | "0xFFFF < len" by linarith
  then show ?thesis
  proof cases
    case 1
    then show ?thesis using assms by (simp add: read_extended_def short_length_def long_length_def)
  next
    case 2
    then have "\<exists>s'. read_exactly 2 s = (Some (long_length len), s') \<and> plain s' \<and> content s' = t \<and> same_rest s s' \<and>
        length (at_hand s) - 2 \<le> length (at_hand s')"
      using assms by (intro read_exactly_at_hand) (simp_all add: long_length_def read_buff_size_def)
    then show ?thesis using 2 two_bytes [of len] by (auto simp: read_extended_def short_length_def long_length_def simp del: byte_chr)
  next
    case 3
    then have "\<exists>s'. read_exactly 8 s = (Some (long_length len), s') \<and> plain s' \<and> content s' = t \<and> same_rest s s' \<and>
        length (at_hand s) - 8 \<le> length (at_hand s')"
      using assms by (intro read_exactly_at_hand) (simp_all add: long_length_def read_buff_size_def)
    moreover have "byte (long_length len ! 0) AND 0x80 = 0" "be_value (long_length len) = len" "length (long_length len) = 8"
      using 3 eight_bytes [OF assms(4)] by (simp_all add: long_length_def del: byte_chr)
    moreover have "short_length len = 127" using 3 by (simp add: short_length_def)
    ultimately show ?thesis by (auto simp: read_extended_def)
  qed
qed

lemma frame_read_back:
  assumes "sendable op d fin" "length d \<le> max_len" "plain s" "content s = frame_bytes op d fin mk @ t"
    "length (head_bytes op (length d) fin mk) \<le> length (at_hand s)"
  shows "\<exists>s'. read_websocket_frame (mk \<noteq> None) max_len s = (Some \<lparr>fr_opcode = op, fr_payload = d, fr_fin = fin\<rparr>, s') \<and>
    plain s' \<and> content s' = t \<and> same_rest s s'"
proof -
  let ?n = "length d" and ?key = "case mk of Some r \<Rightarrow> mask_bytes r | None \<Rightarrow> []"
  let ?h = "[chr (first_byte op fin), chr (second_byte (short_length ?n) (mk \<noteq> None))]"
  have op: "op < 16" "8 \<le> op \<Longrightarrow> fin \<and> ?n \<le> 125" "?n < 2 ^ 63" using assms(1) by (auto simp: sendable_def)
  have sl: "short_length ?n < 128" by (simp add: short_length_def)
  have c: "content s = ?h @ long_length ?n @ ?key @ body_bytes d mk @ t"
    using assms(4) by (simp add: frame_bytes_split head_bytes_eq)
  have hl: "2 + length (long_length ?n) + length ?key \<le> length (at_hand s)" using assms(5) by (simp add: head_bytes_eq)
  obtain s1 where s1: "read_exactly 2 s = (Some ?h, s1)" "plain s1" "content s1 = long_length ?n @ ?key @ body_bytes d mk @ t"
    "same_rest s s1" "length (at_hand s) - 2 \<le> length (at_hand s1)"
    using read_exactly_at_hand [OF assms(3) _ _ _ c] hl by (auto simp: read_buff_size_def numeral_2_eq_2)
  obtain s2 where s2: "read_extended (short_length ?n) s1 = (Some ?n, s2)" "plain s2" "content s2 = ?key @ body_bytes d mk @ t"
    "same_rest s1 s2" "length (at_hand s1) - length (long_length ?n) \<le> length (at_hand s2)"
  proof -
    have "length (long_length ?n) \<le> length (at_hand s1)" using hl s1(5) by linarith
    from read_extended_back [OF s1(2,3) this op(3)] that show ?thesis by blast
  qed
  obtain s3 where s3: "(if mk \<noteq> None then read_exactly 4 s2 else (Some (replicate 4 (chr 0)), s2)) =
      (Some (case mk of Some r \<Rightarrow> mask_bytes r | None \<Rightarrow> replicate 4 (chr 0)), s3)"
    "plain s3" "content s3 = body_bytes d mk @ t" "same_rest s2 s3"
  proof (cases mk)
    case None
    then show ?thesis using that [of s2] s2 by simp
  next
    case (Some r)
    have "length (mask_bytes r) \<le> length (at_hand s2)" using hl s1(5) s2(5) Some by simp
    then show ?thesis
      using that read_exactly_at_hand [OF s2(2) _ _ _ s2(3), of 4] Some by (auto simp: read_buff_size_def)
  qed
  obtain s4 where s4: "read_rest ?n s3 = (True, body_bytes d mk, s4)" "plain s4" "content s4 = t" "same_rest s3 s4"
    using read_rest_content [OF s3(2,3)] by auto
  have b: "byte (?h ! 0) = first_byte op fin" "byte (?h ! 1) = second_byte (short_length ?n) (mk \<noteq> None)"
    by (simp_all add: first_byte_def second_byte_def)
  have ctl: "\<not> (8 \<le> op \<and> (\<not> fin \<or> 125 < short_length ?n))" using op(2) by (auto simp: short_length_def)
  have m: "(if mk \<noteq> None then apply_mask (case mk of Some r \<Rightarrow> mask_bytes r | None \<Rightarrow> replicate 4 (chr 0)) 0 (body_bytes d mk)
      else body_bytes d mk) = d"
    by (cases mk) (simp_all add: body_bytes_def apply_mask_twice)
  have "read_websocket_frame (mk \<noteq> None) max_len s = (Some \<lparr>fr_opcode = op, fr_payload = d, fr_fin = fin\<rparr>, s4)"
    unfolding read_websocket_frame_def s1(1) prod.case option.case Let_def b first_byte_bits [OF op(1)] second_byte_bits [OF sl]
    using ctl s2(1) s3(1) s4(1) m assms(2) by simp
  then show ?thesis
    using s4(2,3) same_rest_trans [OF s1(4) same_rest_trans [OF s2(4) same_rest_trans [OF s3(4) s4(4)]]] by blast
qed

text \<open>Nothing behind the frame is touched.\<close>

abbreviation (input) later :: "recv_event list \<Rightarrow> stream \<Rightarrow> stream" where
  "later \<equiv> Http_Frame.more"

lemma recv_more:
  assumes "recv n s = (k, d, s')" "0 < k"
  shows "recv n (later es s) = (k, d, later es s')"
proof -
  obtain x evs where x: "inbound s = Arrive x # evs" "take n x \<noteq> []"
    using assms by (auto simp: recv_def split: list.splits recv_event.splits if_splits)
  let ?r = "\<lambda>evs. if drop n x = [] then evs else Arrive (drop n x) # evs"
  have "(k, d, s') = (int (length (take n x)), take n x, s\<lparr>inbound := ?r evs\<rparr>)"
    unfolding assms(1) [symmetric] recv_def x(1) list.case recv_event.case if_not_P [OF x(2)] by (rule refl)
  moreover have "recv n (later es s) = (int (length (take n x)), take n x, (later es s)\<lparr>inbound := ?r (evs @ es)\<rparr>)"
    using x by (simp only: recv_def more_simps list.case recv_event.case append_Cons if_False simp_thms)
  moreover have "(later es s)\<lparr>inbound := ?r (evs @ es)\<rparr> = later es (s\<lparr>inbound := ?r evs\<rparr>)"
    by (simp add: Http_Frame.more_def)
  ultimately show ?thesis by simp
qed

lemma sock_read_more:
  assumes "sock_read n s = (k, d, s')" "0 < k"
  shows "sock_read n (later es s) = (k, d, later es s')"
proof (cases "rbuf s = [] \<and> n < read_buff_size")
  case False
  then show ?thesis using assms recv_more [of n s k d s' es]
    by (cases "rbuf s = []") (auto simp: sock_read_def more_update split: if_splits)
next
  case True
  obtain k1 d1 s1 where r: "recv read_buff_size s = (k1, d1, s1)" by (metis prod_cases3)
  then have k1: "0 < k1" using assms True by (auto simp: sock_read_def split: if_splits)
  have s': "(k, d, s') = (if k1 \<le> int n then (k1, d1, s1) else (int n, take n d1, s1\<lparr>rbuf := drop n d1\<rparr>))"
    unfolding assms(1) [symmetric] using True r k1 by (simp add: sock_read_def)
  have "sock_read n (later es s) =
      (if k1 \<le> int n then (k1, d1, later es s1) else (int n, take n d1, (later es s1)\<lparr>rbuf := drop n d1\<rparr>))"
    using True recv_more [OF r k1, of es] k1 by (simp add: sock_read_def)
  then show ?thesis using s' by (cases "k1 \<le> int n") (simp_all add: more_update)
qed

lemma read_exactly_more: "read_exactly n s = (Some d, s') \<Longrightarrow> 0 < n \<Longrightarrow> read_exactly n (later es s) = (Some d, later es s')"
  using sock_read_more [of n s "int n" d s' es] by (auto simp: read_exactly_def split: prod.splits if_splits)

lemma read_extended_steps:
  assumes "read_extended len s = (Some n, s')"
  shows "s' = s \<and> len \<noteq> 126 \<and> len \<noteq> 127 \<or> (\<exists>k ext. 0 < k \<and> read_exactly k s = (Some ext, s'))"
proof (cases "len = 126 \<or> len = 127")
  case True
  then obtain k where k: "k = (if len = 126 then 2 else 8 :: nat)" "0 < k" by simp
  obtain e s1 where r: "read_exactly k s = (e, s1)" by (cases "read_exactly k s")
  then have "e \<noteq> None" "s1 = s'" using assms True k by (auto simp: read_extended_def split: option.splits if_splits)
  then show ?thesis using r k by auto
next
  case False
  then show ?thesis using assms by (simp add: read_extended_def)
qed

lemma read_extended_more:
  assumes "read_extended len s = (Some n, s')"
  shows "read_extended len (later es s) = (Some n, later es s')"
proof (cases "len = 126 \<or> len = 127")
  case True
  then obtain k where k: "k = (if len = 126 then 2 else 8 :: nat)" "0 < k" by simp
  obtain e s1 where r: "read_exactly k s = (e, s1)" by (cases "read_exactly k s")
  then obtain ext where e: "e = Some ext" using assms True k by (auto simp: read_extended_def split: option.splits if_splits)
  have "read_exactly k (later es s) = (Some ext, later es s1)" using read_exactly_more r k(2) e by blast
  then show ?thesis using assms True k r e by (auto simp: read_extended_def split: if_splits)
next
  case False
  then show ?thesis using assms by (simp add: read_extended_def)
qed

lemma read_rest_more: "read_rest n s = (True, d, s') \<Longrightarrow> read_rest n (later es s) = (True, d, later es s')"
proof (induction n s arbitrary: d rule: read_rest.induct)
  case (1 n s)
  show ?case
  proof (cases "n = 0")
    case True
    then show ?thesis using "1.prems" by (simp add: read_rest.simps [of 0])
  next
    case False
    obtain k e s1 where r: "sock_read n s = (k, e, s1)" by (metis prod_cases3)
    have k: "\<not> k \<le> 0" using "1.prems" False r by (auto simp: read_rest.simps [of n s])
    then obtain d' where d': "read_rest (n - nat k) s1 = (True, d', s')" "d = e @ d'"
      using "1.prems" False r by (auto simp: read_rest.simps [of n s] split: prod.splits)
    have "read_rest (n - nat k) (later es s1) = (True, d', later es s')"
      by (rule "1.IH" [OF False r [symmetric] refl refl k d'(1)])
    then show ?thesis using False k d'(2) sock_read_more [OF r, of es] by (simp add: read_rest.simps [of n])
  qed
qed

text \<open>A frame that is accepted was read in four parts.\<close>

lemma read_frame_steps:
  assumes "read_websocket_frame m n s = (Some f, s')"
  shows "\<exists>h s1 len s2 key s3 d. read_exactly 2 s = (Some h, s1) \<and> read_extended (byte (h ! 1) AND 0x7F) s1 = (Some len, s2) \<and>
    (if byte (h ! 1) AND 0x80 \<noteq> 0 then read_exactly 4 s2 else (Some (replicate 4 (chr 0)), s2)) = (Some key, s3) \<and>
    read_rest len s3 = (True, d, s') \<and> len \<le> n \<and> length (fr_payload f) = length d"
proof -
  obtain o1 s1 where r1: "read_exactly 2 s = (o1, s1)" by (cases "read_exactly 2 s")
  then obtain h where h: "o1 = Some h" using assms by (cases o1) (simp_all add: read_websocket_frame_def)
  obtain o2 s2 where r2: "read_extended (byte (h ! 1) AND 0x7F) s1 = (o2, s2)" by (cases "read_extended (byte (h ! 1) AND 0x7F) s1")
  then obtain len where len: "o2 = Some len"
    using assms r1 h by (cases o2) (simp_all add: read_websocket_frame_def Let_def split: if_split_asm)
  obtain o3 s3 where r3: "(if byte (h ! 1) AND 0x80 \<noteq> 0 then read_exactly 4 s2 else (Some (replicate 4 (chr 0)), s2)) = (o3, s3)"
    by (cases "if byte (h ! 1) AND 0x80 \<noteq> 0 then read_exactly 4 s2 else (Some (replicate 4 (chr 0)), s2)")
  obtain ok d s4 where r4: "read_rest len s3 = (ok, d, s4)" by (metis prod_cases3)
  note r = r1 [unfolded h] r2 [unfolded len] r3 r4
  have "(case o3 of None \<Rightarrow> (None, s3) | Some key \<Rightarrow> (case (ok, d, s4) of (False, _, s4) \<Rightarrow> (None, s4) | (True, d, s4) \<Rightarrow>
      (Some \<lparr>fr_opcode = byte (h ! 0) AND 0x0F, fr_payload = (if byte (h ! 1) AND 0x80 \<noteq> 0 then apply_mask key 0 d else d),
        fr_fin = (byte (h ! 0) AND 0x80 \<noteq> 0)\<rparr>, s4))) = (Some f, s')"
    using assms unfolding read_websocket_frame_def Let_def r(1) prod.case option.case r(2) r(3) r(4)
    by (simp only: prod.inject option.simps simp_thms if_cancel split: if_split_asm option.split_asm)
  then obtain key where "o3 = Some key" "ok" "s4 = s'" "length (fr_payload f) = length d" by (cases o3; cases ok) auto
  moreover have "len \<le> n"
  proof (rule ccontr)
    assume "\<not> len \<le> n"
    then have "fst (read_websocket_frame m n s) = None"
      unfolding read_websocket_frame_def Let_def r(1) prod.case option.case r(2) by simp
    then show False using assms by simp
  qed
  ultimately show ?thesis using r by simp
qed

lemma sock_read_length: "sock_read n s = (k, d, s') \<Longrightarrow> 0 < k \<Longrightarrow> k = int (length d) \<and> length d \<le> n"
  by (auto simp: sock_read_def recv_def Let_def split: if_splits list.splits recv_event.splits)

lemma read_rest_length: "read_rest n s = (ok, d, s') \<Longrightarrow> ok \<Longrightarrow> length d = n"
proof (induction n s arbitrary: d rule: read_rest.induct)
  case (1 n s)
  show ?case
  proof (cases "n = 0")
    case False
    obtain k e s1 where r: "sock_read n s = (k, e, s1)" by (metis prod_cases3)
    have k: "\<not> k \<le> 0" using "1.prems" False r by (auto simp: read_rest.simps [of n s])
    then obtain d' where d': "read_rest (n - nat k) s1 = (ok, d', s')" "d = e @ d'"
      using "1.prems" False r by (auto simp: read_rest.simps [of n s] split: prod.splits)
    from "1.IH" [OF False r [symmetric] refl refl k d'(1) "1.prems"(2)] show ?thesis
      using sock_read_length [OF r] k d'(2) by simp
  qed (use "1.prems" in \<open>simp add: read_rest.simps [of 0]\<close>)
qed

lemma read_frame_length: "read_websocket_frame m n s = (Some f, s') \<Longrightarrow> length (fr_payload f) \<le> n"
  using read_frame_steps [of m n s f s'] read_rest_length by fastforce

lemma read_frame_more:
  assumes "read_websocket_frame m n s = (Some f, s')"
  shows "read_websocket_frame m n (later es s) = (Some f, later es s')"
proof -
  from read_frame_steps [OF assms] obtain h s1 len s2 key s3 d where
    r: "read_exactly 2 s = (Some h, s1)" "read_extended (byte (h ! 1) AND 0x7F) s1 = (Some len, s2)"
      "(if byte (h ! 1) AND 0x80 \<noteq> 0 then read_exactly 4 s2 else (Some (replicate 4 (chr 0)), s2)) = (Some key, s3)"
      "read_rest len s3 = (True, d, s')"
    by blast
  have k: "(if byte (h ! 1) AND 0x80 \<noteq> 0 then read_exactly 4 (later es s2) else (Some (replicate 4 (chr 0)), later es s2)) =
      (Some key, later es s3)"
    using r(3) by (simp add: read_exactly_more split: if_splits)
  show ?thesis
    using assms
    unfolding read_websocket_frame_def Let_def r prod.case option.case bool.case k
      read_exactly_more [OF r(1) zero_less_numeral] read_extended_more [OF r(2)] read_rest_more [OF r(4)]
    by (auto split: if_split_asm)
qed

text \<open>A frame takes at least two bytes off the stream, so that reading frames comes to an end.\<close>

lemma read_exactly_to_come: "read_exactly n s = (Some d, s') \<Longrightarrow> 0 < n \<Longrightarrow> to_come s' < to_come s"
  using sock_read_to_come [of n s "int n" d s'] by (auto simp: read_exactly_def split: prod.splits if_splits)

lemma read_rest_to_come: "read_rest n s = (ok, d, s') \<Longrightarrow> ok \<Longrightarrow> to_come s' \<le> to_come s"
proof (induction n s arbitrary: d rule: read_rest.induct)
  case (1 n s)
  show ?case
  proof (cases "n = 0")
    case False
    obtain k e s1 where r: "sock_read n s = (k, e, s1)" by (metis prod_cases3)
    have k: "\<not> k \<le> 0" using "1.prems" False r by (auto simp: read_rest.simps [of n s])
    then obtain d' where "read_rest (n - nat k) s1 = (ok, d', s')"
      using "1.prems" False r by (auto simp: read_rest.simps [of n s] split: prod.splits)
    from "1.IH" [OF False r [symmetric] refl refl k this "1.prems"(2)] show ?thesis
      using sock_read_to_come [OF r] k by simp
  qed (use "1.prems" in \<open>simp add: read_rest.simps [of 0]\<close>)
qed

lemma read_frame_to_come:
  assumes "read_websocket_frame m n s = (Some f, s')"
  shows "to_come s' < to_come s"
proof -
  from read_frame_steps [OF assms] obtain h s1 len s2 key s3 d where
    r: "read_exactly 2 s = (Some h, s1)" "read_extended (byte (h ! 1) AND 0x7F) s1 = (Some len, s2)"
      "(if byte (h ! 1) AND 0x80 \<noteq> 0 then read_exactly 4 s2 else (Some (replicate 4 (chr 0)), s2)) = (Some key, s3)"
      "read_rest len s3 = (True, d, s')"
    by blast
  have "to_come s2 \<le> to_come s1" using read_extended_steps [OF r(2)] read_exactly_to_come by fastforce
  moreover have "to_come s3 \<le> to_come s2"
    using r(3) read_exactly_to_come [of 4 s2 key s3] by (cases "byte (h ! 1) AND 0x80 \<noteq> 0") simp_all
  ultimately show ?thesis using read_exactly_to_come [OF r(1)] read_rest_to_come [OF r(4)] by simp
qed

section \<open>Frames in packets\<close>

text \<open>
  A frame with its key, cut into packets of which the first holds the whole header, as a peer
  of the kind expected may send it.
\<close>

record arrival =
  ar_frame :: ws_frame
  ar_key :: "32 word option"
  ar_packets :: "string list"

definition ok_arrival :: "bool \<Rightarrow> nat \<Rightarrow> arrival \<Rightarrow> bool" where
  "ok_arrival masked max_len a \<longleftrightarrow>
     (let op = fr_opcode (ar_frame a); d = fr_payload (ar_frame a); fin = fr_fin (ar_frame a) in
        sendable op d fin \<and> length d \<le> max_len \<and> (ar_key a \<noteq> None \<longleftrightarrow> masked) \<and>
        concat (ar_packets a) = frame_bytes op d fin (ar_key a) \<and> list_all (\<lambda>p. p \<noteq> []) (ar_packets a) \<and>
        length (head_bytes op (length d) fin (ar_key a)) \<le> length (hd (ar_packets a)))"

lemma length_head_bytes: "length (head_bytes op len fin mk) \<le> 14" "2 \<le> length (head_bytes op len fin mk)"
  by (simp_all add: head_bytes_eq long_length_def split: option.split)

lemma content_nothing: "plain s \<Longrightarrow> content s = [] \<Longrightarrow> rbuf s = [] \<and> inbound s = []"
proof -
  assume p: "plain s" "content s = []"
  have "inbound s = []"
  proof (cases "inbound s")
    case (Cons ev evs)
    then show ?thesis using p by (cases ev) (auto simp: plain_def content_def)
  qed
  then show ?thesis using p by (simp add: content_def)
qed

lemma arrival_read:
  assumes "ok_arrival m n a" "rbuf s = []" "inbound s = map Arrive (ar_packets a) @ es"
  shows "read_websocket_frame m n s = (Some (ar_frame a), s\<lparr>inbound := es\<rparr>)"
proof -
  obtain op d fin where f: "ar_frame a = \<lparr>fr_opcode = op, fr_payload = d, fr_fin = fin\<rparr>" by (cases "ar_frame a") auto
  note o = assms(1) [unfolded ok_arrival_def f ws_frame.simps Let_def]
  let ?s = "s\<lparr>inbound := map Arrive (ar_packets a)\<rparr>"
  have "plain ?s" using o by (simp add: plain_def list_all_iff)
  moreover have c: "content ?s = frame_bytes op d fin (ar_key a) @ []" using o assms(2) by (simp add: content_def comp_def)
  moreover have "length (head_bytes op (length d) fin (ar_key a)) \<le> length (at_hand ?s)"
  proof (cases "ar_packets a")
    case Nil
    then have "frame_bytes op d fin (ar_key a) = []" using o by simp
    then show ?thesis using length_head_bytes(2) [of op "length d" fin "ar_key a"] by (simp add: frame_bytes_split)
  next
    case (Cons p ps)
    then show ?thesis using o assms(2) length_head_bytes(1) [of op "length d" fin "ar_key a"]
      by (simp add: at_hand_def read_buff_size_def)
  qed
  moreover have m: "m \<longleftrightarrow> ar_key a \<noteq> None" using o by blast
  ultimately obtain s' where s': "read_websocket_frame m n ?s = (Some (ar_frame a), s')" "plain s'" "content s' = []" "same_rest ?s s'"
    using frame_read_back [of op d fin n ?s "ar_key a" "[]"] o f by auto
  then have "s' = ?s\<lparr>inbound := []\<rparr>" using content_nothing [OF s'(2,3)] assms(2)
    by (cases s') (simp add: same_rest_def)
  then have "read_websocket_frame m n (later es ?s) = (Some (ar_frame a), later es (?s\<lparr>inbound := []\<rparr>))"
    using read_frame_more [OF s'(1)] by simp
  moreover have "later es ?s = s" using assms(3) by (simp add: Http_Frame.more_def)
  moreover have "later es (?s\<lparr>inbound := []\<rparr>) = s\<lparr>inbound := es\<rparr>" by (simp add: Http_Frame.more_def)
  ultimately show ?thesis by simp
qed

text \<open>
  A WebSocket frame is read back. Whatever the opcode, the payload, the final bit and the mask
  key, if the sender's kernel takes all its bytes and they reach the reader in packets of which
  the first holds the header, the reader gets exactly the frame and leaves what follows unread.
\<close>

theorem frame_round_trip:
  assumes "sendable op d fin" "length d \<le> max_len" "sends sw = []" "outbound sw = []"
    "write_websocket_frame op d fin mk sw = (ok, sw')"
    "concat ps = outbound sw'" "list_all (\<lambda>p. p \<noteq> []) ps" "length (head_bytes op (length d) fin mk) \<le> length (hd ps)"
    "rbuf s = []" "inbound s = map Arrive ps @ es"
  shows "ok \<and> read_websocket_frame (mk \<noteq> None) max_len s =
    (Some \<lparr>fr_opcode = op, fr_payload = d, fr_fin = fin\<rparr>, s\<lparr>inbound := es\<rparr>)"
proof -
  let ?a = "\<lparr>ar_frame = \<lparr>fr_opcode = op, fr_payload = d, fr_fin = fin\<rparr>, ar_key = mk, ar_packets = ps\<rparr>"
  have w: "ok" "outbound sw' = frame_bytes op d fin mk"
    using write_frame_all [OF assms(3), of op d fin mk] assms(4,5) by auto
  have "ok_arrival (mk \<noteq> None) max_len ?a"
    using assms(1,2,6,7,8) w(2) by (simp add: ok_arrival_def Let_def)
  from arrival_read [OF this] show ?thesis using assms(9,10) w(1) by simp
qed

theorem frame_round_trip_witness:
  "\<exists>sw'. write_websocket_frame op_text ''Hello'' True (Some 0x37FA213D) (bare_stream []) = (True, sw') \<and>
     read_websocket_frame True 16777216
       ((bare_stream [])\<lparr>inbound := map Arrive [take 7 (outbound sw'), drop 7 (outbound sw')] @ [Arrive ''x'']\<rparr>) =
     (Some \<lparr>fr_opcode = op_text, fr_payload = ''Hello'', fr_fin = True\<rparr>, (bare_stream [])\<lparr>inbound := [Arrive ''x'']\<rparr>)"
proof -
  let ?mk = "Some (0x37FA213D :: 32 word)"
  have b: "sends (bare_stream []) = []" "outbound (bare_stream []) = []" "rbuf ((bare_stream [])\<lparr>inbound := es\<rparr>) = []" for es
    by (simp_all add: bare_stream_def)
  obtain ok sw' where w: "write_websocket_frame op_text ''Hello'' True ?mk (bare_stream []) = (ok, sw')"
    by (cases "write_websocket_frame op_text ''Hello'' True ?mk (bare_stream [])")
  then have o: "outbound sw' = frame_bytes op_text ''Hello'' True ?mk"
    using write_frame_all [OF b(1), of op_text "''Hello''" True ?mk] b(2) by simp
  let ?ps = "[take 7 (outbound sw'), drop 7 (outbound sw')]"
  have l: "length (outbound sw') = 11"
    by (simp add: o frame_bytes_split head_bytes_eq long_length_def)
  have "ok \<and> read_websocket_frame (?mk \<noteq> None) 16777216 ((bare_stream [])\<lparr>inbound := map Arrive ?ps @ [Arrive ''x'']\<rparr>) =
      (Some \<lparr>fr_opcode = op_text, fr_payload = ''Hello'', fr_fin = True\<rparr>,
       (bare_stream [])\<lparr>inbound := map Arrive ?ps @ [Arrive ''x'']\<rparr>\<lparr>inbound := [Arrive ''x'']\<rparr>)"
    by (rule frame_round_trip [where ps = ?ps and es = "[Arrive ''x'']", OF _ _ b(1,2) w])
      (use l in \<open>auto simp: sendable_def b(3) head_bytes_eq long_length_def\<close>)
  then show ?thesis using w by (intro exI [of _ sw']) simp
qed

text \<open>
  C39: both routines rely on a single read or write for each piece of the header. If just the first byte of
  a frame has arrived, the frame is refused whatever follows, and a kernel that takes one byte of
  the header at first makes the writer report success for a frame that is not on the wire.
\<close>

theorem split_header_is_refused:
  "fst (read_websocket_frame m n (s\<lparr>rbuf := [], inbound := Arrive [h] # es\<rparr>)) = None \<and>
   (\<exists>s'. write_websocket_frame op d fin mk (s\<lparr>sends := [1]\<rparr>) = (True, s') \<and>
      length (outbound s') + 1 = length (outbound s) + length (frame_bytes op d fin mk))"
proof
  have "read_exactly 2 (s\<lparr>rbuf := [], inbound := Arrive [h] # es\<rparr>) = (None, s\<lparr>rbuf := [], inbound := es\<rparr>)"
    by (simp add: read_exactly_def sock_read_def recv_def read_buff_size_def)
  then show "fst (read_websocket_frame m n (s\<lparr>rbuf := [], inbound := Arrive [h] # es\<rparr>)) = None"
    by (simp add: read_websocket_frame_def)
  obtain a b ps where p: "frame_pieces op d fin mk = [a, b] # ps"
    by (cases "length d < 126"; cases "length d \<le> 0xFFFF") (auto simp: frame_pieces_def frame_head_def Let_def)
  have "write_websocket_frame op d fin mk (s\<lparr>sends := [1]\<rparr>) =
      write_pieces ps (s\<lparr>outbound := outbound s @ [a], sends := []\<rparr>)"
    by (simp add: write_websocket_frame_def p sock_write_def Let_def)
  then show "\<exists>s'. write_websocket_frame op d fin mk (s\<lparr>sends := [1]\<rparr>) = (True, s') \<and>
      length (outbound s') + 1 = length (outbound s) + length (frame_bytes op d fin mk)"
    by (simp add: write_pieces_all frame_bytes_def p)
qed

end
