(* ===== verification/Ws_Socket.thy ===== *)
theory Ws_Socket
  imports Ws_Frame
begin

text \<open>
  The class \<open>ws::WebSocket\<close> of \<open>include/httplib.h\<close>: sending, receiving, closing and the
  heartbeat of one endpoint. The reader answers pings, puts fragments together and gives a
  message only if it is within the limit and, for a text, valid UTF-8; any failure closes it.
\<close>

section \<open>The endpoint\<close>

definition max_payload :: nat where
  "max_payload = 16777216"

datatype close_status =
    Normal | Going_away | Protocol_error | Unsupported_data | No_status | Abnormal
  | Invalid_payload | Policy_violation | Message_too_big | Mandatory_extension | Internal_error

fun status_code :: "close_status \<Rightarrow> nat" where
  "status_code Normal = 1000"
| "status_code Going_away = 1001"
| "status_code Protocol_error = 1002"
| "status_code Unsupported_data = 1003"
| "status_code No_status = 1005"
| "status_code Abnormal = 1006"
| "status_code Invalid_payload = 1007"
| "status_code Policy_violation = 1008"
| "status_code Message_too_big = 1009"
| "status_code Mandatory_extension = 1010"
| "status_code Internal_error = 1011"

text \<open>
  The random generator belongs to the thread, not to the endpoint; \<open>ws_keys\<close> is the sequence of
  the numbers the endpoint gets from it and \<open>ws_drawn\<close> how many it has had.
\<close>

record websocket =
  ws_strm :: stream
  ws_server :: bool
  ws_closed :: bool
  ws_unacked :: int
  ws_keys :: "nat \<Rightarrow> 32 word"
  ws_drawn :: nat

datatype read_result = Read_fail | Read_text string | Read_binary string

definition put_frame :: "nat \<Rightarrow> string \<Rightarrow> websocket \<Rightarrow> bool \<times> websocket" where
  "put_frame op d w =
     (if ws_server w then
        (case write_websocket_frame op d True None (ws_strm w) of (ok, s) \<Rightarrow> (ok, w\<lparr>ws_strm := s\<rparr>))
      else
        (case write_websocket_frame op d True (Some (ws_keys w (ws_drawn w))) (ws_strm w) of
           (ok, s) \<Rightarrow> (ok, w\<lparr>ws_strm := s, ws_drawn := ws_drawn w + 1\<rparr>)))"

definition send_frame :: "nat \<Rightarrow> string \<Rightarrow> websocket \<Rightarrow> bool \<times> websocket" where
  "send_frame op d w = (if ws_closed w then (False, w) else put_frame op d w)"

definition send_text :: "string \<Rightarrow> websocket \<Rightarrow> bool \<times> websocket" where
  "send_text d w = send_frame op_text d w"

definition send_binary :: "string \<Rightarrow> websocket \<Rightarrow> bool \<times> websocket" where
  "send_binary d w = send_frame op_binary d w"

text \<open>Closing: the frame with status and reason, then frames are read up to the peer's answer.\<close>

function drain_close :: "bool \<Rightarrow> stream \<Rightarrow> stream" where
  "drain_close server s =
     (case read_websocket_frame server 125 s of
        (None, s') \<Rightarrow> s'
      | (Some f, s') \<Rightarrow> if fr_opcode f = op_close then s' else drain_close server s')"
  by pat_completeness auto
termination by (relation "measure (\<lambda>(server, s). to_come s)") (auto dest: read_frame_to_come [OF sym])

declare drain_close.simps [simp del]

definition close_payload :: "close_status \<Rightarrow> string \<Rightarrow> string" where
  "close_payload status reason =
     (let code = status_code status in chr (drop_bit 8 code AND 0xFF) # chr (code AND 0xFF) # take 123 reason)"

definition ws_close :: "close_status \<Rightarrow> string \<Rightarrow> websocket \<Rightarrow> websocket" where
  "ws_close status reason w =
     (if ws_closed w then w
      else let w1 = snd (put_frame op_close (close_payload status reason) (w\<lparr>ws_closed := True\<rparr>))
        in w1\<lparr>ws_strm := drain_close (ws_server w1) (ws_strm w1)\<rparr>)"

section \<open>Receiving\<close>

definition give_up :: "websocket \<Rightarrow> websocket" where
  "give_up w = w\<lparr>ws_closed := True\<rparr>"

text \<open>The answer to a close frame of the peer.\<close>

definition echo_close :: "string \<Rightarrow> websocket \<Rightarrow> websocket" where
  "echo_close d w = snd (put_frame op_close d (w\<lparr>ws_closed := True\<rparr>))"

lemma write_pieces_inbound: "write_pieces ds s = (ok, s') \<Longrightarrow> inbound s' = inbound s \<and> rbuf s' = rbuf s"
proof (induction ds arbitrary: s)
  case (Cons d ds)
  obtain k s1 where w: "sock_write d s = (k, s1)" by (cases "sock_write d s")
  then have "inbound s1 = inbound s \<and> rbuf s1 = rbuf s"
    by (auto simp: sock_write_def Let_def split: list.splits if_splits)
  then show ?case using Cons w by (auto split: if_splits)
qed simp

lemma put_frame_keeps:
  assumes "put_frame op d w = (ok, w')"
  shows "inbound (ws_strm w') = inbound (ws_strm w)" "rbuf (ws_strm w') = rbuf (ws_strm w)" "ws_server w' = ws_server w"
    "ws_closed w' = ws_closed w" "ws_unacked w' = ws_unacked w" "ws_keys w' = ws_keys w"
  using assms write_pieces_inbound
  by (auto simp: put_frame_def write_websocket_frame_def split: if_splits prod.splits)

lemma put_frame_to_come: "to_come (ws_strm (snd (put_frame op d w))) = to_come (ws_strm w)"
  using put_frame_keeps(1,2) [of op d w] by (cases "put_frame op d w") (simp add: to_come_def)

function ws_continue :: "string \<Rightarrow> websocket \<Rightarrow> string option \<times> websocket" where
  "ws_continue msg w =
     (case read_websocket_frame (ws_server w) max_payload (ws_strm w) of
        (None, s) \<Rightarrow> (None, give_up (w\<lparr>ws_strm := s\<rparr>))
      | (Some f, s) \<Rightarrow>
          (let w1 = w\<lparr>ws_strm := s\<rparr>; op = fr_opcode f; d = fr_payload f in
           if op = op_ping then ws_continue msg (snd (put_frame op_pong d w1))
           else if op = op_pong then ws_continue msg (w1\<lparr>ws_unacked := 0\<rparr>)
           else if op = op_close then (None, echo_close d w1)
           else if op \<noteq> op_continuation then (None, give_up w1)
           else if max_payload < length (msg @ d) then (None, give_up w1)
           else if fr_fin f then (Some (msg @ d), w1)
           else ws_continue (msg @ d) w1))"
  by pat_completeness auto
termination
  by (relation "measure (\<lambda>(msg, w). to_come (ws_strm w))") (auto simp: put_frame_to_come dest: read_frame_to_come [OF sym])

declare ws_continue.simps [simp del]

text \<open>The check of a complete message, which closes on a text that is not UTF-8.\<close>

definition deliver :: "bool \<Rightarrow> string \<Rightarrow> websocket \<Rightarrow> read_result \<times> websocket" where
  "deliver is_text msg w =
     (if is_text \<and> \<not> is_valid_utf8 msg then (Read_fail, ws_close Invalid_payload ''invalid UTF-8'' w)
      else (if is_text then Read_text msg else Read_binary msg, w))"

function ws_read :: "websocket \<Rightarrow> read_result \<times> websocket" where
  "ws_read w =
     (if ws_closed w then (Read_fail, w)
      else case read_websocket_frame (ws_server w) max_payload (ws_strm w) of
        (None, s) \<Rightarrow> (Read_fail, give_up (w\<lparr>ws_strm := s\<rparr>))
      | (Some f, s) \<Rightarrow>
          (let w1 = w\<lparr>ws_strm := s\<rparr>; op = fr_opcode f; d = fr_payload f in
           if op = op_ping then ws_read (snd (put_frame op_pong d w1))
           else if op = op_pong then ws_read (w1\<lparr>ws_unacked := 0\<rparr>)
           else if op = op_close then (Read_fail, echo_close d w1)
           else if op = op_text \<or> op = op_binary then
             (if fr_fin f then deliver (op = op_text) d w1
              else case ws_continue d w1 of
                     (None, w2) \<Rightarrow> (Read_fail, w2)
                   | (Some msg, w2) \<Rightarrow> deliver (op = op_text) msg w2)
           else (Read_fail, give_up w1)))"
  by pat_completeness auto
termination
  by (relation "measure (\<lambda>w. to_come (ws_strm w))") (auto simp: put_frame_to_come dest: read_frame_to_come [OF sym])

declare ws_read.simps [simp del]

section \<open>The heartbeat\<close>

text \<open>One turn of its loop after the wait; the flag is whether there is another one.\<close>

definition heartbeat_turn :: "int \<Rightarrow> websocket \<Rightarrow> bool \<times> websocket" where
  "heartbeat_turn max_missed w =
     (if ws_closed w then (False, w)
      else if 0 < max_missed \<and> max_missed \<le> ws_unacked w then (False, ws_close Going_away ''pong timeout'' w)
      else case send_frame op_ping [] w of
        (False, w') \<Rightarrow> (False, w'\<lparr>ws_closed := True\<rparr>)
      | (True, w') \<Rightarrow> (True, w'\<lparr>ws_unacked := ws_unacked w' + 1\<rparr>))"

fun heartbeat :: "int \<Rightarrow> nat \<Rightarrow> websocket \<Rightarrow> websocket" where
  "heartbeat max_missed 0 w = w"
| "heartbeat max_missed (Suc n) w =
     (case heartbeat_turn max_missed w of (False, w') \<Rightarrow> w' | (True, w') \<Rightarrow> heartbeat max_missed n w')"

section \<open>What a reader is given\<close>

lemma put_frame_closed [simp]:
  "ws_closed (snd (put_frame op d w)) = ws_closed w" "ws_server (snd (put_frame op d w)) = ws_server w"
  using put_frame_keeps(3,4) [of op d w] by (cases "put_frame op d w"; simp)+

lemma ends_closed [simp]:
  "ws_closed (give_up w)" "ws_closed (echo_close d w)" "ws_closed (ws_close st reason w)"
  by (simp_all add: give_up_def echo_close_def ws_close_def Let_def)

lemma continue_sound:
  "ws_continue msg w = (r, w') \<Longrightarrow>
     (case r of None \<Rightarrow> ws_closed w' | Some m \<Rightarrow> length m \<le> max_payload \<and> ws_closed w' = ws_closed w)"
proof (induction msg w rule: ws_continue.induct)
  case (1 msg w)
  obtain o1 s where f: "read_websocket_frame (ws_server w) max_payload (ws_strm w) = (o1, s)"
    by (cases "read_websocket_frame (ws_server w) max_payload (ws_strm w)")
  note step = ws_continue.simps [of msg w, unfolded f prod.case Let_def]
  show ?case
  proof (cases o1)
    case None
    then show ?thesis using "1.prems" unfolding step by auto
  next
    case (Some g)
    note IH = "1.IH" [OF f [symmetric] Some refl refl refl]
    show ?thesis using "1.prems" IH unfolding step Some option.case by (cases r) (auto split: if_splits)
  qed
qed

text \<open>
  Whatever arrives, a message handed to the program is at most 16 MiB long and, if it is a
  text, valid UTF-8, and the endpoint is still open; otherwise the endpoint is closed, and a
  closed endpoint neither reads nor writes any more.
\<close>

theorem reader_is_sound:
  "(case ws_read w of
      (Read_fail, w') \<Rightarrow> ws_closed w' \<and> ws_read w' = (Read_fail, w') \<and> send_frame op d w' = (False, w') \<and> ws_close st reason w' = w'
    | (Read_text m, w') \<Rightarrow> is_valid_utf8 m \<and> length m \<le> max_payload \<and> \<not> ws_closed w'
    | (Read_binary m, w') \<Rightarrow> length m \<le> max_payload \<and> \<not> ws_closed w')"
proof (induction w rule: ws_read.induct)
  case (1 w)
  have shut: "ws_closed u \<Longrightarrow> ws_read u = (Read_fail, u) \<and> send_frame op d u = (False, u) \<and> ws_close st reason u = u" for u
    by (simp add: ws_read.simps [of u] send_frame_def ws_close_def)
  show ?case
  proof (cases "ws_closed w")
    case True
    then show ?thesis using shut by simp
  next
    case False
    obtain o1 s where f: "read_websocket_frame (ws_server w) max_payload (ws_strm w) = (o1, s)"
      by (cases "read_websocket_frame (ws_server w) max_payload (ws_strm w)")
    note step = ws_read.simps [of w, unfolded f prod.case Let_def if_not_P [OF False]]
    show ?thesis
    proof (cases o1)
      case None
      then show ?thesis unfolding step using shut [of "give_up (w\<lparr>ws_strm := s\<rparr>)"] by simp
    next
      case (Some g)
      let ?w = "w\<lparr>ws_strm := s\<rparr>"
      note IH = "1.IH" [OF False f [symmetric] Some refl refl refl]
      have del: "case deliver t m u of
          (Read_fail, w') \<Rightarrow> ws_closed w' \<and> ws_read w' = (Read_fail, w') \<and> send_frame op d w' = (False, w') \<and> ws_close st reason w' = w'
        | (Read_text m, w') \<Rightarrow> is_valid_utf8 m \<and> length m \<le> max_payload \<and> \<not> ws_closed w'
        | (Read_binary m, w') \<Rightarrow> length m \<le> max_payload \<and> \<not> ws_closed w'" if "length m \<le> max_payload" "\<not> ws_closed u" for t m u
        using that shut [of "ws_close Invalid_payload ''invalid UTF-8'' u"] by (simp add: deliver_def)
      obtain o2 w2 where c: "ws_continue (fr_payload g) ?w = (o2, w2)" by (cases "ws_continue (fr_payload g) ?w")
      have l: "length (fr_payload g) \<le> max_payload" using read_frame_length f Some by blast
      show ?thesis
        unfolding step Some option.case
        using IH del [OF l, of ?w] continue_sound [OF c] False c shut [of "echo_close (fr_payload g) ?w"] shut [of "give_up ?w"] shut [of w2]
          del [where u = w2]
        by (cases o2) (auto split: if_split)
    qed
  qed
qed

section \<open>Messages in fragments\<close>

text \<open>The data frames of a message in the given pieces, and the pongs that answer a list of frames.\<close>

fun fragments :: "nat \<Rightarrow> string list \<Rightarrow> ws_frame list" where
  "fragments op [] = []"
| "fragments op [d] = [\<lparr>fr_opcode = op, fr_payload = d, fr_fin = True\<rparr>]"
| "fragments op (d # ds) = \<lparr>fr_opcode = op, fr_payload = d, fr_fin = False\<rparr> # fragments op_continuation ds"

definition pongs :: "ws_frame list \<Rightarrow> string" where
  "pongs fs = concat (map (\<lambda>f. frame_bytes op_pong (fr_payload f) True None) (filter (\<lambda>f. fr_opcode f = op_ping) fs))"

definition acks :: "ws_frame list \<Rightarrow> int \<Rightarrow> int" where
  "acks fs n = (if list_ex (\<lambda>f. fr_opcode f = op_pong) fs then 0 else n)"

definition arriving :: "arrival list \<Rightarrow> recv_event list" where
  "arriving as = concat (map (\<lambda>a. map Arrive (ar_packets a)) as)"

text \<open>Control frames only, besides those of the message, and the message's last frame at the end.\<close>

definition carries_message :: "nat \<Rightarrow> string list \<Rightarrow> ws_frame list \<Rightarrow> bool" where
  "carries_message op ds fs \<longleftrightarrow> filter (\<lambda>f. fr_opcode f < 8) fs = fragments op ds \<and>
     list_all (\<lambda>f. fr_opcode f < 8 \<or> fr_opcode f = op_ping \<or> fr_opcode f = op_pong) fs \<and> fr_opcode (last fs) < 8"

definition after_frames :: "ws_frame list \<Rightarrow> recv_event list \<Rightarrow> websocket \<Rightarrow> websocket" where
  "after_frames fs es w = w\<lparr>ws_strm := (ws_strm w)\<lparr>inbound := es, outbound := outbound (ws_strm w) @ pongs fs\<rparr>,
     ws_unacked := acks fs (ws_unacked w)\<rparr>"

text \<open>The next frame of a server whose stream delivers arrivals.\<close>

definition serves :: "arrival list \<Rightarrow> recv_event list \<Rightarrow> websocket \<Rightarrow> bool" where
  "serves as es w \<longleftrightarrow> ws_server w \<and> rbuf (ws_strm w) = [] \<and> sends (ws_strm w) = [] \<and>
     inbound (ws_strm w) = arriving as @ es \<and> list_all (ok_arrival True max_payload) as"

lemma serves_read:
  assumes "serves (a # as) es w"
  shows "read_websocket_frame (ws_server w) max_payload (ws_strm w) = (Some (ar_frame a), (ws_strm w)\<lparr>inbound := arriving as @ es\<rparr>)"
    "serves as es (w\<lparr>ws_strm := (ws_strm w)\<lparr>inbound := arriving as @ es\<rparr>\<rparr>)"
  using assms arrival_read [of True max_payload a "ws_strm w" "arriving as @ es"]
  by (simp_all add: serves_def arriving_def)

lemma pong_state:
  assumes "serves as es w"
  shows "put_frame op_pong d w = (True, w\<lparr>ws_strm := (ws_strm w)\<lparr>outbound := outbound (ws_strm w) @ frame_bytes op_pong d True None\<rparr>\<rparr>)"
  using assms by (simp add: serves_def put_frame_def write_frame_all)

lemma serves_pong: "serves as es w \<Longrightarrow> serves as es (snd (put_frame op_pong d w))"
  by (simp add: pong_state) (simp add: serves_def)

lemma serves_ack: "serves as es w \<Longrightarrow> serves as es (w\<lparr>ws_unacked := 0\<rparr>)"
  by (simp add: serves_def)

lemma after_ping:
  assumes "serves (a # as) es w" "fr_opcode (ar_frame a) = op_ping"
  shows "after_frames fs es (snd (put_frame op_pong (fr_payload (ar_frame a)) (w\<lparr>ws_strm := (ws_strm w)\<lparr>inbound := arriving as @ es\<rparr>\<rparr>))) =
    after_frames (ar_frame a # fs) es w"
  using assms(2) pong_state [OF serves_read(2) [OF assms(1)]] by (simp add: after_frames_def pongs_def acks_def)

lemma after_pong:
  assumes "fr_opcode f = op_pong"
  shows "after_frames fs es (w\<lparr>ws_strm := (ws_strm w)\<lparr>inbound := x\<rparr>, ws_unacked := 0\<rparr>) = after_frames (f # fs) es w"
  using assms by (simp add: after_frames_def pongs_def acks_def)

lemma after_data:
  assumes "fr_opcode f < 8"
  shows "after_frames fs es (w\<lparr>ws_strm := (ws_strm w)\<lparr>inbound := x\<rparr>\<rparr>) = after_frames (f # fs) es w"
  using assms by (simp add: after_frames_def pongs_def acks_def)

lemma after_last: "fr_opcode f < 8 \<Longrightarrow> w\<lparr>ws_strm := (ws_strm w)\<lparr>inbound := es\<rparr>\<rparr> = after_frames [f] es w"
  by (simp add: after_frames_def pongs_def acks_def)

lemma fragments_more: "ds \<noteq> [] \<Longrightarrow> fragments op (d # ds) = \<lparr>fr_opcode = op, fr_payload = d, fr_fin = False\<rparr> # fragments op_continuation ds"
  by (cases ds) simp_all

lemma fragments_nonempty: "ds \<noteq> [] \<Longrightarrow> fragments op ds \<noteq> []"
  by (induction op ds rule: fragments.induct) simp_all

text \<open>The first frame of a message with control frames in between.\<close>

lemma carries_control:
  assumes "carries_message op ds (f # fs)" "8 \<le> fr_opcode f" "ds \<noteq> []"
  shows "(fr_opcode f = op_ping \<or> fr_opcode f = op_pong) \<and> carries_message op ds fs"
proof -
  have "fs \<noteq> []" using assms(1,2) by (auto simp: carries_message_def)
  then show ?thesis using assms(1,2) by (auto simp: carries_message_def)
qed

lemma carries_data:
  assumes "carries_message op (d # ds) (f # fs)" "fr_opcode f < 8"
  shows "f = \<lparr>fr_opcode = op, fr_payload = d, fr_fin = (ds = [])\<rparr>" "ds = [] \<Longrightarrow> fs = []" "ds \<noteq> [] \<Longrightarrow> carries_message op_continuation ds fs"
proof -
  have c: "f # filter (\<lambda>f. fr_opcode f < 8) fs = fragments op (d # ds)" using assms by (simp add: carries_message_def)
  then show "f = \<lparr>fr_opcode = op, fr_payload = d, fr_fin = (ds = [])\<rparr>" by (cases ds) simp_all
  show "fs = []" if "ds = []"
  proof (rule ccontr)
    assume "fs \<noteq> []"
    then have "last fs \<in> set fs" "fr_opcode (last fs) < 8" using assms(1) by (simp_all add: carries_message_def)
    moreover have "filter (\<lambda>f. fr_opcode f < 8) fs = []" using c that by simp
    ultimately show False by (auto simp: filter_empty_conv)
  qed
  show "carries_message op_continuation ds fs" if "ds \<noteq> []"
  proof -
    have e: "filter (\<lambda>f. fr_opcode f < 8) fs = fragments op_continuation ds" using c fragments_more [OF that] by simp
    then have "fs \<noteq> []" using fragments_nonempty [OF that, of op_continuation] by fastforce
    then show ?thesis using assms(1) e by (simp add: carries_message_def)
  qed
qed

lemma continue_assembles:
  assumes "serves as es w" "carries_message op_continuation ds (map ar_frame as)" "ds \<noteq> []"
    "length (msg @ concat ds) \<le> max_payload"
  shows "ws_continue msg w = (Some (msg @ concat ds), after_frames (map ar_frame as) es w)"
  using assms
proof (induction as arbitrary: w msg ds)
  case Nil
  then show ?case using fragments_nonempty [of ds op_continuation] by (simp add: carries_message_def)
next
  case (Cons a as)
  let ?f = "ar_frame a"
  let ?w = "w\<lparr>ws_strm := (ws_strm w)\<lparr>inbound := arriving as @ es\<rparr>\<rparr>"
  note r = serves_read [OF Cons.prems(1)]
  note step = ws_continue.simps [of msg w, unfolded r(1) prod.case option.case Let_def]
  show ?case
  proof (cases "fr_opcode ?f < 8")
    case False
    then have c: "fr_opcode ?f = op_ping \<or> fr_opcode ?f = op_pong" "carries_message op_continuation ds (map ar_frame as)"
      using carries_control [of op_continuation ds ?f "map ar_frame as"] Cons.prems(2,3) by simp_all
    show ?thesis
    proof (cases "fr_opcode ?f = op_ping")
      case True
      then show ?thesis
        using Cons.IH [OF serves_pong [OF r(2)] c(2) Cons.prems(3,4)] after_ping [OF Cons.prems(1) True]
        unfolding step by simp
    next
      case no: False
      then have po: "fr_opcode ?f = op_pong" using c(1) by simp
      have "ws_continue msg w = ws_continue msg (?w\<lparr>ws_unacked := 0\<rparr>)" unfolding step using po by simp
      also have "\<dots> = (Some (msg @ concat ds), after_frames (map ar_frame as) es (?w\<lparr>ws_unacked := 0\<rparr>))"
        by (rule Cons.IH [OF serves_ack [OF r(2)] c(2) Cons.prems(3,4)])
      finally show ?thesis using after_pong [OF po] by simp
    qed
  next
    case True
    obtain d ds' where ds: "ds = d # ds'" using Cons.prems(3) by (cases ds) auto
    note c = carries_data [of op_continuation d ds' ?f "map ar_frame as"]
    have f: "fr_opcode ?f = op_continuation" "fr_payload ?f = d" "fr_fin ?f = (ds' = [])"
      using c(1) True Cons.prems(2) ds by simp_all
    have l: "\<not> max_payload < length (msg @ d)" using Cons.prems(4) ds by simp
    show ?thesis
    proof (cases "ds' = []")
      case fin: True
      then have "as = []" using c(2) True Cons.prems(2) ds by simp
      then show ?thesis unfolding step using f l fin ds after_last [OF True] by (simp add: arriving_def)
    next
      case more: False
      have "ws_continue (msg @ d) ?w = (Some ((msg @ d) @ concat ds'), after_frames (map ar_frame as) es ?w)"
        using Cons.prems(2,4) ds True more c(3) by (intro Cons.IH [OF r(2)]) simp_all
      then show ?thesis unfolding step using f l more ds after_data [OF True] by simp
    qed
  qed
qed

text \<open>
  C37: a server endpoint puts messages together. A text (in valid UTF-8) or binary message cut
  into any number of fragments, with pings and pongs in between, every frame masked with a key
  of its own and its payload in packets of any size, is handed over as one message; every ping
  is answered by a pong with its payload, in order, a pong resets the count of missed ones, and
  what follows the last frame stays unread.
\<close>

theorem message_is_assembled:
  assumes "serves as es w" "\<not> ws_closed w" "carries_message op ds (map ar_frame as)" "ds \<noteq> []"
    "length (concat ds) \<le> max_payload" "op = op_binary \<or> op = op_text \<and> is_valid_utf8 (concat ds)"
  shows "ws_read w = (if op = op_text then Read_text (concat ds) else Read_binary (concat ds),
    w\<lparr>ws_strm := (ws_strm w)\<lparr>inbound := es, outbound := outbound (ws_strm w) @ pongs (map ar_frame as)\<rparr>,
      ws_unacked := acks (map ar_frame as) (ws_unacked w)\<rparr>)"
  unfolding after_frames_def [symmetric]
  using assms
proof (induction as arbitrary: w)
  case Nil
  then show ?case using fragments_nonempty [of ds op] by (simp add: carries_message_def)
next
  case (Cons a as)
  let ?f = "ar_frame a"
  let ?w = "w\<lparr>ws_strm := (ws_strm w)\<lparr>inbound := arriving as @ es\<rparr>\<rparr>"
  let ?r = "if op = op_text then Read_text (concat ds) else Read_binary (concat ds)"
  note r = serves_read [OF Cons.prems(1)]
  note step = ws_read.simps [of w, unfolded r(1) prod.case option.case Let_def if_not_P [OF Cons.prems(2)]]
  show ?case
  proof (cases "fr_opcode ?f < 8")
    case False
    then have c: "fr_opcode ?f = op_ping \<or> fr_opcode ?f = op_pong" "carries_message op ds (map ar_frame as)"
      using carries_control [of op ds ?f "map ar_frame as"] Cons.prems(3,4) by simp_all
    show ?thesis
    proof (cases "fr_opcode ?f = op_ping")
      case True
      have "ws_read (snd (put_frame op_pong (fr_payload ?f) ?w)) =
          (?r, after_frames (map ar_frame as) es (snd (put_frame op_pong (fr_payload ?f) ?w)))"
        using Cons.prems(2) by (intro Cons.IH [OF serves_pong [OF r(2)] _ c(2) Cons.prems(4-6)]) simp
      then show ?thesis unfolding step using after_ping [OF Cons.prems(1) True] True by simp
    next
      case no: False
      then have po: "fr_opcode ?f = op_pong" using c(1) by simp
      have "ws_read w = ws_read (?w\<lparr>ws_unacked := 0\<rparr>)" unfolding step using po by simp
      also have "\<dots> = (?r, after_frames (map ar_frame as) es (?w\<lparr>ws_unacked := 0\<rparr>))"
        using Cons.prems(2) by (intro Cons.IH [OF serves_ack [OF r(2)] _ c(2) Cons.prems(4-6)]) simp
      finally show ?thesis using after_pong [OF po] by simp
    qed
  next
    case True
    obtain d ds' where ds: "ds = d # ds'" using Cons.prems(4) by (cases ds) auto
    note c = carries_data [of op d ds' ?f "map ar_frame as"]
    have f: "fr_opcode ?f = op" "fr_payload ?f = d" "fr_fin ?f = (ds' = [])"
      using c(1) True Cons.prems(3) ds by simp_all
    have op: "op \<noteq> op_ping" "op \<noteq> op_pong" "op \<noteq> op_close" "op = op_text \<or> op = op_binary" using Cons.prems(6) by auto
    have del: "deliver (op = op_text) (concat ds) u = (?r, u)" for u using Cons.prems(6) by (auto simp: deliver_def)
    show ?thesis
    proof (cases "ds' = []")
      case fin: True
      then have "as = []" using c(2) True Cons.prems(3) ds by simp
      then show ?thesis unfolding step using f op fin ds del after_last [OF True] by (simp add: arriving_def)
    next
      case more: False
      have "ws_continue d ?w = (Some (d @ concat ds'), after_frames (map ar_frame as) es ?w)"
        using Cons.prems(3,5) ds True more c(3) by (intro continue_assembles [OF r(2)]) simp_all
      then show ?thesis unfolding step using f op more ds del after_data [OF True] by simp
    qed
  qed
qed

definition demo_arrivals :: "arrival list" where
  "demo_arrivals =
     (let text = \<lparr>fr_opcode = op_text, fr_payload = ''Hel'', fr_fin = False\<rparr>; ping = \<lparr>fr_opcode = op_ping, fr_payload = ''?'', fr_fin = True\<rparr>;
          rest = \<lparr>fr_opcode = op_continuation, fr_payload = ''lo'', fr_fin = True\<rparr>;
          one = (\<lambda>f k. \<lparr>ar_frame = f, ar_key = Some k, ar_packets = [frame_bytes (fr_opcode f) (fr_payload f) (fr_fin f) (Some k)]\<rparr>)
      in [one text 7, one ping 8, one rest 9])"

theorem message_is_assembled_witness:
  "\<exists>w'. ws_read \<lparr>ws_strm = (bare_stream [])\<lparr>inbound := arriving demo_arrivals @ []\<rparr>, ws_server = True, ws_closed = False,
      ws_unacked = 1, ws_keys = (\<lambda>_. 0), ws_drawn = 0\<rparr> = (Read_text ''Hello'', w') \<and>
     outbound (ws_strm w') = frame_bytes op_pong ''?'' True None"
proof -
  let ?w = "\<lparr>ws_strm = (bare_stream [])\<lparr>inbound := arriving demo_arrivals @ []\<rparr>, ws_server = True, ws_closed = False,
      ws_unacked = 1, ws_keys = (\<lambda>_. 0), ws_drawn = 0\<rparr>"
  have "head_bytes op len fin mk \<noteq> []" for op len fin mk by (simp add: head_bytes_eq)
  then have "serves demo_arrivals [] ?w"
    by (simp add: serves_def bare_stream_def demo_arrivals_def Let_def ok_arrival_def sendable_def max_payload_def frame_bytes_split)
  moreover have "carries_message op_text [''Hel'', ''lo''] (map ar_frame demo_arrivals)"
    by (simp add: carries_message_def demo_arrivals_def Let_def)
  moreover have "is_valid_utf8 (concat [''Hel'', ''lo''])" by simp
  ultimately show ?thesis
    using message_is_assembled [of demo_arrivals "[]" ?w op_text "[''Hel'', ''lo'']"]
    by (simp add: max_payload_def pongs_def demo_arrivals_def Let_def bare_stream_def)
qed

section \<open>A peer that does not answer\<close>

lemma put_server: "ws_server w \<Longrightarrow> sends (ws_strm w) = [] \<Longrightarrow>
    put_frame op d w = (True, w\<lparr>ws_strm := (ws_strm w)\<lparr>outbound := outbound (ws_strm w) @ frame_bytes op d True None\<rparr>\<rparr>)"
  by (simp add: put_frame_def write_frame_all)

text \<open>
  C1: the heartbeat of a server whose peer never answers sends exactly the permitted number of
  pings, then the closing frame \<open>1001 pong timeout\<close>, and ends.
\<close>

theorem heartbeat_gives_up:
  assumes "ws_server w" "\<not> ws_closed w" "sends (ws_strm w) = []" "inbound (ws_strm w) = []" "rbuf (ws_strm w) = []"
    "0 < k" "ws_unacked w + int m = k" "m < n"
  shows "\<exists>w'. heartbeat k n w = w' \<and> ws_closed w' \<and>
    outbound (ws_strm w') = outbound (ws_strm w) @ concat (replicate m (frame_bytes op_ping [] True None)) @
      frame_bytes op_close (close_payload Going_away ''pong timeout'') True None"
  using assms
proof (induction m arbitrary: n w)
  case 0
  obtain n' where n: "n = Suc n'" using 0 by (cases n) auto
  have d: "drain_close True s = s\<lparr>s_error := Err_ConnectionClosed\<rparr>" if "inbound s = []" "rbuf s = []" for s
    using that by (simp add: drain_close.simps read_websocket_frame_def read_exactly_def sock_read_def recv_def read_buff_size_def)
  show ?case using 0 put_server [of "w\<lparr>ws_closed := True\<rparr>" op_close "close_payload Going_away ''pong timeout''"]
    by (simp add: n heartbeat_turn_def ws_close_def d)
next
  case (Suc m)
  obtain n' where n: "n = Suc n'" using Suc.prems by (cases n) auto
  let ?w = "w\<lparr>ws_strm := (ws_strm w)\<lparr>outbound := outbound (ws_strm w) @ frame_bytes op_ping [] True None\<rparr>, ws_unacked := ws_unacked w + 1\<rparr>"
  have "heartbeat k n w = heartbeat k n' ?w"
    using Suc.prems put_server [OF Suc.prems(1,3), of op_ping "[]"] by (simp add: n heartbeat_turn_def send_frame_def)
  moreover have "\<exists>w'. heartbeat k n' ?w = w' \<and> ws_closed w' \<and>
    outbound (ws_strm w') = outbound (ws_strm ?w) @ concat (replicate m (frame_bytes op_ping [] True None)) @
      frame_bytes op_close (close_payload Going_away ''pong timeout'') True None"
    using Suc.prems n by (intro Suc.IH) simp_all
  ultimately show ?case by simp
qed

end
