(* ===== verification/Http_Request_Props.thy ===== *)
theory Http_Request_Props
  imports Http_Serve_Props
begin

text \<open>
  Properties of taking a request in: the request line a client builds from a path and
  parameters is read back as these, and the body handed to a handler respects the limit.
\<close>

section \<open>The payload limit\<close>

text \<open>What a receiver keeps is kept by each of the loops that feed it.\<close>

definition keeps :: "('a \<Rightarrow> bool) \<Rightarrow> 'a receiver \<Rightarrow> bool" where
  "keeps P out \<longleftrightarrow> (\<forall>d off len a ok a'. P a \<longrightarrow> out d off len a = (ok, a') \<longrightarrow> P a')"

lemma keepsD: "keeps P out \<Longrightarrow> P a \<Longrightarrow> out d off len a = (ok, a') \<Longrightarrow> P a'"
  by (auto simp: keeps_def)

lemma with_length_keeps:
  "keeps P out \<Longrightarrow> P a \<Longrightarrow> with_length_loop len pr out r br a s = (rc, a', s') \<Longrightarrow> P a'"
proof (induction len pr out r br a s rule: with_length_loop.induct)
  case (1 len pr out r br a s)
  obtain n d br' s1 where b: "body_read (min (len - r) recv_bufsiz) br s = (n, d, br', s1)" by (metis prod_cases4)
  obtain ok a1 where o: "out d r len a = (ok, a1)" by (metis surj_pair)
  note a1 = keepsD [OF "1.prems"(1,2) o]
  show ?case
  proof (cases "r < len \<and> 0 < n \<and> ok \<and> (case pr of None \<Rightarrow> True | Some p \<Rightarrow> p (r + nat n) len)")
    case True
    then have t: "r < len" "\<not> n \<le> 0" "ok" "case pr of None \<Rightarrow> True | Some p \<Rightarrow> p (r + nat n) len" by auto
    have "with_length_loop len pr out (r + nat n) br' a1 s1 = (rc, a', s')"
      using "1.prems"(3) t b o by (subst (asm) with_length_loop.simps) simp
    with "1.IH" [OF t(1) b [symmetric] refl refl t(2) o [symmetric]] show ?thesis
      using t(3,4) a1 "1.prems"(1) by simp
  next
    case False
    then show ?thesis using "1.prems" a1 b o
      by (subst (asm) with_length_loop.simps) (auto split: if_splits bool.splits)
  qed
qed

lemma without_length_keeps:
  "keeps P out \<Longrightarrow> P a \<Longrightarrow> without_length_loop m out r a s = (rc, a', s') \<Longrightarrow> P a'"
proof (induction m out r a s rule: without_length_loop.induct)
  case (1 m out r a s)
  obtain n d s1 where b: "sock_read recv_bufsiz s = (n, d, s1)" by (metis prod_cases3)
  obtain ok a1 where o: "out d r 0 a = (ok, a1)" by (metis surj_pair)
  note a1 = keepsD [OF "1.prems"(1,2) o]
  show ?case
  proof (cases "0 < n \<and> \<not> (m < r \<or> m - r < nat n) \<and> ok")
    case True
    then have t: "n \<noteq> 0" "\<not> n < 0" "\<not> (m < r \<or> m - r < nat n)" ok by auto
    have "without_length_loop m out (r + nat n) a1 s1 = (rc, a', s')"
      using "1.prems"(3) t b o by (subst (asm) without_length_loop.simps) simp
    with "1.IH" [OF b [symmetric] refl t(1-3) o [symmetric]] show ?thesis using t(4) a1 "1.prems"(1) by simp
  next
    case False
    then show ?thesis using "1.prems" a1 b o
      by (subst (asm) without_length_loop.simps) (auto split: if_splits bool.splits)
  qed
qed

lemma chunked_keeps:
  "keeps P out \<Longrightarrow> P a \<Longrightarrow> chunked_loop m out got dec a s = (rc, a', s') \<Longrightarrow> P a'"
proof (induction m out got dec a s rule: chunked_loop.induct)
  case (1 m out got dec a s)
  obtain n d off tot dec' s1 where b: "read_payload recv_bufsiz dec s = (n, d, off, tot, dec', s1)" by (metis prod_cases6)
  obtain ok a1 where o: "out d off tot a = (ok, a1)" by (metis surj_pair)
  note a1 = keepsD [OF "1.prems"(1,2) o]
  show ?case
  proof (cases "0 < n \<and> \<not> (m < got \<or> m - got < nat n) \<and> ok")
    case True
    then have t: "\<not> n < 0" "n \<noteq> 0" "\<not> (m < got \<or> m - got < nat n)" ok by auto
    have "chunked_loop m out (got + nat n) dec' a1 s1 = (rc, a', s')"
      using "1.prems"(3) t b o by (subst (asm) chunked_loop.simps) simp
    with "1.IH" [OF b [symmetric] refl refl refl refl t(1-3) o [symmetric]] show ?thesis using t(4) a1 "1.prems"(1) by simp
  next
    case False
    then show ?thesis using "1.prems" a1 b o
      by (subst (asm) chunked_loop.simps) (auto split: if_splits bool.splits)
  qed
qed

lemma read_content_keeps:
  assumes "keeps P out" "P a" "read_content hs tr m pr out dc a s = (v, tr', a', s')"
  shows "P a'"
proof -
  have c: "read_content_chunked hs tr m out a s = (rc, t', b, s2) \<Longrightarrow> P b" for rc t' b s2
    using chunked_keeps [OF assms(1,2)]
    by (auto simp: read_content_chunked_def split: prod.splits read_content_result.splits)
  show ?thesis
    using assms(2,3) c with_length_keeps [OF assms(1,2)] without_length_keeps [OF assms(1,2)]
    unfolding read_content_def read_content_with_length_def read_content_without_length_def Let_def
    by (auto split: if_splits prod.splits)
qed

lemma body_receiver_keeps: "0 < m \<Longrightarrow> keeps (\<lambda>cs. length (cs_body cs) \<le> m) (body_receiver m)"
  by (auto simp: keeps_def body_receiver_def split: if_splits)

lemma form_receiver_keeps: "keeps (\<lambda>cs. length (cs_body cs) \<le> m) form_receiver"
  by (auto simp: keeps_def form_receiver_def split: prod.splits)

text \<open>
  C33: the body limit holds for every framing. Whatever length a client announces, in whatever
  pieces or chunks the body arrives, and whether or not reading it succeeds, the body in the
  request is never longer than the configured maximum.
\<close>

theorem request_body_is_bounded:
  assumes "server_read_content m readable req res s = (ok, req', res', s')" "0 < m" "length (rq_body req) \<le> m"
  shows "length (rq_body req') \<le> m"
proof -
  let ?P = "\<lambda>cs. length (cs_body cs) \<le> m"
  let ?cs = "\<lparr>cs_body = rq_body req, cs_parser = new_form_parser [], cs_form = (rq_form req, False, 0)\<rparr>"
  have core: "read_content_core m readable req cs0 s = (ok1, st, req1, cs, s1) \<Longrightarrow> ?P cs0 \<Longrightarrow> ?P cs" for cs0 ok1 st req1 cs s1
  proof -
    assume c: "read_content_core m readable req cs0 s = (ok1, st, req1, cs, s1)" and p: "?P cs0"
    let ?out = "if is_multipart_form_data req then form_receiver else body_receiver m"
    have k: "keeps ?P ?out" using body_receiver_keeps [OF assms(2)] form_receiver_keeps by simp
    have p': "?P (case bd of Some b \<Rightarrow> cs0\<lparr>cs_parser := new_form_parser b\<rparr> | None \<Rightarrow> cs0)" for bd
      using p by (simp split: option.splits)
    obtain out where o: "out = ?out" by simp
    obtain cs1 where cs1: "cs1 = (case parse_multipart_boundary (rq_header req ''Content-Type'') of
        Some b \<Rightarrow> cs0\<lparr>cs_parser := new_form_parser b\<rparr> | None \<Rightarrow> cs0)" by simp
    have k1: "keeps ?P out" "?P cs1" using k p' o cs1 by simp_all
    have a: "read_content_without_length m out cs1 s = (rc, b, s2) \<Longrightarrow> ?P b" for rc b s2
      using without_length_keeps [OF k1] by (auto simp: read_content_without_length_def)
    have b: "read_content (rq_headers req) (rq_trailers req) m None out True cs1 s = (v, t, b, s2) \<Longrightarrow> ?P b" for v t b s2
      by (rule read_content_keeps [OF k1])
    show ?thesis
      using c p k1(2) unfolding read_content_core_def Let_def o [symmetric] cs1 [symmetric]
      by (auto split: if_splits prod.splits read_content_result.splits dest!: a b)
  qed
  obtain ok1 st req1 cs s1 where c: "read_content_core m readable req ?cs s = (ok1, st, req1, cs, s1)" by (metis prod_cases5)
  have "?P cs" using core [OF c] assms(3) by simp
  then show ?thesis using assms(1) c by (auto simp: server_read_content_def Let_def split: if_splits)
qed

theorem request_body_is_bounded_witness:
  "case server_read_content 3 True (new_request\<lparr>rq_headers := [(''Content-Length'', ''5'')]\<rparr>) new_response
       (bare_stream [Arrive ''ab'', Arrive ''cde'']) of (ok, req', _) \<Rightarrow> length (rq_body req') \<le> 3"
proof -
  obtain ok req' res' s' where r: "server_read_content 3 True (new_request\<lparr>rq_headers := [(''Content-Length'', ''5'')]\<rparr>) new_response
       (bare_stream [Arrive ''ab'', Arrive ''cde'']) = (ok, req', res', s')" by (metis prod_cases4)
  show ?thesis using request_body_is_bounded [OF r] unfolding r by (simp add: new_request_def)
qed

section \<open>The request line\<close>

text \<open>The characters an encoded path or query is made of.\<close>

definition target_char :: "char \<Rightarrow> bool" where
  "target_char c \<longleftrightarrow> c \<notin> {CHR 0x00, CHR 0x0A, CHR 0x0D, CHR '' '', CHR 0x09, CHR ''#''}"

lemma alnum_target: "is_alnum c \<Longrightarrow> target_char c \<and> c \<noteq> CHR ''?''"
  by (auto simp: is_alnum_def target_char_def)

lemma hex_upper_target: "d < 16 \<Longrightarrow> target_char (hex_upper d) \<and> hex_upper d \<noteq> CHR ''?''"
proof -
  have "\<forall>d \<in> set [0 ..< 16]. is_alnum (hex_upper d)" by code_simp
  then show "d < 16 \<Longrightarrow> target_char (hex_upper d) \<and> hex_upper d \<noteq> CHR ''?''" using alnum_target by simp
qed

lemma pct_target: "c \<in> set (pct d) \<Longrightarrow> target_char c \<and> c \<noteq> CHR ''?''"
  using hex_upper_target [OF byte_div_16 [of d]] hex_upper_target [of "byte d mod 16"]
  by (auto simp: pct_def target_char_def)

lemma path_encoded_target:
  assumes "c \<in> set (encode_path_component p)"
  shows "target_char c \<and> c \<noteq> CHR ''?''"
proof -
  obtain d where d: "c \<in> set (if path_plain d then [d] else pct d)" using assms unfolding encode_path_component_def set_concat set_map by blast
  have "path_plain d \<Longrightarrow> target_char d \<and> d \<noteq> CHR ''?''"
    using alnum_target by (auto simp: path_plain_def target_char_def)
  then show ?thesis using d pct_target by (auto split: if_splits)
qed

lemma query_encoded_target:
  assumes "c \<in> set (encode_query_component q True)"
  shows "target_char c"
proof -
  obtain d where d: "c \<in> set (query_char True d)" using assms unfolding encode_query_component_def set_concat set_map by blast
  have q: "query_char True (CHR 0x00) = pct (CHR 0x00)" "query_char True (CHR 0x0A) = pct (CHR 0x0A)"
    "query_char True (CHR 0x0D) = pct (CHR 0x0D)" "query_char True (CHR 0x09) = pct (CHR 0x09)"
    "query_char True (CHR ''#'') = pct (CHR ''#'')" "query_char True (CHR '' '') = ''+''"
    by (simp_all add: query_char_def is_alnum_def)
  have "target_char d" if e: "query_char True d = [d]"
  proof (rule ccontr)
    assume "\<not> target_char d"
    then have "d \<in> {CHR 0x00, CHR 0x0A, CHR 0x0D, CHR '' '', CHR 0x09, CHR ''#''}" by (simp add: target_char_def)
    then show False using e q by (auto simp: pct_def)
  qed
  moreover have "query_char True d = [d] \<or> query_char True d = pct d \<or> set (query_char True d) \<subseteq> set ''+%2B''"
    by (simp add: query_char_def)
  ultimately consider "query_char True d = [d] \<and> target_char d" | "query_char True d = pct d" | "set (query_char True d) \<subseteq> set ''+%2B''"
    by blast
  then show ?thesis
  proof cases
    case 3
    then have "c \<in> set ''+%2B''" using d by blast
    then show ?thesis by (auto simp: target_char_def)
  qed (use d pct_target in auto)
qed

lemma join_target: "(\<And>w c. w \<in> set ws \<Longrightarrow> c \<in> set w \<Longrightarrow> P c) \<Longrightarrow> P d \<Longrightarrow> c \<in> set (join d ws) \<Longrightarrow> P c"
  by (induction d ws rule: join.induct) auto

lemma query_text_target: "c \<in> set (params_to_query_str ps) \<Longrightarrow> target_char c"
proof -
  have t: "target_char (CHR ''='')" "target_char (CHR ''&'')" by (simp_all add: target_char_def)
  show "c \<in> set (params_to_query_str ps) \<Longrightarrow> target_char c" unfolding params_to_query_str_def
    by (erule join_target [rotated 2]) (use t in \<open>auto simp: query_pair_def dest: query_encoded_target\<close>)
qed

definition request_target :: "string \<Rightarrow> (string \<times> string) list \<Rightarrow> string" where
  "request_target p ps = encode_path_component p @ (if ps = [] then [] else ''?'' @ params_to_query_str ps)"

lemma request_target_chars: "c \<in> set (request_target p ps) \<Longrightarrow> target_char c"
  unfolding request_target_def using path_encoded_target query_text_target
  by (auto simp: target_char_def split: if_splits)

lemma takeWhile_all: "(\<And>c. c \<in> set xs \<Longrightarrow> P c) \<Longrightarrow> takeWhile P xs = xs"
  by (simp add: takeWhile_eq_all_conv)

lemma parse_target_written:
  assumes "params_ok ps" "distinct ps" "\<forall>p \<in> set ps. fst p \<noteq> []" "rq_target req = request_target p ps" "rq_params req = []"
  shows "parse_target req = req\<lparr>rq_path := p, rq_params := ps\<rparr>"
proof -
  have t: "takeWhile (\<lambda>c. c \<noteq> CHR ''#'') (rq_target req) = request_target p ps" unfolding assms(4)
    by (rule takeWhile_all) (use request_target_chars in \<open>auto simp: target_char_def\<close>)
  have q: "CHR ''?'' \<notin> set (encode_path_component p)" using path_encoded_target by blast
  have e: "parse_query_text [] [] = []" using parse_written_params [of "[]"] by (simp add: params_ok_def params_to_query_str_def)
  show ?thesis
  proof (cases "ps = []")
    case True
    have tw: "takeWhile (\<lambda>c. c \<noteq> CHR ''?'') (encode_path_component p) = encode_path_component p"
      by (rule takeWhile_all) (use q in auto)
    have "divide (request_target p ps) (CHR ''?'') = (encode_path_component p, [])"
      using True by (simp add: request_target_def divide_def Let_def tw)
    then show ?thesis unfolding parse_target_def t Let_def
      using True assms(4,5) e by (cases req) (simp add: decode_encoded(3))
  next
    case False
    then have "divide (request_target p ps) (CHR ''?'') = (encode_path_component p, params_to_query_str ps)"
      using divide_at [OF q] by (simp add: request_target_def)
    then show ?thesis unfolding parse_target_def t Let_def
      using assms(4,5) parse_written_params [OF assms(1-3)] by (cases req) (simp add: decode_encoded(3))
  qed
qed

text \<open>
  The request line is read back. From the line for any of the methods, any non-empty path
  whatever its bytes and any well-formed parameters, the server takes exactly this method,
  path and parameters, and the encoded target and the version as they are.
\<close>

theorem request_line_round_trip:
  assumes "m \<in> set http_methods" "v = ''HTTP/1.1'' \<or> v = ''HTTP/1.0''" "p \<noteq> []"
    "params_ok ps" "distinct ps" "\<forall>p \<in> set ps. fst p \<noteq> []"
  shows "parse_request_line (m @ '' '' @ request_target p ps @ '' '' @ v @ crlf) new_request =
    (True, new_request\<lparr>rq_method := m, rq_target := request_target p ps, rq_version := v, rq_path := p, rq_params := ps\<rparr>)"
proof -
  let ?t = "request_target p ps" and ?toks = "[m, request_target p ps, v]"
  let ?line = "m @ '' '' @ request_target p ps @ '' '' @ v @ crlf"
  have j: "join (CHR '' '') ?toks = m @ '' '' @ ?t @ '' '' @ v" by simp
  have plain: "m \<noteq> []" "v \<noteq> []" "list_all target_char m" "list_all target_char v"
    using assms(1,2) by (auto simp: http_methods_def target_char_def)
  have tk: "\<forall>w \<in> set ?toks. plain_token (CHR '' '') w"
  proof -
    have c: "list_all target_char w \<Longrightarrow> w \<noteq> [] \<Longrightarrow> plain_token (CHR '' '') w" for w
      by (auto simp: plain_token_def list_all_iff target_char_def is_space_or_tab_def)
    have "list_all target_char ?t" using request_target_chars by (simp add: list_all_iff)
    moreover have "?t \<noteq> []"
      using assms(3) by (cases p) (auto simp: request_target_def encode_path_component_def pct_def)
    ultimately show ?thesis using c plain by simp
  qed
  then have sp: "split (m @ '' '' @ ?t @ '' '' @ v) (CHR '' '') None = ?toks" using split_join [of ?toks "CHR '' ''"] j by simp
  have cs: "target_char c \<or> c \<in> {CHR '' '', CHR 0x0D, CHR 0x0A}" if "c \<in> set ?line" for c
    using that plain(3,4) request_target_chars by (auto simp: list_all_iff crlf_def)
  have "c \<noteq> CHR 0x00" if "c \<in> set ?line" for c using cs [OF that] by (auto simp: target_char_def)
  then have z: "c_str ?line = ?line" unfolding c_str_def by (rule takeWhile_all)
  have ends: "\<not> length ?line < 2" "?line ! (length ?line - 2) = CHR 0x0D" "?line ! (length ?line - 1) = CHR 0x0A"
    "take (length ?line - 2) ?line = m @ '' '' @ ?t @ '' '' @ v"
    by (simp_all add: crlf_def nth_append)
  have st: "store_line ?toks new_request = new_request\<lparr>rq_method := m, rq_target := ?t, rq_version := v\<rparr>"
    by (simp add: store_line_def Let_def)
  have pt: "parse_target (new_request\<lparr>rq_method := m, rq_target := ?t, rq_version := v\<rparr>) =
      new_request\<lparr>rq_method := m, rq_target := ?t, rq_version := v, rq_path := p, rq_params := ps\<rparr>"
    using parse_target_written [OF assms(4-6), of "new_request\<lparr>rq_method := m, rq_target := ?t, rq_version := v\<rparr>" p]
    by (simp add: new_request_def)
  have p: "parse_request_line ?line new_request =
    (let r1 = store_line ?toks new_request in
     if rq_method r1 \<notin> set http_methods then (False, r1)
     else if rq_version r1 \<noteq> ''HTTP/1.1'' \<and> rq_version r1 \<noteq> ''HTTP/1.0'' then (False, r1)
     else (True, parse_target r1))"
    unfolding parse_request_line_def z Let_def using ends sp by (simp del: append.simps append_assoc)
  show ?thesis unfolding p st Let_def pt using assms(1,2) by simp
qed

theorem request_line_round_trip_witness:
  "parse_request_line (''GET'' @ '' '' @ request_target ''/a b?'' [(''k'', ''1&2'')] @ '' '' @ ''HTTP/1.1'' @ crlf) new_request =
    (True, new_request\<lparr>rq_method := ''GET'', rq_target := request_target ''/a b?'' [(''k'', ''1&2'')], rq_version := ''HTTP/1.1'',
       rq_path := ''/a b?'', rq_params := [(''k'', ''1&2'')]\<rparr>)"
  by (rule request_line_round_trip) (simp_all add: http_methods_def params_ok_def)

end
