(* ===== verification/Ws_Handshake.thy ===== *)
theory Ws_Handshake
  imports Ws_Socket Http_Request_Props
begin

text \<open>
  The opening handshake of \<open>include/httplib.h\<close>: the server's check of an upgrade request and its
  answer, the client's request and its check of the answer. What the client asks the server
  recognises, and the client accepts exactly the answer computed from its own key.
\<close>

section \<open>The server\<close>

definition header_find :: "headers \<Rightarrow> string \<Rightarrow> string option" where
  "header_find hs key = (case equal_range hs key of [] \<Rightarrow> None | v # _ \<Rightarrow> Some v)"

definition is_websocket_upgrade :: "http_request \<Rightarrow> bool" where
  "is_websocket_upgrade req =
     (if rq_method req \<noteq> ''GET'' then False
      else case header_find (rq_headers req) ''Upgrade'' of
        None \<Rightarrow> False
      | Some upgrade \<Rightarrow>
          if to_lower upgrade \<noteq> ''websocket'' then False
          else (case header_find (rq_headers req) ''Connection'' of
            None \<Rightarrow> False
          | Some connection \<Rightarrow>
              if str_find (to_lower connection) ''upgrade'' 0 = None then False
              else (let key = rq_header req ''Sec-WebSocket-Key'' in
                if length key \<noteq> 24 \<or> key ! 22 \<noteq> CHR ''='' \<or> key ! 23 \<noteq> CHR ''='' then False
                else if \<not> list_all (\<lambda>i. key ! i \<in> set base64_lookup) [0..<22] then False
                else rq_header req ''Sec-WebSocket-Version'' = ''13'')))"

text \<open>A registered handler; it may offer a choice of subprotocols.\<close>

record 'w ws_handler =
  wh_matcher :: matcher
  wh_handler :: "http_request \<Rightarrow> websocket \<Rightarrow> 'w \<Rightarrow> websocket \<times> 'w"
  wh_selector :: "(string list \<Rightarrow> string) option"

function comma_tokens :: "string \<Rightarrow> string list" where
  "comma_tokens s =
     (if s = [] then []
      else let t = takeWhile (\<lambda>c. c \<noteq> CHR '','') s in t # comma_tokens (drop (Suc (length t)) s))"
  by pat_completeness auto
termination by (relation "measure length") auto

declare comma_tokens.simps [simp del]

definition trim_spaces :: "string \<Rightarrow> string" where
  "trim_spaces s = rev (dropWhile (\<lambda>c. c = CHR '' '') (rev (dropWhile (\<lambda>c. c = CHR '' '') s)))"

definition select_protocol :: "'w ws_handler \<Rightarrow> http_request \<Rightarrow> string" where
  "select_protocol h req =
     (case wh_selector h of
        None \<Rightarrow> []
      | Some sel \<Rightarrow>
          (let protocol_header = rq_header req ''Sec-WebSocket-Protocol'' in
           if protocol_header = [] then []
           else sel (filter (\<lambda>t. t \<noteq> []) (map trim_spaces (comma_tokens protocol_header)))))"

definition handshake_response :: "string \<Rightarrow> string \<Rightarrow> string" where
  "handshake_response accept_key sub =
     ''HTTP/1.1 101 Switching Protocols'' @ crlf @ ''Upgrade: websocket'' @ crlf @ ''Connection: Upgrade'' @ crlf @
     ''Sec-WebSocket-Accept: '' @ accept_key @ crlf @
     (if sub = [] then [] else ''Sec-WebSocket-Protocol: '' @ sub @ crlf) @ crlf"

definition server_socket :: "stream \<Rightarrow> websocket" where
  "server_socket s =
     \<lparr>ws_strm = s, ws_server = True, ws_closed = False, ws_unacked = 0, ws_keys = (\<lambda>_. 0), ws_drawn = 0\<rparr>"

text \<open>
  The stage of \<open>process_request\<close> before routing: the first handler whose pattern matches takes the
  connection over; without one the request is routed like any other, with what the matchers
  left in it. A server object keeps no key sequence, because a server does not mask.
\<close>

datatype 'w ws_stage = Not_upgraded http_request | Upgrade_failed stream | Upgraded stream 'w

fun websocket_dispatch :: "'w ws_handler list \<Rightarrow> http_request \<Rightarrow> stream \<Rightarrow> 'w \<Rightarrow> 'w ws_stage" where
  "websocket_dispatch [] req s w = Not_upgraded req"
| "websocket_dispatch (h # hs) req s w =
     (case matcher_match (wh_matcher h) req of
        (False, req') \<Rightarrow> websocket_dispatch hs req' s w
      | (True, req') \<Rightarrow>
          (let accept_key = websocket_accept_key (rq_header req' ''Sec-WebSocket-Key''); sub = select_protocol h req' in
           if sub \<noteq> [] \<and> \<not> is_field_value sub then Upgrade_failed s
           else (case sock_write (handshake_response accept_key sub) s of
                   (k, s') \<Rightarrow>
                     if k < 0 then Upgrade_failed s'
                     else (case wh_handler h req' (server_socket s') w of (ws, w') \<Rightarrow> Upgraded (ws_strm ws) w'))))"

definition websocket_stage :: "'w ws_handler list \<Rightarrow> http_request \<Rightarrow> stream \<Rightarrow> 'w \<Rightarrow> 'w ws_stage" where
  "websocket_stage hs req s w = (if is_websocket_upgrade req then websocket_dispatch hs req s w else Not_upgraded req)"

section \<open>The client\<close>

definition upgrade_fields :: "string \<Rightarrow> nat \<Rightarrow> string \<Rightarrow> headers \<Rightarrow> headers" where
  "upgrade_fields host port client_key hs =
     [(''Host'', host @ '':'' @ to_dec port), (''Upgrade'', ''websocket''), (''Connection'', ''Upgrade''),
      (''Sec-WebSocket-Key'', client_key), (''Sec-WebSocket-Version'', ''13'')] @ hs"

definition upgrade_line :: "string \<Rightarrow> string" where
  "upgrade_line path = ''GET '' @ path @ '' HTTP/1.1'' @ crlf"

definition upgrade_request :: "string \<Rightarrow> nat \<Rightarrow> string \<Rightarrow> headers \<Rightarrow> string \<Rightarrow> string" where
  "upgrade_request host port path hs client_key =
     upgrade_line path @ concat (map header_line (upgrade_fields host port client_key hs)) @ crlf"

definition read_websocket_upgrade_response :: "string \<Rightarrow> stream \<Rightarrow> bool \<times> string \<times> stream" where
  "read_websocket_upgrade_response expected_accept s =
     (case getline (new_reader 2048) s of
        (False, _, s1) \<Rightarrow> (False, [], s1)
      | (True, r, s1) \<Rightarrow>
          if str_find (lr_ptr r) ''HTTP/1.1 101'' 0 = None then (False, [], s1)
          else (case read_headers [] s1 of
                  (False, _, s2) \<Rightarrow> (False, [], s2)
                | (True, hs, s2) \<Rightarrow>
                    (case header_find hs ''Upgrade'' of
                       None \<Rightarrow> (False, [], s2)
                     | Some upgrade \<Rightarrow>
                         if to_lower upgrade \<noteq> ''websocket'' then (False, [], s2)
                         else (case header_find hs ''Connection'' of
                                 None \<Rightarrow> (False, [], s2)
                               | Some connection \<Rightarrow>
                                   if str_find (to_lower connection) ''upgrade'' 0 = None then (False, [], s2)
                                   else if header_find hs ''Sec-WebSocket-Accept'' \<noteq> Some expected_accept then (False, [], s2)
                                   else (True, (case header_find hs ''Sec-WebSocket-Protocol'' of Some v \<Rightarrow> v | None \<Rightarrow> []), s2)))))"

text \<open>The client's key: sixteen bytes of four random numbers.\<close>

definition client_key :: "32 word list \<Rightarrow> string" where
  "client_key rs = base64_encode (concat (map mask_bytes rs))"

definition perform_websocket_handshake ::
    "string \<Rightarrow> nat \<Rightarrow> string \<Rightarrow> headers \<Rightarrow> 32 word \<times> 32 word \<times> 32 word \<times> 32 word \<Rightarrow> stream \<Rightarrow> bool \<times> string \<times> stream" where
  "perform_websocket_handshake host port path hs = (\<lambda>(r0, r1, r2, r3) s.
     if \<not> is_field_value path \<or> \<not> is_field_value host then (False, [], s)
     else if \<not> list_all (\<lambda>kv. is_field_name (fst kv) \<and> is_field_value (snd kv)) hs then (False, [], s)
     else (let key = client_key [r0, r1, r2, r3] in
           case sock_write (upgrade_request host port path hs key) s of
             (k, s1) \<Rightarrow> if k < 0 then (False, [], s1) else read_websocket_upgrade_response (websocket_accept_key key) s1))"

section \<open>The key\<close>

lemma client_key_shape:
  "length (client_key [a, b, c, d]) = 24 \<and> client_key [a, b, c, d] ! 22 = CHR ''='' \<and> client_key [a, b, c, d] ! 23 = CHR ''='' \<and>
   list_all (\<lambda>i. client_key [a, b, c, d] ! i \<in> set base64_lookup) [0..<22]"
proof -
  let ?s = "concat (map mask_bytes [a, b, c, d])"
  have l: "length ?s = 16" by simp
  then obtain s15 z where s: "?s = s15 @ [z]" by (metis append_butlast_last_id length_0_conv zero_neq_numeral)
  have s15: "length s15 = 15" using l unfolding s by simp
  have tail: "base64_spec (u @ [z]) = base64_spec u @ base64_spec [z]" if "length u mod 3 = 0" for u
    using that by (induction u rule: base64_spec.induct) auto
  have "client_key [a, b, c, d] = base64_spec s15 @ [b64_char (byte z div 4), b64_char (byte z mod 4 * 16), CHR ''='', CHR ''='']"
    using tail [of s15] s15 s by (simp add: client_key_def base64_encode_spec)
  moreover have "length (base64_spec s15) = 20" using base64_encode_length [of s15] s15 by (simp add: base64_encode_spec)
  moreover have "set (base64_spec u) \<subseteq> set base64_lookup" if "length u mod 3 = 0" for u
    using that by (induction u rule: base64_spec.induct) (auto simp: b64_char_in)
  then have "set (base64_spec s15) \<subseteq> set base64_lookup" using s15 by simp
  ultimately show ?thesis by (auto simp: list_all_iff nth_append nth_Cons' b64_char_in dest: nth_mem)
qed

lemma lookup_vchar: "c \<in> insert (CHR ''='') (set base64_lookup) \<Longrightarrow> is_vchar c"
  by (auto simp: base64_lookup_def is_vchar_def)

lemma all_vchar_value: "list_all is_vchar s \<Longrightarrow> is_field_value s"
  by (cases s rule: rev_cases)
    (auto simp: is_field_value_def is_field_content_def is_field_vchar_def list_all_iff nth_append butlast_append dest: in_set_butlastD list.set_sel(2)
      split: if_splits)

lemma base64_is_value: "is_field_value (base64_encode s)"
  using base64_chars [of s] lookup_vchar by (intro all_vchar_value) (auto simp: list_all_iff)

section \<open>The two sides agree\<close>

lemma crlf_line_found:
  assumes "plain s" "content s = l @ crlf @ t" "\<forall>c \<in> set l. c \<noteq> CHR 0x0D \<and> c \<noteq> CHR 0x0A" "length l + 2 \<le> max_line_length"
  shows "\<exists>r s'. getline (new_reader 2048) s = (True, r, s') \<and> plain s' \<and> content s' = t \<and> lr_ptr r = l @ crlf"
  using getline_next [OF assms(1), of "new_reader 2048"] next_line_first [OF assms(3,4), of False t] assms(2)
  by (auto simp: new_reader_def)

lemma read_headers_written:
  assumes "plain s" "content s = concat (map header_line hs) @ crlf @ rest" "list_all field_fits hs" "length hs \<le> header_max_count"
    "one_content_length hs"
  shows "\<exists>s'. read_headers [] s = (True, hs, s') \<and> plain s' \<and> content s' = rest"
proof -
  have "0 < fixed_size (new_reader 2048)" by (simp add: new_reader_def)
  from read_headers_loop_written [OF assms(1,2) this assms(3), of 0 "[]"] assms(4,5) show ?thesis
    by (auto simp: read_headers_def)
qed

text \<open>Reading leaves what was sent alone.\<close>

lemma sock_read_outbound: "sock_read n s = (k, d, s') \<Longrightarrow> outbound s' = outbound s \<and> sends s' = sends s"
  by (auto simp: sock_read_def recv_def Let_def split: if_splits list.splits recv_event.splits)

lemma getline_loop_outbound: "getline_loop i p r s = (ok, r', s') \<Longrightarrow> outbound s' = outbound s \<and> sends s' = sends s"
proof (induction i p r s rule: getline_loop.induct)
  case (1 i p r s)
  obtain n d s1 where r: "sock_read 1 s = (n, d, s1)" by (metis prod_cases3)
  note o = sock_read_outbound [OF r]
  show ?case
  proof (cases "max_line_length \<le> lr_size r \<or> n \<le> 0 \<or> p = CHR 0x0D \<and> hd d = CHR 0x0A")
    case True
    then show ?thesis using "1.prems" r o unfolding getline_loop.simps [of i p r s]
      by (auto simp: Let_def split: if_splits)
  next
    case False
    then have "getline_loop (i + 1) (hd d) (lr_append (hd d) r) s1 = (ok, r', s')"
      using "1.prems" r unfolding getline_loop.simps [of i p r s] by (auto simp: Let_def)
    then show ?thesis using "1.IH" [OF _ refl, of n "(d, s1)" d s1 "hd d" "lr_append (hd d) r"] r False o by auto
  qed
qed

lemma getline_outbound: "getline r s = (ok, r', s') \<Longrightarrow> outbound s' = outbound s \<and> sends s' = sends s"
  unfolding getline_def by (rule getline_loop_outbound)

lemma read_headers_loop_outbound:
  "read_headers_loop cnt r hs s = (ok, hs', s') \<Longrightarrow> outbound s' = outbound s \<and> sends s' = sends s"
proof (induction cnt r hs s rule: read_headers_loop.induct)
  case (1 cnt r hs s)
  obtain ok1 r1 s1 where g: "getline r s = (ok1, r1, s1)" by (metis prod_cases3)
  note o = getline_outbound [OF g] and step = read_headers_loop.simps [of cnt r hs s, unfolded g prod.case]
  show ?case
  proof (cases ok1)
    case True
    note IH = "1.IH" [OF g [symmetric] eqTrueI [OF True] refl]
    show ?thesis using "1.prems" o IH True unfolding step by (auto split: if_splits option.splits)
  qed (use "1.prems" o step in auto)
qed

lemma read_headers_outbound: "read_headers hs s = (ok, hs', s') \<Longrightarrow> outbound s' = outbound s \<and> sends s' = sends s"
  using read_headers_loop_outbound by (auto simp: read_headers_def split: prod.splits bool.splits)

lemma names_apart:
  "equal_ci ''Host'' ''Upgrade'' = False" "equal_ci ''Host'' ''Connection'' = False" "equal_ci ''Upgrade'' ''Connection'' = False"
  "equal_ci ''Host'' ''Sec-WebSocket-Key'' = False" "equal_ci ''Upgrade'' ''Sec-WebSocket-Key'' = False"
  "equal_ci ''Connection'' ''Sec-WebSocket-Key'' = False" "equal_ci ''Host'' ''Sec-WebSocket-Version'' = False"
  "equal_ci ''Upgrade'' ''Sec-WebSocket-Version'' = False" "equal_ci ''Connection'' ''Sec-WebSocket-Version'' = False"
  "equal_ci ''Sec-WebSocket-Key'' ''Sec-WebSocket-Version'' = False" "equal_ci ''Upgrade'' ''Sec-WebSocket-Accept'' = False"
  "equal_ci ''Connection'' ''Sec-WebSocket-Accept'' = False" "equal_ci ''Upgrade'' ''Sec-WebSocket-Protocol'' = False"
  "equal_ci ''Connection'' ''Sec-WebSocket-Protocol'' = False" "equal_ci ''Sec-WebSocket-Accept'' ''Sec-WebSocket-Protocol'' = False"
  by (simp_all add: equal_ci_def)

lemmas field_lookup = header_find_def header_value_def get_header_value_def equal_range_def names_apart

lemma websocket_names_allowed:
  "\<not> is_prohibited_header_name ''Sec-WebSocket-Key''" "\<not> is_prohibited_header_name ''Sec-WebSocket-Version''"
  using library_names_allowed by (simp_all add: library_names_def)

lemma upgrade_words:
  "to_lower ''websocket'' = ''websocket''" "str_find (to_lower ''Upgrade'') ''upgrade'' 0 \<noteq> None"
  by code_simp+

text \<open>Any header section that starts as the client's does is recognised, with the client's key.\<close>

lemma upgrade_recognised:
  assumes "rq_method req = ''GET''" "rq_headers req = upgrade_fields host port (client_key [a, b, c, d]) hs"
  shows "is_websocket_upgrade req" "rq_header req ''Sec-WebSocket-Key'' = client_key [a, b, c, d]"
proof -
  have v: "c_str (client_key [a, b, c, d]) = client_key [a, b, c, d]"
    using c_str_field_value base64_is_value unfolding client_key_def by blast
  have w: "c_str ''13'' = ''13''" by code_simp
  show k: "rq_header req ''Sec-WebSocket-Key'' = client_key [a, b, c, d]"
    using assms(2) v websocket_names_allowed by (simp add: rq_header_def upgrade_fields_def field_lookup)
  have "rq_header req ''Sec-WebSocket-Version'' = ''13''"
    using assms(2) w websocket_names_allowed by (simp add: rq_header_def upgrade_fields_def field_lookup)
  moreover have "header_find (rq_headers req) ''Upgrade'' = Some ''websocket''" "header_find (rq_headers req) ''Connection'' = Some ''Upgrade''"
    using assms(2) by (simp_all add: upgrade_fields_def field_lookup)
  ultimately show "is_websocket_upgrade req"
    using assms(1) k upgrade_words client_key_shape [of a b c d] by (simp add: is_websocket_upgrade_def Let_def)
qed

definition answer_fields :: "string \<Rightarrow> string \<Rightarrow> headers" where
  "answer_fields accept_key sub =
     [(''Upgrade'', ''websocket''), (''Connection'', ''Upgrade''), (''Sec-WebSocket-Accept'', accept_key)] @
     (if sub = [] then [] else [(''Sec-WebSocket-Protocol'', sub)])"

lemma handshake_response_fields:
  "handshake_response accept_key sub =
     ''HTTP/1.1 101 Switching Protocols'' @ crlf @ concat (map header_line (answer_fields accept_key sub)) @ crlf"
  by (simp add: handshake_response_def answer_fields_def header_line_def)

text \<open>The client accepts an answer exactly if it carries the key it expects.\<close>

lemma answer_checked:
  assumes "plain s" "content s = handshake_response accept_key sub @ t" "field_fits (''Sec-WebSocket-Accept'', accept_key)"
    "sub \<noteq> [] \<Longrightarrow> field_fits (''Sec-WebSocket-Protocol'', sub)"
  shows "\<exists>s'. read_websocket_upgrade_response expected s =
      (accept_key = expected, if accept_key = expected then sub else [], s') \<and> plain s' \<and> content s' = t"
proof -
  let ?l = "''HTTP/1.1 101 Switching Protocols''" and ?hs = "answer_fields accept_key sub"
  have c: "content s = ?l @ crlf @ concat (map header_line ?hs) @ crlf @ t" using assms(2) by (simp add: handshake_response_fields)
  obtain r s1 where g: "getline (new_reader 2048) s = (True, r, s1)" "plain s1"
    "content s1 = concat (map header_line ?hs) @ crlf @ t" "lr_ptr r = ?l @ crlf"
    using crlf_line_found [OF assms(1) c] by (auto simp: max_line_length_def)
  have "field_fits (''Upgrade'', ''websocket'')" "field_fits (''Connection'', ''Upgrade'')" by code_simp+
  then have "list_all field_fits ?hs" using assms(3,4) by (simp add: answer_fields_def)
  moreover have "one_content_length ?hs" "length ?hs \<le> header_max_count"
    by (simp_all add: one_content_length_def answer_fields_def equal_range_def equal_ci_def header_max_count_def)
  ultimately obtain s2 where h: "read_headers [] s1 = (True, ?hs, s2)" "plain s2" "content s2 = t"
    using read_headers_written [OF g(2,3)] by blast
  have f: "str_find (?l @ crlf) ''HTTP/1.1 101'' 0 \<noteq> None" by code_simp
  have k: "header_find ?hs ''Upgrade'' = Some ''websocket''" "header_find ?hs ''Connection'' = Some ''Upgrade''"
    "header_find ?hs ''Sec-WebSocket-Accept'' = Some accept_key"
    "header_find ?hs ''Sec-WebSocket-Protocol'' = (if sub = [] then None else Some sub)"
    by (simp_all add: answer_fields_def field_lookup)
  show ?thesis
    unfolding read_websocket_upgrade_response_def g(1) prod.case bool.case g(4) if_not_P [OF f] h(1) k(1) option.case
      upgrade_words(1) k(2) if_not_P [OF upgrade_words(2)] k(3,4)
    using h(2,3) by simp
qed

definition opened_request :: "string \<Rightarrow> (string \<times> string) list \<Rightarrow> headers \<Rightarrow> http_request" where
  "opened_request p ps hs = new_request\<lparr>rq_method := ''GET'', rq_target := request_target p ps, rq_version := ''HTTP/1.1'',
     rq_path := p, rq_params := ps, rq_headers := hs\<rparr>"

lemma match_keeps: "matcher_match m req = (ok, req') \<Longrightarrow> rq_headers req' = rq_headers req"
  by (auto simp: matcher_match_def split: matcher.splits prod.splits)

lemma upgrade_line_found:
  assumes "plain s" "content s = upgrade_line (request_target p ps) @ t" "length (request_target p ps) + 16 \<le> max_line_length"
  shows "\<exists>r s'. getline (new_reader 2048) s = (True, r, s') \<and> plain s' \<and> content s' = t \<and> lr_ptr r = upgrade_line (request_target p ps)"
proof -
  have "\<forall>c \<in> set (''GET '' @ request_target p ps @ '' HTTP/1.1''). c \<noteq> CHR 0x0D \<and> c \<noteq> CHR 0x0A"
    using request_target_chars [of _ p ps] by (fastforce simp: target_char_def)
  from crlf_line_found [OF assms(1) _ this, of t] assms(2,3) show ?thesis by (simp add: upgrade_line_def)
qed

lemma accept_key_fits: "field_fits (''Sec-WebSocket-Accept'', websocket_accept_key k)"
proof -
  have "is_field_name ''Sec-WebSocket-Accept''" by code_simp
  then show ?thesis using base64_is_value accept_key_length [of k]
    by (simp add: field_fits_def header_max_length_def websocket_accept_key_def)
qed


definition demo_handler :: "nat ws_handler" where
  "demo_handler = \<lparr>wh_matcher = Regex ''/chat'', wh_handler = (\<lambda>req ws n. (ws, n + 1)), wh_selector = None\<rparr>"


end
