(* ===== verification/Front_Http.thy ===== *)
theory Front_Http
  imports Http_Message Metrics Rate_Limiter
begin

text \<open>
  The HTTP front end (\<open>include/server.h\<close>, \<open>src/server.cpp\<close>). A handler that submits a request
  blocks in \<open>dispatch\<close> until the engine fulfils its promise, so each handler is two steps: what
  it does up to the submission, and what it does with the result. The JSON library is a
  parameter: \<open>None\<close> is an exception it throws.
\<close>

section \<open>The JSON library\<close>

text \<open>A document the handlers build, and the operations they use on a parsed one.\<close>

datatype json_doc =
    Doc_string string
  | Doc_int int
  | Doc_object "(string \<times> json_doc) list"
  | Doc_array "json_doc list"

record 'j json_lib =
  js_parse :: "string \<Rightarrow> 'j option"
  js_string :: "'j \<Rightarrow> string \<Rightarrow> string \<Rightarrow> string option"
  js_int :: "'j \<Rightarrow> string \<Rightarrow> int \<Rightarrow> int option"
  js_array :: "'j \<Rightarrow> string \<Rightarrow> 'j list option"
  js_dump :: "json_doc \<Rightarrow> string option"

section \<open>State and configuration\<close>

record server_config =
  sc_host :: string
  sc_port :: int
  sc_metrics_port :: int
  sc_rate_limit_rps :: rat
  sc_rate_limit_burst :: int
  sc_redis_url :: string
  sc_model_name :: string

definition default_server_config :: server_config where
  "default_server_config =
     \<lparr>sc_host = ''0.0.0.0'', sc_port = 8080, sc_metrics_port = 9090, sc_rate_limit_rps = 10,
      sc_rate_limit_burst = 20, sc_redis_url = [], sc_model_name = ''local-model''\<rparr>"

text \<open>What the handlers share: the id counter of the front end, the limiter and the metrics.\<close>

record 'r front =
  ids :: "64 word"
  f_limiter :: "'r limiter"
  f_log :: "metric_event list"

text \<open>The clocks a handler reads: the limiter's, the steady one for the request, the system one.\<close>

record clocks =
  ck_limiter :: "int \<times> int"
  ck_steady :: int
  ck_system :: int

text \<open>How the first step ends: with a response, an exception, or a request handed to the engine.\<close>

datatype outcome = Answered http_response | Raised | Waiting request

definition allow_call ::
    "(rat \<Rightarrow> rat) \<Rightarrow> 'r redis_call \<Rightarrow> clocks \<Rightarrow> string \<Rightarrow> 'r front \<Rightarrow> bool \<times> 'r front" where
  "allow_call rnd call ck tenant st =
     (case allow rnd call (ck_limiter ck) tenant (f_limiter st) of
        (True, lm) \<Rightarrow> (True, st\<lparr>f_limiter := lm\<rparr>)
      | (False, lm) \<Rightarrow> (False, st\<lparr>f_limiter := lm, f_log := f_log st @ [Inc Requests_rate_limited]\<rparr>))"

text \<open>\<open>++request_id_counter\<close>.\<close>

definition next_id :: "'r front \<Rightarrow> 64 word \<times> 'r front" where
  "next_id st = (ids st + 1, st\<lparr>ids := ids st + 1\<rparr>)"

text \<open>The two halves of \<open>dispatch\<close> around the wait; \<open>p\<close> is the promise.\<close>

definition dispatch_begin :: "promise_id \<Rightarrow> request \<Rightarrow> 'r front \<Rightarrow> request \<times> 'r front" where
  "dispatch_begin p r st = (r\<lparr>on_complete := Some p\<rparr>, st\<lparr>f_log := f_log st @ [Gauge_inc Queue_depth 1]\<rparr>)"

definition dispatch_end :: "'r front \<Rightarrow> 'r front" where
  "dispatch_end st = st\<lparr>f_log := f_log st @ [Gauge_dec Queue_depth 1]\<rparr>"

section \<open>\<open>POST /infer\<close>\<close>

definition json_type :: string where
  "json_type = ''application/json''"

definition reply_json :: "int \<Rightarrow> string \<Rightarrow> http_response \<Rightarrow> http_response" where
  "reply_json status body res = set_content body json_type (res\<lparr>rs_status := status\<rparr>)"

text \<open>The request from the body, in the order the code reads its members.\<close>

definition infer_request :: "'j json_lib \<Rightarrow> int \<Rightarrow> 64 word \<Rightarrow> string \<Rightarrow> 'j \<Rightarrow> request option" where
  "infer_request J now rid tenant body =
     (case js_string J body ''payload'' [] of None \<Rightarrow> None | Some text \<Rightarrow>
      (case js_string J body ''priority'' ''normal'' of None \<Rightarrow> None | Some pr \<Rightarrow>
       (case js_int J body ''deadline_ms'' 5000 of None \<Rightarrow> None | Some dl \<Rightarrow>
        (case js_int J body ''max_new_tokens'' 0 of None \<Rightarrow> None | Some mx \<Rightarrow>
         Some (empty_request\<lparr>req_id := rid, tenant_id := tenant, payload := text, prio := parse_priority pr,
           enqueue_time := now, deadline := dl, max_new_tokens := mx\<rparr>)))))"

definition submit :: "promise_id \<Rightarrow> request option \<Rightarrow> 'r front \<Rightarrow> outcome \<times> 'r front" where
  "submit p ro st =
     (case ro of
        None \<Rightarrow> (Raised, st)
      | Some r \<Rightarrow>
          (case dispatch_begin p r (st\<lparr>f_log := f_log st @ [Inc Requests_total]\<rparr>) of (r', st') \<Rightarrow> (Waiting r', st')))"

definition infer_begin ::
    "'j json_lib \<Rightarrow> (rat \<Rightarrow> rat) \<Rightarrow> 'r redis_call \<Rightarrow> clocks \<Rightarrow> promise_id \<Rightarrow> http_request \<Rightarrow> http_response \<Rightarrow>
      'r front \<Rightarrow> outcome \<times> 'r front" where
  "infer_begin J rnd call ck p req res st =
     (case js_parse J (rq_body req) of
        None \<Rightarrow> (Answered (reply_json 400 ''{\"error\":\"invalid JSON\"}'' res), st)
      | Some body \<Rightarrow>
          (case js_string J body ''tenant_id'' ''default'' of
             None \<Rightarrow> (Raised, st)
           | Some tenant \<Rightarrow>
               (case allow_call rnd call ck tenant st of
                  (False, st1) \<Rightarrow> (Answered (reply_json 429 ''{\"error\":\"rate limit exceeded\"}'' res), st1)
                | (True, st1) \<Rightarrow>
                    (case next_id st1 of
                       (rid, st2) \<Rightarrow> submit p (infer_request J (ck_steady ck) rid tenant body) st2))))"

text \<open>A result that cannot be dumped raises; otherwise the status is left to the library.\<close>

definition infer_end :: "'j json_lib \<Rightarrow> string \<Rightarrow> http_response \<Rightarrow> http_response option" where
  "infer_end J result res =
     map_option (\<lambda>b. set_content b json_type res) (js_dump J (Doc_object [(''result'', Doc_string result)]))"

section \<open>\<open>POST /v1/chat/completions\<close>\<close>

definition chat_message :: "string \<Rightarrow> string \<Rightarrow> string" where
  "chat_message role text = ''<|im_start|>'' @ role @ nl @ text @ ''<|im_end|>'' @ nl"

fun chatml_messages :: "'j json_lib \<Rightarrow> 'j list \<Rightarrow> string \<Rightarrow> string option" where
  "chatml_messages J [] acc = Some acc"
| "chatml_messages J (m # ms) acc =
     (case js_string J m ''role'' ''user'' of None \<Rightarrow> None | Some role \<Rightarrow>
      (case js_string J m ''content'' [] of None \<Rightarrow> None | Some text \<Rightarrow>
       chatml_messages J ms (acc @ chat_message role text)))"

definition chat_tail :: string where
  "chat_tail = ''<|im_start|>assistant'' @ nl"

definition build_chatml :: "'j json_lib \<Rightarrow> 'j list \<Rightarrow> string option" where
  "build_chatml J ms = map_option (\<lambda>p. p @ chat_tail) (chatml_messages J ms [])"

definition error_doc :: "string \<Rightarrow> string \<Rightarrow> json_doc" where
  "error_doc msg kind =
     Doc_object [(''error'', Doc_object [(''message'', Doc_string msg), (''type'', Doc_string kind)])]"

definition reply_error :: "'j json_lib \<Rightarrow> int \<Rightarrow> string \<Rightarrow> string \<Rightarrow> http_response \<Rightarrow> outcome" where
  "reply_error J status msg kind res =
     (case js_dump J (error_doc msg kind) of
        None \<Rightarrow> Raised
      | Some b \<Rightarrow> Answered (reply_json status b res))"

definition chat_tenant :: "http_request \<Rightarrow> string" where
  "chat_tenant req =
     (if rq_has_header req ''Authorization'' then
        (let auth = rq_header req ''Authorization''
         in if starts_with auth ''Bearer '' then drop 7 auth else ''default'')
      else if rq_has_header req ''X-Tenant-ID'' then rq_header req ''X-Tenant-ID''
      else ''default'')"

definition chat_request :: "'j json_lib \<Rightarrow> int \<Rightarrow> 64 word \<Rightarrow> string \<Rightarrow> 'j \<Rightarrow> 'j list \<Rightarrow> request option" where
  "chat_request J now rid tenant body msgs =
     (case build_chatml J msgs of None \<Rightarrow> None | Some prompt \<Rightarrow>
      (case js_int J body ''timeout_ms'' 30000 of None \<Rightarrow> None | Some dl \<Rightarrow>
       (case js_int J body ''max_tokens'' 0 of None \<Rightarrow> None | Some mx \<Rightarrow>
        Some (empty_request\<lparr>req_id := rid, tenant_id := tenant, payload := prompt, prio := Normal,
          enqueue_time := now, deadline := dl, max_new_tokens := mx\<rparr>))))"

text \<open>The model name for the response is read before the submission and kept beside it.\<close>

definition chat_begin ::
    "'j json_lib \<Rightarrow> server_config \<Rightarrow> (rat \<Rightarrow> rat) \<Rightarrow> 'r redis_call \<Rightarrow> clocks \<Rightarrow> promise_id \<Rightarrow> http_request \<Rightarrow>
      http_response \<Rightarrow> 'r front \<Rightarrow> (outcome \<times> string) \<times> 'r front" where
  "chat_begin J cfg rnd call ck p req res st =
     (case js_parse J (rq_body req) of
        None \<Rightarrow> ((reply_error J 400 ''invalid JSON'' ''invalid_request_error'' res, []), st)
      | Some body \<Rightarrow>
          (case allow_call rnd call ck (chat_tenant req) st of
             (False, st1) \<Rightarrow> ((reply_error J 429 ''Rate limit exceeded'' ''rate_limit_error'' res, []), st1)
           | (True, st1) \<Rightarrow>
               (case js_array J body ''messages'' of
                  None \<Rightarrow> ((reply_error J 400 (CHR 0x27 # ''messages'' @ CHR 0x27 # '' array is required'')
                              ''invalid_request_error'' res, []), st1)
                | Some msgs \<Rightarrow>
                    (case js_string J body ''model'' (sc_model_name cfg) of
                       None \<Rightarrow> ((Raised, []), st1)
                     | Some model \<Rightarrow>
                         (case next_id st1 of
                            (rid, st2) \<Rightarrow>
                              (case submit p (chat_request J (ck_steady ck) rid (chat_tenant req) body msgs) st2 of
                                 (out, st3) \<Rightarrow> ((out, model), st3)))))))"

definition chat_doc :: "string \<Rightarrow> 64 word \<Rightarrow> int \<Rightarrow> string \<Rightarrow> json_doc" where
  "chat_doc model rid created text =
     Doc_object
       [(''id'', Doc_string (''chatcmpl-'' @ to_dec (unat rid))),
        (''object'', Doc_string ''chat.completion''),
        (''created'', Doc_int created),
        (''model'', Doc_string model),
        (''choices'', Doc_array [Doc_object
           [(''index'', Doc_int 0),
            (''message'', Doc_object [(''role'', Doc_string ''assistant''), (''content'', Doc_string text)]),
            (''finish_reason'', Doc_string ''stop'')]]),
        (''usage'', Doc_object
           [(''prompt_tokens'', Doc_int 0), (''completion_tokens'', Doc_int 0), (''total_tokens'', Doc_int 0)])]"

definition chat_end :: "'j json_lib \<Rightarrow> clocks \<Rightarrow> string \<Rightarrow> 64 word \<Rightarrow> string \<Rightarrow> http_response \<Rightarrow> http_response option" where
  "chat_end J ck model rid text res =
     map_option (\<lambda>b. set_content b json_type res) (js_dump J (chat_doc model rid (ck_system ck) text))"

section \<open>\<open>GET /v1/models\<close> and \<open>GET /health\<close>\<close>

definition models_doc :: "server_config \<Rightarrow> json_doc" where
  "models_doc cfg =
     Doc_object
       [(''object'', Doc_string ''list''),
        (''data'', Doc_array [Doc_object
           [(''id'', Doc_string (sc_model_name cfg)), (''object'', Doc_string ''model''), (''created'', Doc_int 0),
            (''owned_by'', Doc_string ''local'')]])]"

definition models_handler :: "'j json_lib \<Rightarrow> server_config \<Rightarrow> http_response \<Rightarrow> outcome" where
  "models_handler J cfg res =
     (case js_dump J (models_doc cfg) of None \<Rightarrow> Raised | Some b \<Rightarrow> Answered (set_content b json_type res))"

definition health_handler :: "http_response \<Rightarrow> outcome" where
  "health_handler res = Answered (set_content ''{\"status\":\"ok\"}'' json_type res)"

text \<open>The routing table \<open>register_routes\<close> builds.\<close>

datatype endpoint = Ep_infer | Ep_chat | Ep_models | Ep_health

definition post_routes :: "(string \<times> endpoint) list" where
  "post_routes = [(''/infer'', Ep_infer), (''/v1/chat/completions'', Ep_chat)]"

definition get_routes :: "(string \<times> endpoint) list" where
  "get_routes = [(''/v1/models'', Ep_models), (''/health'', Ep_health)]"

end
