(* ===== verification/Front_Server.thy ===== *)
theory Front_Server
  imports Front_Http Http_Request_Props
begin

text \<open>
  The HTTP server of the program: the handlers of \<open>src/server.cpp\<close> as the library runs them, the
  registration of the routes, and what the composition guarantees. What the engine answers to
  a submitted request is the parameter \<open>answer\<close>; a handler is modelled for answers that come.
\<close>

section \<open>The handlers as the library runs them\<close>

definition infer_handler ::
    "'j json_lib \<Rightarrow> (rat \<Rightarrow> rat) \<Rightarrow> 'r redis_call \<Rightarrow> clocks \<Rightarrow> promise_id \<Rightarrow> (request \<Rightarrow> string) \<Rightarrow> 'r front handler" where
  "infer_handler J rnd call ck p answer req res st =
     (case infer_begin J rnd call ck p req res st of
        (Answered res', st') \<Rightarrow> ((res', False), st')
      | (Raised, st') \<Rightarrow> ((res, True), st')
      | (Waiting r, st') \<Rightarrow>
          (case infer_end J (answer r) res of
             Some res' \<Rightarrow> ((res', False), dispatch_end st')
           | None \<Rightarrow> ((res, True), dispatch_end st')))"

definition chat_handler ::
    "'j json_lib \<Rightarrow> server_config \<Rightarrow> (rat \<Rightarrow> rat) \<Rightarrow> 'r redis_call \<Rightarrow> clocks \<Rightarrow> promise_id \<Rightarrow> (request \<Rightarrow> string) \<Rightarrow> 'r front handler" where
  "chat_handler J cfg rnd call ck p answer req res st =
     (case chat_begin J cfg rnd call ck p req res st of
        ((Answered res', _), st') \<Rightarrow> ((res', False), st')
      | ((Raised, _), st') \<Rightarrow> ((res, True), st')
      | ((Waiting r, model), st') \<Rightarrow>
          (case chat_end J ck model (req_id r) (answer r) res of
             Some res' \<Rightarrow> ((res', False), dispatch_end st')
           | None \<Rightarrow> ((res, True), dispatch_end st')))"

definition outcome_handler :: "(http_response \<Rightarrow> outcome) \<Rightarrow> 'w handler" where
  "outcome_handler h req res w = (case h res of Answered res' \<Rightarrow> ((res', False), w) | _ \<Rightarrow> ((res, True), w))"

text \<open>\<open>register_routes\<close>; \<open>None\<close> would be an exception of a matcher's constructor.\<close>

definition register_routes ::
    "'j json_lib \<Rightarrow> server_config \<Rightarrow> (rat \<Rightarrow> rat) \<Rightarrow> 'r redis_call \<Rightarrow> clocks \<Rightarrow> promise_id \<Rightarrow> (request \<Rightarrow> string) \<Rightarrow>
      'r front http_server \<Rightarrow> 'r front http_server option" where
  "register_routes J cfg rnd call ck p answer sv =
     Option.bind (sv_Post ''/infer'' (infer_handler J rnd call ck p answer) sv) (\<lambda>sv1.
     Option.bind (sv_Post ''/v1/chat/completions'' (chat_handler J cfg rnd call ck p answer) sv1) (\<lambda>sv2.
     Option.bind (sv_Get ''/v1/models'' (outcome_handler (models_handler J cfg)) sv2) (\<lambda>sv3.
     sv_Get ''/health'' (outcome_handler health_handler) sv3)))"

definition server_new ::
    "'j json_lib \<Rightarrow> server_config \<Rightarrow> (rat \<Rightarrow> rat) \<Rightarrow> 'r redis_call \<Rightarrow> clocks \<Rightarrow> promise_id \<Rightarrow> (request \<Rightarrow> string) \<Rightarrow>
      'r front http_server option" where
  "server_new J cfg rnd call ck p answer = register_routes J cfg rnd call ck p answer new_http_server"

section \<open>The routing table\<close>

lemma routes_literal:
  "list_all is_literal_pattern [''/infer'', ''/v1/chat/completions'', ''/v1/models'', ''/health'']"
  by (simp add: is_literal_pattern_def)

lemma routes_have_no_parameter:
  "make_matcher ''/infer'' = Some (Regex ''/infer'')" "make_matcher ''/health'' = Some (Regex ''/health'')"
  "make_matcher ''/v1/chat/completions'' = Some (Regex ''/v1/chat/completions'')"
  "make_matcher ''/v1/models'' = Some (Regex ''/v1/models'')"
  by (simp_all add: make_matcher_def str_find_def starts_with_def)

lemma server_new_tables:
  assumes "server_new J cfg rnd call ck p answer = Some sv"
  shows "post_handlers sv = [(Regex ''/infer'', infer_handler J rnd call ck p answer),
      (Regex ''/v1/chat/completions'', chat_handler J cfg rnd call ck p answer)]"
    "get_handlers sv = [(Regex ''/v1/models'', outcome_handler (models_handler J cfg)),
      (Regex ''/health'', outcome_handler health_handler)]"
    "put_handlers sv = []" "delete_handlers sv = []" "options_handlers sv = []" "patch_handlers sv = []"
  using assms
  by (auto simp: server_new_def register_routes_def sv_Post_def sv_Get_def add_handler_def routes_have_no_parameter
      new_http_server_def)

lemma server_new_returns: "\<exists>sv. server_new J cfg rnd call ck p answer = Some sv"
  by (simp add: server_new_def register_routes_def sv_Post_def sv_Get_def add_handler_def routes_have_no_parameter)

lemma outcome_handler_world: "outcome_handler h req res w = (x, w') \<Longrightarrow> w' = w"
  by (simp add: outcome_handler_def split: outcome.splits)

section \<open>Who can change the state of the program\<close>

lemma read_content_core_keeps:
  "read_content_core m rd req cs s = (ok, st, req', cs', s') \<Longrightarrow> rq_method req' = rq_method req \<and> rq_path req' = rq_path req"
  unfolding read_content_core_def Let_def
  by (auto split: if_splits prod.splits read_content_result.splits)

lemma server_read_content_keeps:
  assumes "server_read_content m rd req res s = (ok, req', res', s')"
  shows "rq_method req' = rq_method req \<and> rq_path req' = rq_path req"
proof -
  obtain ok1 st req1 cs s1 where c: "read_content_core m rd req
      \<lparr>cs_body = rq_body req, cs_parser = new_form_parser [], cs_form = (rq_form req, False, 0)\<rparr> s = (ok1, st, req1, cs, s1)"
    by (metis prod_cases5)
  then show ?thesis using assms read_content_core_keeps [OF c]
    by (auto simp: server_read_content_def Let_def split: if_splits)
qed

lemma accept_and_range_keeps:
  "accept_and_range req = Inr req' \<Longrightarrow> rq_method req' = rq_method req \<and> rq_path req' = rq_path req"
  by (auto simp: accept_and_range_def Let_def split: if_splits accepted.splits prod.splits bool.splits)

lemma check_request_keeps:
  "check_request sv env req = Inr req' \<Longrightarrow> rq_method req' = rq_method req \<and> rq_path req' = rq_path req"
  by (auto simp: check_request_def with_client_ip_def Let_def split: if_splits dest!: accept_and_range_keeps)

lemma dispatch_world:
  assumes "server_new J cfg rnd call ck p answer = Some sv" "handlers_for sv meth = Some hs"
    "dispatch_request hs req res w = (rt, req', res', w')" "w' \<noteq> w"
  shows "meth = ''POST'' \<and> rq_path req \<in> {''/infer'', ''/v1/chat/completions''}"
proof (cases "meth = ''POST''")
  case True
  then have "hs = post_handlers sv" using assms(2) by (simp add: handlers_for_def)
  then show ?thesis using True assms(3,4) server_new_tables(1) [OF assms(1)]
    by (auto simp: matcher_match_def split: if_splits prod.splits bool.splits)
next
  case False
  then have "hs = get_handlers sv \<or> hs = []"
    using assms(2) server_new_tables(3-6) [OF assms(1)] by (auto simp: handlers_for_def split: if_splits)
  then have "w' = w"
    using assms(3) server_new_tables(2) [OF assms(1)]
    by (auto simp: matcher_match_def Let_def split: prod.splits bool.splits dest: outcome_handler_world)
  with assms(4) show ?thesis by simp
qed

lemma routing_world:
  assumes "server_new J cfg rnd call ck p answer = Some sv" "routing sv rd req res s w = (rt, req', res', s', w')" "w' \<noteq> w"
  shows "rq_method req = ''POST'' \<and> rq_path req \<in> {''/infer'', ''/v1/chat/completions''}"
proof -
  obtain ok req1 res1 s1 where r: "(if expect_content req then server_read_content (payload_max_length sv) rd req res s
      else (True, req, res, s)) = (ok, req1, res1, s1)" by (metis prod_cases4)
  have k: "rq_method req1 = rq_method req" "rq_path req1 = rq_path req"
    using r server_read_content_keeps by (auto split: if_splits)
  have ok: "ok" using assms(2,3) r by (cases ok) (auto simp: routing_def)
  obtain hs where h: "handlers_for sv (rq_method req1) = Some hs"
    using assms(2,3) r ok by (cases "handlers_for sv (rq_method req1)") (auto simp: routing_def)
  obtain rt2 req2 res2 w2 where d: "dispatch_request hs req1 res1 w = (rt2, req2, res2, w2)" by (metis prod_cases4)
  have "w2 = w'" using assms(2) r ok h d by (simp add: routing_def)
  with dispatch_world [OF assms(1) h d] assms(3) k show ?thesis by simp
qed

lemma reply_early_world [simp]: "sd_world (reply_early sv env cl cg st req res s w) = w"
  using reply_early_result [of sv env cl cg st req res s w] by blast

lemma world_changed_by_route:
  assumes "server_new J cfg rnd call ck p answer = Some sv" "sd_world (process_request sv env cl s w) \<noteq> w"
  shows "\<exists>r s1 req hs s2 req1. getline (new_reader 2048) s = (True, r, s1) \<and>
    parse_request_line (lr_ptr r) (new_request\<lparr>rq_remote_addr := ce_remote_addr env\<rparr>) = (True, req) \<and>
    read_headers (rq_headers req) s1 = (True, hs, s2) \<and> check_request sv env (req\<lparr>rq_headers := hs\<rparr>) = Inr req1 \<and>
    rq_method req = ''POST'' \<and> rq_path req \<in> {''/infer'', ''/v1/chat/completions''}"
proof -
  let ?res = "new_response\<lparr>rs_version := ''HTTP/1.1'', rs_headers := default_headers sv\<rparr>"
  obtain ok r s1 where g: "getline (new_reader 2048) s = (ok, r, s1)" by (metis prod_cases3)
  obtain lok req where l: "parse_request_line (lr_ptr r) (new_request\<lparr>rq_remote_addr := ce_remote_addr env\<rparr>) = (lok, req)"
    by (metis surj_pair)
  obtain hok hs s2 where h: "read_headers (rq_headers req) s1 = (hok, hs, s2)" by (metis prod_cases3)
  have t: "ok" "lok" "hok"
    using assms(2) g l h by (auto simp: process_request_def Let_def split: bool.splits)
  obtain req1 where c: "check_request sv env (req\<lparr>rq_headers := hs\<rparr>) = Inr req1"
  proof (cases "check_request sv env (req\<lparr>rq_headers := hs\<rparr>)")
    case (Inl e)
    then have "process_request sv env cl s w = reply_early sv env cl True (fst e) (snd e) ?res s2 w"
      using g l h t by (simp add: process_request_def Let_def split_beta)
    then show ?thesis using assms(2) by simp
  qed (rule that)
  obtain rt req2 res2 s3 w' where rt: "routing sv (ce_readable env) req1 ?res (expect_continue req1 s2) w = (rt, req2, res2, s3, w')"
    by (metis prod_cases5)
  have "sd_world (process_request sv env cl s w) = w'"
    using g l h t c rt by (simp add: process_request_def Let_def split: prod.split)
  then have "rq_method req1 = ''POST'' \<and> rq_path req1 \<in> {''/infer'', ''/v1/chat/completions''}"
    using routing_world [OF assms(1) rt] assms(2) by simp
  moreover have "rq_method req1 = rq_method req" "rq_path req1 = rq_path req"
    using check_request_keeps [OF c] by simp_all
  ultimately show ?thesis using g l h t c by auto
qed

text \<open>
  C1: nothing a client sends changes the state of the program, its limiter, ids and metrics,
  except a request with the method \<open>POST\<close> for one of the two inference routes whose line and
  headers were read and accepted: not a malformed or oversized one, an unknown route or method,
  a health check or a listing of models.
\<close>

theorem only_inference_changes_state:
  "\<exists>sv. server_new J cfg rnd call ck p answer = Some sv \<and>
    (\<forall>env cl s w. sd_world (process_request sv env cl s w) = w \<or>
      (\<exists>r s1 req hs s2 req1. getline (new_reader 2048) s = (True, r, s1) \<and>
        parse_request_line (lr_ptr r) (new_request\<lparr>rq_remote_addr := ce_remote_addr env\<rparr>) = (True, req) \<and>
        read_headers (rq_headers req) s1 = (True, hs, s2) \<and> check_request sv env (req\<lparr>rq_headers := hs\<rparr>) = Inr req1 \<and>
        rq_method req = ''POST'' \<and> rq_path req \<in> {''/infer'', ''/v1/chat/completions''}))"
  using server_new_returns [of J cfg rnd call ck p answer] world_changed_by_route by blast

section \<open>The status codes of \<open>/infer\<close>\<close>

lemma range_error_Nil: "range_error [] res = Some []"
  by (simp add: range_error_def)

lemma finish_routing_plain:
  assumes "rq_ranges req = []"
  shows "rs_status (fst (snd (finish_routing sv env cl Routed req res s))) = (if rs_status res = - 1 then 200 else rs_status res)"
    "rs_status (fst (snd (finish_routing sv env cl Threw req res s))) = 500"
proof -
  let ?res = "if rs_status res = - 1 then res\<lparr>rs_status := 200\<rparr> else res"
  obtain ok res' s' where w: "write_response_core sv (ce_boundary env) cl True req ?res s = (ok, res', s')" by (metis prod_cases3)
  have e: "req\<lparr>rq_ranges := []\<rparr> = req" using assms by (cases req) simp
  have "finish_routed sv env cl req res s = (ok, res', s')"
    using w assms
    by (cases "rs_status res = - 1") (simp_all add: finish_routed_def write_response_with_content_def range_error_Nil e Let_def)
  then show "rs_status (fst (snd (finish_routing sv env cl Routed req res s))) = (if rs_status res = - 1 then 200 else rs_status res)"
    using write_response_core_status [OF w] by (simp add: finish_routing_def)
  obtain ok res' s' where w: "write_response_core sv (ce_boundary env) cl False (req\<lparr>rq_ranges := []\<rparr>) (res\<lparr>rs_status := 500\<rparr>) s = (ok, res', s')"
    by (metis prod_cases3)
  then show "rs_status (fst (snd (finish_routing sv env cl Threw req res s))) = 500"
    using write_response_core_status [OF w] by (simp add: finish_routing_def write_response_def)
qed

lemma infer_handler_outcome:
  assumes "infer_handler J rnd call ck p answer req res st = ((res', thrown), st')" "rs_status res = - 1"
  shows "(if thrown then 500 else if rs_status res' = - 1 then 200 else rs_status res') =
    (case js_parse J (rq_body req) of None \<Rightarrow> 400
     | Some body \<Rightarrow>
         (case js_string J body ''tenant_id'' ''default'' of None \<Rightarrow> 500
          | Some tenant \<Rightarrow>
              if \<not> fst (allow rnd call (ck_limiter ck) tenant (f_limiter st)) then 429
              else (case infer_request J (ck_steady ck) (ids st + 1) tenant body of None \<Rightarrow> 500
                    | Some r \<Rightarrow>
                        if js_dump J (Doc_object [(''result'', Doc_string (answer (r\<lparr>on_complete := Some p\<rparr>)))]) = None
                        then 500 else 200)))"
proof (cases "js_parse J (rq_body req)")
  case None
  then show ?thesis using assms by (auto simp: infer_handler_def infer_begin_def reply_json_def)
next
  case (Some body)
  show ?thesis
  proof (cases "js_string J body ''tenant_id'' ''default''")
    case None
    then show ?thesis using assms Some by (simp add: infer_handler_def infer_begin_def)
  next
    case t: (Some tenant)
    obtain ok lm where al: "allow rnd call (ck_limiter ck) tenant (f_limiter st) = (ok, lm)" by (metis surj_pair)
    show ?thesis
    proof (cases ok)
      case False
      then show ?thesis using assms Some t al
        by (auto simp: infer_handler_def infer_begin_def allow_call_def reply_json_def)
    next
      case True
      show ?thesis
      proof (cases "infer_request J (ck_steady ck) (ids st + 1) tenant body")
        case None
        then show ?thesis using assms Some t al True
          by (simp add: infer_handler_def infer_begin_def allow_call_def next_id_def submit_def)
      next
        case r: (Some r)
        show ?thesis
          using assms Some t al True r
          by (cases "js_dump J (Doc_object [(''result'', Doc_string (answer (r\<lparr>on_complete := Some p\<rparr>)))])")
             (auto simp: infer_handler_def infer_begin_def allow_call_def next_id_def submit_def dispatch_begin_def infer_end_def)
      qed
    qed
  qed
qed


text \<open>A JSON library that reads any text but the empty one as an object without members.\<close>

definition small_json :: "unit json_lib" where
  "small_json =
     \<lparr>js_parse = (\<lambda>s. if s = [] then None else Some ()), js_string = (\<lambda>j key d. Some d), js_int = (\<lambda>j key d. Some d),
      js_array = (\<lambda>j key. None), js_dump = (\<lambda>d. case d of Doc_object [(k, Doc_string s)] \<Rightarrow> Some s | _ \<Rightarrow> None)\<rparr>"

definition quiet_clocks :: clocks where
  "quiet_clocks = \<lparr>ck_limiter = (0, 0), ck_steady = 0, ck_system = 0\<rparr>"

definition quiet_front :: "int \<Rightarrow> unit front" where
  "quiet_front n = \<lparr>ids = 0, f_limiter = \<lparr>rate_rps = 10, burst = n, redis = None, buckets = Map.empty\<rparr>, f_log = []\<rparr>"

definition small_server :: "unit front http_server" where
  "small_server =
     the (server_new small_json default_server_config id (\<lambda>_ _ _ _ c. (None, c)) quiet_clocks 0 (\<lambda>_. ''ok''))"

definition small_status :: "int \<Rightarrow> string \<Rightarrow> int" where
  "small_status n b =
     (case dispatch_request (post_handlers small_server) (new_request\<lparr>rq_path := ''/infer'', rq_body := b\<rparr>) new_response (quiet_front n) of
        (rt, req', res, st') \<Rightarrow>
          rs_status (fst (snd (finish_routing small_server \<lparr>ce_remote_addr = [], ce_boundary = [], ce_readable = False\<rparr> False rt req' res
            (bare_stream [])))))"


end
