(* ===== verification/Http_Connection.thy ===== *)
theory Http_Connection
  imports Http_Frame
begin

text \<open>
  Requests on one connection: each is served as if it were alone, as long as the client keeps the
  packets of different requests apart, which one that waits for each response does.
\<close>

section \<open>One request is local\<close>

lemma drain_body_local:
  assumes "drain_body sv req s = (f, s')" "plain s"
  shows "keeps_local s s' (drain_body sv req (more es s) = (f, more es s'))"
proof (cases "\<not> rq_body_consumed req \<and> has_framed_body req")
  case True
  obtain v t u s1 where c: "read_content (rq_headers req) (rq_trailers req) (payload_max_length sv) None (\<lambda>_ _ _ u. (True, u)) False () s
      = (v, t, u, s1)" by (metis prod_cases4)
  obtain ok st where v: "v = (ok, st)" by (cases v)
  have e: "s' = s1" using assms(1) True c v by (simp add: drain_body_def)
  show ?thesis by (rule local_last [OF read_content_local [where es = es, OF c assms(2)] e])
      (use assms(1) True c v in \<open>simp add: drain_body_def\<close>)
next
  case False
  then show ?thesis using assms by (auto simp: drain_body_def local_stay)
qed

lemma routing_local:
  assumes "routing sv rd req res s w = (rt, req', res', s', w')" "plain s"
  shows "keeps_local s s' (routing sv rd req res (more es s) w = (rt, req', res', more es s', w'))"
proof (cases "expect_content req")
  case True
  obtain ok req1 res1 s1 where c: "server_read_content (payload_max_length sv) rd req res s = (ok, req1, res1, s1)"
    by (metis prod_cases4)
  have e: "s' = s1" using assms(1) True c by (auto simp: routing_def split: bool.splits option.splits prod.splits)
  show ?thesis by (rule local_last [OF server_read_content_local [where es = es, OF c assms(2)] e])
      (use assms(1) True c e in \<open>auto simp: routing_def split: bool.splits option.splits prod.splits\<close>)
next
  case False
  then have "s' = s" "routing sv rd req res (more es s) w = (rt, req', res', more es s, w')"
    using assms(1) by (auto simp: routing_def split: option.splits prod.splits)
  then show ?thesis by (simp add: local_stay)
qed

definition with_stream :: "(stream \<Rightarrow> stream) \<Rightarrow> 'w served \<Rightarrow> 'w served" where
  "with_stream f d = d\<lparr>sd_stream := f (sd_stream d)\<rparr>"

lemma with_stream_simps [simp]:
  "sd_ok (with_stream f d) = sd_ok d" "sd_closed (with_stream f d) = sd_closed d" "sd_response (with_stream f d) = sd_response d"
  "sd_stream (with_stream f d) = f (sd_stream d)" "sd_world (with_stream f d) = sd_world d"
  by (simp_all add: with_stream_def)

lemma reply_early_only:
  "unread s (sd_stream (reply_early sv env cl cg st req res s w)) \<and>
   reply_early sv env cl cg st req res (more es s) w = with_stream (more es) (reply_early sv env cl cg st req res s w)"
proof -
  obtain ok res' s' where w: "write_response sv (ce_boundary env) cl req (res\<lparr>rs_status := st\<rparr>) s = (ok, res', s')" by (metis prod_cases3)
  from write_core_only [OF this [unfolded write_response_def]] w show ?thesis
    by (simp add: reply_early_def write_response_def with_stream_def)
qed

lemma process_request_local:
  assumes "plain s"
  shows "keeps_local s (sd_stream (process_request sv env cl s w))
    (process_request sv env cl (more es s) w = with_stream (more es) (process_request sv env cl s w))"
proof -
  let ?res = "new_response\<lparr>rs_version := ''HTTP/1.1'', rs_headers := default_headers sv\<rparr>"
  obtain gk r s1 where g: "getline (new_reader 2048) s = (gk, r, s1)" by (metis prod_cases3)
  note l1 = getline_local [where es = es, OF g assms]
  note d = process_request_def Let_def
  show ?thesis
  proof (cases gk)
    case False
    show ?thesis by (rule local_last [OF l1]) (use g False in \<open>simp_all add: d with_stream_def\<close>)
  next
    case G: True
    obtain lk req where l: "parse_request_line (lr_ptr r) (new_request\<lparr>rq_remote_addr := ce_remote_addr env\<rparr>) = (lk, req)"
      by (metis surj_pair)
    show ?thesis
    proof (cases lk)
      case False
      have p: "process_request sv env cl s w = reply_early sv env cl False 400 req ?res s1 w"
        using g G l False by (simp add: d)
      show ?thesis unfolding p
        by (rule local_then [OF assms l1 unread_local [OF reply_early_only [THEN conjunct1] TrueI]])
          (use G l False in \<open>simp add: d reply_early_only [THEN conjunct2]\<close>)
    next
      case L: True
      obtain hk hs s2 where h: "read_headers (rq_headers req) s1 = (hk, hs, s2)" by (metis prod_cases3)
      note l2 = read_headers_local [where es = es, OF h]
      have l12: "keeps_local s s2 (getline (new_reader 2048) (more es s) = (gk, r, more es s1) \<and>
          read_headers (rq_headers req) (more es s1) = (hk, hs, more es s2))"
        by (rule local_then [OF assms l1 l2]) simp_all
      show ?thesis
      proof (cases hk)
        case False
        have p: "process_request sv env cl s w = reply_early sv env cl False 400 (req\<lparr>rq_headers := hs\<rparr>) ?res s2 w"
          using g G l L h False by (simp add: d)
        show ?thesis unfolding p
          by (rule local_then [OF assms l12 unread_local [OF reply_early_only [THEN conjunct1] TrueI]])
            (use G l L False in \<open>simp_all add: d reply_early_only [THEN conjunct2]\<close>)
      next
        case H: True
        show ?thesis
        proof (cases "check_request sv env (req\<lparr>rq_headers := hs\<rparr>)")
          case (Inl e)
          obtain st rq where e: "e = (st, rq)" by (cases e)
          have p: "process_request sv env cl s w = reply_early sv env cl True st rq ?res s2 w"
            using g G l L h H Inl e by (simp add: d)
          show ?thesis unfolding p
            by (rule local_then [OF assms l12 unread_local [OF reply_early_only [THEN conjunct1] TrueI]])
              (use G l L H Inl e in \<open>simp_all add: d reply_early_only [THEN conjunct2]\<close>)
        next
          case (Inr req1)
          let ?s2 = "expect_continue req1 s2"
          obtain rt req2 res2 s3 w' where r: "routing sv (ce_readable env) req1 ?res ?s2 w = (rt, req2, res2, s3, w')"
            by (metis prod_cases5)
          obtain ok res3 s4 where f: "finish_routing sv env cl rt req2 res2 s3 = (ok, res3, s4)" by (metis prod_cases3)
          obtain dr s5 where b: "drain_body sv req2 s4 = (dr, s5)" by (metis surj_pair)
          have p: "process_request sv env cl s w = \<lparr>sd_ok = ok, sd_closed = closes req1 \<or> dr, sd_response = Some res3,
              sd_stream = s5, sd_world = w'\<rparr>"
            using g G l L h H Inr r f b by (simp add: d)
          note e = expect_continue_only [of s2 req1 es]
          note f' = finish_routing_only [OF f]
          have l3: "plain s2 \<Longrightarrow> keeps_local s2 s3 (routing sv (ce_readable env) req1 ?res (expect_continue req1 (more es s2)) w =
              (rt, req2, res2, more es s3, w'))"
            by (rule local_then [OF _ unread_local [OF conjunct1 [OF e] TrueI] routing_local [where es = es, OF r]])
              (use e in simp_all)
          have l4: "plain s3 \<Longrightarrow> keeps_local s3 s5 (finish_routing sv env cl rt req2 res2 (more es s3) = (ok, res3, more es s4) \<and>
              drain_body sv req2 (more es s4) = (dr, more es s5))"
            by (rule local_then [OF _ unread_local [OF conjunct1 [OF f'] TrueI] drain_body_local [where es = es, OF b]])
              (use f' in simp_all)
          have l13: "keeps_local s s3 ((getline (new_reader 2048) (more es s) = (gk, r, more es s1) \<and>
              read_headers (rq_headers req) (more es s1) = (hk, hs, more es s2)) \<and>
              routing sv (ce_readable env) req1 ?res (expect_continue req1 (more es s2)) w = (rt, req2, res2, more es s3, w'))"
            by (rule local_then [OF assms l12 l3]) simp_all
          have "keeps_local s s5 (process_request sv env cl (more es s) w = \<lparr>sd_ok = ok, sd_closed = closes req1 \<or> dr,
              sd_response = Some res3, sd_stream = more es s5, sd_world = w'\<rparr>)"
            by (rule local_then [OF assms l13 l4]) (use G l L H Inr in \<open>simp_all add: d\<close>)
          then show ?thesis unfolding p by (simp add: with_stream_def)
        qed
      qed
    qed
  qed
qed

section \<open>A conversation\<close>

definition answers :: "'w served \<Rightarrow> http_response list" where
  "answers d = (case sd_response d of Some res \<Rightarrow> [res] | None \<Rightarrow> [])"

text \<open>The request was all that arrived, and nobody waited for more.\<close>

definition exact :: "'w served \<Rightarrow> bool" where
  "exact d \<longleftrightarrow> \<not> ended (sd_stream d) \<and> content (sd_stream d) = []"

text \<open>
  The reference: the packets of each request are all there is while it is served. \<open>None\<close> if one
  of them is not exactly a request, or is the last one the server is ready for.
\<close>

fun one_by_one ::
    "'w http_server \<Rightarrow> conn_env \<Rightarrow> nat \<Rightarrow> stream \<Rightarrow> 'w \<Rightarrow> recv_event list list \<Rightarrow> (http_response list \<times> stream \<times> 'w) option" where
  "one_by_one sv env n s w [] = Some ([], s, w)"
| "one_by_one sv env 0 s w (p # ps) = None"
| "one_by_one sv env (Suc n) s w (p # ps) =
     (let d = process_request sv env (n = 0) (fresh_stream (s\<lparr>inbound := p\<rparr>)) w in
      if sd_ok d \<and> \<not> sd_closed d \<and> exact d
      then map_option (\<lambda>(outs, s', w'). (answers d @ outs, s', w')) (one_by_one sv env n (sd_stream d) (sd_world d) ps)
      else None)"

lemma fresh_simps [simp]:
  "inbound (fresh_stream s) = inbound s" "outbound (fresh_stream s) = outbound s" "sends (fresh_stream s) = sends s"
  "rbuf (fresh_stream s) = []" "s_error (fresh_stream s) = Err_Success"
  by (simp_all add: fresh_stream_def)

lemma fresh_more: "fresh_stream (s\<lparr>inbound := p @ q\<rparr>) = more q (fresh_stream (s\<lparr>inbound := p\<rparr>))"
  by (simp add: fresh_stream_def more_def)

lemma exact_inbound:
  assumes "plain (sd_stream d)" "exact d"
  shows "more q (sd_stream d) = (sd_stream d)\<lparr>inbound := q\<rparr>"
proof -
  have "inbound (sd_stream d) = []"
  proof (cases "inbound (sd_stream d)")
    case (Cons ev evs)
    then obtain x where "ev = Arrive x" "x \<noteq> []" using assms(1) by (cases ev) (auto simp: plain_def)
    then show ?thesis using assms(2) Cons by (simp add: exact_def content_def)
  qed
  then show ?thesis by (simp add: more_def)
qed

lemma fresh_plain: "list_all event_ok p \<Longrightarrow> plain (fresh_stream (s\<lparr>inbound := p\<rparr>))"
  by (simp add: plain_def)

lemma served_with_more:
  assumes "list_all event_ok p" "exact (process_request sv env cl (fresh_stream (s\<lparr>inbound := p\<rparr>)) w)"
  shows "process_request sv env cl (fresh_stream (s\<lparr>inbound := p @ q\<rparr>)) w =
    with_stream (\<lambda>t. t\<lparr>inbound := q\<rparr>) (process_request sv env cl (fresh_stream (s\<lparr>inbound := p\<rparr>)) w)"
proof -
  let ?s = "fresh_stream (s\<lparr>inbound := p\<rparr>)" and ?d = "process_request sv env cl (fresh_stream (s\<lparr>inbound := p\<rparr>)) w"
  note l = process_request_local [OF fresh_plain [OF assms(1)], of s sv env cl w q]
  have "\<not> ended (sd_stream ?d)" using assms(2) by (simp add: exact_def)
  then have "process_request sv env cl (more q ?s) w = with_stream (more q) ?d" "plain (sd_stream ?d)"
    using l calm_plain [OF _ fresh_plain [OF assms(1)]] by (auto simp: keeps_local_def)
  then show ?thesis by (simp add: fresh_more with_stream_def exact_inbound [OF _ assms(2)])
qed

text \<open>
  C21: requests on a connection do not disturb each other. If the packets of a number of requests
  arrive one after the other, none holding bytes of two of them, the connection gives exactly
  the responses, the bytes and the effects it would give if each request were served with only
  its own packets there, and goes on with what follows; so that the bytes lost by reading ahead
  are always those of a client that does not wait.
\<close>

theorem requests_are_served_one_by_one:
  assumes "one_by_one sv env n s w ps = Some (outs, s', w')" "list_all (list_all event_ok) ps"
  shows "process_server_socket sv env (replicate (length ps) True @ ready) n (s\<lparr>inbound := concat ps @ es\<rparr>) w =
    (case process_server_socket sv env ready (n - length ps) (s'\<lparr>inbound := es\<rparr>) w' of
       (outs', t, u) \<Rightarrow> (outs @ outs', t, u))"
  using assms
proof (induction sv env n s w ps arbitrary: outs s' w' rule: one_by_one.induct)
  case (3 sv env n s w p ps)
  let ?d = "process_request sv env (n = 0) (fresh_stream (s\<lparr>inbound := p\<rparr>)) w"
  have ok: "sd_ok ?d" "\<not> sd_closed ?d" "exact ?d" using "3.prems"(1) by (auto simp: Let_def split: if_splits)
  obtain outs1 where o: "one_by_one sv env n (sd_stream ?d) (sd_world ?d) ps = Some (outs1, s', w')" "outs = answers ?d @ outs1"
    using "3.prems"(1) ok by (auto simp: Let_def)
  have pk: "list_all event_ok p" "list_all (list_all event_ok) ps" using "3.prems"(2) by simp_all
  note ih = "3.IH" [OF refl conjI [OF ok(1) conjI [OF ok(2,3)]] o(1) pk(2)]
  have sv: "process_request sv env (n = 0) (fresh_stream (s\<lparr>inbound := p @ concat ps @ es\<rparr>)) w =
      with_stream (\<lambda>t. t\<lparr>inbound := concat ps @ es\<rparr>) ?d"
    by (rule served_with_more [OF pk(1) ok(3)])
  have "process_server_socket sv env (replicate (length (p # ps)) True @ ready) (Suc n) (s\<lparr>inbound := concat (p # ps) @ es\<rparr>) w =
      (case process_server_socket sv env (replicate (length ps) True @ ready) n ((sd_stream ?d)\<lparr>inbound := concat ps @ es\<rparr>) (sd_world ?d) of
         (os, t, u) \<Rightarrow> (answers ?d @ os, t, u))"
    using ok by (simp add: sv Let_def answers_def)
  also have "\<dots> = (case process_server_socket sv env ready (Suc n - length (p # ps)) (s'\<lparr>inbound := es\<rparr>) w' of
      (os, t, u) \<Rightarrow> (outs @ os, t, u))"
    unfolding ih o(2) by (simp split: prod.split)
  finally show ?case .
qed (simp_all split: prod.split)

end
