(* ===== verification/Front_Wire.thy ===== *)
theory Front_Wire
  imports Front_Server Http_Connection
begin

text \<open>
  One request from the wire to the wire: the bytes of a \<open>POST /infer\<close>, however they are
  fragmented, through the request line, the headers, the framed body, the routing table and the
  handler, up to the bytes of the response.
\<close>

section \<open>Reading sends nothing\<close>

definition same_out :: "stream \<Rightarrow> stream \<Rightarrow> bool" where
  "same_out s s' \<longleftrightarrow> outbound s' = outbound s \<and> sends s' = sends s"

lemma same_out_refl [simp]: "same_out s s"
  by (simp add: same_out_def)

lemma same_out_trans: "same_out s t \<Longrightarrow> same_out t u \<Longrightarrow> same_out s u"
  by (simp add: same_out_def)

lemma sock_read_out: "sock_read n s = (k, d, s') \<Longrightarrow> same_out s s'"
  by (auto simp: same_out_def sock_read_def recv_def Let_def split: if_splits list.splits recv_event.splits)

lemma sock_read_alive:
  assumes "sock_read n s = (k, d, s')" "plain s" "0 < n" "d \<noteq> []"
  shows "s_error s' = s_error s"
proof (cases "rbuf s = []")
  case False
  then show ?thesis using assms(1) by (auto simp: sock_read_def split: if_splits)
next
  case True
  show ?thesis
  proof (cases "n < read_buff_size")
    case False
    then show ?thesis using assms True recv_alive [of n s k d s'] by (simp add: sock_read_def)
  next
    case small: True
    obtain k1 d1 s1 where r: "recv read_buff_size s = (k1, d1, s1)" by (metis prod_cases3)
    have "d1 \<noteq> []" using assms(1,4) True small r by (auto simp: sock_read_def split: if_splits)
    from recv_alive [OF r assms(2) read_buff_size_pos this] show ?thesis
      using assms(1) True small r by (auto simp: sock_read_def split: if_splits)
  qed
qed

lemma getline_loop_out: "getline_loop i p r s = (ok, r', s') \<Longrightarrow> same_out s s'"
proof (induction i p r s rule: getline_loop.induct)
  case (1 i p r s)
  obtain n d s1 where r: "sock_read 1 s = (n, d, s1)" by (metis prod_cases3)
  note o1 = sock_read_out [OF r]
  show ?case
  proof (cases "max_line_length \<le> lr_size r \<or> n \<le> 0 \<or> p = CHR 0x0D \<and> hd d = CHR 0x0A")
    case True
    then show ?thesis using "1.prems" r o1 unfolding getline_loop.simps [of i p r s]
      by (auto simp: Let_def split: if_splits)
  next
    case False
    then have "getline_loop (i + 1) (hd d) (lr_append (hd d) r) s1 = (ok, r', s')"
      using "1.prems" r unfolding getline_loop.simps [of i p r s] by (auto simp: Let_def)
    then have "same_out s1 s'"
      using "1.IH" [OF _ refl, of n "(d, s1)" d s1 "hd d" "lr_append (hd d) r"] r False by auto
    with o1 show ?thesis by (rule same_out_trans)
  qed
qed

lemma getline_out: "getline r s = (ok, r', s') \<Longrightarrow> same_out s s'"
  unfolding getline_def by (rule getline_loop_out)

lemma read_headers_loop_out: "read_headers_loop cnt r hs s = (ok, hs', s') \<Longrightarrow> same_out s s'"
proof (induction cnt r hs s rule: read_headers_loop.induct)
  case (1 cnt r hs s)
  obtain gk r1 s1 where g: "getline r s = (gk, r1, s1)" by (metis prod_cases3)
  note o1 = getline_out [OF g]
  show ?case
  proof (cases "gk \<and> s1 \<noteq> s'")
    case False
    then show ?thesis using "1.prems" o1 g by (cases gk) (auto simp: read_headers_loop.simps [of cnt r hs s])
  next
    case True
    show ?thesis
    proof (cases "end_with_crlf r1")
      case False
      have "read_headers_loop cnt r1 hs s1 = (ok, hs', s')"
        using "1.prems" g True False by (simp add: read_headers_loop.simps [of cnt r hs s])
      then have "same_out s1 s'" using "1.IH"(1) [OF g [symmetric]] True False by simp
      with o1 show ?thesis by (rule same_out_trans)
    next
      case e: True
      obtain kv where kv: "parse_header (take (lr_size r1 - 2) (lr_ptr r1)) = Some kv" "lr_size r1 \<noteq> 2"
        "\<not> header_max_length < lr_size r1" "\<not> header_max_count \<le> cnt"
        using "1.prems" g True e by (simp add: read_headers_loop.simps [of cnt r hs s] split: if_splits option.splits)
      then have "read_headers_loop (cnt + 1) r1 (hs @ [kv]) s1 = (ok, hs', s')"
        using "1.prems" g True e by (simp add: read_headers_loop.simps [of cnt r hs s])
      then have "same_out s1 s'" using "1.IH"(2) [OF g [symmetric]] True e kv by simp
      with o1 show ?thesis by (rule same_out_trans)
    qed
  qed
qed

section \<open>A body with a length is read to its end and no further\<close>

lemma prefix_of_both:
  assumes "b @ rest = d @ t" "length d \<le> length b"
  shows "\<exists>b'. b = d @ b' \<and> t = b' @ rest"
  using assms by (auto simp: append_eq_append_conv2)

text \<open>
  A receiver that appends what it gets while the whole stays within \<open>m\<close> bytes (0: any number):
  the server's and the client's are two, and both are given a body of known length byte for byte.
\<close>

locale appending_receiver =
  fixes out :: "'a receiver" and size_of :: "'a \<Rightarrow> nat" and put :: "string \<Rightarrow> 'a \<Rightarrow> 'a" and m :: nat
  assumes takes: "m = 0 \<or> size_of a + length d \<le> m \<Longrightarrow> d \<noteq> [] \<Longrightarrow> out d off len a = (True, put d a)"
    and put_size: "size_of (put d a) = size_of a + length d"
    and put_none: "put [] a = a"
    and put_twice: "put e (put d a) = put (d @ e) a"
begin

lemma with_length_reads:
  assumes "plain s" "content s = b @ rest" "r + length b = len" "size_of a = r" "m = 0 \<or> len \<le> m"
    "br_has_stream br" "has_content_length br" "content_length br = len" "bytes_read br = r" "\<not> br_chunked br"
    "br_eof br \<longrightarrow> len \<le> r" "br_payload_max br = m"
  shows "\<exists>s'. with_length_loop len None out r br a s = (Rc_Success, put b a, s') \<and>
    plain s' \<and> content s' = rest \<and> same_out s s' \<and> s_error s' = s_error s"
  using assms
proof (induction "length b" arbitrary: b r br a s rule: less_induct)
  case less
  show ?case
  proof (cases "b = []")
    case True
    then show ?thesis using less.prems by (simp add: with_length_loop.simps [of len] put_none)
  next
    case False
    let ?n = "min (len - r) recv_bufsiz"
    have n: "0 < ?n" "?n \<le> length b" "r < len" using False less.prems(3) by (auto simp: recv_bufsiz_def)
    obtain k d s1 where rd: "sock_read ?n s = (k, d, s1)" by (metis prod_cases3)
    have mn: "min ?n (content_length br - bytes_read br) = ?n" using less.prems(8,9) by simp
    note p = sock_read_plain [OF less.prems(1) n(1) rd]
    have d: "d \<noteq> []" using p(5) less.prems(2) False by auto
    have "length d \<le> length b" using order.trans [OF p(4) n(2)] .
    moreover have "b @ rest = d @ content s1" using p(2) less.prems(2) by simp
    ultimately obtain b' where b': "b = d @ b'" "content s1 = b' @ rest" using prefix_of_both by blast
    let ?br = "br\<lparr>bytes_read := r + length d, br_eof := (len \<le> r + length d)\<rparr>"
    have got: "r + length d \<le> len" using b' less.prems(3) by simp
    have rb: "body_read ?n br s = (int (length d), d, ?br, s1)"
      using less.prems(5-12) n(3) d got mn rd p(3) unfolding body_read_def Let_def by auto
    have o: "out d r len a = (True, put d a)"
      by (rule takes) (use less.prems(4,5) got d in auto)
    have st: "with_length_loop len None out r br a s = with_length_loop len None out (r + length d) ?br (put d a) s1"
      using n(3) rb o d by (subst with_length_loop.simps) simp
    have "\<exists>s'. with_length_loop len None out (r + length d) ?br (put d a) s1 = (Rc_Success, put b' (put d a), s') \<and>
        plain s' \<and> content s' = rest \<and> same_out s1 s' \<and> s_error s' = s_error s1"
      by (rule less.hyps) (use less.prems b' d p(1) put_size in auto)
    then show ?thesis unfolding st b'(1) put_twice
      using same_out_trans [OF sock_read_out [OF rd]] sock_read_alive [OF rd less.prems(1) n(1) d] by auto
  qed
qed

lemma content_with_length_reads:
  assumes "plain s" "content s = b @ rest" "size_of a = 0" "m = 0 \<or> length b \<le> m" "length b \<le> size_max"
    "equal_range hs ''Content-Length'' = [to_dec (length b)]"
    "header_value hs ''Transfer-Encoding'' = []" "header_value hs ''Content-Encoding'' = []"
  shows "\<exists>s'. read_content hs trailers m None out decompress a s = ((True, None), trailers, put b a, s') \<and>
    plain s' \<and> content s' = rest \<and> same_out s s' \<and> s_error s' = s_error s"
proof -
  have len: "get_header_value_u64 hs ''Content-Length'' size_max 0 = (length b, False)"
    using assms(5,6) to_dec_digits [of "length b"] by (simp add: get_header_value_u64_def is_numeric_def list_all_iff)
  have "\<not> is_prohibited_header_name ''Content-Length''"
    using library_names_allowed unfolding library_names_def by simp
  then have has: "has_header hs ''Content-Length''" using assms(6) by (simp add: has_header_def)
  have nochunk: "\<not> is_chunked_transfer_encoding hs"
    unfolding is_chunked_transfer_encoding_def assms(7) by (simp add: equal_ci_def)
  let ?br = "\<lparr>br_has_stream = True, has_content_length = True, content_length = length b, br_payload_max = m,
      bytes_read = 0, br_chunked = False, br_eof = False, br_decoder = new_decoder, last_error = Err_Success\<rparr>"
  obtain s' where l: "with_length_loop (length b) None out 0 ?br a s = (Rc_Success, put b a, s')" "plain s'" "content s' = rest"
    "same_out s s'" "s_error s' = s_error s"
    using with_length_reads [OF assms(1,2), of 0 "length b" a ?br] assms(3,4) by auto
  show ?thesis
  proof (cases "b = []")
    case True
    then have "read_content hs trailers m None out decompress a s = ((True, None), trailers, a, s)"
      using len by (simp add: read_content_def prepare_content_receiver_def assms(8) has nochunk)
    then show ?thesis using True assms(1,2) by (simp add: put_none)
  next
    case False
    then have "read_content hs trailers m None out decompress a s = ((True, None), trailers, put b a, s')"
      using len l(1) by (simp add: read_content_def prepare_content_receiver_def assms(8) has nochunk
          read_content_with_length_def body_status_def del: option.case_distrib)
    then show ?thesis using l(2-5) by blast
  qed
qed

end

interpretation server_body: appending_receiver "body_receiver m" "\<lambda>cs. length (cs_body cs)"
    "\<lambda>d cs. cs\<lparr>cs_body := cs_body cs @ d\<rparr>" m for m
proof
  show "m = 0 \<or> length (cs_body a) + length d \<le> m \<Longrightarrow> d \<noteq> [] \<Longrightarrow>
     body_receiver m d off len a = (True, a\<lparr>cs_body := cs_body a @ d\<rparr>)" for a d off len
    by (cases d) (auto simp: body_receiver_def)
qed simp_all

section \<open>The header fields of an ordinary request\<close>

text \<open>
  Fields that survive the wire, announce a body of \<open>n\<close> bytes and ask for nothing special; the
  media type may be any but those of a form.
\<close>

definition ordinary_fields :: "headers \<Rightarrow> nat \<Rightarrow> bool" where
  "ordinary_fields hs n \<longleftrightarrow>
     list_all field_fits hs \<and> length hs \<le> header_max_count \<and> equal_range hs ''Content-Length'' = [to_dec n] \<and>
     list_all (\<lambda>name. equal_range hs name = [])
       [''Transfer-Encoding'', ''Content-Encoding'', ''Range'', ''Expect''] \<and> equal_range hs ''Accept'' \<in> {[], [''*/*'']} \<and>
     media_type (header_value hs ''Content-Type'') \<notin> {''multipart/form-data'', ''application/x-www-form-urlencoded''}"

lemma header_value_absent: "equal_range hs key = [] \<Longrightarrow> header_value hs key = []"
  by (simp add: header_value_def get_header_value_def)

lemma has_header_absent: "equal_range hs key = [] \<Longrightarrow> \<not> has_header hs key"
  by (simp add: has_header_def)

lemma to_dec_numeric: "is_numeric (to_dec n)"
  using to_dec_digits [of n] by (simp add: is_numeric_def list_all_iff)

lemma ordinary_fieldsD:
  assumes "ordinary_fields hs n"
  shows "list_all field_fits hs" "length hs \<le> header_max_count" "one_content_length hs"
    "header_value hs ''Transfer-Encoding'' = []" "header_value hs ''Content-Encoding'' = []" "header_value hs ''Expect'' = []"
    "\<not> has_header hs ''Transfer-Encoding''" "\<not> has_header hs ''Range''"
    "has_header hs ''Content-Length''"
    "media_type (header_value hs ''Content-Type'') \<noteq> ''multipart/form-data''"
    "media_type (header_value hs ''Content-Type'') \<noteq> ''application/x-www-form-urlencoded''"
    "n \<le> size_max \<Longrightarrow> get_header_value_u64 hs ''Content-Length'' d 0 = (n, False)"
proof -
  have c: "equal_range hs ''Content-Length'' = [to_dec n]" using assms by (simp add: ordinary_fields_def)
  have "\<not> is_prohibited_header_name ''Content-Length''"
    using library_names_allowed unfolding library_names_def by simp
  then show "has_header hs ''Content-Length''" using c by (simp add: has_header_def)
  show "n \<le> size_max \<Longrightarrow> get_header_value_u64 hs ''Content-Length'' d 0 = (n, False)"
    by (simp add: get_header_value_u64_def c to_dec_numeric)
  show "one_content_length hs" by (simp add: one_content_length_def c)
qed (use assms in \<open>simp_all add: ordinary_fields_def header_value_absent has_header_absent\<close>)

lemma ordinary_content_read:
  assumes "ordinary_fields (rq_headers req) (length b)" "plain s" "content s = b @ rest" "length b \<le> m" "m \<le> size_max"
    "cs_body cs0 = []"
  shows "\<exists>cs s'. read_content_core m rd req cs0 s = (True, None, req\<lparr>rq_body_consumed := True\<rparr>, cs, s') \<and>
    cs_body cs = b \<and> cs_form cs = cs_form cs0 \<and> plain s' \<and> content s' = rest \<and> same_out s s' \<and> s_error s' = s_error s"
proof -
  note f = ordinary_fieldsD [OF assms(1)]
  let ?cs = "case parse_multipart_boundary (rq_header req ''Content-Type'') of
      Some b \<Rightarrow> cs0\<lparr>cs_parser := new_form_parser b\<rparr> | None \<Rightarrow> cs0"
  have cs: "cs_body ?cs = []" "cs_form ?cs = cs_form cs0" using assms(6) by (simp_all split: option.split)
  have multi: "\<not> is_multipart_form_data req" using f(10) by (simp add: is_multipart_form_data_def rq_header_def)
  have cl: "equal_range (rq_headers req) ''Content-Length'' = [to_dec (length b)]" using assms(1) by (simp add: ordinary_fields_def)
  have "length b \<le> size_max" using assms(4,5) by simp
  from server_body.content_with_length_reads [OF assms(2,3) _ _ this cl f(4,5), of ?cs m "rq_trailers req" True] cs(1) assms(4)
  obtain s2 where r: "read_content (rq_headers req) (rq_trailers req) m None (body_receiver m) True ?cs s =
      ((True, None), rq_trailers req, ?cs\<lparr>cs_body := cs_body ?cs @ b\<rparr>, s2)" "plain s2" "content s2 = rest" "same_out s s2" "s_error s2 = s_error s"
    by auto
  have "rq_has_header req ''Content-Length''" using f(9) by (simp add: rq_has_header_def)
  then have "read_content_core m rd req cs0 s =
      (True, None, req\<lparr>rq_trailers := rq_trailers req, rq_body_consumed := True\<rparr>, ?cs\<lparr>cs_body := cs_body ?cs @ b\<rparr>, s2)"
    using multi r(1) by (simp add: read_content_core_def Let_def)
  then show ?thesis using r(2-5) cs by (intro exI [of _ "?cs\<lparr>cs_body := cs_body ?cs @ b\<rparr>"] exI [of _ s2]) simp
qed

lemma ordinary_body_read:
  assumes "ordinary_fields (rq_headers req) (length b)" "plain s" "content s = b @ rest" "length b \<le> m" "m \<le> size_max"
    "rq_body req = []"
  shows "\<exists>s'. server_read_content m rd req res s = (True, req\<lparr>rq_body_consumed := True, rq_body := b\<rparr>, res, s') \<and>
    plain s' \<and> content s' = rest \<and> same_out s s' \<and> s_error s' = s_error s"
proof -
  let ?cs0 = "\<lparr>cs_body = rq_body req, cs_parser = new_form_parser [], cs_form = (rq_form req, False, 0)\<rparr>"
  obtain cs s' where c: "read_content_core m rd req ?cs0 s = (True, None, req\<lparr>rq_body_consumed := True\<rparr>, cs, s')"
    "cs_body cs = b" "cs_form cs = cs_form ?cs0" "plain s'" "content s' = rest" "same_out s s'" "s_error s' = s_error s"
    using ordinary_content_read [OF assms(1-5), of ?cs0 rd] assms(6) by auto
  have "media_type (header_value (rq_headers req) ''Content-Type'') \<noteq> ''application/x-www-form-urlencoded''"
    by (rule ordinary_fieldsD [OF assms(1)])
  then have "server_read_content m rd req res s =
      (True, req\<lparr>rq_body_consumed := True, rq_body := b, rq_form := rq_form req\<rparr>, res, s')"
    using c(1-3) by (simp add: server_read_content_def rq_header_def set_status_def Let_def)
  then show ?thesis using c(4-7) by (intro exI [of _ s']) simp
qed

section \<open>From the first byte to the handler\<close>

definition infer_line :: string where
  "infer_line = ''POST /infer HTTP/1.1''"

lemma infer_line_split: "split infer_line (CHR '' '') None = [''POST'', ''/infer'', ''HTTP/1.1'']"
  by code_simp

lemma infer_path_plain: "takeWhile (\<lambda>c. c \<noteq> CHR ''#'') ''/infer'' = ''/infer''" "divide ''/infer'' (CHR ''?'') = (''/infer'', [])"
  "decode_path_component ''/infer'' = ''/infer''" "parse_query_text [] [] = []"
  by (code_simp+)

definition infer_shell :: "string \<Rightarrow> string list \<Rightarrow> headers \<Rightarrow> http_request" where
  "infer_shell addr acc hs = new_request\<lparr>rq_remote_addr := addr, rq_method := ''POST'', rq_target := ''/infer'',
     rq_version := ''HTTP/1.1'', rq_path := ''/infer'', rq_headers := hs, rq_accept := acc\<rparr>"

lemma infer_line_parsed:
  "parse_request_line (infer_line @ crlf) (new_request\<lparr>rq_remote_addr := addr\<rparr>) = (True, infer_shell addr [] [])"
proof -
  have z: "c_str (infer_line @ crlf) = infer_line @ crlf" by code_simp
  have ends: "length (infer_line @ crlf) = 22" "(infer_line @ crlf) ! 20 = CHR 0x0D" "(infer_line @ crlf) ! 21 = CHR 0x0A"
    "take 20 (infer_line @ crlf) = infer_line"
    by code_simp+
  have st: "store_line [''POST'', ''/infer'', ''HTTP/1.1''] (new_request\<lparr>rq_remote_addr := addr\<rparr>) =
      new_request\<lparr>rq_remote_addr := addr, rq_method := ''POST'', rq_target := ''/infer'', rq_version := ''HTTP/1.1''\<rparr>"
    by (simp add: store_line_def new_request_def)
  have pt: "parse_target (new_request\<lparr>rq_remote_addr := addr, rq_method := ''POST'', rq_target := ''/infer'',
      rq_version := ''HTTP/1.1''\<rparr>) = infer_shell addr [] []"
    unfolding infer_shell_def by (simp add: parse_target_def new_request_def infer_path_plain Let_def)
  have "''POST'' \<in> set http_methods" by (simp add: http_methods_def)
  then show ?thesis
    unfolding parse_request_line_def z Let_def using ends st pt by (simp add: infer_line_split)
qed

lemma server_new_config:
  assumes "server_new J cfg rnd call ck p answer = Some sv"
  shows "trusted_proxies sv = []" "payload_max_length sv = 100 * 1024 * 1024" "default_headers sv = []"
  using assms
  by (auto simp: server_new_def register_routes_def sv_Post_def sv_Get_def add_handler_def routes_have_no_parameter
      new_http_server_def)

lemma accept_anything: "parse_accept_header ''*/*'' = Accept_types [''*/*'']"
  by code_simp

lemma ordinary_request_accepted:
  assumes "ordinary_fields hs n" "n \<le> size_max" "trusted_proxies sv = []"
  shows "\<exists>acc. check_request sv env (infer_shell (ce_remote_addr env) [] hs) = Inr (infer_shell (ce_remote_addr env) acc hs)"
proof -
  note f = ordinary_fieldsD [OF assms(1)]
  have h: "rq_headers (infer_shell a acc hs) = hs" for a acc by (simp add: infer_shell_def)
  have n: "\<not> rq_has_header (infer_shell a acc hs) ''Range''"
    "\<not> rq_has_header (infer_shell a acc hs) ''Transfer-Encoding''" for a acc
    using f by (simp_all add: rq_has_header_def h)
  have a: "rq_header (infer_shell a acc hs) ''Accept'' \<in> {[], ''*/*''}" for a acc
    using assms(1) by (auto simp: rq_header_def h ordinary_fields_def header_value_def get_header_value_def c_str_def)
  have u: "(infer_shell a acc hs)\<lparr>rq_accept := acc'\<rparr> = infer_shell a acc' hs" for a acc acc' by (simp add: infer_shell_def)
  have "with_client_ip sv env (infer_shell (ce_remote_addr env) [] hs) = infer_shell (ce_remote_addr env) [] hs"
    using assms(3) by (simp add: with_client_ip_def infer_shell_def new_request_def)
  moreover have "length (rq_target (infer_shell a acc hs)) \<le> request_uri_max_length" for a acc
    by (simp add: infer_shell_def request_uri_max_length_def)
  moreover have "parse_accept_header [] = Accept_types []" by (simp add: parse_accept_header_def)
  ultimately show ?thesis using n a [of "ce_remote_addr env" "[]"] accept_anything
    by (auto simp: check_request_def accept_and_range_def u not_less)
qed

lemma infer_begin_waiting:
  assumes "infer_begin J rnd call ck p req res st = (Waiting r, st')" "rq_body req' = rq_body req"
  shows "infer_begin J rnd call ck p req' res' st = (Waiting r, st')"
  using assms by (auto simp: infer_begin_def split: option.splits prod.splits bool.splits)

lemma infer_begin_ids: "infer_begin J rnd call ck p req res st = (Waiting r, st') \<Longrightarrow> ids st' = ids st + 1"
  by (auto simp: infer_begin_def allow_call_def next_id_def submit_def dispatch_begin_def
      split: option.splits prod.splits bool.splits)

definition infer_routed :: "string \<Rightarrow> string list \<Rightarrow> headers \<Rightarrow> string \<Rightarrow> http_request" where
  "infer_routed addr acc hs b = (infer_shell addr acc hs)\<lparr>rq_body_consumed := True, rq_body := b, rq_path_params := [],
     rq_matched_route := ''/infer''\<rparr>"

lemma infer_routing:
  assumes "server_new J cfg rnd call ck p answer = Some sv" "ordinary_fields hs (length b)" "plain s" "content s = b @ rest"
    "length b \<le> 100 * 1024 * 1024" "infer_begin J rnd call ck p (new_request\<lparr>rq_body := b\<rparr>) new_response st = (Waiting r, st')"
    "js_dump J (Doc_object [(''result'', Doc_string (answer r))]) = Some text"
  shows "\<exists>s'. routing sv rd (infer_shell addr acc hs) res s st =
      (Routed, infer_routed addr acc hs b, set_content text json_type res, s', dispatch_end st') \<and>
    plain s' \<and> content s' = rest \<and> same_out s s' \<and> s_error s' = s_error s"
proof -
  let ?req = "infer_shell addr acc hs" and ?m = "payload_max_length sv"
  have h: "rq_headers ?req = hs" "rq_body ?req = []" "rq_method ?req = ''POST''" by (simp_all add: infer_shell_def new_request_def)
  have m: "length b \<le> ?m" "?m \<le> size_max" using server_new_config(2) [OF assms(1)] assms(5) by simp_all
  obtain s' where c: "server_read_content ?m rd ?req res s = (True, ?req\<lparr>rq_body_consumed := True, rq_body := b\<rparr>, res, s')"
    "plain s'" "content s' = rest" "same_out s s'" "s_error s' = s_error s"
    using ordinary_body_read [of ?req b s rest ?m rd res] assms(2-4) m h by auto
  have hs: "handlers_for sv ''POST'' = Some (post_handlers sv)" by (simp add: handlers_for_def)
  have w: "infer_begin J rnd call ck p (infer_routed addr acc hs b) res st = (Waiting r, st')"
    by (rule infer_begin_waiting [OF assms(6)]) (simp add: infer_routed_def)
  have "dispatch_request (post_handlers sv) (?req\<lparr>rq_body_consumed := True, rq_body := b\<rparr>) res st =
      (Routed, infer_routed addr acc hs b, set_content text json_type res, dispatch_end st')"
    using w assms(7) unfolding server_new_tables(1) [OF assms(1)] infer_routed_def
    by (simp add: matcher_match_def matcher_pattern_def infer_handler_def infer_end_def infer_shell_def Let_def)
  then show ?thesis using c h hs by (intro exI [of _ s']) (simp add: routing_def expect_content_def)
qed

section \<open>From the handler to the last byte\<close>

lemma write_core_all:
  assumes "write_response_core sv b cl need req res s = (ok, res', s')" "rs_provider res = None" "sends s = []"
  shows "ok \<and> content s' = content s \<and> plain s' = plain s \<and> s_error s' = s_error s \<and> sends s' = sends s"
proof -
  let ?r1 = "if need then fst (apply_ranges b req res) else res"
  let ?r = "content_headers req (connection_headers sv cl req ?r1)"
  have "rs_provider (fst (apply_ranges b req res)) = None"
    using assms(2) unfolding apply_ranges_def Let_def split_beta by (simp split: if_splits)
  then have pr: "rs_provider ?r = None" using assms(2) by simp
  have "(ok, res', s') = (True, ?r, s\<lparr>outbound := outbound s @ response_bytes req ?r\<rparr>)"
    unfolding assms(1) [symmetric] write_response_core_def Let_def split_beta
    using pr write_data_nofail [OF assms(3)] by (cases need; simp)
  then show ?thesis by (simp add: content_def plain_def)
qed

lemma content_type_names: "is_field_name ''Content-Type''" "is_field_value json_type"
  "\<not> equal_ci ''Connection'' ''Content-Type''" "\<not> equal_ci ''Keep-Alive'' ''Content-Type''"
  "\<not> equal_ci ''Content-Length'' ''Content-Type''" "\<not> equal_ci ''Accept-Ranges'' ''Content-Type''"
  by (simp_all add: is_field_name_def is_token_def is_token_char_def is_alnum_def equal_ci_def json_type_def
      is_field_value_def is_field_content_def is_field_vchar_def is_vchar_def)

lemma json_response_type:
  assumes "write_response_core sv b cl True req res s = (ok, res', s')" "rq_ranges req = []"
    "equal_range (rs_headers res) ''Content-Type'' = [json_type]" "rs_provider res = None" "rs_content_length res = 0"
  shows "equal_range (rs_headers res') ''Content-Type'' = [json_type] \<and> rs_body res' = rs_body res"
proof -
  let ?r1 = "fst (apply_ranges b req res)"
  let ?r = "content_headers req (connection_headers sv cl req ?r1)"
  have a: "?r1 = (if rs_body res = [] then res else rs_set_header ''Content-Length'' (to_dec (length (rs_body res))) res)"
    using assms(2,4,5) by (simp add: apply_ranges_def multipart_ranges_headers_def partial_def)
  have "equal_range (rs_headers (connection_headers sv cl req ?r1)) ''Content-Type'' = [json_type]"
    unfolding a using assms(3) by (simp add: connection_headers_def equal_range_set_header content_type_names)
  moreover have "equal_range (rs_headers r) ''Content-Type'' = [json_type] \<Longrightarrow>
      equal_range (rs_headers (content_headers req r)) ''Content-Type'' = [json_type]" for r
    by (simp add: content_headers_def Let_def rs_has_header_def equal_range_set_header content_type_names)
  moreover have "rs_body ?r = rs_body res" unfolding content_headers_keeps connection_headers_keeps a by simp
  moreover have "res' = ?r"
    using assms(1) unfolding write_response_core_def Let_def split_beta
    by (auto split: if_splits option.splits prod.splits bool.splits)
  ultimately show ?thesis by simp
qed

text \<open>The header fields of the answer to a client that asks for the connection to be closed.\<close>

definition answer_fields :: "string \<Rightarrow> headers" where
  "answer_fields text = (''Content-Type'', json_type) #
     (if text = [] then [(''Connection'', ''close''), (''Content-Length'', ''0'')]
      else [(''Content-Length'', to_dec (length text)), (''Connection'', ''close'')])"

lemma plain_field_names: "is_field_name ''Connection''" "is_field_name ''Content-Length''" "is_field_value ''close''" "is_field_value ''0''"
  by (simp_all add: is_field_name_def is_token_def is_token_char_def is_alnum_def
      is_field_value_def is_field_content_def is_field_vchar_def is_vchar_def)

lemma json_response_fields:
  assumes "write_response_core sv b cl True req res s = (ok, res', s')" "rq_ranges req = []"
    "rs_headers res = [(''Content-Type'', json_type)]" "rs_provider res = None" "rs_content_length res = 0"
    "header_value (rq_headers req) ''Connection'' = ''close''" "rq_method req = ''POST''"
  shows "rs_headers res' = answer_fields (rs_body res)"
proof -
  let ?r1 = "fst (apply_ranges b req res)"
  have a: "?r1 = (if rs_body res = [] then res else rs_set_header ''Content-Length'' (to_dec (length (rs_body res))) res)"
    using assms(2,4,5) by (simp add: apply_ranges_def multipart_ranges_headers_def partial_def)
  have c: "connection_headers sv cl req r = rs_set_header ''Connection'' ''close'' r" for r
    using assms(6) by (simp add: connection_headers_def rq_header_def)
  have r: "res' = content_headers req (connection_headers sv cl req ?r1)"
    using assms(1) unfolding write_response_core_def Let_def split_beta
    by (auto split: if_splits option.splits prod.splits bool.splits)
  have "\<not> is_prohibited_header_name ''Content-Length''" "\<not> is_prohibited_header_name ''Content-Type''"
    using library_names_allowed unfolding library_names_def by simp_all
  then show ?thesis unfolding r c a
    using assms(3-5,7) by (simp add: content_headers_def answer_fields_def rs_has_header_def has_header_def rs_set_header_def set_header_def
        plain_field_names digits_are_value content_type_names equal_range_def equal_ci_def)
qed

lemma infer_answer_written:
  assumes "finish_routing sv env cl Routed req (set_content text json_type (new_response\<lparr>rs_version := v\<rparr>)) s = (ok, res', s')"
    "rq_ranges req = []" "rq_method req = ''POST''" "sends s = []"
  shows "ok" "content s' = content s" "s_error s' = s_error s" "sends s' = []" "rs_status res' = 200" "rs_body res' = text"
    "equal_range (rs_headers res') ''Content-Length'' = [to_dec (length text)]"
    "equal_range (rs_headers res') ''Content-Type'' = [json_type]"
    "outbound s' = outbound s @ write_response_line 200 @ concat (map header_line (rs_headers res')) @ crlf @ text"
    "header_value (rq_headers req) ''Connection'' = ''close'' \<Longrightarrow> rs_headers res' = answer_fields text"
proof -
  let ?res = "(set_content text json_type (new_response\<lparr>rs_version := v\<rparr>))\<lparr>rs_status := 200\<rparr>"
  have e: "req\<lparr>rq_ranges := []\<rparr> = req" using assms(2) by (cases req) simp
  have c: "write_response_core sv (ce_boundary env) cl True req ?res s = (ok, res', s')"
    using assms(1,2) e
    by (simp add: finish_routing_def finish_routed_def write_response_with_content_def range_error_Nil new_response_def Let_def)
  have r: "rs_provider ?res = None" "rs_content_length ?res = 0" "equal_range (rs_headers ?res) ''Content-Length'' = []"
    "equal_range (rs_headers ?res) ''Content-Type'' = [json_type]" "rs_body ?res = text" "rs_status ?res = 200"
    by (simp_all add: new_response_def set_content_def equal_range_set_header framing_names content_type_names erase_header_def)
      (simp_all add: equal_range_def)
  note t = json_response_type [OF c assms(2) r(4,1,2)] and w = write_core_all [OF c r(1) assms(4)]
  note f = write_core_framed [OF c r(1-3)]
  show ok "content s' = content s" "s_error s' = s_error s" "sends s' = []" "equal_range (rs_headers res') ''Content-Type'' = [json_type]"
    using w t assms(4) by simp_all
  show st: "rs_status res' = 200" using write_response_core_status [OF c] r(6) by simp
  show bd: "rs_body res' = text" using t r(5) by simp
  show "equal_range (rs_headers res') ''Content-Length'' = [to_dec (length text)]" using f bd by simp
  show "outbound s' = outbound s @ write_response_line 200 @ concat (map header_line (rs_headers res')) @ crlf @ text"
    using f w bd st assms(3) response_bytes_eq [of res' req] by simp
  assume h: "header_value (rq_headers req) ''Connection'' = ''close''"
  have "rs_headers ?res = [(''Content-Type'', json_type)]"
    by (simp add: new_response_def set_content_def rs_set_header_def set_header_def content_type_names erase_header_def)
  from json_response_fields [OF c assms(2) this r(1,2) h assms(3)] show "rs_headers res' = answer_fields text" using r(5) by simp
qed

section \<open>The whole way\<close>

lemma infer_on_the_wire:
  assumes "server_new J cfg rnd call ck p answer = Some sv"
    and "plain s" "sends s = []" "content s = infer_line @ crlf @ concat (map header_line hs) @ crlf @ b @ rest"
    and "ordinary_fields hs (length b)" "length b \<le> 100 * 1024 * 1024"
    and "infer_begin J rnd call ck p (new_request\<lparr>rq_body := b\<rparr>) new_response st = (Waiting r, st')"
    and "js_dump J (Doc_object [(''result'', Doc_string (answer r))]) = Some text"
  shows "\<exists>res s'. process_request sv env cl s st =
      \<lparr>sd_ok = True, sd_closed = (header_value hs ''Connection'' = ''close''), sd_response = Some res, sd_stream = s',
       sd_world = dispatch_end st'\<rparr> \<and>
    content s' = rest \<and> sends s' = [] \<and> (b @ rest \<noteq> [] \<longrightarrow> \<not> ended s \<longrightarrow> \<not> ended s') \<and> rs_status res = 200 \<and> rs_body res = text \<and>
    equal_range (rs_headers res) ''Content-Length'' = [to_dec (length text)] \<and>
    equal_range (rs_headers res) ''Content-Type'' = [json_type] \<and>
    outbound s' = outbound s @ write_response_line 200 @ concat (map header_line (rs_headers res)) @ crlf @ text \<and>
    (header_value hs ''Connection'' = ''close'' \<longrightarrow> rs_headers res = answer_fields text)"
proof -
  let ?addr = "ce_remote_addr env" and ?req = "infer_shell (ce_remote_addr env) [] hs"
  note f = ordinary_fieldsD [OF assms(5)] and cfg = server_new_config [OF assms(1)]
  have "\<forall>c \<in> set infer_line. c \<noteq> CHR 0x0D \<and> c \<noteq> CHR 0x0A" "length infer_line + 2 \<le> max_line_length"
    by (simp_all add: infer_line_def max_line_length_def)
  from first_line [OF assms(2,4) this] obtain rd s1 where g: "getline (new_reader 2048) s = (True, rd, s1)" "plain s1"
    "content s1 = concat (map header_line hs) @ crlf @ b @ rest" "lr_ptr rd = infer_line @ crlf" by blast
  have "0 < fixed_size (new_reader 2048)" by (simp add: new_reader_def)
  from read_headers_loop_written [OF g(2,3) this f(1), of 0 "[]"] f(2) obtain s2 where
    h: "read_headers_loop 0 (new_reader 2048) [] s1 = (True, hs, s2)" "plain s2" "content s2 = b @ rest" by auto
  have rh: "read_headers [] s1 = (True, hs, s2)" using h(1) f(3) by (simp add: read_headers_def)
  have o2: "same_out s s2" using getline_out [OF g(1)] read_headers_loop_out [OF h(1)] by (rule same_out_trans)
  have l: "parse_request_line (lr_ptr rd) (new_request\<lparr>rq_remote_addr := ?addr\<rparr>) = (True, infer_shell ?addr [] [])"
    unfolding g(4) by (rule infer_line_parsed)
  have sh: "rq_headers (infer_shell ?addr [] []) = []" "(infer_shell ?addr [] [])\<lparr>rq_headers := hs\<rparr> = ?req"
    by (simp_all add: infer_shell_def)
  obtain acc where ck: "check_request sv env ?req = Inr (infer_shell ?addr acc hs)"
    using ordinary_request_accepted [OF assms(5) _ cfg(1), of env] assms(6) by auto
  have ex: "expect_continue (infer_shell ?addr acc hs) s2 = s2" using f(6) by (simp add: expect_continue_def rq_header_def infer_shell_def)
  let ?res = "new_response\<lparr>rs_version := ''HTTP/1.1'', rs_headers := []\<rparr>"
  have re: "?res = new_response\<lparr>rs_version := ''HTTP/1.1''\<rparr>" by (simp add: new_response_def)
  obtain s3 where rt: "routing sv (ce_readable env) (infer_shell ?addr acc hs) ?res s2 st =
      (Routed, infer_routed ?addr acc hs b, set_content text json_type ?res, s3, dispatch_end st')" "content s3 = rest" "same_out s2 s3" "s_error s3 = s_error s2"
    using infer_routing [OF assms(1,5) h(2,3) assms(6-8)] by blast
  have o3: "sends s3 = []" "outbound s3 = outbound s"
    using same_out_trans [OF o2 rt(3)] assms(3) by (simp_all add: same_out_def)
  obtain ok res' s4 where fr: "finish_routing sv env cl Routed (infer_routed ?addr acc hs b) (set_content text json_type ?res) s3 = (ok, res', s4)"
    by (metis prod_cases3)
  have rr: "rq_ranges (infer_routed ?addr acc hs b) = []" "rq_method (infer_routed ?addr acc hs b) = ''POST''"
    by (simp_all add: infer_routed_def infer_shell_def new_request_def)
  note w = infer_answer_written [OF fr [unfolded re] rr o3(1)]
  have rh': "rq_headers (infer_routed ?addr acc hs b) = hs" by (simp add: infer_routed_def infer_shell_def)
  have dr: "drain_body sv (infer_routed ?addr acc hs b) s4 = (False, s4)" by (simp add: drain_body_def infer_routed_def)
  have cl: "closes (infer_shell ?addr acc hs) \<longleftrightarrow> header_value hs ''Connection'' = ''close''"
    by (simp add: closes_def rq_header_def infer_shell_def)
  have "process_request sv env cl s st = \<lparr>sd_ok = True, sd_closed = (header_value hs ''Connection'' = ''close''),
      sd_response = Some res', sd_stream = s4, sd_world = dispatch_end st'\<rparr>"
    unfolding process_request_def cfg(3) using g(1) l rh sh ck ex rt(1) fr dr w(1) cl by (simp add: Let_def)
  moreover have "b @ rest \<noteq> [] \<longrightarrow> \<not> ended s \<longrightarrow> \<not> ended s4"
  proof (intro impI)
    assume "b @ rest \<noteq> []" "\<not> ended s"
    have "calm s s1" "calm s1 s2" using getline_local [OF g(1) assms(2)] read_headers_loop_local [OF h(1) g(2)] by (simp_all add: keeps_local_def)
    then have "\<not> ended s2" using calm_alive [OF calm_trans assms(2)] h(3) \<open>b @ rest \<noteq> []\<close> \<open>\<not> ended s\<close> by metis
    then show "\<not> ended s4" using rt(4) w(3) by (simp add: ended_def)
  qed
  ultimately show ?thesis using w(2,4-10) rh' rt(2) o3(2) by (intro exI [of _ res'] exI [of _ s4]) simp
qed

end
