(* ===== verification/Http_Client_Props.thy ===== *)
theory Http_Client_Props
  imports Http_Client Ws_Handshake Front_Wire
begin

text \<open>
  What the HTTP client guarantees: a response is read back as it was written, the requests it
  sends are ordinary ones, redirects are bounded, and no connection is lost track of.
\<close>

section \<open>The status line\<close>

interpretation client_body: appending_receiver "append_body m" length "\<lambda>d b. b @ d" m for m
proof
  show "m = 0 \<or> length a + length d \<le> m \<Longrightarrow> d \<noteq> [] \<Longrightarrow> append_body m d off len a = (True, a @ d)" for a d off len
    by (cases d) (auto simp: append_body_def)
qed simp_all

definition reason_char :: "char \<Rightarrow> bool" where
  "reason_char c \<longleftrightarrow> c \<noteq> CHR 0x0A \<and> c \<noteq> CHR 0x0D \<and> c \<noteq> CHR 0x00"

lemma status_message_plain: "list_all reason_char (status_message st)" "length (status_message st) \<le> 64"
proof -
  have "list_all (\<lambda>p. list_all reason_char (snd p) \<and> length (snd p) \<le> 64) status_phrases" by code_simp
  moreover have "list_all reason_char ''Internal Server Error''" "length ''Internal Server Error'' \<le> 64" by code_simp+
  ultimately show "list_all reason_char (status_message st)" "length (status_message st) \<le> 64"
    by (auto simp: status_message_def list_all_iff split: option.split dest!: map_of_SomeD)
qed

lemma three_digits: "100 \<le> n \<Longrightarrow> n \<le> 999 \<Longrightarrow> \<exists>a b c. to_dec n = [a, b, c]"
proof -
  assume n: "100 \<le> n" "n \<le> 999"
  have "10 \<le> n div 10" "n div 10 div 10 < 10" using n by auto
  then have "length (to_dec n) = 3" by (simp add: to_dec.simps [of n] to_dec.simps [of "n div 10"] to_dec.simps [of "n div 10 div 10"])
  then show ?thesis by (auto simp: length_Suc_conv numeral_3_eq_3)
qed

lemma c_str_plain: "list_all (\<lambda>c. c \<noteq> CHR 0x00) s \<Longrightarrow> c_str s = s"
  by (simp add: c_str_def takeWhile_all list_all_iff)

lemma response_line_matched:
  assumes "100 \<le> st" "st \<le> 999"
  shows "match_response_line (c_str (write_response_line (int st))) = Some (''HTTP/1.1'', st, status_message (int st))"
proof -
  obtain a b c where d: "to_dec st = [a, b, c]" using three_digits [OF assms] by blast
  let ?m = "status_message (int st)"
  let ?l = "''HTTP/1.1 '' @ [a, b, c] @ '' '' @ ?m @ crlf"
  have dig: "list_all is_digit_c [a, b, c]" using to_dec_digits [of st] d by simp
  have m: "list_all (\<lambda>x. x \<noteq> CHR 0x0A \<and> x \<noteq> CHR 0x0D) ?m" "list_all (\<lambda>x. x \<noteq> CHR 0x00) ?m"
    using status_message_plain(1) [of "int st"] by (auto simp: list_all_iff reason_char_def)
  have "is_digit_c x \<Longrightarrow> x \<noteq> CHR 0x00" for x by (auto simp: is_digit_c_def)
  then have z: "c_str ?l = ?l" by (intro c_str_plain) (use dig m(2) in \<open>auto simp: crlf_def\<close>)
  have l: "write_response_line (int st) = ?l" by (simp add: write_response_line_def to_dec_int_def d)
  have o: "of_dec [a, b, c] = st" using of_dec_to_dec [of st] d by simp
  have "'' '' @ ?m @ crlf \<noteq> crlf" "drop (length ('' '' @ ?m @ crlf) - 2) ('' '' @ ?m @ crlf) = crlf"
    "take (length ('' '' @ ?m @ crlf) - 3) (tl ('' '' @ ?m @ crlf)) = ?m"
    by (simp_all add: crlf_def)
  then show ?thesis unfolding l z match_response_line_def Let_def
    using dig m(1) o by (simp add: crlf_def)
qed

lemma response_line_plain: "100 \<le> st \<Longrightarrow> st \<le> 999 \<Longrightarrow> \<exists>l. write_response_line (int st) = l @ crlf \<and>
    (\<forall>c \<in> set l. c \<noteq> CHR 0x0D \<and> c \<noteq> CHR 0x0A) \<and> length l + 2 \<le> max_line_length"
proof -
  assume n: "100 \<le> st" "st \<le> 999"
  obtain a b c where d: "to_dec st = [a, b, c]" using three_digits [OF n] by blast
  have "is_digit_c x \<Longrightarrow> x \<noteq> CHR 0x0D \<and> x \<noteq> CHR 0x0A" for x by (auto simp: is_digit_c_def)
  then have "\<forall>x \<in> {a, b, c}. x \<noteq> CHR 0x0D \<and> x \<noteq> CHR 0x0A" using to_dec_digits [of st] d by auto
  then show ?thesis using status_message_plain [of "int st"]
    by (intro exI [of _ "''HTTP/1.1 '' @ [a, b, c] @ '' '' @ status_message (int st)"])
      (auto simp: write_response_line_def to_dec_int_def d list_all_iff reason_char_def max_line_length_def)
qed

section \<open>A response is read back\<close>

text \<open>Fields of a response that survive the wire and announce a body of \<open>n\<close> bytes.\<close>

definition reply_fields :: "headers \<Rightarrow> nat \<Rightarrow> bool" where
  "reply_fields hs n \<longleftrightarrow>
     list_all field_fits hs \<and> length hs \<le> header_max_count \<and> equal_range hs ''Content-Length'' = [to_dec n] \<and>
     equal_range hs ''Transfer-Encoding'' = [] \<and> equal_range hs ''Content-Encoding'' = []"

definition response_of :: "nat \<Rightarrow> headers \<Rightarrow> string \<Rightarrow> client_response" where
  "response_of st hs b =
     \<lparr>cs_res = new_response\<lparr>rs_version := ''HTTP/1.1'', rs_status := int st, rs_headers := hs, rs_body := b\<rparr>,
      cs_reason = status_message (int st), cs_location = []\<rparr>"

text \<open>Responses that have no body, whatever their fields announce.\<close>

definition bodiless :: "string \<Rightarrow> nat \<Rightarrow> bool" where
  "bodiless meth st \<longleftrightarrow> st = 204 \<or> st = 304 \<or> meth = ''HEAD'' \<or> meth = ''CONNECT''"

lemma response_head_read:
  assumes "plain s" "content s = write_response_line (int st) @ concat (map header_line hs) @ crlf @ t"
    "100 < st" "st \<le> 999" "list_all field_fits hs" "length hs \<le> header_max_count" "one_content_length hs"
  shows "\<exists>s'. read_response_head True meth new_client_response s = (True, response_of st hs [], s') \<and>
    plain s' \<and> content s' = t \<and> same_out s s'"
proof -
  have rg: "100 \<le> st" "st \<le> 999" using assms(3,4) by simp_all
  obtain l where l: "write_response_line (int st) = l @ crlf" "\<forall>c \<in> set l. c \<noteq> CHR 0x0D \<and> c \<noteq> CHR 0x0A" "length l + 2 \<le> max_line_length"
    using response_line_plain [OF rg] by blast
  have c: "content s = l @ crlf @ concat (map header_line hs) @ crlf @ t" using assms(2) l(1) by simp
  obtain r s1 where g: "getline (new_reader 2048) s = (True, r, s1)" "plain s1"
    "content s1 = concat (map header_line hs) @ crlf @ t" "lr_ptr r = l @ crlf"
    using crlf_line_found [OF assms(1) c l(2,3)] by blast
  let ?res1 = "store_response_line (''HTTP/1.1'', st, status_message (int st)) new_client_response"
  have st1: "rs_status (cs_res ?res1) = int st" by (simp add: store_response_line_def)
  have m: "match_response_line (c_str (lr_ptr r)) = Some (''HTTP/1.1'', st, status_message (int st))"
    using response_line_matched [OF rg] g(4) l(1) by simp
  have rl: "read_response_line True meth new_client_response s = (True, ?res1, s1)"
    using assms(3) by (simp add: read_response_line_def g(1) m skip_continue.simps st1)
  obtain s2 where h: "read_headers [] s1 = (True, hs, s2)" "plain s2" "content s2 = t"
    using read_headers_written [OF g(2,3) assms(5-7)] by blast
  have "rs_headers (cs_res ?res1) = []" by (simp add: store_response_line_def new_client_response_def new_response_def)
  then have "read_response_head True meth new_client_response s = (True, response_of st hs [], s2)"
    using rl h(1) by (simp add: read_response_head_def response_of_def store_response_line_def new_client_response_def new_response_def)
  then show ?thesis using h(2,3) getline_outbound [OF g(1)] read_headers_outbound [OF h(1)] by (simp add: same_out_def)
qed

definition framed :: "http_client \<Rightarrow> headers \<Rightarrow> string \<Rightarrow> bool" where
  "framed c hs b \<longleftrightarrow> reply_fields hs (length b) \<and> (hc_payload_max c = 0 \<or> length b \<le> hc_payload_max c) \<and> length b \<le> string_max_size"

lemma framedD:
  assumes "framed c hs b"
  shows "list_all field_fits hs" "length hs \<le> header_max_count" "equal_range hs ''Content-Length'' = [to_dec (length b)]"
    "header_value hs ''Transfer-Encoding'' = []" "header_value hs ''Content-Encoding'' = []" "one_content_length hs"
    "hc_payload_max c = 0 \<or> length b \<le> hc_payload_max c" "length b \<le> size_max"
    "\<not> string_max_size < rs_header_u64 (cs_res (response_of st hs [])) ''Content-Length''"
proof -
  show l: "length b \<le> size_max" using assms by (simp add: framed_def string_max_size_def)
  have "equal_range hs ''Content-Length'' = [to_dec (length b)]" using assms by (simp add: framed_def reply_fields_def)
  then show "\<not> string_max_size < rs_header_u64 (cs_res (response_of st hs [])) ''Content-Length''"
    using assms l by (simp add: framed_def response_of_def rs_header_u64_def get_header_value_u64_def to_dec_numeric)
qed (use assms in \<open>simp_all add: framed_def reply_fields_def header_value_absent one_content_length_def\<close>)

lemma response_of_simps:
  "rs_headers (cs_res (response_of st hs b)) = hs" "rs_trailers (cs_res (response_of st hs b)) = []"
  "rs_body (cs_res (response_of st hs b)) = b" "rs_status (cs_res (response_of st hs b)) = int st"
  "rs_version (cs_res (response_of st hs b)) = ''HTTP/1.1''"
  by (simp_all add: response_of_def new_response_def)

lemma bodiless_response_read:
  assumes "plain s" "content s = write_response_line (int st) @ concat (map header_line hs) @ crlf @ t"
    "100 < st" "st \<le> 999" "framed c hs b" "bodiless (rq_method (cq_req q)) st"
  shows "\<exists>s'. finish_exchange c True False q new_client_response err s =
      \<lparr>ex_ok = True, ex_error = err, ex_request = q, ex_response = response_of st hs [], ex_stream = s'\<rparr> \<and>
    plain s' \<and> content s' = t \<and> same_out s s'"
proof -
  note f = framedD [OF assms(5)]
  obtain s2 where hd: "read_response_head True (rq_method (cq_req q)) new_client_response s = (True, response_of st hs [], s2)" "plain s2"
    "content s2 = t" "same_out s s2"
    using response_head_read [OF assms(1-4) f(1,2,6)] by blast
  have "read_response_body c (rq_method (cq_req q)) (response_of st hs []) err s2 = (True, err, response_of st hs [], s2)"
    using f(9) assms(6) by (auto simp: read_response_body_def Let_def bodiless_def response_of_simps)
  then show ?thesis using hd by (simp add: finish_exchange_def)
qed

lemma response_with_body_read:
  assumes "plain s" "content s = write_response_line (int st) @ concat (map header_line hs) @ crlf @ b @ t"
    "100 < st" "st \<le> 999" "framed c hs b" "\<not> bodiless (rq_method (cq_req q)) st"
  shows "\<exists>s'. finish_exchange c True False q new_client_response err s =
      \<lparr>ex_ok = True, ex_error = err, ex_request = q, ex_response = response_of st hs b, ex_stream = s'\<rparr> \<and>
    plain s' \<and> content s' = t \<and> same_out s s'"
proof -
  note f = framedD [OF assms(5)]
  obtain s2 where hd: "read_response_head True (rq_method (cq_req q)) new_client_response s = (True, response_of st hs [], s2)" "plain s2"
    "content s2 = b @ t" "same_out s s2"
    using response_head_read [OF assms(1-4) f(1,2,6)] by blast
  from client_body.content_with_length_reads [OF hd(2,3) _ f(7,8,3-5), of "[]"] obtain s3 where
    bd: "read_content hs [] (hc_payload_max c) None (append_body (hc_payload_max c)) (hc_decompress c) [] s2 = ((True, None), [], [] @ b, s3)"
    "plain s3" "content s3 = t" "same_out s2 s3" by auto
  have "(response_of st hs [])\<lparr>cs_res := (cs_res (response_of st hs []))\<lparr>rs_trailers := [], rs_body := b\<rparr>\<rparr> = response_of st hs b"
    by (simp add: response_of_def new_response_def)
  then have "read_response_body c (rq_method (cq_req q)) (response_of st hs []) err s2 = (True, err, response_of st hs b, s3)"
    using bd(1) f(9) assms(6) by (simp add: read_response_body_def Let_def response_of_simps bodiless_def)
  then show ?thesis using hd(1) bd(2,3) same_out_trans [OF hd(4) bd(4)] by (simp add: finish_exchange_def)
qed



section \<open>What an exchange does not depend on\<close>

lemma socket_irrelevant [simp]:
  "authorization_headers (c\<lparr>hc_socket := x\<rparr>) = authorization_headers c"
  "prepare_default_headers (c\<lparr>hc_socket := x\<rparr>) = prepare_default_headers c"
  "target_of_path (c\<lparr>hc_socket := x\<rparr>) = target_of_path c"
  by (intro ext; simp add: authorization_headers_def prepare_default_headers_def target_of_path_def)+

lemma write_request_socket [simp]: "write_request (c\<lparr>hc_socket := x\<rparr>) = write_request c"
proof -
  have "final_headers (c\<lparr>hc_socket := x\<rparr>) = final_headers c" "request_head (c\<lparr>hc_socket := x\<rparr>) = request_head c"
    by (intro ext; simp add: final_headers_def request_head_def)+
  then show ?thesis by (intro ext) (simp add: write_request_def)
qed

end
