(* ===== verification/Http_Client_Redirect.thy ===== *)
theory Http_Client_Redirect
  imports Http_Client Http_Serve_Props
begin

text \<open>
  Connections and redirects of the HTTP client: every connection is closed or still held, redirects
  are bounded, and credentials are not sent to another host; what a 303 and a 304 make of a request.
\<close>

section \<open>No connection is lost\<close>

text \<open>Connections the network has yet to give, those closed, and the one the client holds.\<close>

definition held :: "http_client \<Rightarrow> nat" where
  "held c = (if hc_socket c = None then 0 else 1)"

definition accounted :: "http_client \<Rightarrow> client_net \<Rightarrow> nat" where
  "accounted c net = length (filter (\<lambda>r. \<not> isl r) (net_connects net)) + length (net_closed net) + held c"

text \<open>Two clients configured alike, whatever their sockets.\<close>

definition alike :: "http_client \<Rightarrow> http_client \<Rightarrow> bool" where
  "alike c d \<longleftrightarrow> c\<lparr>hc_socket := None\<rparr> = d\<lparr>hc_socket := None\<rparr>"

lemma alike_refl [simp]: "alike c c"
  by (simp add: alike_def)

lemma alike_trans: "alike c d \<Longrightarrow> alike d e \<Longrightarrow> alike c e"
  by (simp add: alike_def)

lemma alike_socket [simp]: "alike c (d\<lparr>hc_socket := s\<rparr>) = alike c d"
  by (simp add: alike_def)

lemma close_socket_effect:
  assumes "close_socket c net = (c', net')"
  shows "accounted c' net' = accounted c net \<and> alike c c' \<and> hc_socket c' = None \<and> net_opened net' = net_opened net"
  using assms by (auto simp: close_socket_def accounted_def held_def split: option.splits)

lemma redirect_client_closed: "hc_socket (setup_redirect_client c (client_new host port)) = None"
  by (simp add: setup_redirect_client_def client_new_def Let_def)

lemma probe_socket_effect:
  assumes "probe_socket c net = (ok, c', net')"
  shows "accounted c' net' = accounted c net \<and> alike c c' \<and> net_opened net' = net_opened net \<and> (hc_socket c' \<noteq> None \<longleftrightarrow> ok)"
proof -
  consider (none) "hc_socket c = None" | (dead) y rest where "hc_socket c = Some y" "net_alive net = False # rest"
    | (alive) "hc_socket c \<noteq> None" "net_alive net = [] \<or> hd (net_alive net)" by (cases "net_alive net") fastforce+
  then show ?thesis
  proof cases
    case none
    then show ?thesis using assms by (simp add: probe_socket_def)
  next
    case dead
    then have "close_socket c (net\<lparr>net_alive := rest\<rparr>) = (c', net')" "\<not> ok" using assms by (simp_all add: probe_socket_def)
    then show ?thesis using close_socket_effect by (fastforce simp: accounted_def)
  next
    case alive
    then show ?thesis using assms by (cases "net_alive net") (auto simp: probe_socket_def accounted_def)
  qed
qed

lemma open_connection_effect:
  assumes "open_connection c net err = (ok, err', c', net')"
  shows "accounted c' net' = accounted c net \<and> alike c c' \<and> length (net_opened net') \<le> length (net_opened net) + 1 \<and>
    (hc_socket c' \<noteq> None \<longleftrightarrow> ok)"
proof -
  obtain alive c1 net1 where p: "probe_socket c net = (alive, c1, net1)" by (metis prod_cases3)
  note e = probe_socket_effect [OF p]
  show ?thesis
  proof (cases alive)
    case True
    then show ?thesis using assms p e by (auto simp: open_connection_def)
  next
    case False
    then have cr: "create_and_connect_socket c1 net1 err = (ok, err', c', net')" using assms p by (simp add: open_connection_def)
    then show ?thesis using e False
      by (auto simp: create_and_connect_socket_def Let_def accounted_def held_def split: list.splits sum.splits)
  qed
qed

lemma leave_send_effect:
  "accounted (oc_client (leave_send close x)) (oc_net (leave_send close x)) = accounted (oc_client x) (oc_net x) \<and>
   alike (oc_client x) (oc_client (leave_send close x)) \<and> net_opened (oc_net (leave_send close x)) = net_opened (oc_net x) \<and>
   oc_ok (leave_send close x) = oc_ok x \<and> (close \<or> \<not> oc_ok x \<longrightarrow> hc_socket (oc_client (leave_send close x)) = None) \<and>
   (\<not> oc_ok x \<longrightarrow> oc_error (leave_send close x) \<noteq> Err_Success)"
proof -
  obtain c net where cl: "close_socket (oc_client x) (oc_net x) = (c, net)" by (metis prod.collapse)
  show ?thesis using close_socket_effect [OF cl] by (simp add: leave_send_def Let_def cl)
qed

text \<open>
  The contract of whatever sends a request: no connection is lost, at most \<open>k\<close> are attempted, the
  configuration stays.
\<close>

locale socket_keeper =
  fixes send :: sender and k :: nat
  assumes keeps: "accounted (oc_client (send c net q res err)) (oc_net (send c net q res err)) = accounted c net"
    and attempts: "length (net_opened (oc_net (send c net q res err))) \<le> length (net_opened net) + k"
    and config: "alike c (oc_client (send c net q res err))"
begin

lemma detail_redirect_keeps: "socket_keeper (\<lambda>c net q res err. detail_redirect send c net q res path location err) k"
  by unfold_locales (simp_all add: detail_redirect_def Let_def keeps attempts config)

lemma create_redirect_client_keeps:
  "socket_keeper (\<lambda>c net q res err. create_redirect_client send scheme host port c net q res path location err) k"
proof
  fix c net q err and res :: client_response
  let ?x = "create_redirect_client send scheme host port c net q res path location err"
  let ?c = "setup_redirect_client c (client_new host port)" and ?q = "on_headers (fold erase_header host_specific) q"
  let ?y = "detail_redirect send ?c net ?q res path location err"
  obtain c1 net1 where cl: "close_socket (oc_client ?y) (oc_net ?y) = (c1, net1)" by (metis prod.collapse)
  note e = close_socket_effect [OF cl]
  have y: "accounted (oc_client ?y) (oc_net ?y) = accounted ?c net" "length (net_opened (oc_net ?y)) \<le> length (net_opened net) + k"
    by (rule socket_keeper.keeps [OF detail_redirect_keeps] socket_keeper.attempts [OF detail_redirect_keeps])+
  have x: "scheme \<noteq> ''https'' \<Longrightarrow> ?x = ?y\<lparr>oc_client := c, oc_net := net1\<rparr>"
    by (simp add: create_redirect_client_def Let_def cl)
  have z: "scheme = ''https'' \<Longrightarrow> ?x = refused Err_SSLConnection c net ?q res"
    by (simp add: create_redirect_client_def Let_def)
  have h: "held ?c = 0" "held c1 = 0" using e by (simp_all add: held_def redirect_client_closed)
  show "accounted (oc_client ?x) (oc_net ?x) = accounted c net"
    using x z e y(1) h by (cases "scheme = ''https''") (simp_all add: refused_def accounted_def)
  show "length (net_opened (oc_net ?x)) \<le> length (net_opened net) + k"
    using x z e y(2) by (cases "scheme = ''https''") (simp_all add: refused_def)
  show "alike c (oc_client ?x)" using x z by (cases "scheme = ''https''") (simp_all add: refused_def)
qed

lemma redirect_keeps: "socket_keeper (redirect send) k"
proof
  fix c net q err and res :: client_response
  let ?l = "header_value (rs_headers (cs_res res)) ''location''"
  note d = socket_keeper.keeps [OF detail_redirect_keeps] socket_keeper.attempts [OF detail_redirect_keeps]
    socket_keeper.config [OF detail_redirect_keeps]
  note r = socket_keeper.keeps [OF create_redirect_client_keeps] socket_keeper.attempts [OF create_redirect_client_keeps]
    socket_keeper.config [OF create_redirect_client_keeps]
  show "accounted (oc_client (redirect send c net q res err)) (oc_net (redirect send c net q res err)) = accounted c net"
    using d(1) r(1) by (simp add: redirect_def Let_def refused_def split: option.split prod.split)
  show "length (net_opened (oc_net (redirect send c net q res err))) \<le> length (net_opened net) + k"
    using d(2) r(2) by (simp add: redirect_def Let_def refused_def split: option.split prod.split)
  show "alike c (oc_client (redirect send c net q res err))"
    using d(3) r(3) by (simp add: redirect_def Let_def refused_def split: option.split prod.split)
qed

lemma handle_request_keeps:
  assumes "hc_socket c = Some s"
  shows "let x = handle_request send c net s q res close err in
    accounted (oc_client x) (oc_net x) = accounted c net \<and> length (net_opened (oc_net x)) \<le> length (net_opened net) + k \<and>
    alike c (oc_client x)"
proof -
  let ?x = "handle_request send c net s q res close err" and ?path = "rq_path (cq_req q)"
  let ?q1 = "with_path (proxied_path c ?path) q"
  obtain ready net1 where t: "take_ready ?q1 net = (ready, net1)" by (metis prod.collapse)
  have n: "net_connects net1 = net_connects net" "net_closed net1 = net_closed net" "net_opened net1 = net_opened net"
    using t by (auto simp: take_ready_def split: if_splits list.splits)
  let ?e = "client_exchange c close ready ?q1 res err (fresh_stream s)"
  let ?c1 = "c\<lparr>hc_socket := Some (ex_stream ?e)\<rparr>"
  obtain c2 net2 where cl: "(if server_closes (ex_response ?e) then close_socket ?c1 net1 else (?c1, net1)) = (c2, net2)"
    by (metis prod.collapse)
  have c2: "accounted c2 net2 = accounted ?c1 net1" "alike ?c1 c2" "net_opened net2 = net_opened net1"
    using cl close_socket_effect [of ?c1 net1 c2 net2] by (auto split: if_splits)
  have a: "accounted ?c1 net1 = accounted c net" using n assms by (simp add: accounted_def held_def)
  have k: "alike ?c1 d \<Longrightarrow> alike c d" for d by (simp add: alike_def)
  let ?st = "rs_status (cs_res (ex_response ?e))" and ?q2 = "with_path ?path (ex_request ?e)"
  consider (none) "?path = []" | (failed) "?path \<noteq> []" "\<not> ex_ok ?e"
    | (follow) "?path \<noteq> []" "ex_ok ?e" "300 < ?st \<and> ?st < 400 \<and> hc_follow_location c"
    | (answered) "?path \<noteq> []" "ex_ok ?e" "\<not> (300 < ?st \<and> ?st < 400 \<and> hc_follow_location c)" by blast
  then show ?thesis
  proof cases
    case none
    then show ?thesis by (simp add: handle_request_def refused_def Let_def)
  next
    case failed
    then have "?x = refused (ex_error ?e) ?c1 net1 ?q2 (ex_response ?e)"
      by (simp add: handle_request_def Let_def t)
    then show ?thesis using a n k by (simp add: refused_def Let_def)
  next
    case follow
    then have "?x = send c2 net2 q (ex_response ?e) (ex_error ?e)"
      by (simp add: handle_request_def Let_def t cl)
    then show ?thesis using keeps attempts [of c2 net2] config c2 a n k alike_trans by (simp add: Let_def)
  next
    case answered
    then have "oc_client ?x = c2 \<and> oc_net ?x = net2"
      using cl by (auto simp: handle_request_def Let_def t split: prod.split)
    then show ?thesis using c2 a n k by (simp add: Let_def)
  qed
qed

lemma send_once_keeps: "socket_keeper (send_once send) (Suc k)"
proof
  fix c net q err and res :: client_response
  let ?x = "send_once send c net q res err"
  have "accounted (oc_client ?x) (oc_net ?x) = accounted c net \<and> length (net_opened (oc_net ?x)) \<le> length (net_opened net) + Suc k \<and>
      alike c (oc_client ?x)"
  proof -
    obtain ok err1 c1 net1 where o: "open_connection c net err = (ok, err1, c1, net1)" by (metis prod_cases4)
    have e: "accounted c1 net1 = accounted c net" "alike c c1" "length (net_opened net1) \<le> length (net_opened net) + 1"
      using open_connection_effect [OF o] by simp_all
    show ?thesis
    proof (cases "ok \<and> hc_socket c1 \<noteq> None")
      case False
      then have "?x = refused err1 c1 net1 q res" using o by (cases ok) (simp_all add: send_once_def)
      then show ?thesis using e by (simp add: refused_def)
    next
      case True
      then obtain s where s: "hc_socket c1 = Some s" by blast
      let ?q = "on_headers (fold insert_missing (hc_default_headers c)) q"
      let ?y = "handle_request send c1 net1 s ?q res (\<not> hc_keep_alive c) err1"
      have x: "?x = leave_send (\<not> hc_keep_alive c) ?y" using True o s by (simp add: send_once_def)
      have y: "accounted (oc_client ?y) (oc_net ?y) = accounted c1 net1" "length (net_opened (oc_net ?y)) \<le> length (net_opened net1) + k"
        "alike c1 (oc_client ?y)"
        using handle_request_keeps [OF s, of net1 ?q res "\<not> hc_keep_alive c" err1] by (simp_all add: Let_def)
      have z: "accounted (oc_client ?x) (oc_net ?x) = accounted (oc_client ?y) (oc_net ?y)" "alike (oc_client ?y) (oc_client ?x)"
        "net_opened (oc_net ?x) = net_opened (oc_net ?y)"
        unfolding x using leave_send_effect by simp_all
      show ?thesis using e y z alike_trans [OF alike_trans [OF e(2) y(3)] z(2)] by simp
    qed
  qed
  then show "accounted (oc_client ?x) (oc_net ?x) = accounted c net" "length (net_opened (oc_net ?x)) \<le> length (net_opened net) + Suc k"
    "alike c (oc_client ?x)" by simp_all
qed

end

interpretation no_more: socket_keeper "\<lambda>c net q res err. refused Err_ExceedRedirectCount c net q res" 0
  by unfold_locales (simp_all add: refused_def)

interpretation client_sender: socket_keeper "client_send n" "Suc n" for n
proof (induction n)
  case 0
  show ?case using no_more.send_once_keeps by simp
next
  case (Suc n)
  show ?case using socket_keeper.send_once_keeps [OF socket_keeper.redirect_keeps [OF Suc]] by simp
qed


lemma send_once_ends:
  "(hc_keep_alive c \<and> oc_ok (send_once follow c net q res err) \<or> hc_socket (oc_client (send_once follow c net q res err)) = None) \<and>
   (\<not> oc_ok (send_once follow c net q res err) \<longrightarrow> oc_error (send_once follow c net q res err) \<noteq> Err_Success)"
proof -
  obtain ok err1 c1 net1 where o: "open_connection c net err = (ok, err1, c1, net1)" by (metis prod_cases4)
  note e = open_connection_effect [OF o]
  show ?thesis
  proof (cases ok)
    case False
    moreover have "err1 \<noteq> Err_Success"
      using o False by (auto simp: open_connection_def create_and_connect_socket_def Let_def split: prod.splits bool.splits list.splits sum.splits if_splits)
    ultimately show ?thesis using o e by (simp add: send_once_def refused_def)
  next
    case True
    then obtain s where s: "hc_socket c1 = Some s" using e by blast
    let ?y = "handle_request follow c1 net1 s (on_headers (fold insert_missing (hc_default_headers c)) q) res (\<not> hc_keep_alive c) err1"
    have "send_once follow c net q res err = leave_send (\<not> hc_keep_alive c) ?y" using True o s by (simp add: send_once_def)
    then show ?thesis using leave_send_effect [of "\<not> hc_keep_alive c" ?y] by auto
  qed
qed

lemma client_send_ends:
  "(hc_keep_alive c \<and> oc_ok (client_send n c net q res err) \<or> hc_socket (oc_client (client_send n c net q res err)) = None) \<and>
   (\<not> oc_ok (client_send n c net q res err) \<longrightarrow> oc_error (client_send n c net q res err) \<noteq> Err_Success)"
  using send_once_ends by (cases n) simp_all

text \<open>
  C32: every request ends, with every connection accounted for. Whatever the servers answer, redirect after
  redirect, a request makes at most 21 attempts to connect, and each connection the network gives is
  closed or the one the client still holds; the client's configuration is what it was. A connection is
  held only by a client that keeps connections and whose request succeeded, and a request without a
  response always comes with an error.
\<close>

theorem requests_lose_no_connection:
  assumes "send_request c net q = (r, c', net')"
  shows "accounted c' net' = accounted c net \<and> length (net_opened net') \<le> length (net_opened net) + 21 \<and> alike c c' \<and>
    (hc_keep_alive c \<and> cr_response r \<noteq> None \<or> hc_socket c' = None) \<and> (cr_response r = None \<longrightarrow> cr_error r \<noteq> Err_Success)"
proof -
  let ?x = "client_send 20 c net q new_client_response Err_Success"
  have r: "r = fst (result_of ?x)" "c' = oc_client ?x" "net' = oc_net ?x"
    using assms by (simp_all add: send_request_def result_of_def redirect_max_count_def)
  note e = client_send_ends [of c 20 net q new_client_response Err_Success]
  have "cr_response r \<noteq> None \<longleftrightarrow> oc_ok ?x" "cr_error r = oc_error ?x" unfolding r by (simp_all add: result_of_def)
  moreover have "length (net_opened (oc_net ?x)) \<le> length (net_opened net) + 21" using client_sender.attempts [of 20] by simp
  ultimately show ?thesis using e client_sender.keeps [of 20 c net] client_sender.config [of c 20 net] unfolding r(2,3) by auto
qed

theorem requests_lose_no_connection_witness:
  "\<exists>r c' net'. send_request (client_new ''a'' 1) \<lparr>net_connects = [Inl Err_ConnectionTimeout], net_alive = [], net_ready = [],
      net_opened = [], net_closed = []\<rparr> (plain_request ''GET'' ''/'' []) = (r, c', net') \<and>
    cr_response r = None \<and> cr_error r \<noteq> Err_Success \<and> length (net_opened net') \<le> 21 \<and> hc_socket c' = None"
proof -
  let ?net = "\<lparr>net_connects = [Inl Err_ConnectionTimeout], net_alive = [], net_ready = [], net_opened = [], net_closed = []\<rparr>"
  obtain r c' net' where s: "send_request (client_new ''a'' 1) ?net (plain_request ''GET'' ''/'' []) = (r, c', net')" by (metis prod_cases3)
  have "\<not> oc_ok (client_send n (client_new ''a'' 1) ?net (plain_request ''GET'' ''/'' []) new_client_response Err_Success)" for n
    by (cases n) (simp_all add: send_once_def open_connection_def probe_socket_def client_new_def create_and_connect_socket_def refused_def)
  then have "cr_response r = None" using s by (auto simp: send_request_def result_of_def)
  then show ?thesis using requests_lose_no_connection [OF s] s by (auto simp: client_new_def)
qed

section \<open>What belongs to a host stays there\<close>

text \<open>The credentials and the default headers of a client.\<close>

definition with_secrets :: "string \<Rightarrow> string \<Rightarrow> string \<Rightarrow> headers \<Rightarrow> http_client \<Rightarrow> http_client" where
  "with_secrets user password bearer hs c =
     c\<lparr>hc_default_headers := hs, hc_basic_user := user, hc_basic_password := password, hc_bearer := bearer\<rparr>"

definition portable :: "headers \<Rightarrow> headers" where
  "portable hs = filter (\<lambda>h. \<not> (\<exists>name \<in> set host_specific. equal_ci (fst h) name)) hs"

lemma host_specific_erased: "fold erase_header host_specific hs = portable hs"
  by (simp add: host_specific_def erase_header_def portable_def conj_commute conj_left_commute)

text \<open>
  C3: credentials are not carried to another host. When a location leads to another host, port or scheme, what is
  sent there, and so everything that comes of it, is the same whatever user, password, token and
  default headers the client has and whatever \<open>Host\<close>, \<open>Authorization\<close> and \<open>Proxy-Authorization\<close> fields the
  request had; the client that followed it keeps its own connection and configuration.
\<close>

theorem credentials_stay_at_home:
  assumes "redirect_target c (header_value (rs_headers (cs_res res)) ''location'') = Some (scheme, host, port, path)"
    "(scheme, host, port) \<noteq> (''http'', hc_host c, hc_port c)" "portable hs = portable (cq_headers q)"
    "x = redirect send c net q res err"
    "x' = redirect send (with_secrets user password bearer ds c) net (on_headers (\<lambda>_. hs) q) res err"
  shows "oc_ok x' = oc_ok x \<and> oc_error x' = oc_error x \<and> oc_net x' = oc_net x \<and> oc_response x' = oc_response x \<and> oc_client x = c"
proof (cases "header_value (rs_headers (cs_res res)) ''location'' = []")
  case True
  then show ?thesis using assms(4,5) by (simp add: redirect_def refused_def)
next
  case False
  let ?l = "header_value (rs_headers (cs_res res)) ''location''" and ?d = "with_secrets user password bearer ds c"
  have h: "hc_host ?d = hc_host c" "hc_port ?d = hc_port c" by (simp_all add: with_secrets_def)
  have t: "redirect_target ?d ?l = Some (scheme, host, port, path)"
    using assms(1) unfolding redirect_target_def h .
  have n: "\<not> (scheme = ''http'' \<and> host = hc_host c \<and> port = hc_port c)" using assms(2) by simp
  have s: "setup_redirect_client ?d = setup_redirect_client c"
    by (rule ext) (simp add: setup_redirect_client_def with_secrets_def uses_proxy_def Let_def)
  have q: "on_headers (fold erase_header host_specific) (on_headers (\<lambda>_. hs) q) = on_headers (fold erase_header host_specific) q"
    using assms(3) by (simp add: on_headers_def host_specific_erased cq_headers_def)
  have x: "x = create_redirect_client send scheme host port c net q res path ?l err"
    using assms(4) False assms(1) n by (simp add: redirect_def Let_def)
  have x': "x' = create_redirect_client send scheme host port ?d net (on_headers (\<lambda>_. hs) q) res path ?l err"
    using assms(5) False t n h by (simp add: redirect_def Let_def)
  show ?thesis
    unfolding x x' by (simp add: create_redirect_client_def Let_def s q refused_def split: prod.split)
qed

theorem credentials_stay_at_home_witness:
  "\<exists>x x'. x = redirect (client_send 3) (client_new ''a'' 80) \<lparr>net_connects = [Inr (bare_stream [])], net_alive = [], net_ready = [],
       net_opened = [], net_closed = []\<rparr> (plain_request ''GET'' ''/'' [])
       (new_client_response\<lparr>cs_res := new_response\<lparr>rs_headers := [(''location'', ''http://b/x'')]\<rparr>\<rparr>) Err_Success \<and>
     x' = redirect (client_send 3) (with_secrets ''u'' ''p'' ''t'' [(''Cookie'', ''c'')] (client_new ''a'' 80))
       \<lparr>net_connects = [Inr (bare_stream [])], net_alive = [], net_ready = [], net_opened = [], net_closed = []\<rparr>
       (on_headers (\<lambda>_. [(''Authorization'', ''s'')]) (plain_request ''GET'' ''/'' []))
       (new_client_response\<lparr>cs_res := new_response\<lparr>rs_headers := [(''location'', ''http://b/x'')]\<rparr>\<rparr>) Err_Success \<and>
     oc_net x' = oc_net x \<and> oc_response x' = oc_response x"
proof -
  let ?c = "client_new ''a'' 80" and ?res = "new_client_response\<lparr>cs_res := new_response\<lparr>rs_headers := [(''location'', ''http://b/x'')]\<rparr>\<rparr>"
  have "\<not> is_prohibited_header_name ''location''" by code_simp
  then have l: "header_value (rs_headers (cs_res ?res)) ''location'' = ''http://b/x''"
    by (simp add: header_value_def get_header_value_def equal_range_def c_str_def)
  have "parse_url ''http://b/x'' = Some \<lparr>uc_scheme = ''http'', uc_host = ''b'', uc_port = [], uc_path = ''/x'', uc_query = []\<rparr>"
    by code_simp
  moreover have "decode_path_component ''/x'' = ''/x''" by code_simp
  ultimately have t: "redirect_target ?c (header_value (rs_headers (cs_res ?res)) ''location'') = Some (''http'', ''b'', 80, ''/x'')"
    unfolding l by (simp add: redirect_target_def)
  have n: "(''http'', ''b'', 80 :: int, ''/x'') \<noteq> (''http'', hc_host ?c, hc_port ?c, p)" "(''http'', ''b'', 80) \<noteq> (''http'', hc_host ?c, hc_port ?c)" for p
    by (simp_all add: client_new_def)
  have "portable [(''Authorization'', ''s'')] = portable (cq_headers (plain_request ''GET'' ''/'' []))"
    by (simp add: portable_def host_specific_def cq_headers_def plain_request_def)
  note h = credentials_stay_at_home [OF t n(2) this refl refl, where send = "client_send 3" and err = Err_Success and user = "''u''" and
      password = "''p''" and bearer = "''t''" and ds = "[(''Cookie'', ''c'')]" and
      net = "\<lparr>net_connects = [Inr (bare_stream [])], net_alive = [], net_ready = [], net_opened = [], net_closed = []\<rparr>"]
  show ?thesis
    by (rule exI, rule exI, rule conjI [OF refl conjI [OF refl conjI [OF conjunct1 [OF conjunct2 [OF conjunct2 [OF h]]]
        conjunct1 [OF conjunct2 [OF conjunct2 [OF conjunct2 [OF h]]]]]]])
qed

section \<open>Two statuses\<close>

text \<open>
  A 303 turns a \<open>POST\<close> into a \<open>GET\<close> and clears its body and its fields, but not its content provider: the
  \<open>GET\<close> is sent with the chunks of the old body behind a header section that announces none.
\<close>

lemma see_other_keeps_the_provider:
  assumes "q = redirected_request (upload_request ''POST'' path [] (Upload_Chunked sts) ctype) 303 path'"
  shows "rq_method (cq_req q) = ''GET'' \<and> cq_headers q = [] \<and> write_request_body q err s = write_content_chunked sts s"
  unfolding assms by (simp add: redirected_request_def upload_request_def plain_request_def with_path_def on_headers_def Let_def
      new_request_def cq_headers_def write_request_body_def)

text \<open>
  A client that follows redirects takes a 304, which needs no \<open>Location\<close>, for one it cannot follow:
  an exchange that succeeded is reported as failed.
\<close>

lemma not_modified_fails:
  assumes "take_ready (with_path (proxied_path c path) q) net = (ready, net1)" "rq_path (cq_req q) = path" "path \<noteq> []"
    "x = client_exchange c close ready (with_path (proxied_path c path) q) res err (fresh_stream s)" "ex_ok x"
    "rs_status (cs_res (ex_response x)) = 304" "header_value (rs_headers (cs_res (ex_response x))) ''location'' = []"
  shows "oc_ok (handle_request (redirect send) c net s q res close err) \<longleftrightarrow> \<not> hc_follow_location c"
proof -
  obtain c2 net2 where cl: "(if server_closes (ex_response x) then close_socket (c\<lparr>hc_socket := Some (ex_stream x)\<rparr>) net1
      else (c\<lparr>hc_socket := Some (ex_stream x)\<rparr>, net1)) = (c2, net2)" by (metis prod.collapse)
  show ?thesis
    unfolding handle_request_def Let_def assms(2) assms(1) prod.case assms(4) [symmetric] cl
    using assms(3,5-7) by (simp add: redirect_def refused_def)
qed

end
