(* ===== verification/Front_Grpc.thy ===== *)
theory Front_Grpc
  imports Front_Http
begin

text \<open>
  The gRPC front end (\<open>include/grpc_server.h\<close>, \<open>src/grpc_server.cpp\<close>, \<open>proto/inference.proto\<close>):
  the messages, the two methods split at their wait as in the HTTP front end, and the server's
  life cycle. The generated stubs and the gRPC runtime are not modelled.
\<close>

section \<open>Messages\<close>

record grpc_infer_request =
  gi_tenant_id :: string
  gi_payload :: string
  gi_priority :: string
  gi_deadline_ms :: int
  gi_max_new_tokens :: int

record grpc_infer_response =
  gr_result :: string
  gr_request_id :: "64 word"
  gr_error :: string

record grpc_chat_message =
  gm_role :: string
  gm_content :: string

record grpc_chat_request =
  gc_model :: string
  gc_messages :: "grpc_chat_message list"
  gc_max_tokens :: int
  gc_tenant_id :: string
  gc_deadline_ms :: int

record grpc_choice =
  gch_index :: int
  gch_message :: grpc_chat_message
  gch_finish_reason :: string

record grpc_chat_response =
  gcr_id :: string
  gcr_model :: string
  gcr_choices :: "grpc_choice list"
  gcr_error :: string

definition empty_infer_response :: grpc_infer_response where
  "empty_infer_response = \<lparr>gr_result = [], gr_request_id = 0, gr_error = []\<rparr>"

definition empty_chat_response :: grpc_chat_response where
  "empty_chat_response = \<lparr>gcr_id = [], gcr_model = [], gcr_choices = [], gcr_error = []\<rparr>"

datatype grpc_status = Grpc_ok | Grpc_resource_exhausted string

datatype grpc_outcome = Grpc_refused grpc_status | Grpc_waiting request

section \<open>The methods\<close>

definition grpc_tenant :: "string \<Rightarrow> string" where
  "grpc_tenant t = (if t = [] then ''default'' else t)"

definition grpc_priority :: "string \<Rightarrow> priority" where
  "grpc_priority s = (if s = ''high'' then High else if s = ''low'' then Low else Normal)"

definition grpc_deadline :: "int \<Rightarrow> int \<Rightarrow> int" where
  "grpc_deadline def ms = (if 0 < ms then ms else def)"

text \<open>The private \<open>dispatch\<close> of the service, around its wait.\<close>

definition grpc_dispatch_begin :: "promise_id \<Rightarrow> request \<Rightarrow> 'r front \<Rightarrow> request \<times> 'r front" where
  "grpc_dispatch_begin p r st = (r\<lparr>on_complete := Some p\<rparr>, st\<lparr>f_log := f_log st @ [Gauge_inc Queue_depth 1]\<rparr>)"

definition grpc_dispatch_end :: "'r front \<Rightarrow> 'r front" where
  "grpc_dispatch_end st = st\<lparr>f_log := f_log st @ [Gauge_dec Queue_depth 1]\<rparr>"

definition grpc_infer_begin ::
    "(rat \<Rightarrow> rat) \<Rightarrow> 'r redis_call \<Rightarrow> clocks \<Rightarrow> promise_id \<Rightarrow> grpc_infer_request \<Rightarrow> 'r front \<Rightarrow> grpc_outcome \<times> 'r front" where
  "grpc_infer_begin rnd call ck p req st =
     (case allow_call rnd call ck (grpc_tenant (gi_tenant_id req)) st of
        (False, st1) \<Rightarrow> (Grpc_refused (Grpc_resource_exhausted ''rate limit exceeded''), st1)
      | (True, st1) \<Rightarrow>
          (case next_id st1 of
             (rid, st2) \<Rightarrow>
               (case grpc_dispatch_begin p
                   (empty_request\<lparr>req_id := rid, tenant_id := grpc_tenant (gi_tenant_id req), payload := gi_payload req,
                      prio := grpc_priority (gi_priority req), enqueue_time := ck_steady ck,
                      deadline := grpc_deadline 5000 (gi_deadline_ms req), max_new_tokens := gi_max_new_tokens req\<rparr>) st2 of
                  (r, st3) \<Rightarrow> (Grpc_waiting r, st3))))"

text \<open>\<open>r.id\<close> is read after \<open>r\<close> was moved from; a moved-from integer keeps its value.\<close>

definition grpc_infer_end :: "request \<Rightarrow> string \<Rightarrow> grpc_infer_response \<Rightarrow> grpc_infer_response \<times> grpc_status" where
  "grpc_infer_end r result resp = (resp\<lparr>gr_result := result, gr_request_id := req_id r\<rparr>, Grpc_ok)"

fun grpc_prompt :: "grpc_chat_message list \<Rightarrow> string" where
  "grpc_prompt [] = []"
| "grpc_prompt (m # ms) = chat_message (gm_role m) (gm_content m) @ grpc_prompt ms"

definition grpc_chat_begin ::
    "(rat \<Rightarrow> rat) \<Rightarrow> 'r redis_call \<Rightarrow> clocks \<Rightarrow> promise_id \<Rightarrow> grpc_chat_request \<Rightarrow> 'r front \<Rightarrow> grpc_outcome \<times> 'r front" where
  "grpc_chat_begin rnd call ck p req st =
     (case allow_call rnd call ck (grpc_tenant (gc_tenant_id req)) st of
        (False, st1) \<Rightarrow> (Grpc_refused (Grpc_resource_exhausted ''rate limit exceeded''), st1)
      | (True, st1) \<Rightarrow>
          (case next_id st1 of
             (rid, st2) \<Rightarrow>
               (case grpc_dispatch_begin p
                   (empty_request\<lparr>req_id := rid, tenant_id := grpc_tenant (gc_tenant_id req),
                      payload := grpc_prompt (gc_messages req) @ chat_tail, prio := Normal, enqueue_time := ck_steady ck,
                      deadline := grpc_deadline 30000 (gc_deadline_ms req), max_new_tokens := gc_max_tokens req\<rparr>) st2 of
                  (r, st3) \<Rightarrow> (Grpc_waiting r, st3))))"

definition grpc_chat_end :: "grpc_chat_request \<Rightarrow> 64 word \<Rightarrow> string \<Rightarrow> grpc_chat_response \<Rightarrow> grpc_chat_response \<times> grpc_status" where
  "grpc_chat_end req rid text resp =
     (resp\<lparr>gcr_id := ''chatcmpl-grpc-'' @ to_dec (unat rid),
           gcr_model := (if gc_model req = [] then ''local-model'' else gc_model req),
           gcr_choices := gcr_choices resp @
             [\<lparr>gch_index = 0, gch_message = \<lparr>gm_role = ''assistant'', gm_content = text\<rparr>, gch_finish_reason = ''stop''\<rparr>]\<rparr>,
      Grpc_ok)"

section \<open>The server object\<close>

text \<open>
  \<open>Impl\<close> holds the running server or the null pointer when the port could not be bound.
  \<open>listening\<close> is what \<open>run\<close> waits on.
\<close>

record grpc_server =
  gs_started :: bool
  gs_listening :: bool

definition grpc_new :: "(string \<Rightarrow> bool) \<Rightarrow> string \<Rightarrow> grpc_server" where
  "grpc_new can_bind address = \<lparr>gs_started = can_bind address, gs_listening = can_bind address\<rparr>"

definition grpc_stop :: "grpc_server \<Rightarrow> grpc_server" where
  "grpc_stop g = (if gs_started g then g\<lparr>gs_listening := False\<rparr> else g)"

text \<open>Whether \<open>run\<close> blocks in this state.\<close>

definition grpc_run_blocks :: "grpc_server \<Rightarrow> bool" where
  "grpc_run_blocks g \<longleftrightarrow> gs_started g \<and> gs_listening g"

end
