(* ===== verification/Main_Program.thy ===== *)
theory Main_Program
  imports Front_Grpc Engine_Run
begin

text \<open>
  \<open>src/main.cpp\<close>: the configuration \<open>main\<close> assembles, the order in which it starts and stops
  the parts, and the signal handler. The environment and the file system are arguments.
\<close>

section \<open>Configuration\<close>

definition main_engine_config :: engine_config where
  "main_engine_config =
     default_config\<lparr>cfg_max_slots := 16, cfg_max_tokens := 256, cfg_n_threads := 4, cfg_n_gpu_layers := - 1\<rparr>"

definition main_server_config :: "(string \<Rightarrow> string option) \<Rightarrow> server_config" where
  "main_server_config getenv =
     (let c1 = (case getenv ''REDIS_URL'' of Some u \<Rightarrow> default_server_config\<lparr>sc_redis_url := u\<rparr> | None \<Rightarrow> default_server_config)
      in case getenv ''MODEL_NAME'' of Some m \<Rightarrow> c1\<lparr>sc_model_name := m\<rparr> | None \<Rightarrow> c1)"

definition main_limiter :: "(string \<Rightarrow> int \<Rightarrow> 'r option) \<Rightarrow> server_config \<Rightarrow> 'r limiter" where
  "main_limiter connect cfg = limiter_new connect (sc_rate_limit_rps cfg) (sc_rate_limit_burst cfg) (sc_redis_url cfg)"

text \<open>The exit code when there is no model, or the path to load.\<close>

definition main_model_path :: "(string \<Rightarrow> string option) \<Rightarrow> (string \<Rightarrow> bool) \<Rightarrow> int + string" where
  "main_model_path getenv exists =
     (case getenv ''MODEL_PATH'' of
        None \<Rightarrow> Inl 1
      | Some path \<Rightarrow> if exists path then Inr path else Inl 1)"

section \<open>Starting and stopping\<close>

datatype action =
    Load_engine string
  | Engine_shutdown
  | Start_grpc string
  | Grpc_stop
  | Join_grpc
  | Http_run
  | Http_stop

text \<open>The global pointers: null until \<open>main\<close> has built the object.\<close>

record globals =
  g_engine :: bool
  g_grpc_server :: bool
  g_server :: bool

definition on_signal :: "globals \<Rightarrow> action list" where
  "on_signal g =
     (if g_engine g then [Engine_shutdown] else []) @
     (if g_grpc_server g then [Grpc_stop] else []) @
     (if g_server g then [Http_stop] else [])"

text \<open>
  What \<open>main\<close> does, in order, and how the process ends; \<open>loads\<close> tells whether the constructor
  of the engine returns (it throws when the model cannot be loaded, and nothing catches it),
  and \<open>Http_run\<close> returns when the server is stopped or could not listen.
\<close>

datatype ending = Exit int | Uncaught

definition main_actions :: "(string \<Rightarrow> string option) \<Rightarrow> (string \<Rightarrow> bool) \<Rightarrow> (string \<Rightarrow> bool) \<Rightarrow> action list \<times> ending" where
  "main_actions getenv exists loads =
     (case main_model_path getenv exists of
        Inl code \<Rightarrow> ([], Exit code)
      | Inr path \<Rightarrow>
          (if loads path
           then ([Load_engine path, Start_grpc ''0.0.0.0:50051'', Http_run, Grpc_stop, Join_grpc, Engine_shutdown], Exit 0)
           else ([Load_engine path], Uncaught)))"

end
