(* ===== verification/End_To_End.thy ===== *)
theory End_To_End
  imports Front_Wire Front_Props
begin

text \<open>
  The parts together: the bytes of a \<open>POST /infer\<close> on a socket, the HTTP server, the handler, the
  batching engine shared with any other traffic, and the bytes of the response.
\<close>

text \<open>
  C1: from bytes to bytes. A client sends a well-formed \<open>POST /infer\<close> with any ordinary header
  fields and a body of the announced length, in packets of any sizes. If the limiter lets it pass
  and the engine, whatever else it serves, fulfils the promise of the submitted request, then what
  the client gets is a status line with 200, header fields with the exact length and the type of
  the body, and the JSON text of either an error message or exactly the completion the model gives
  for the payload of this body; the queue gauge is back, nothing behind the body was consumed, and
  the connection is closed exactly when the client asked for it.
\<close>

theorem infer_bytes_to_bytes:
  assumes "server_new J cfg rnd call ck p answer = Some sv"
    and "plain s" "sends s = []" "content s = infer_line @ crlf @ concat (map header_line hs) @ crlf @ b @ rest"
    and "ordinary_fields hs (length b)" "length b \<le> 100 * 1024 * 1024"
    and "infer_begin J rnd call ck p (new_request\<lparr>rq_body := b\<rparr>) new_response st = (Waiting r, st')"
    and "js_dump J (Doc_object [(''result'', Doc_string (answer r))]) = Some text"
    and "faithful_model L hist out nxt" "engine_new ecfg model init = Inr e0" "\<forall>j. hist (e_ctx e0) j = []"
    and "reach L (sys_init e0) sy" "r \<in> set (pushed sy)" "distinct (List.map_filter on_complete (pushed sy))"
    and "(p, answer r) \<in> set (fired (eng sy))"
  shows "\<exists>res s' body. process_request sv env cl s st =
      \<lparr>sd_ok = True, sd_closed = (header_value hs ''Connection'' = ''close''), sd_response = Some res, sd_stream = s',
       sd_world = dispatch_end st'\<rparr> \<and>
    content s' = rest \<and>
    outbound s' = outbound s @ write_response_line 200 @ concat (map header_line (rs_headers res)) @ crlf @ text \<and>
    equal_range (rs_headers res) ''Content-Length'' = [to_dec (length text)] \<and>
    equal_range (rs_headers res) ''Content-Type'' = [json_type] \<and>
    js_parse J b = Some body \<and> js_string J body ''payload'' [] = Some (payload r) \<and>
    (answer r \<in> error_texts \<or> answer r = completion L nxt (nat (quota (e_cfg (eng sy)) r)) (prompt_for L r))"
proof -
  have i: "infer_end J (answer r) new_response = Some (set_content text json_type new_response)"
    using assms(8) by (simp add: infer_end_def)
  from infer_answers_own_prompt [OF assms(7,9-15) i] obtain body where
    "js_parse J b = Some body" "js_string J body ''payload'' [] = Some (payload r)"
    "answer r \<in> error_texts \<or> answer r = completion L nxt (nat (quota (e_cfg (eng sy)) r)) (prompt_for L r)"
    by auto
  with infer_on_the_wire [where env = env and cl = cl, OF assms(1-8)] show ?thesis by blast
qed

text \<open>A request in three packets with the start of another behind it.\<close>

definition demo_packets :: stream where
  "demo_packets = bare_stream [Arrive (infer_line @ crlf @ ''Content-Len''), Arrive (''gth: 2'' @ crlf @ crlf @ ''{''), Arrive ''}GET'']"

lemma demo_fields: "ordinary_fields [(''Content-Length'', ''2'')] 2"
proof -
  have "to_dec 2 = ''2''" by code_simp
  moreover have "media_type [] = []" by code_simp
  ultimately show ?thesis
    by (simp add: ordinary_fields_def field_fits_def header_max_length_def header_max_count_def equal_range_def equal_ci_def
        header_value_absent is_field_name_def is_token_def is_token_char_def is_alnum_def is_field_value_def is_field_content_def
        is_field_vchar_def is_vchar_def)
qed

theorem infer_bytes_to_bytes_witness:
  "\<exists>t e' sv sd. loop_body greedy_llama \<lparr>t_admit = (\<lambda>_. 0), t_now = 0, t_end = 0\<rparr>
       (enqueue demo_infer_request greedy_engine) = Some e' \<and> fired e' = [(7, t)] \<and> (t \<in> error_texts \<or> t = ''x'') \<and>
     server_new demo_json default_server_config id no_redis demo_clocks 7 (\<lambda>_. t) = Some sv \<and>
     process_request sv \<lparr>ce_remote_addr = [], ce_boundary = [], ce_readable = False\<rparr> False demo_packets demo_front = sd \<and>
     sd_ok sd \<and> \<not> sd_closed sd \<and> content (sd_stream sd) = ''GET'' \<and> ids (sd_world sd) = 1 \<and>
     (\<exists>hs. outbound (sd_stream sd) = ''HTTP/1.1 200 OK'' @ crlf @ concat (map header_line hs) @ crlf @ t)"
proof -
  let ?tk = "\<lparr>t_admit = (\<lambda>_. 0), t_now = 0, t_end = 0\<rparr>" and ?env = "\<lparr>ce_remote_addr = [], ce_boundary = [], ce_readable = False\<rparr>"
  obtain e' where e': "loop_body greedy_llama ?tk (enqueue demo_infer_request greedy_engine) = Some e'"
    "map fst (fired e') = [7]"
    by (rule exE [OF one_token_served [OF demo_infer_request_simps(1,2), of ?tk]]) (elim conjE, rule that)
  then obtain t where t: "fired e' = [(7, t)]" by (cases "fired e'") auto
  have "0 < cfg_max_slots demo_cfg" by (simp add: demo_cfg_def)
  from reach_one_pass [OF greedy_engine_new this e'(1)] obtain sy where
    sy: "reach greedy_llama (sys_init greedy_engine) sy" "eng sy = e'" "pushed sy = [demo_infer_request]" by blast
  obtain sv where sv: "server_new demo_json default_server_config id no_redis demo_clocks 7 (\<lambda>_. t) = Some sv"
    using server_new_returns by blast
  obtain st' where b: "infer_begin demo_json id no_redis demo_clocks 7 (new_request\<lparr>rq_body := ''{}''\<rparr>)
      new_response demo_front = (Waiting demo_infer_request, st')" using demo_infer_begin by blast
  have ids: "ids st' = 1"
    using infer_begin_ids [OF b] by (simp add: demo_front_def)
  have h: "\<forall>j. fst (e_ctx greedy_engine) j = []" by (simp add: greedy_engine_def)
  have f: "demo_infer_request \<in> set (pushed sy)" "distinct (List.map_filter on_complete (pushed sy))"
    by (simp_all add: sy(3) map_filter_simps demo_infer_request_simps(3))
  have p: "(7, (\<lambda>_. t) demo_infer_request) \<in> set (fired (eng sy))" using sy(2) t by simp
  have d: "js_dump demo_json (Doc_object [(''result'', Doc_string ((\<lambda>_. t) demo_infer_request))]) = Some t"
    by (simp add: demo_json_def)
  have s: "plain demo_packets" "sends demo_packets = []" "content demo_packets =
      infer_line @ crlf @ concat (map header_line [(''Content-Length'', ''2'')]) @ crlf @ ''{}'' @ ''GET''"
    by (simp_all add: demo_packets_def bare_stream_def plain_def content_def infer_line_def header_line_def)
  have o: "ordinary_fields [(''Content-Length'', ''2'')] (length ''{}'')" using demo_fields by (simp add: numeral_2_eq_2)
  have c: "header_value [(''Content-Length'', ''2'')] ''Connection'' = []"
    by (rule header_value_absent) (simp add: equal_range_def equal_ci_def)
  have l: "write_response_line 200 = ''HTTP/1.1 200 OK'' @ crlf" by code_simp
  have "length ''{}'' \<le> 100 * 1024 * 1024" by simp
  from infer_bytes_to_bytes [where env = ?env and cl = False, OF sv s o this b d greedy_llama_faithful greedy_engine_new h sy(1) f p]
  obtain res s' where r: "process_request sv ?env False demo_packets demo_front =
      \<lparr>sd_ok = True, sd_closed = False, sd_response = Some res, sd_stream = s', sd_world = dispatch_end st'\<rparr>"
    "content s' = ''GET''" "outbound s' = outbound demo_packets @ write_response_line 200 @ concat (map header_line (rs_headers res)) @ crlf @ t"
    "t \<in> error_texts \<or> t = completion greedy_llama count_next 1 [0]"
    unfolding c by (auto simp: demo_infer_request_simps)
  have x: "t \<in> error_texts \<or> t = ''x''" using r(4)
    by (simp add: Let_def greedy_llama_def count_next_def token_text_def)
  have out: "outbound s' = ''HTTP/1.1 200 OK'' @ crlf @ concat (map header_line (rs_headers res)) @ crlf @ t"
    using r(3) by (simp add: l demo_packets_def bare_stream_def)
  show ?thesis
    using e'(1) t x sv r(1,2) out ids
    by (intro exI [of _ t] exI [of _ e'] exI [of _ sv] exI [of _ "process_request sv ?env False demo_packets demo_front"])
      (auto simp: dispatch_end_def)
qed

section \<open>Two requests on one connection\<close>

lemma demo_submits:
  assumes "allow id no_redis (ck_limiter demo_clocks) ''default'' (f_limiter st) = (True, lm)"
  shows "\<exists>r st'. infer_begin demo_json id no_redis demo_clocks 7 (new_request\<lparr>rq_body := ''{}''\<rparr>) new_response st = (Waiting r, st') \<and>
    f_limiter st' = lm"
  using assms
  by (simp add: infer_begin_def demo_json_def allow_call_def next_id_def submit_def infer_request_def dispatch_begin_def)

definition demo_request :: "recv_event list" where
  "demo_request = [Arrive (infer_line @ crlf @ ''Content-Len''), Arrive (''gth: 2'' @ crlf @ crlf @ ''{''), Arrive ''}'']"

lemma demo_request_served:
  assumes "server_new demo_json default_server_config id no_redis demo_clocks 7 (\<lambda>_. ''x'') = Some sv" "sends s = []"
    "allow id no_redis (ck_limiter demo_clocks) ''default'' (f_limiter st) = (True, lm)"
  shows "\<exists>d. process_request sv env cl (fresh_stream (s\<lparr>inbound := demo_request\<rparr>)) st = d \<and> sd_ok d \<and> \<not> sd_closed d \<and> exact d \<and>
    sends (sd_stream d) = [] \<and> f_limiter (sd_world d) = lm \<and> map rs_status (answers d) = [200]"
proof -
  let ?s = "fresh_stream (s\<lparr>inbound := demo_request\<rparr>)"
  have p: "plain ?s" "sends ?s = []" "content ?s = infer_line @ crlf @ concat (map header_line [(''Content-Length'', ''2'')]) @ crlf @ ''{}'' @ []"
    "\<not> ended ?s"
    using assms(2) by (simp_all add: plain_def content_def demo_request_def infer_line_def header_line_def ended_def)
  have o: "ordinary_fields [(''Content-Length'', ''2'')] (length ''{}'')" using demo_fields by (simp add: numeral_2_eq_2)
  have c: "header_value [(''Content-Length'', ''2'')] ''Connection'' = []"
    by (rule header_value_absent) (simp add: equal_range_def equal_ci_def)
  obtain r st' where b: "infer_begin demo_json id no_redis demo_clocks 7 (new_request\<lparr>rq_body := ''{}''\<rparr>) new_response st = (Waiting r, st')"
    "f_limiter st' = lm" using demo_submits [OF assms(3)] by blast
  have d: "js_dump demo_json (Doc_object [(''result'', Doc_string ((\<lambda>_. ''x'') r))]) = Some ''x''" by (simp add: demo_json_def)
  have "length ''{}'' \<le> 100 * 1024 * 1024" by simp
  from infer_on_the_wire [where env = env and cl = cl, OF assms(1) p(1-3) o this b(1) d]
  obtain res s' where w: "process_request sv env cl ?s st = \<lparr>sd_ok = True, sd_closed = (header_value [(''Content-Length'', ''2'')] ''Connection'' = ''close''),
      sd_response = Some res, sd_stream = s', sd_world = dispatch_end st'\<rparr>" "content s' = []" "sends s' = []" "\<not> ended s'" "rs_status res = 200"
    using p(4) by auto
  then show ?thesis using b(2) by (simp add: c exact_def answers_def dispatch_end_def)
qed

theorem requests_are_served_one_by_one_witness:
  "\<exists>sv outs s' w'. server_new demo_json default_server_config id no_redis demo_clocks 7 (\<lambda>_. ''x'') = Some sv \<and>
     process_server_socket sv \<lparr>ce_remote_addr = [], ce_boundary = [], ce_readable = False\<rparr> (replicate 2 True @ [False]) 3
       ((bare_stream [])\<lparr>inbound := concat [demo_request, demo_request] @ []\<rparr>) demo_front = (outs, s', w') \<and>
     map rs_status outs = [200, 200]"
proof -
  let ?env = "\<lparr>ce_remote_addr = [], ce_boundary = [], ce_readable = False\<rparr>"
  obtain sv where sv: "server_new demo_json default_server_config id no_redis demo_clocks 7 (\<lambda>_. ''x'') = Some sv"
    using server_new_returns by blast
  note d = allow_def demo_front_def demo_clocks_def allow_local_def take_token_def Let_def
  let ?lm1 = "\<lparr>rate_rps = 10, burst = 2, redis = None, buckets = [''default'' \<mapsto> \<lparr>tokens = 1, last_refill = 0\<rparr>]\<rparr>"
  have l1: "allow id no_redis (ck_limiter demo_clocks) ''default'' (f_limiter demo_front) = (True, ?lm1)" by (simp add: d)
  have "fst (allow id no_redis (ck_limiter demo_clocks) ''default'' ?lm1)" by (simp add: d refill_def secs_of_ns_def)
  then obtain lm2 where l2: "allow id no_redis (ck_limiter demo_clocks) ''default'' ?lm1 = (True, lm2)" by (metis prod.collapse)
  have s0: "sends (bare_stream []) = []" by (simp add: bare_stream_def)
  obtain d1 where d1: "process_request sv ?env False (fresh_stream ((bare_stream [])\<lparr>inbound := demo_request\<rparr>)) demo_front = d1"
    "sd_ok d1" "\<not> sd_closed d1" "exact d1" "sends (sd_stream d1) = []" "f_limiter (sd_world d1) = ?lm1" "map rs_status (answers d1) = [200]"
    using demo_request_served [OF sv s0 l1, of ?env False] by (elim exE conjE) (rule that; assumption)
  have l2': "allow id no_redis (ck_limiter demo_clocks) ''default'' (f_limiter (sd_world d1)) = (True, lm2)"
    unfolding d1(6) by (rule l2)
  obtain d2 where d2: "process_request sv ?env False (fresh_stream ((sd_stream d1)\<lparr>inbound := demo_request\<rparr>)) (sd_world d1) = d2"
    "sd_ok d2" "\<not> sd_closed d2" "exact d2" "map rs_status (answers d2) = [200]"
    using demo_request_served [OF sv d1(5) l2', of ?env False] by (elim exE conjE) (rule that; assumption)
  have o: "one_by_one sv ?env 3 (bare_stream []) demo_front [demo_request, demo_request] =
      Some (answers d1 @ answers d2, sd_stream d2, sd_world d2)"
    using d1(1-4) d2(1-4) by (simp add: numeral_3_eq_3)
  have "list_all (list_all event_ok) [demo_request, demo_request]" by (simp add: demo_request_def infer_line_def)
  from requests_are_served_one_by_one [OF o this, of "[False]" "[]"]
  show ?thesis using sv d1(7) d2(5) by (intro exI [of _ sv]) (simp add: numeral_2_eq_2)
qed

end
