(* ===== verification/Client_Server.thy ===== *)
theory Client_Server
  imports Http_Client_Props Http_Client_Redirect End_To_End
begin

text \<open>
  The library's client against the program's server: the bytes of a client's \<open>POST /infer\<close>, what
  the server makes of them, and what the client makes of the bytes that come back.
\<close>

section \<open>The bytes of a POST\<close>

definition post_fields :: "string \<Rightarrow> int \<Rightarrow> string \<Rightarrow> nat \<Rightarrow> headers" where
  "post_fields host port ctype n =
     [(''Content-Type'', ctype), (''Connection'', ''close''), (''Host'', make_host_and_port_string host port False),
      (''Accept'', ''*/*''), (''Accept-Encoding'', []), (''User-Agent'', ''cpp-httplib/0.45.0''), (''Content-Length'', to_dec n)]"

definition infer_post :: "string \<Rightarrow> string \<Rightarrow> client_request" where
  "infer_post b ctype = upload_request ''POST'' ''/infer'' [] (Upload_Text b) ctype"

definition post_names :: "string list" where
  "post_names = [''Content-Type'', ''Connection'', ''Host'', ''Accept'', ''Accept-Encoding'', ''User-Agent'', ''Content-Length'',
     ''Authorization'', ''Proxy-Authorization'', ''Expect'', ''Transfer-Encoding'', ''Content-Encoding'', ''Range'']"

lemma post_names_valid: "list_all (\<lambda>n. is_field_name n \<and> \<not> is_prohibited_header_name n) post_names"
  by code_simp

lemma lower_first: "to_lower_c (CHR ''C'') = CHR ''c''" "to_lower_c (CHR ''U'') = CHR ''u''" "to_lower_c (CHR ''A'') = CHR ''a''"
  "to_lower_c (CHR ''E'') = CHR ''e''" "to_lower_c (CHR ''c'') = CHR ''c''" "to_lower_c (CHR ''x'') = CHR ''x''"
  by code_simp+

lemma post_names_all_apart: "\<forall>a \<in> set post_names. \<forall>b \<in> set post_names. equal_ci a b = (a = b)"
  by (simp add: post_names_def) (simp add: equal_ci_def lower_first)

lemmas post_names_apart = post_names_all_apart [rule_format]

text \<open>Among these names a lookup is by equality.\<close>

lemma named_range:
  assumes "set (map fst hs) \<subseteq> set post_names" "k \<in> set post_names"
  shows "equal_range hs k = map snd (filter (\<lambda>h. fst h = k) hs)"
proof -
  have "equal_ci (fst h) k = (fst h = k)" if "h \<in> set hs" for h
    using post_names_apart assms that by auto
  then have "filter (\<lambda>h. equal_ci (fst h) k) hs = filter (\<lambda>h. fst h = k) hs" by (intro filter_cong) auto
  then show ?thesis by (simp add: equal_range_def)
qed

lemma named_header:
  assumes "set (map fst hs) \<subseteq> set post_names" "k \<in> set post_names"
  shows "has_header hs k \<longleftrightarrow> k \<in> set (map fst hs)"
proof -
  have "\<not> is_prohibited_header_name k" using post_names_valid assms(2) by (simp add: list_all_iff)
  then show ?thesis using named_range [OF assms] by (force simp: has_header_def filter_empty_conv)
qed

lemma named_add:
  assumes "set (map fst hs) \<subseteq> set post_names" "k \<in> set post_names"
  shows "add_missing (k, v) hs = (if k \<in> set (map fst hs) then hs else hs @ [(k, v)])"
    "is_field_value v \<Longrightarrow> set_missing k v hs = (if k \<in> set (map fst hs) then hs else hs @ [(k, v)])"
  using named_header [OF assms] post_names_valid assms(2) by (auto simp: add_missing_def set_missing_def set_header_def list_all_iff)

lemma post_values: "is_field_value ''close''" "is_field_value ''*/*''" "is_field_value []" "is_field_value ''cpp-httplib/0.45.0''"
  "is_field_value ''0''"
  by (simp_all add: is_field_value_def is_field_content_def is_field_vchar_def is_vchar_def)

lemma on_headers_twice [simp]: "on_headers f (on_headers g q) = on_headers (\<lambda>hs. f (g hs)) q"
  by (simp add: on_headers_def)

lemma on_headers_keeps [simp]: "cq_headers (on_headers f q) = f (cq_headers q)" "rq_body (cq_req (on_headers f q)) = rq_body (cq_req q)"
  "rq_method (cq_req (on_headers f q)) = rq_method (cq_req q)" "rq_path (cq_req (on_headers f q)) = rq_path (cq_req q)"
  "rq_params (cq_req (on_headers f q)) = rq_params (cq_req q)" "rq_headers (cq_req (on_headers f q)) = f (rq_headers (cq_req q))"
  "cq_provider (on_headers f q) = cq_provider q" "cq_length (on_headers f q) = cq_length q" "cq_chunked (on_headers f q) = cq_chunked q"
  by (simp_all add: on_headers_def cq_headers_def)

lemma on_headers_same: "f (cq_headers q) = g (cq_headers q) \<Longrightarrow> on_headers f q = on_headers g q"
  by (simp add: on_headers_def cq_headers_def)

lemma infer_post_simps:
  assumes "is_field_value ctype" "ctype \<noteq> []"
  shows "cq_headers (infer_post b ctype) = [(''Content-Type'', ctype)]" "rq_body (cq_req (infer_post b ctype)) = b"
    "rq_method (cq_req (infer_post b ctype)) = ''POST''" "rq_path (cq_req (infer_post b ctype)) = ''/infer''"
    "rq_params (cq_req (infer_post b ctype)) = []" "cq_provider (infer_post b ctype) = None" "cq_length (infer_post b ctype) = 0"
    "cq_chunked (infer_post b ctype) = False"
proof -
  have "is_field_name ''Content-Type''" using post_names_valid by (simp add: post_names_def)
  then show "cq_headers (infer_post b ctype) = [(''Content-Type'', ctype)]"
    using assms by (simp add: infer_post_def upload_request_def plain_request_def set_header_def on_headers_def cq_headers_def new_request_def Let_def)
qed (use assms in \<open>simp_all add: infer_post_def upload_request_def plain_request_def new_request_def Let_def\<close>)

lemma post_headers:
  assumes "is_field_value ctype" "ctype \<noteq> []" 
  shows "final_headers (client_new host port) True (infer_post b ctype) =
    on_headers (\<lambda>_. post_fields host port ctype (length b)) (infer_post b ctype)"
proof -
  let ?hp = "make_host_and_port_string host port False"
  note i = infer_post_simps [OF assms]
  define h2 where "h2 = [(''Content-Type'', ctype), (''Connection'', ''close'')]"
  define h3 where "h3 = h2 @ [(''Host'', ?hp)]"
  define h4 where "h4 = h3 @ [(''Accept'', ''*/*'')]"
  define h5 where "h5 = h4 @ [(''Accept-Encoding'', [])]"
  define h6 where "h6 = h5 @ [(''User-Agent'', ''cpp-httplib/0.45.0'')]"
  note hs = h6_def h5_def h4_def h3_def h2_def
  have a: "set_missing ''Connection'' ''close'' [(''Content-Type'', ctype)] = h2" "add_missing (''Host'', ?hp) h2 = h3"
    "add_missing (''Accept'', ''*/*'') h3 = h4" "set_missing ''Accept-Encoding'' [] h4 = h5"
    "set_missing ''User-Agent'' ''cpp-httplib/0.45.0'' h5 = h6"
    "add_missing (''Content-Length'', v) h6 = h6 @ [(''Content-Length'', v)]" for v
    by (subst named_add; simp add: post_names_def post_values hs)+
  have ct: "has_header h2 ''Content-Type''" by (subst named_header) (simp_all add: post_names_def h2_def)
  have l0: "set_header h6 ''Content-Length'' ''0'' = h6 @ [(''Content-Length'', ''0'')]"
    using post_names_valid post_values by (simp add: set_header_def post_names_def)
  have cfg: "hc_default_headers (client_new host port) = []" "hc_host (client_new host port) = host" "hc_port (client_new host port) = port"
    by (simp_all add: client_new_def)
  have pd: "prepare_default_headers (client_new host port) [] (on_headers (set_missing ''Connection'' ''close'') (infer_post b ctype)) =
      on_headers (\<lambda>_. if b = [] then h6 else h6 @ [(''Content-Length'', to_dec (length b))]) (infer_post b ctype)" for b
  proof (cases "b = []")
    case True
    then show ?thesis unfolding prepare_default_headers_def Let_def cfg on_headers_twice on_headers_keeps i fold_simps id_apply
      by (simp only: if_True simp_thms) (rule on_headers_same, simp only: i a)
  next
    case False
    then show ?thesis unfolding prepare_default_headers_def Let_def cfg on_headers_twice on_headers_keeps i fold_simps id_apply
      by (simp only: if_False if_True simp_thms on_headers_twice) (rule on_headers_same, simp only: i a)
  qed
  have au: "authorization_headers (client_new host port) hs = hs" for hs
    by (simp add: authorization_headers_def client_new_def)
  have p: "post_fields host port ctype n = h6 @ [(''Content-Length'', to_dec n)]" for n
    by (simp add: post_fields_def hs)
  let ?f = "on_headers (\<lambda>_. if b = [] then h6 else h6 @ [(''Content-Length'', to_dec (length b))]) (infer_post b ctype)"
  let ?g = "on_headers (\<lambda>_. post_fields host port ctype (length b)) (infer_post b ctype)"
  have nb: "if b = [] then ?g = on_headers (\<lambda>hs. set_header hs ''Content-Length'' ''0'') ?f else ?g = ?f"
    by (simp add: p l0 zero_text)
  have c1: "set_missing ''Connection'' ''close'' (cq_headers (infer_post b ctype)) = h2" by (simp only: i a)
  have ct': "(if \<not> has_header (cq_headers (on_headers (set_missing ''Connection'' ''close'') (infer_post b ctype))) ''Content-Type'' \<and>
      rq_body (cq_req (on_headers (set_missing ''Connection'' ''close'') (infer_post b ctype))) \<noteq> [] then ''text/plain'' else []) = []"
    using ct by (simp only: on_headers_keeps c1 simp_thms if_False)
  have m: "rq_body (cq_req ?f) = b" "cq_provider ?f = None" "rq_method (cq_req ?f) = ''POST''" by (simp_all add: i)
  have au': "on_headers (authorization_headers (client_new host port)) q = q" for q
    by (simp add: on_headers_def au)
  show ?thesis
    unfolding final_headers_def Let_def if_True ct' pd au' m using nb by (cases "b = []") simp_all
qed

lemma infer_head:
  assumes "is_field_value ctype" "ctype \<noteq> []"
  shows "\<exists>q. request_head (client_new host port) (on_headers (\<lambda>_. post_fields host port ctype (length b)) (infer_post b ctype)) =
      (infer_line @ crlf @ concat (map header_line (post_fields host port ctype (length b))) @ crlf, q) \<and>
    rq_method (cq_req q) = ''POST'' \<and> rq_path (cq_req q) = ''/infer'' \<and> rq_body (cq_req q) = b \<and> cq_provider q = None \<and>
    cq_length q = 0 \<and> cq_chunked q = False"
proof -
  have t: "target_of_path (client_new host port) ''/infer'' [] = (''/infer'', [])"
  proof -
    have "encode_path ''/infer'' = ''/infer''" by code_simp
    then show ?thesis by (simp add: target_of_path_def client_new_def infer_path_plain)
  qed
  have l: "write_request_line ''POST'' ''/infer'' = infer_line @ crlf" by (simp add: write_request_line_def infer_line_def)
  have w: "bs_buffer (snd (write_headers hs \<lparr>bs_buffer = x, bs_position = 0\<rparr>)) = x @ concat (map header_line hs) @ crlf" for hs x
    by (simp add: write_headers_buffer)
  show ?thesis
    by (simp add: request_head_def infer_post_simps [OF assms] t l w)
qed

lemma post_fields_fit:
  assumes "is_field_value ctype" "length ctype \<le> 1000" "is_field_value (make_host_and_port_string host port False)"
    "length (make_host_and_port_string host port False) \<le> 1000" "n < 1024"
  shows "list_all field_fits (post_fields host port ctype n)"
proof -
  have "list_all is_field_name post_names" using post_names_valid by (simp add: list_all_iff)
  moreover have "length (to_dec n) \<le> 1000"
  proof -
    have "length (to_dec n) \<le> 4" using assms(5)
      by (simp add: to_dec.simps [of n] to_dec.simps [of "n div 10"] to_dec.simps [of "n div 10 div 10"] to_dec.simps [of "n div 10 div 10 div 10"])
    then show ?thesis by simp
  qed
  ultimately show ?thesis using assms post_values digits_are_value [of n]
    by (simp add: post_fields_def field_fits_def header_max_length_def post_names_def)
qed

lemma post_fields_ordinary:
  assumes "is_field_value ctype" "length ctype \<le> 1000" "is_field_value (make_host_and_port_string host port False)"
    "length (make_host_and_port_string host port False) \<le> 1000" "n < 1024"
    "media_type ctype \<notin> {''multipart/form-data'', ''application/x-www-form-urlencoded''}"
  shows "ordinary_fields (post_fields host port ctype n) n" "header_value (post_fields host port ctype n) ''Connection'' = ''close''"
    "list_all (\<lambda>h. is_field_name (fst h) \<and> is_field_value (snd h)) (post_fields host port ctype n)"
proof -
  let ?h = "post_fields host port ctype n"
  have s: "set (map fst ?h) \<subseteq> set post_names" by (simp add: post_fields_def post_names_def)
  have r: "k \<in> set post_names \<Longrightarrow> equal_range ?h k = map snd (filter (\<lambda>h. fst h = k) ?h)" for k by (rule named_range [OF s])
  have e: "equal_range ?h ''Content-Length'' = [to_dec n]" "equal_range ?h ''Transfer-Encoding'' = []" "equal_range ?h ''Content-Encoding'' = []"
    "equal_range ?h ''Range'' = []" "equal_range ?h ''Expect'' = []" "equal_range ?h ''Accept'' = [''*/*'']" "equal_range ?h ''Content-Type'' = [ctype]"
    "equal_range ?h ''Connection'' = [''close'']"
    by (subst r; simp add: post_names_def post_fields_def)+
  have np: "\<not> is_prohibited_header_name ''Content-Type''" "\<not> is_prohibited_header_name ''Connection''"
    using post_names_valid by (simp_all add: post_names_def)
  have ct: "header_value ?h ''Content-Type'' = ctype"
    using np e c_str_field_value [OF assms(1)] by (simp add: header_value_def get_header_value_def)
  have f: "list_all field_fits ?h" by (rule post_fields_fit [OF assms(1-5)])
  then show "ordinary_fields ?h n" using e ct assms(6)
    by (simp add: ordinary_fields_def) (simp add: post_fields_def header_max_count_def)
  show "header_value ?h ''Connection'' = ''close''"
    using np e by (simp add: header_value_def get_header_value_def c_str_def)
  show "list_all (\<lambda>h. is_field_name (fst h) \<and> is_field_value (snd h)) ?h"
    using f by (auto simp: list_all_iff field_fits_def)
qed

section \<open>The client's side\<close>

definition infer_bytes :: "string \<Rightarrow> int \<Rightarrow> string \<Rightarrow> string \<Rightarrow> string" where
  "infer_bytes host port b ctype =
     infer_line @ crlf @ concat (map header_line (post_fields host port ctype (length b))) @ crlf @ b"

lemma infer_written:
  assumes "is_field_value ctype" "ctype \<noteq> []" "length b < 1024" "sends s = []"
    "list_all (\<lambda>h. is_field_name (fst h) \<and> is_field_value (snd h)) (post_fields host port ctype (length b))"
  shows "\<exists>q. write_request (client_new host port) True False (infer_post b ctype) Err_Success s =
      (True, Err_Success, q, s\<lparr>outbound := outbound s @ infer_bytes host port b ctype\<rparr>) \<and>
    rq_method (cq_req q) = ''POST'' \<and> rq_path (cq_req q) = ''/infer''"
proof -
  obtain q where h: "request_head (client_new host port) (on_headers (\<lambda>_. post_fields host port ctype (length b)) (infer_post b ctype)) =
      (infer_line @ crlf @ concat (map header_line (post_fields host port ctype (length b))) @ crlf, q)"
    "rq_method (cq_req q) = ''POST''" "rq_path (cq_req q) = ''/infer''" "rq_body (cq_req q) = b" "cq_provider q = None"
    "cq_length q = 0" "cq_chunked q = False"
    using infer_head [OF assms(1,2)] by blast
  let ?head = "infer_line @ crlf @ concat (map header_line (post_fields host port ctype (length b))) @ crlf"
  let ?s1 = "s\<lparr>outbound := outbound s @ ?head\<rparr>"
  have w1: "write_data ?head s = (True, ?s1)" by (rule write_data_nofail [OF assms(4)])
  have "sends ?s1 = []" using assms(4) by simp
  note w2 = write_data_nofail [OF this, of b]
  have w: "write_request_body q Err_Success ?s1 = (True, Err_Success, s\<lparr>outbound := outbound s @ infer_bytes host port b ctype\<rparr>)"
  proof (cases "b = []")
    case True
    then show ?thesis using h(4-7)
      by (simp add: write_request_body_def write_content_with_progress_def infer_bytes_def)
  next
    case False
    then show ?thesis using h(4) w2 by (simp add: write_request_body_def infer_bytes_def)
  qed
  have g: "list_all (\<lambda>h. is_field_name (fst h) \<and> is_field_value (snd h)) (cq_headers (on_headers (\<lambda>_. post_fields host port ctype (length b)) (infer_post b ctype)))"
    using assms(5) by simp
  show ?thesis unfolding write_request_def post_headers [OF assms(1,2)] Let_def h(1)
    using g w1 w h(2,3) by simp
qed

lemma answer_fields_framed:
  assumes "length text \<le> 100 * 1024 * 1024"
  shows "framed ((client_new host port)\<lparr>hc_socket := x\<rparr>) (answer_fields text) text"
    "header_value (answer_fields text) ''Connection'' = ''close''"
proof -
  let ?h = "answer_fields text"
  have s: "set (map fst ?h) \<subseteq> set post_names" by (simp add: answer_fields_def post_names_def)
  have r: "k \<in> set post_names \<Longrightarrow> equal_range ?h k = map snd (filter (\<lambda>h. fst h = k) ?h)" for k by (rule named_range [OF s])
  have e: "equal_range ?h ''Content-Length'' = [to_dec (length text)]" "equal_range ?h ''Transfer-Encoding'' = []"
    "equal_range ?h ''Content-Encoding'' = []" "equal_range ?h ''Connection'' = [''close'']"
    by (subst r; simp add: post_names_def answer_fields_def zero_text)+
  have d: "length (to_dec n) \<le> 9" if "n < 10 ^ 9" for n
  proof -
    have "n < 10 ^ k \<Longrightarrow> 0 < k \<Longrightarrow> length (to_dec n) \<le> k" for k
    proof (induction k arbitrary: n)
      case (Suc k)
      show ?case
      proof (cases "n < 10")
        case False
        then have "0 < k" using Suc.prems(1) by (cases k) auto
        moreover have "n div 10 < 10 ^ k" using Suc.prems(1) by (simp add: less_mult_imp_div_less)
        ultimately show ?thesis using Suc.IH [of "n div 10"] False by (subst to_dec.simps) simp
      qed (simp add: to_dec.simps [of n])
    qed simp
    then show ?thesis using that by simp
  qed
  have "length text < 10 ^ 9" using assms by simp
  note d = d [OF this]
  have "list_all is_field_name post_names" using post_names_valid by (simp add: list_all_iff)
  then have "list_all field_fits ?h" using d post_values digits_are_value [of "length text"] content_type_names(2)
    by (auto simp: answer_fields_def field_fits_def header_max_length_def post_names_def json_type_def)
  moreover have "length text \<le> string_max_size" using assms by (simp add: string_max_size_def)
  moreover have "length ?h \<le> header_max_count" by (simp add: answer_fields_def header_max_count_def)
  ultimately show "framed ((client_new host port)\<lparr>hc_socket := x\<rparr>) ?h text"
    using e assms by (simp add: framed_def reply_fields_def client_new_def)
  have "\<not> is_prohibited_header_name ''Connection''" using post_names_valid by (simp add: post_names_def)
  then show "header_value ?h ''Connection'' = ''close''"
    using e by (simp add: header_value_def get_header_value_def c_str_def)
qed

lemma with_path_same: "rq_path (cq_req q) = p \<Longrightarrow> with_path p q = q"
  by (cases q; cases "cq_req q") (auto simp: with_path_def)

definition one_connection :: "stream \<Rightarrow> client_net" where
  "one_connection u = \<lparr>net_connects = [Inr u], net_alive = [], net_ready = [], net_opened = [], net_closed = []\<rparr>"

lemma infer_exchange:
  assumes "is_field_value ctype" "ctype \<noteq> []" "length b < 1024" "plain (fresh_stream u)" "sends u = []"
    "list_all (\<lambda>h. is_field_name (fst h) \<and> is_field_value (snd h)) (post_fields host port ctype (length b))"
    "content (fresh_stream u) = write_response_line 200 @ concat (map header_line (answer_fields text)) @ crlf @ text"
    "length text \<le> 100 * 1024 * 1024"
  shows "\<exists>r c' v. client_post (client_new host port) (one_connection u) ''/infer'' [] b ctype =
      (r, c', \<lparr>net_connects = [], net_alive = [], net_ready = [], net_opened = [(host, port)], net_closed = [v]\<rparr>) \<and>
    cr_error r = Err_Success \<and> cr_response r = Some (response_of 200 (answer_fields text) text) \<and> hc_socket c' = None \<and>
    outbound v = outbound u @ infer_bytes host port b ctype \<and> content v = []"
proof -
  let ?c = "(client_new host port)\<lparr>hc_socket := Some u\<rparr>" and ?q = "infer_post b ctype" and ?s = "fresh_stream u"
  let ?net = "\<lparr>net_connects = [], net_alive = [], net_ready = [], net_opened = [(host, port)], net_closed = []\<rparr>"
  obtain q where w: "write_request (client_new host port) True False ?q Err_Success ?s =
      (True, Err_Success, q, ?s\<lparr>outbound := outbound ?s @ infer_bytes host port b ctype\<rparr>)" "rq_method (cq_req q) = ''POST''"
    "rq_path (cq_req q) = ''/infer''"
    using infer_written [OF assms(1-3) _ assms(6), of ?s] assms(5) by (auto simp: fresh_stream_def)
  let ?s1 = "?s\<lparr>outbound := outbound ?s @ infer_bytes host port b ctype\<rparr>"
  have s1: "plain ?s1" "content ?s1 = write_response_line (int 200) @ concat (map header_line (answer_fields text)) @ crlf @ text @ []"
    using assms(4,7) by (simp_all add: plain_def content_def)
  note fr = answer_fields_framed(2) [OF assms(8)] answer_fields_framed(1) [OF assms(8), where x = "Some u" and host = host and port = port]
  have nb: "\<not> bodiless (rq_method (cq_req q)) 200" using w(2) by (simp add: bodiless_def)
  obtain v where f: "finish_exchange ?c True False q new_client_response Err_Success ?s1 =
      \<lparr>ex_ok = True, ex_error = Err_Success, ex_request = q, ex_response = response_of 200 (answer_fields text) text, ex_stream = v\<rparr>"
    "content v = []" "same_out ?s1 v"
    using response_with_body_read [OF s1 _ _ fr(2) nb, of Err_Success] by auto
  let ?x = "\<lparr>ex_ok = True, ex_error = Err_Success, ex_request = q, ex_response = response_of 200 (answer_fields text) text, ex_stream = v\<rparr>"
  note i = infer_post_simps [OF assms(1,2), of b]
  have "''Content-Type'' \<in> set post_names" "''Expect'' \<in> set post_names" by (simp_all add: post_names_def)
  then have "header_value (cq_headers ?q) ''Expect'' = []"
    using named_range [of "cq_headers ?q" "''Expect''"] by (simp add: i header_value_absent)
  moreover have an: "announce ?q = ?q" using assms(3) by (simp add: announce_def expect_threshold_def infer_post_simps [OF assms(1,2)])
  ultimately have ex: "header_value (cq_headers ?q) ''Expect'' \<noteq> ''100-continue''" "\<not> announces ?q" by (simp_all add: announces_def)
  have cx: "client_exchange ?c True r ?q new_client_response Err_Success ?s = ?x" for r
    using w(1) f(1) an ex(1) by (simp add: client_exchange_def Let_def)
  have pp: "proxied_path ?c p = p" "with_path ''/infer'' ?q = ?q" "with_path ''/infer'' q = q" for p
    using w(3) i(4) by (simp_all add: proxied_path_def uses_proxy_def client_new_def with_path_same)
  have sc: "server_closes (response_of 200 (answer_fields text) text)" using fr(1) by (simp add: server_closes_def response_of_simps)
  have st: "rs_status (cs_res (response_of 200 (answer_fields text) text)) = 200" by (simp add: response_of_simps)
  have hr: "handle_request follow ?c ?net u ?q new_client_response True Err_Success =
      \<lparr>oc_ok = True, oc_error = Err_Success, oc_client = ?c\<lparr>hc_socket := None\<rparr>, oc_net = ?net\<lparr>net_closed := [v]\<rparr>,
       oc_request = q, oc_response = response_of 200 (answer_fields text) text\<rparr>" for follow
    unfolding handle_request_def Let_def i(4) pp(1,2) take_ready_def using ex(2) cx sc st pp(3) by (simp add: close_socket_def)
  have op: "open_connection (client_new host port) (one_connection u) Err_Success = (True, Err_Success, ?c, ?net)"
    by (simp add: open_connection_def probe_socket_def create_and_connect_socket_def client_new_def one_connection_def connect_target_def uses_proxy_def)
  have cfg: "hc_keep_alive (client_new host port) = False" "hc_default_headers (client_new host port) = []" by (simp_all add: client_new_def)
  have oh: "on_headers (\<lambda>x. x) ?q = ?q" "on_headers id ?q = ?q" by (simp_all add: on_headers_def)
  have so: "send_once follow (client_new host port) (one_connection u) ?q new_client_response Err_Success =
      \<lparr>oc_ok = True, oc_error = Err_Success, oc_client = ?c\<lparr>hc_socket := None\<rparr>, oc_net = ?net\<lparr>net_closed := [v]\<rparr>,
       oc_request = q, oc_response = response_of 200 (answer_fields text) text\<rparr>" for follow
    using op hr by (simp add: send_once_def cfg oh leave_send_def close_socket_def)
  have "client_send n (client_new host port) (one_connection u) ?q new_client_response Err_Success =
      \<lparr>oc_ok = True, oc_error = Err_Success, oc_client = ?c\<lparr>hc_socket := None\<rparr>, oc_net = ?net\<lparr>net_closed := [v]\<rparr>,
       oc_request = q, oc_response = response_of 200 (answer_fields text) text\<rparr>" for n
    using so by (cases n) simp_all
  then show ?thesis using f(2,3)
    by (simp add: client_post_def client_upload_def infer_post_def [symmetric] send_request_def result_of_def same_out_def fresh_stream_def)
qed

section \<open>Both sides\<close>

text \<open>What the client may be given: a host, a media type and a body that need nothing special.\<close>

definition plain_call_ok :: "string \<Rightarrow> int \<Rightarrow> string \<Rightarrow> string \<Rightarrow> bool" where
  "plain_call_ok host port b ctype \<longleftrightarrow>
     is_field_value ctype \<and> ctype \<noteq> [] \<and> length ctype \<le> 1000 \<and> length b < 1024 \<and>
     is_field_value (make_host_and_port_string host port False) \<and> length (make_host_and_port_string host port False) \<le> 1000 \<and>
     media_type ctype \<notin> {''multipart/form-data'', ''application/x-www-form-urlencoded''}"


definition delivering :: "string \<Rightarrow> stream" where
  "delivering d = bare_stream (if d = [] then [] else [Arrive d])"

lemma delivering_simps: "plain (delivering d)" "sends (delivering d) = []" "outbound (delivering d) = []" "content (delivering d) = d"
  "fresh_stream (delivering d) = delivering d"
  by (simp_all add: delivering_def bare_stream_def plain_def content_def fresh_stream_def)


end
