(* ===== verification/Spec2Isabelle.thy ===== *)
theory Spec2Isabelle
  imports Engine_Shutdown Engine_Refine Rate_Props Http_Utf8 Http_Body_Props Http_Multipart_Props Http_Path
    Listener_Props Client_Server
begin

text \<open>
  Verification library of the adaptive multi-tenant inference server: an HTTP and a gRPC front
  end, a rate limiter and a continuous batching engine around the llama library, and the HTTP
  library \<open>httplib.h\<close> that the repository carries in its own tree.

  \<^bold>\<open>How the program works.\<close> A front end reads a request, asks the rate limiter about its tenant
  and hands a \<open>Request\<close> with a promise to the engine; its thread then waits for the promise. The
  engine thread drains the pending queue into free KV slots, builds one batch per pass, decodes
  it, samples one token per sequence and fulfils the promises of finished requests.

  \<^bold>\<open>The theories and the code.\<close>
  \<^item> \<open>Prelude\<close>: lists, maps, decimal texts and bounded numbers; \<open>Fp64\<close>: rounding to doubles.
  \<^item> \<open>Requests\<close> (\<open>request.h\<close>), \<open>Kv_Slots\<close> (\<open>kv_slot_manager\<close>: slots as a list of records,
    \<open>acquire\<close>, \<open>release\<close>), \<open>Metrics\<close> (\<open>metrics\<close>: the registered series, the calls as a trace).
  \<^item> \<open>Engine\<close> and \<open>Engine_Run\<close> (\<open>continuous_batch_engine\<close>): the engine state is a record with the
    queue, the slots, the cells, the samplers and the fired callbacks; \<open>enqueue\<close>, \<open>admit_all\<close>,
    \<open>decode_step\<close> and \<open>loop_body\<close> are the member functions, \<open>sys_step\<close> interleaves the engine
    thread, callers of \<open>enqueue\<close> and \<open>shutdown\<close>, and the condition variable.
    The proofs are in \<open>Engine_Cells\<close>, \<open>Engine_Batch\<close>, \<open>Engine_Steps\<close>, \<open>Engine_Inv\<close>,
    \<open>Engine_Loop\<close>, \<open>Engine_Props\<close>, \<open>Engine_Shutdown\<close> and \<open>Engine_Refine\<close>.
  \<^item> \<open>Rate_Limiter\<close> and \<open>Rate_Props\<close> (\<open>rate_limiter\<close>): buckets in memory, the Lua script as a
    function on a key's fields, the Redis path with its fallback, the address parser.
  \<^item> \<open>Http_Text\<close> to \<open>Http_Body\<close> (\<open>httplib.h\<close>): trimming and splitting, numbers, status texts, UTF-8,
    the buffered socket stream with its partial sends and errors, the line reader, header maps,
    the grammar of fields, chunked and length-delimited bodies. A stream is a record of what will
    still arrive, what was sent and the read buffer.
  \<^item> \<open>Http_Message\<close>, \<open>Http_Query\<close>, \<open>Http_Path\<close>, \<open>Http_Content\<close>, \<open>Http_Range\<close>, \<open>Http_Multipart\<close>:
    requests and responses as records, percent codecs and query texts, path checks, media types
    and quality values, byte ranges, the incremental form parser.
  \<^item> \<open>Http_Route\<close>, \<open>Http_Server\<close>, \<open>Http_Serve\<close>: matchers and registration, the request line,
    reading the content, dispatch, writing a response, \<open>process_request\<close> and the loop over the
    requests of a connection. A handler is a function on the state of the program around it.
    \<open>Http_Frame\<close> and \<open>Http_Connection\<close> show that this code looks no further ahead than it must.
  \<^item> \<open>Thread_Pool\<close>, \<open>Thread_Pool_Props\<close> (\<open>httplib.h\<close>, class \<open>ThreadPool\<close>): the pool the connections run on,
    its critical sections as functions and its threads as the step relation \<open>pool_step\<close>;
    \<open>Step_Systems\<close> is the contract of systems whose runs end. \<open>Listener\<close>, \<open>Listener_Props\<close>: binding, the
    accept loop and \<open>stop\<close>, stepping together with the pool.
  \<^item> \<open>Ws_Digest\<close>, \<open>Ws_Frame\<close>, \<open>Ws_Socket\<close>, \<open>Ws_Handshake\<close> (\<open>httplib.h\<close>): the library's WebSocket, which
    the program does not use: base64 and SHA-1 on words, frames, an endpoint and the handshake.
  \<^item> \<open>Http_Client\<close> (\<open>httplib.h\<close>, class \<open>ClientImpl\<close>, which the tests use): writing a request and reading its response
    on a stream, connections as an explicit network that is told what each attempt gives, and \<open>send\<close> by
    recursion on the redirects left, at most 20. \<open>Http_Client_Props\<close> and \<open>Http_Client_Redirect\<close> hold its theorems.
  \<^item> \<open>Front_Http\<close> and \<open>Front_Server\<close> (\<open>server.cpp\<close>): the handlers up to and after the wait, as
    functions on the ids, the limiter and the metric calls, and their registration with the
    library's server. \<open>Front_Grpc\<close> (\<open>grpc_server.cpp\<close>), \<open>Main_Program\<close> (\<open>main.cpp\<close>).
  \<^item> \<open>Front_Wire\<close> follows one \<open>POST /infer\<close> through all layers of the library; \<open>End_To_End\<close> joins it to the
    engine, \<open>Client_Server\<close> to the library's own client.

  \<^bold>\<open>What the lemmas show.\<close> The engine never leaves defined behaviour and conserves its callbacks
  (rule induction over \<open>sys_step\<close>); under the documented behaviour of the model library, batching
  is transparent (a simulation with one generation per request); left alone it drains. The
  limiter's bound holds for the exact arithmetic and its buckets stay within bounds for the
  rounded one. What the HTTP layer writes it reads back, independently of fragmentation; and what
  arrives after a request does not change how it is served; parsers
  are equal to declarative references; limits and lengths are kept; every request is answered.
  For the whole program: only accepted inference requests change its state, the status codes
  are those listed, and the bytes a client of \<open>/infer\<close> gets back are a response with the
  completion of its own prompt, which the library's client returns to its caller. That client reads
  back what such a server writes, loses no connection whatever it is answered, and keeps its credentials from
  other hosts.

  \<^bold>\<open>Interfaces.\<close> The locale \<open>rounding\<close> is what the limiter needs of double arithmetic, interpreted on
  the rounding to 64-bit doubles and on exact arithmetic; \<open>keyed_limiter\<close> is what a limiter
  promises its callers, interpreted on the buckets in memory and on the Redis script; \<open>slot_pool\<close>
  is what the engine relies on in the slot manager; \<open>ranked_steps\<close> is interpreted on the thread pool
  that is shutting down; \<open>appending_receiver\<close> is what reading a body needs of its receiver, interpreted on the server's
  and the client's; \<open>socket_keeper\<close> is what a client promises about connections, interpreted on \<open>client_send\<close>. The llama library, the JSON library and a Redis
  round trip are records of functions or functions the definitions take; \<open>faithful_model\<close> states
  the documented behaviour of the first where a theorem needs it.

  \<^bold>\<open>Loops and bounds.\<close> Loops are structural recursions or have a termination proof; the few that
  depend on the network (chunks, lines) recurse on what is still to arrive. Sizes are natural
  numbers with the 64-bit limits written out where the code depends on them; statuses, ranges and
  engine counters are integers.

  \<^bold>\<open>Not modelled.\<close> TLS and server-sent events, the client's callbacks, multipart uploads and streaming, compression,
  memory-mapped files, address lookup and sockets below \<open>accept\<close>, \<open>recv\<close> and \<open>send\<close>
  (not used by the program, compiled out, or system calls); regular-expression routes beyond
  literal patterns; hooks and loggers the program never sets; logging; the expiry of Redis keys
  after a day; the code generated from \<open>inference.proto\<close>; tests and deployment files.
\<close>

end
